(* ===== verification/Prelude.thy ===== *)
theory Prelude imports Main "HOL-Library.Word" begin

text \<open>
  What every component shares: the machine integers of the source at their width, the error
  values (an OS error, an \<open>anyhow\<close> chain of causes, a panic), the result type with its
  bind, slices of byte buffers, and the generic lemmas on lists and words that the component
  proofs rest on. The arithmetic is that of a release build: \<open>+\<close>, \<open>-\<close> and \<open>*\<close>
  on the unsigned types wrap, while a slice or an index out of range, a failed \<open>expect\<close>
  and a failed \<open>assert!\<close> panic.
\<close>

unbundle bit_operations_syntax

section \<open>Machine integers\<close>

type_synonym u8 = "8 word"
type_synonym u16 = "16 word"
type_synonym u32 = "32 word"
type_synonym u64 = "64 word"
type_synonym i32 = "32 word"
type_synonym i64 = "64 word"
type_synonym i128 = "128 word"
type_synonym u128 = "128 word"

definition saturating_sub :: "u64 \<Rightarrow> u64 \<Rightarrow> u64" where
  "saturating_sub a b = (if b \<le> a then a - b else 0)"

definition saturating_mul :: "u64 \<Rightarrow> u64 \<Rightarrow> u64" where
  "saturating_mul a b = (if unat a * unat b < 2 ^ 64 then a * b else - 1)"

lemma unat_saturating_sub: "unat (saturating_sub a b) = unat a - unat b"
  by (auto simp: saturating_sub_def unat_sub word_le_nat_alt)

section \<open>Errors and results\<close>

text \<open>
  A raw OS error number, \<open>std::io::Error\<close> with the two kinds the source tests, and the
  chain of causes an \<open>anyhow::Error\<close> carries, outermost first. A
  \<open>rustix::io::Errno\<close> and a \<open>std::io::Error\<close> are different Rust types, so a
  \<open>downcast_ref\<close> tells them apart.
\<close>

type_synonym errno = "32 word"

definition ENOENT :: errno where "ENOENT = 2"
definition EPERM :: errno where "EPERM = 1"
definition EAGAIN :: errno where "EAGAIN = 11"
definition EACCES :: errno where "EACCES = 13"
definition EINVAL :: errno where "EINVAL = 22"
definition ENOTTY :: errno where "ENOTTY = 25"
definition ETXTBSY :: errno where "ETXTBSY = 26"
definition ENOSYS :: errno where "ENOSYS = 38"
definition EOPNOTSUPP :: errno where "EOPNOTSUPP = 95"

lemmas errno_defs = ENOENT_def EPERM_def EAGAIN_def EACCES_def EINVAL_def ENOTTY_def
  ETXTBSY_def ENOSYS_def EOPNOTSUPP_def

datatype io_kind = NotFound | UnexpectedEof | OtherKind

datatype io_error = OsError errno | SimpleIo io_kind

fun error_kind :: "io_error \<Rightarrow> io_kind" where
  "error_kind (OsError e) = (if e = ENOENT then NotFound else OtherKind)"
| "error_kind (SimpleIo k) = k"

fun raw_os_error :: "io_error \<Rightarrow> errno option" where
  "raw_os_error (OsError e) = Some e"
| "raw_os_error (SimpleIo k) = None"

datatype cause = IoCause io_error | ErrnoCause errno | Message string

type_synonym anyhow = "cause list"

text \<open>A function that can fail returns \<open>Inl\<close> of a fault: an error value or a panic.\<close>

datatype fault = Panic | Fail anyhow

type_synonym 'a res = "fault + 'a"

named_theorems res_simps \<open>how results, binds and folds over results unfold\<close>

definition rbind :: "'a res \<Rightarrow> ('a \<Rightarrow> 'b res) \<Rightarrow> 'b res" where
  "rbind m f = (case m of Inl e \<Rightarrow> Inl e | Inr x \<Rightarrow> f x)"

definition expect :: "'a option \<Rightarrow> 'a res" where
  "expect x = (case x of None \<Rightarrow> Inl Panic | Some y \<Rightarrow> Inr y)"

definition assert_that :: "bool \<Rightarrow> unit res" where
  "assert_that b = (if b then Inr () else Inl Panic)"

definition from_io :: "io_error + 'a \<Rightarrow> 'a res" where
  "from_io r = (case r of Inl e \<Rightarrow> Inl (Fail [IoCause e]) | Inr x \<Rightarrow> Inr x)"

definition from_errno :: "errno + 'a \<Rightarrow> 'a res" where
  "from_errno r = (case r of Inl e \<Rightarrow> Inl (Fail [ErrnoCause e]) | Inr x \<Rightarrow> Inr x)"

definition from_anyhow :: "anyhow + 'a \<Rightarrow> 'a res" where
  "from_anyhow r = (case r of Inl e \<Rightarrow> Inl (Fail e) | Inr x \<Rightarrow> Inr x)"

definition with_context :: "string \<Rightarrow> 'a res \<Rightarrow> 'a res" where
  "with_context msg r = (case r of
      Inl (Fail e) \<Rightarrow> Inl (Fail (Message msg # e)) | Inl Panic \<Rightarrow> Inl Panic | Inr x \<Rightarrow> Inr x)"

lemma rbind_simps [simp]:
  "rbind (Inl e) f = Inl e"
  "rbind (Inr x) f = f x"
  by (simp_all add: rbind_def)

lemma rbind_eq_Inr [res_simps]: "rbind m f = Inr y \<longleftrightarrow> (\<exists>x. m = Inr x \<and> f x = Inr y)"
  by (cases m) auto

lemma rbind_eq_Inl [res_simps]:
  "rbind m f = Inl e \<longleftrightarrow> m = Inl e \<or> (\<exists>x. m = Inr x \<and> f x = Inl e)"
  by (cases m) auto

lemma rbind_cong [fundef_cong]:
  "m = m' \<Longrightarrow> (\<And>x. m' = Inr x \<Longrightarrow> f x = f' x) \<Longrightarrow> rbind m f = rbind m' f'"
  by (cases m') auto

lemma rbind_assoc: "rbind (rbind m f) g = rbind m (\<lambda>x. rbind (f x) g)"
  by (cases m) auto

lemma expect_simps [simp]: "expect None = Inl Panic" "expect (Some y) = Inr y"
  by (simp_all add: expect_def)

lemma expect_eq_Inr [res_simps]: "expect x = Inr y \<longleftrightarrow> x = Some y"
  by (cases x) auto

lemma assert_that_simps [simp]:
  "assert_that True = Inr ()" "assert_that False = Inl Panic"
  by (simp_all add: assert_that_def)

lemma assert_that_eq_Inr [res_simps]: "assert_that b = Inr u \<longleftrightarrow> b"
  by (cases b) auto

lemma from_simps [simp]:
  "from_io (Inl i) = Inl (Fail [IoCause i])" "from_io (Inr x) = Inr x"
  "from_errno (Inl e) = Inl (Fail [ErrnoCause e])" "from_errno (Inr x) = Inr x"
  "from_anyhow (Inl c) = Inl (Fail c)" "from_anyhow (Inr x) = Inr x"
  by (simp_all add: from_io_def from_errno_def from_anyhow_def)

lemma from_eq_Inr [res_simps]:
  "from_io r = Inr x \<longleftrightarrow> r = Inr x"
  "from_anyhow s = Inr x \<longleftrightarrow> s = Inr x"
  "from_errno t = Inr x \<longleftrightarrow> t = Inr x"
  by (cases r; cases s; cases t; simp)+

lemma with_context_simps [simp]:
  "with_context m (Inr x) = Inr x"
  "with_context m (Inl Panic) = Inl Panic"
  "with_context m (Inl (Fail e)) = Inl (Fail (Message m # e))"
  by (simp_all add: with_context_def)

lemma with_context_eq_Inr [res_simps]: "with_context m r = Inr x \<longleftrightarrow> r = Inr x"
  by (auto simp: with_context_def split: sum.splits fault.splits)

section \<open>Loops whose body can fail\<close>

fun fold_res :: "('a \<Rightarrow> 's \<Rightarrow> 's res) \<Rightarrow> 'a list \<Rightarrow> 's \<Rightarrow> 's res" where
  "fold_res f [] s = Inr s"
| "fold_res f (x # xs) s = rbind (f x s) (fold_res f xs)"

fun map_res :: "('a \<Rightarrow> 'b res) \<Rightarrow> 'a list \<Rightarrow> 'b list res" where
  "map_res f [] = Inr []"
| "map_res f (x # xs) = rbind (f x) (\<lambda>y. rbind (map_res f xs) (\<lambda>ys. Inr (y # ys)))"

fun all_res :: "('a \<Rightarrow> bool res) \<Rightarrow> 'a list \<Rightarrow> bool res" where
  "all_res p [] = Inr True"
| "all_res p (x # xs) = rbind (p x) (\<lambda>b. if b then all_res p xs else Inr False)"

lemma fold_res_append: "fold_res f (xs @ ys) s = rbind (fold_res f xs s) (fold_res f ys)"
  by (induction xs arbitrary: s) (auto simp: rbind_assoc intro!: rbind_cong)

lemma rbind_Inr [simp]: "rbind m Inr = m"
  by (cases m) auto

lemma fold_res_snoc: "fold_res f (xs @ [x]) s = rbind (fold_res f xs s) (f x)"
  by (cases "fold_res f xs s") (auto simp: fold_res_append cong: rbind_cong)

lemma fold_res_Inr:
  "(\<And>x s. x \<in> set xs \<Longrightarrow> P s \<Longrightarrow> f x s = Inr (g x s) \<and> P (g x s)) \<Longrightarrow> P s \<Longrightarrow>
   fold_res f xs s = Inr (fold g xs s) \<and> P (fold g xs s)"
  by (induction xs arbitrary: s) auto

lemma fold_res_invariant:
  "(\<And>x s s'. x \<in> set xs \<Longrightarrow> P s \<Longrightarrow> f x s = Inr s' \<Longrightarrow> P s') \<Longrightarrow> P s \<Longrightarrow>
   fold_res f xs s = Inr s' \<Longrightarrow> P s'"
proof (induction xs arbitrary: s)
  case Nil
  then show ?case by simp
next
  case (Cons x xs)
  from Cons.prems(3) obtain t where t: "f x s = Inr t" "fold_res f xs t = Inr s'"
    by (auto simp: res_simps)
  have "P t" using Cons.prems(1,2) t(1) by auto
  then show ?case using Cons.IH [of t] Cons.prems(1) t(2) by auto
qed

lemma fold_res_cong:
  "(\<And>x s. x \<in> set xs \<Longrightarrow> f x s = g x s) \<Longrightarrow> fold_res f xs s = fold_res g xs s"
  by (induction xs arbitrary: s) (auto intro!: rbind_cong)

lemma fold_res_map: "fold_res f (map g xs) s = fold_res (\<lambda>x. f (g x)) xs s"
  by (induction xs arbitrary: s) (auto intro!: rbind_cong)

lemma fold_res_filter:
  "fold_res f (filter p xs) s = fold_res (\<lambda>x s. if p x then f x s else Inr s) xs s"
  by (induction xs arbitrary: s) (auto intro!: rbind_cong)

lemma fold_res_concat: "fold_res f (concat xss) s = fold_res (fold_res f) xss s"
  by (induction xss arbitrary: s) (auto simp: fold_res_append intro!: rbind_cong)

lemma all_res_Inr:
  "(\<And>x. x \<in> set xs \<Longrightarrow> p x = Inr (q x)) \<Longrightarrow> all_res p xs = Inr (list_all q xs)"
  by (induction xs) auto

lemma map_res_Inr:
  "(\<And>x. x \<in> set xs \<Longrightarrow> f x = Inr (g x)) \<Longrightarrow> map_res f xs = Inr (map g xs)"
  by (induction xs) auto

section \<open>Buffers\<close>

text \<open>
  \<open>&buf[off..off + len]\<close> and \<open>copy_from_slice\<close> into it panic when the range does
  not fit; an index panics out of range.
\<close>

definition slice_of :: "nat \<Rightarrow> nat \<Rightarrow> 'a list \<Rightarrow> 'a list" where
  "slice_of off len xs = take len (drop off xs)"

definition overwrite :: "nat \<Rightarrow> 'a list \<Rightarrow> 'a list \<Rightarrow> 'a list" where
  "overwrite off ys xs = take off xs @ ys @ drop (off + length ys) xs"

definition copy_at :: "nat \<Rightarrow> 'a list \<Rightarrow> 'a list \<Rightarrow> 'a list res" where
  "copy_at off ys xs =
     (if off + length ys \<le> length xs then Inr (overwrite off ys xs) else Inl Panic)"

definition index_res :: "'a list \<Rightarrow> nat \<Rightarrow> 'a res" where
  "index_res xs i = (if i < length xs then Inr (xs ! i) else Inl Panic)"

text \<open>\<open>&buf[from..upto]\<close>, with the two bounds written as in the source.\<close>

definition slice_res :: "nat \<Rightarrow> nat \<Rightarrow> 'a list \<Rightarrow> 'a list res" where
  "slice_res a b xs =
     (if a \<le> b \<and> b \<le> length xs then Inr (slice_of a (b - a) xs) else Inl Panic)"

lemma slice_res_Inr [res_simps]:
  "slice_res a b xs = Inr ys \<longleftrightarrow> a \<le> b \<and> b \<le> length xs \<and> ys = slice_of a (b - a) xs"
  by (auto simp: slice_res_def)

lemma index_res_Inr [res_simps]: "index_res xs i = Inr x \<longleftrightarrow> i < length xs \<and> x = xs ! i"
  by (auto simp: index_res_def)

lemma length_overwrite [simp]:
  "off + length ys \<le> length xs \<Longrightarrow> length (overwrite off ys xs) = length xs"
  by (simp add: overwrite_def)

lemma length_slice_of [simp]: "length (slice_of off len xs) = min len (length xs - off)"
  by (simp add: slice_of_def)

lemma overwrite_same:
  assumes "slice_of off (length ys) xs = ys"
  shows "overwrite off ys xs = xs"
proof -
  have "take off xs @ take (length ys) (drop off xs) @ drop (length ys) (drop off xs) = xs"
    by (simp del: drop_drop)
  then show ?thesis
    using assms by (simp add: overwrite_def slice_of_def add.commute)
qed

lemma overwrite_slice [simp]:
  "off + len \<le> length xs \<Longrightarrow> overwrite off (slice_of off len xs) xs = xs"
  by (rule overwrite_same) (simp add: slice_of_def min_absorb1)

lemma slice_prefix: "m \<le> n \<Longrightarrow> slice_of off m xs = take m (slice_of off n xs)"
  by (simp add: slice_of_def min_absorb1)

text \<open>\<open>chunks_exact(n)\<close>: the full pieces of \<open>n\<close> elements; a remainder is dropped.\<close>

function chunks_exact :: "nat \<Rightarrow> 'a list \<Rightarrow> 'a list list" where
  "chunks_exact n xs =
     (if n = 0 \<or> length xs < n then [] else take n xs # chunks_exact n (drop n xs))"
  by pat_completeness auto
termination
  by (relation "measure (\<lambda>(n, xs). length xs)") auto

declare chunks_exact.simps [simp del]

lemma chunks_exact_length: "xs' \<in> set (chunks_exact n xs) \<Longrightarrow> length xs' = n"
proof (induction n xs rule: chunks_exact.induct)
  case (1 n xs)
  then show ?case by (subst (asm) (2) chunks_exact.simps) (auto split: if_splits)
qed

lemma chunks_exact_concat:
  "0 < n \<Longrightarrow> (\<And>x. x \<in> set xss \<Longrightarrow> length x = n) \<Longrightarrow> chunks_exact n (concat xss) = xss"
proof (induction xss)
  case Nil
  then show ?case by (simp add: chunks_exact.simps)
next
  case (Cons x xss)
  then show ?case by (subst chunks_exact.simps) simp
qed

lemma concat_chunks_exact: "0 < n \<Longrightarrow> n dvd length xs \<Longrightarrow> concat (chunks_exact n xs) = xs"
proof (induction n xs rule: chunks_exact.induct)
  case (1 n xs)
  show ?case
  proof (cases "length xs < n")
    case True
    with 1 have "xs = []" by (auto dest: dvd_imp_le)
    then show ?thesis using 1 by (simp add: chunks_exact.simps)
  next
    case False
    then have "concat (chunks_exact n (drop n xs)) = drop n xs"
      using 1 by auto
    then show ?thesis using False 1(2) by (subst chunks_exact.simps) simp
  qed
qed

section \<open>Words\<close>

lemma unat_and_le: "unat (a AND b) \<le> unat (b :: 'a::len word)"
  by (metis word_and_le1 word_le_nat_alt)

lemma unat_ucast_up:
  assumes "LENGTH('a) \<le> LENGTH('b)"
  shows "unat (ucast (x :: 'a::len word) :: 'b::len word) = unat x"
proof -
  have "unat x < 2 ^ LENGTH('b)"
    using unsigned_less [of x, where ?'a = nat] assms
    by (meson order_less_le_trans one_le_numeral power_increasing)
  then show ?thesis
    by (simp add: unsigned_ucast_eq take_bit_nat_eq_self)
qed

end
