(* ===== verification/StdPath.thy ===== *)
theory StdPath imports Prelude "HOL-Library.Sublist" "HOL-Library.List_Lexorder" begin

text \<open>
  The part of \<open>std::path\<close> that the source uses. Rust compares, hashes and orders a
  \<open>Path\<close> by its components, so a path is the list of its components; \<open>as_os_str\<close> and
  \<open>components\<close> go to and from its bytes. \<open>Path::starts_with\<close> is the list prefix.
\<close>

datatype comp = RootDir | CurDir | ParentDir | Normal "u8 list"

type_synonym path = "comp list"

definition SLASH :: u8 where "SLASH = 47"
definition DOT :: u8 where "DOT = 46"

definition bytes :: "string \<Rightarrow> u8 list" where
  "bytes s = map of_char s"

fun split_on :: "'a \<Rightarrow> 'a list \<Rightarrow> 'a list list" where
  "split_on c [] = [[]]"
| "split_on c (x # xs) =
     (if x = c then [] # split_on c xs
      else case split_on c xs of [] \<Rightarrow> [[x]] | y # ys \<Rightarrow> (x # y) # ys)"

fun join_with :: "'a \<Rightarrow> 'a list list \<Rightarrow> 'a list" where
  "join_with c [] = []"
| "join_with c [x] = x"
| "join_with c (x # y # ys) = x @ c # join_with c (y # ys)"

text \<open>A component inside a path: empty pieces and \<open>.\<close> vanish.\<close>

definition comp_of :: "u8 list \<Rightarrow> comp option" where
  "comp_of b = (if b = [] \<or> b = [DOT] then None
                else if b = [DOT, DOT] then Some ParentDir else Some (Normal b))"

definition components :: "u8 list \<Rightarrow> path" where
  "components bs =
     (case bs of
        [] \<Rightarrow> []
      | b # bs' \<Rightarrow>
          if b = SLASH then RootDir # List.map_filter comp_of (split_on SLASH bs')
          else if hd (split_on SLASH bs) = [DOT]
          then CurDir # List.map_filter comp_of (tl (split_on SLASH bs))
          else List.map_filter comp_of (split_on SLASH bs))"

fun comp_bytes :: "comp \<Rightarrow> u8 list" where
  "comp_bytes RootDir = [SLASH]"
| "comp_bytes CurDir = [DOT]"
| "comp_bytes ParentDir = [DOT, DOT]"
| "comp_bytes (Normal n) = n"

definition as_os_str :: "path \<Rightarrow> u8 list" where
  "as_os_str p = (case p of
     RootDir # cs \<Rightarrow> SLASH # join_with SLASH (map comp_bytes cs)
   | cs \<Rightarrow> join_with SLASH (map comp_bytes cs))"

definition path_parent :: "path \<Rightarrow> path option" where
  "path_parent p = (if p = [] \<or> last p = RootDir then None else Some (butlast p))"

definition path_file_name :: "path \<Rightarrow> u8 list option" where
  "path_file_name p =
     (if p = [] then None else case last p of Normal n \<Rightarrow> Some n | _ \<Rightarrow> None)"

text \<open>\<open>PathBuf::push\<close>: an absolute path replaces, a relative one is appended.\<close>

definition path_push :: "path \<Rightarrow> u8 list \<Rightarrow> path" where
  "path_push p bs =
     (if p = [] \<or> (bs \<noteq> [] \<and> hd bs = SLASH) then components bs
      else p @ List.map_filter comp_of (split_on SLASH bs))"

definition starts_with :: "path \<Rightarrow> path \<Rightarrow> bool" where
  "starts_with p base \<longleftrightarrow> prefix base p"

section \<open>Paths the file system can hand out\<close>

definition name_ok :: "u8 list \<Rightarrow> bool" where
  "name_ok n \<longleftrightarrow> n \<noteq> [] \<and> SLASH \<notin> set n \<and> n \<noteq> [DOT] \<and> n \<noteq> [DOT, DOT]"

fun inner_ok :: "comp \<Rightarrow> bool" where
  "inner_ok RootDir = False"
| "inner_ok CurDir = False"
| "inner_ok ParentDir = True"
| "inner_ok (Normal n) = name_ok n"

definition path_wf :: "path \<Rightarrow> bool" where
  "path_wf p = (case p of [] \<Rightarrow> True
     | c # cs \<Rightarrow> (c = RootDir \<or> c = CurDir \<or> inner_ok c) \<and> list_all inner_ok cs)"

lemma split_on_no_sep: "c \<notin> set xs \<Longrightarrow> split_on c xs = [xs]"
  by (induction xs) auto

lemma split_on_nonempty [simp]: "split_on c xs \<noteq> []"
  by (cases xs) (auto split: list.splits)

lemma split_on_append: "c \<notin> set xs \<Longrightarrow> split_on c (xs @ c # ys) = xs # split_on c ys"
  by (induction xs) auto

lemma split_on_join:
  "xss \<noteq> [] \<Longrightarrow> (\<And>x. x \<in> set xss \<Longrightarrow> c \<notin> set x) \<Longrightarrow> split_on c (join_with c xss) = xss"
  by (induction c xss rule: join_with.induct) (auto simp: split_on_no_sep split_on_append)

lemma slash_dot [simp]: "SLASH \<noteq> DOT" "DOT \<noteq> SLASH"
  by (simp_all add: SLASH_def DOT_def)

lemma inner_ok_bytes:
  assumes "inner_ok c"
  shows "SLASH \<notin> set (comp_bytes c)" "comp_bytes c \<noteq> []" "comp_bytes c \<noteq> [DOT]"
    "comp_of (comp_bytes c) = Some c"
  using assms by (cases c; auto simp: name_ok_def comp_of_def)+

lemma map_filter_comp_bytes:
  "list_all inner_ok cs \<Longrightarrow> List.map_filter comp_of (map comp_bytes cs) = cs"
  by (induction cs) (auto simp: inner_ok_bytes)

lemma join_bytes:
  assumes "list_all inner_ok cs"
  shows "List.map_filter comp_of (split_on SLASH (join_with SLASH (map comp_bytes cs))) = cs"
proof (cases "cs = []")
  case True
  then show ?thesis by (simp add: comp_of_def)
next
  case False
  then have "split_on SLASH (join_with SLASH (map comp_bytes cs)) = map comp_bytes cs"
    using assms by (intro split_on_join) (auto simp: list_all_iff dest: inner_ok_bytes)
  then show ?thesis using assms by (simp add: map_filter_comp_bytes)
qed

lemma components_relative:
  assumes "list_all inner_ok (c # cs) \<or> (c = CurDir \<and> list_all inner_ok cs)"
  shows "components (join_with SLASH (map comp_bytes (c # cs))) = c # cs"
proof -
  let ?b = "join_with SLASH (map comp_bytes (c # cs))"
  have c: "SLASH \<notin> set (comp_bytes c)" "comp_bytes c \<noteq> []"
    using assms inner_ok_bytes [of c] by auto
  have split: "split_on SLASH ?b = map comp_bytes (c # cs)"
    using assms c by (intro split_on_join) (auto simp: list_all_iff dest: inner_ok_bytes)
  have hd: "?b \<noteq> []" "hd ?b \<noteq> SLASH"
    using c by (cases cs; auto simp: neq_Nil_conv hd_append)+
  then have "components ?b =
      (if comp_bytes c = [DOT] then CurDir # List.map_filter comp_of (map comp_bytes cs)
       else List.map_filter comp_of (map comp_bytes (c # cs)))"
    using split by (cases ?b) (simp_all add: components_def)
  then show ?thesis
    using assms map_filter_comp_bytes [of cs] map_filter_comp_bytes [of "c # cs"]
    by (auto dest: inner_ok_bytes)
qed

lemma components_as_os_str:
  assumes "path_wf p"
  shows "components (as_os_str p) = p"
proof (cases p)
  case Nil
  then show ?thesis by (simp add: as_os_str_def components_def)
next
  case (Cons c cs)
  show ?thesis
  proof (cases "c = RootDir")
    case True
    then show ?thesis
      using assms Cons by (simp add: as_os_str_def components_def path_wf_def join_bytes)
  next
    case False
    then have "as_os_str p = join_with SLASH (map comp_bytes (c # cs))"
      using Cons by (cases c) (simp_all add: as_os_str_def)
    then show ?thesis
      using components_relative [of c cs] assms Cons False
      by (auto simp: path_wf_def simp del: join_with.simps)
  qed
qed

lemma path_push_Nil: "path_push [] bs = components bs"
  by (simp add: path_push_def)

lemma path_push_name:
  assumes "name_ok n"
  shows "path_push p n = p @ [Normal n]"
proof -
  have n: "inner_ok (Normal n)" using assms by simp
  have "components n = [Normal n]"
    using components_relative [of "Normal n" "[]"] n by simp
  moreover have "hd n \<noteq> SLASH" using assms by (cases n) (auto simp: name_ok_def)
  moreover have "List.map_filter comp_of (split_on SLASH n) = [Normal n]"
    using assms inner_ok_bytes(4) [OF n] by (simp add: split_on_no_sep name_ok_def)
  ultimately show ?thesis by (auto simp: path_push_def)
qed

lemma path_wf_butlast: "path_wf p \<Longrightarrow> path_wf (butlast p)"
  by (cases p) (auto simp: path_wf_def list_all_iff dest: in_set_butlastD split: list.splits)

lemma path_file_nameD:
  assumes "path_wf p" "path_parent p = Some q" "path_file_name p = Some n"
  shows "p = q @ [Normal n]" "name_ok n" "path_wf q" "length q < length p"
proof -
  have p: "p \<noteq> []" "last p = Normal n" "q = butlast p"
    using assms(2,3) by (auto simp: path_parent_def path_file_name_def split: if_splits comp.splits)
  then show "p = q @ [Normal n]" by (metis append_butlast_last_id)
  then show "length q < length p" by simp
  show "path_wf q" using p assms(1) path_wf_butlast by simp
  have "Normal n \<in> set p" using p by (metis last_in_set)
  then show "name_ok n"
    using assms(1) by (cases p) (auto simp: path_wf_def list_all_iff dest: bspec)
qed

section \<open>The order of paths\<close>

text \<open>
  \<open>Component\<close> derives its order: by constructor, in the order of the declaration, and names
  by their bytes. With it, paths are ordered lexicographically (\<open>BTreeSet<PathBuf>\<close>).
\<close>

fun comp_rank :: "comp \<Rightarrow> nat" where
  "comp_rank RootDir = 0"
| "comp_rank CurDir = 1"
| "comp_rank ParentDir = 2"
| "comp_rank (Normal n) = 3"

fun comp_name :: "comp \<Rightarrow> u8 list" where
  "comp_name (Normal n) = n"
| "comp_name c = []"

instantiation comp :: linorder
begin

definition less_eq_comp :: "comp \<Rightarrow> comp \<Rightarrow> bool" where
  "less_eq_comp c d \<longleftrightarrow> comp_rank c < comp_rank d \<or>
     (comp_rank c = comp_rank d \<and> comp_name c \<le> comp_name d)"

definition less_comp :: "comp \<Rightarrow> comp \<Rightarrow> bool" where
  "less_comp c d \<longleftrightarrow> comp_rank c < comp_rank d \<or>
     (comp_rank c = comp_rank d \<and> comp_name c < comp_name d)"

instance
proof
  fix x y z :: comp
  show "(x < y) = (x \<le> y \<and> \<not> y \<le> x)"
    by (auto simp: less_eq_comp_def less_comp_def)
  show "x \<le> x"
    by (simp add: less_eq_comp_def)
  show "x \<le> y \<Longrightarrow> y \<le> z \<Longrightarrow> x \<le> z"
    by (auto simp: less_eq_comp_def)
  show "x \<le> y \<or> y \<le> x"
    by (auto simp: less_eq_comp_def)
  assume "x \<le> y" "y \<le> x"
  then have "comp_rank x = comp_rank y" "comp_name x = comp_name y"
    by (auto simp: less_eq_comp_def)
  then show "x = y" by (cases x; cases y) auto
qed

end

end
