(* ===== verification/StdStr.thy ===== *)
theory StdStr imports StdPath begin

text \<open>
  The part of \<open>str\<close> that the source uses, on the bytes of a string. A pattern that is ASCII
  cannot match inside a multi-byte character of UTF-8, so splitting the bytes is splitting the
  string.
\<close>

definition SPACE :: u8 where "SPACE = 32"
definition TAB :: u8 where "TAB = 9"
definition NL :: u8 where "NL = 10"
definition CR :: u8 where "CR = 13"
definition COMMA :: u8 where "COMMA = 44"
definition DASH :: u8 where "DASH = 45"
definition BACKSLASH :: u8 where "BACKSLASH = 92"

lemmas char_defs = SPACE_def TAB_def NL_def CR_def COMMA_def DASH_def BACKSLASH_def SLASH_def DOT_def

text \<open>\<open>split_once\<close>: before and after the first occurrence of the pattern.\<close>

fun split_once :: "'a list \<Rightarrow> 'a list \<Rightarrow> ('a list \<times> 'a list) option" where
  "split_once pat [] = (if pat = [] then Some ([], []) else None)"
| "split_once pat (c # cs) =
     (if prefix pat (c # cs) then Some ([], drop (length pat) (c # cs))
      else map_option (\<lambda>(a, b). (c # a, b)) (split_once pat cs))"

text \<open>
  \<open>lines\<close>: the pieces between line feeds, without a carriage return before the line feed; what
  follows the last line feed is a line only when it is not empty.
\<close>

definition strip_cr :: "u8 list \<Rightarrow> u8 list" where
  "strip_cr l = (if l \<noteq> [] \<and> last l = CR then butlast l else l)"

definition str_lines :: "u8 list \<Rightarrow> u8 list list" where
  "str_lines s = (let ps = split_on NL s
     in map strip_cr (butlast ps) @ (if last ps = [] then [] else [last ps]))"

text \<open>\<open>Iterator::nth\<close> and \<open>next\<close>, with what the iterator has left.\<close>

definition iter_nth :: "nat \<Rightarrow> 'a list \<Rightarrow> ('a \<times> 'a list) option" where
  "iter_nth n xs = (case drop n xs of [] \<Rightarrow> None | x # rest \<Rightarrow> Some (x, rest))"

definition iter_next :: "'a list \<Rightarrow> ('a \<times> 'a list) option" where
  "iter_next xs = iter_nth 0 xs"

lemma iter_simps [simp]:
  "iter_nth 0 [] = None"
  "iter_nth 0 (x # xs) = Some (x, xs)"
  "iter_nth (Suc n) [] = None"
  "iter_nth (Suc n) (x # xs) = iter_nth n xs"
  "iter_next [] = None"
  "iter_next (x # xs) = Some (x, xs)"
  by (simp_all add: iter_nth_def iter_next_def)

section \<open>Joining and splitting\<close>

lemma split_on_Nil [simp]: "split_on c [c] = [[], []]"
  by simp

text \<open>Lines that end with a line feed each come back.\<close>

lemma str_lines_unlines:
  assumes "\<And>l. l \<in> set ls \<Longrightarrow> NL \<notin> set l \<and> (l = [] \<or> last l \<noteq> CR)"
  shows "str_lines (concat (map (\<lambda>l. l @ [NL]) ls)) = ls"
proof -
  have "split_on NL (concat (map (\<lambda>l. l @ [NL]) ls)) = ls @ [[]]"
    using assms by (induction ls) (auto simp: split_on_append)
  moreover have "map strip_cr ls = ls"
    using assms by (intro map_idI) (auto simp: strip_cr_def)
  ultimately show ?thesis by (simp add: str_lines_def)
qed

text \<open>
  The separator \<open> - \<close> between fields joined by spaces is found at the first field \<open>-\<close>.
\<close>

definition sep_dash :: "u8 list" where "sep_dash = [SPACE, DASH, SPACE]"

lemma prefix_sep_field:
  assumes "SPACE \<notin> set f" "f \<noteq> [DASH]"
  shows "\<not> prefix (DASH # [SPACE]) (f @ SPACE # rest)"
proof (cases f)
  case (Cons x xs)
  then show ?thesis using assms by (cases xs) auto
qed (simp add: char_defs)

lemma split_once_skip:
  assumes "SPACE \<notin> set f"
  shows "split_once sep_dash (f @ r) = map_option (\<lambda>(a, b). (f @ a, b)) (split_once sep_dash r)"
  using assms
proof (induction f)
  case Nil
  then show ?case by (simp add: option.map_ident_strong split_beta)
next
  case (Cons x xs)
  then have "x \<noteq> SPACE" by auto
  then show ?case
    using Cons by (auto simp: sep_dash_def option.map_comp comp_def split_beta)
qed

lemma split_once_fields:
  assumes "fs \<noteq> []" "\<And>f. f \<in> set fs \<Longrightarrow> SPACE \<notin> set f" "\<And>f. f \<in> set (tl fs) \<Longrightarrow> f \<noteq> [DASH]"
  shows "split_once sep_dash (join_with SPACE fs @ sep_dash @ r) = Some (join_with SPACE fs, r)"
  using assms
proof (induction SPACE fs rule: join_with.induct)
  case (2 f)
  have "split_once sep_dash (sep_dash @ r) = Some ([], r)" by (simp add: sep_dash_def)
  then show ?case using 2 by (simp add: split_once_skip)
next
  case (3 f g fs)
  have "\<not> prefix sep_dash (SPACE # join_with SPACE (g # fs) @ sep_dash @ r)"
    using 3(3,4) prefix_sep_field [of g]
    by (cases fs) (auto simp: sep_dash_def)
  then have "split_once sep_dash (SPACE # join_with SPACE (g # fs) @ sep_dash @ r) =
      Some (SPACE # join_with SPACE (g # fs), r)"
    using 3 by (auto simp: list.set_sel)
  then show ?case using 3(3) by (simp add: split_once_skip)
qed simp

end
