(* ===== verification/Io.thy ===== *)
theory Io imports Prelude begin

text \<open>
  Code that fails and acts on a state: the clone phase of \<open>src/dedup.rs\<close>, the walk and the
  remount. A computation takes the state, and returns a result (a value, an error or a panic)
  with the state after it, or does not return. The state stays changed on an error. The locale
  gives the frame rule for such computations: what every step keeps, the whole keeps.
\<close>

type_synonym ('a, 's) io = "'s \<Rightarrow> ('a res \<times> 's) option"

named_theorems io_simps \<open>how computations unfold\<close>

definition io_lift :: "'a res \<Rightarrow> ('a, 's) io" where
  "io_lift r s = Some (r, s)"

definition io_ret :: "'a \<Rightarrow> ('a, 's) io" where
  "io_ret x s = Some (Inr x, s)"

definition io_bind :: "('a, 's) io \<Rightarrow> ('a \<Rightarrow> ('b, 's) io) \<Rightarrow> ('b, 's) io" where
  "io_bind m f s = (case m s of
      None \<Rightarrow> None
    | Some (Inl e, s) \<Rightarrow> Some (Inl e, s)
    | Some (Inr x, s) \<Rightarrow> f x s)"

definition io_modify :: "('s \<Rightarrow> 's) \<Rightarrow> (unit, 's) io" where
  "io_modify f s = Some (Inr (), f s)"

definition io_gets :: "('s \<Rightarrow> 'a) \<Rightarrow> ('a, 's) io" where
  "io_gets f s = Some (Inr (f s), s)"

text \<open>A pure computation that need not return.\<close>

definition io_opt :: "'a res option \<Rightarrow> ('a, 's) io" where
  "io_opt x s = map_option (\<lambda>r. (r, s)) x"

text \<open>A \<open>match\<close> on a \<open>Result\<close>: errors are values, a panic still unwinds.\<close>

definition io_attempt :: "('a, 's) io \<Rightarrow> (anyhow + 'a, 's) io" where
  "io_attempt m s = (case m s of
      None \<Rightarrow> None
    | Some (Inl Panic, s) \<Rightarrow> Some (Inl Panic, s)
    | Some (Inl (Fail e), s) \<Rightarrow> Some (Inr (Inl e), s)
    | Some (Inr x, s) \<Rightarrow> Some (Inr (Inr x), s))"

definition io_context :: "string \<Rightarrow> ('a, 's) io \<Rightarrow> ('a, 's) io" where
  "io_context msg m s = map_option (\<lambda>(r, s). (with_context msg r, s)) (m s)"

fun io_for :: "('x \<Rightarrow> (unit, 's) io) \<Rightarrow> 'x list \<Rightarrow> (unit, 's) io" where
  "io_for f [] = io_ret ()"
| "io_for f (x # xs) = io_bind (f x) (\<lambda>_. io_for f xs)"

lemma io_apply [io_simps]:
  "io_lift r s = Some (r, s)"
  "io_ret x s = Some (Inr x, s)"
  "io_modify f s = Some (Inr (), f s)"
  "io_gets g s = Some (Inr (g s), s)"
  by (simp_all add: io_lift_def io_ret_def io_modify_def io_gets_def)

lemma io_bind_eq [io_simps]:
  "m s = None \<Longrightarrow> io_bind m f s = None"
  "m s = Some (Inl e, t) \<Longrightarrow> io_bind m f s = Some (Inl e, t)"
  "m s = Some (Inr x, t) \<Longrightarrow> io_bind m f s = f x t"
  by (simp_all add: io_bind_def)

lemma io_bind_Some:
  "io_bind m f s = Some (r, u) \<longleftrightarrow>
     (\<exists>e. m s = Some (Inl e, u) \<and> r = Inl e) \<or> (\<exists>x t. m s = Some (Inr x, t) \<and> f x t = Some (r, u))"
  by (auto simp: io_bind_def split: option.splits prod.splits sum.splits)

lemma io_lift_Inr: "io_lift (Inr x) = io_ret x"
  by (rule ext) (simp add: io_simps)

lemma io_opt_Some: "io_opt (Some r) = io_lift r"
  by (rule ext) (simp add: io_opt_def io_simps)

lemma io_bind_ret [simp]: "io_bind (io_ret x) f = f x"
  by (simp add: io_bind_def io_ret_def fun_eq_iff)

lemma io_bind_assoc: "io_bind (io_bind m f) g = io_bind m (\<lambda>x. io_bind (f x) g)"
  by (auto simp: io_bind_def fun_eq_iff split: option.splits sum.splits)

lemma io_bind_cong:
  "m s = m' s \<Longrightarrow> (\<And>x t. m' s = Some (Inr x, t) \<Longrightarrow> f x t = f' x t) \<Longrightarrow> io_bind m f s = io_bind m' f' s"
  by (auto simp: io_bind_def split: option.splits prod.splits sum.splits)

lemma io_attempt_Some:
  "io_attempt m s = Some (r, t) \<longleftrightarrow>
     (m s = Some (Inl Panic, t) \<and> r = Inl Panic) \<or>
     (\<exists>e. m s = Some (Inl (Fail e), t) \<and> r = Inr (Inl e)) \<or>
     (\<exists>x. m s = Some (Inr x, t) \<and> r = Inr (Inr x))"
  by (auto simp: io_attempt_def split: option.splits prod.splits sum.splits fault.splits)

lemma io_for_append: "io_for f (xs @ ys) = io_bind (io_for f xs) (\<lambda>_. io_for f ys)"
  by (induction xs) (simp_all add: io_bind_assoc)

section \<open>What every step keeps\<close>

definition io_keeps :: "('s \<Rightarrow> 's \<Rightarrow> bool) \<Rightarrow> ('a, 's) io \<Rightarrow> bool" where
  "io_keeps kept m \<longleftrightarrow> (\<forall>s r t. m s = Some (r, t) \<longrightarrow> kept s t)"

lemma io_keepsI: "(\<And>s r t. m s = Some (r, t) \<Longrightarrow> kept s t) \<Longrightarrow> io_keeps kept m"
  by (simp add: io_keeps_def)

lemma io_keepsD: "io_keeps kept m \<Longrightarrow> m s = Some (r, t) \<Longrightarrow> kept s t"
  by (simp add: io_keeps_def)

locale io_frame =
  fixes kept :: "'s \<Rightarrow> 's \<Rightarrow> bool"
  assumes kept_refl: "kept s s"
    and kept_trans: "kept s t \<Longrightarrow> kept t u \<Longrightarrow> kept s u"
begin

lemma within_pure:
  "io_keeps kept (io_lift r)" "io_keeps kept (io_ret x)" "io_keeps kept (io_gets f)" "io_keeps kept (io_opt y)"
  by (auto simp: io_keeps_def io_simps io_opt_def kept_refl)

lemma within_bind: "io_keeps kept m \<Longrightarrow> (\<And>x. io_keeps kept (f x)) \<Longrightarrow> io_keeps kept (io_bind m f)"
  by (fastforce simp: io_keeps_def io_bind_Some intro: kept_trans)

lemma within_attempt: "io_keeps kept m \<Longrightarrow> io_keeps kept (io_attempt m)"
  by (fastforce simp: io_keeps_def io_attempt_Some)

lemma within_context: "io_keeps kept m \<Longrightarrow> io_keeps kept (io_context msg m)"
  by (fastforce simp: io_keeps_def io_context_def)

lemma within_for: "(\<And>x. x \<in> set xs \<Longrightarrow> io_keeps kept (f x)) \<Longrightarrow> io_keeps kept (io_for f xs)"
  by (induction xs) (auto intro: within_bind within_pure)

lemmas within_intros = within_pure within_bind within_attempt within_context within_for

end

end
