(* ===== verification/Remount.thy ===== *)
theory Remount imports StdStr Io begin

text \<open>
  \<open>src/remount.rs\<close>: reading \<open>/proc/self/mountinfo\<close> and remounting read-only bind mounts of
  writable ZFS datasets inside a private mount namespace. The system calls are the fields of
  \<open>mount_env\<close>, over a kernel state that is threaded through. The flags of a mount are a set of
  names; what number each one has on Linux is the \<open>rustix\<close> crate's.
\<close>

section \<open>Mounts\<close>

datatype mount_flag = NOSUID | NODEV | NOEXEC | NOATIME | NODIRATIME | RELATIME | STRICTATIME
  | SYNCHRONOUS | DIRSYNC | LAZYTIME | BIND

datatype propagation_flag = DOWNSTREAM | REC

record statvfs =
  sv_fsid :: u64
  sv_rdonly :: bool

record 'k mount_env =
  me_unshare :: "'k \<Rightarrow> (errno + unit) \<times> 'k"
  me_change :: "path \<Rightarrow> propagation_flag set \<Rightarrow> 'k \<Rightarrow> (errno + unit) \<times> 'k"
  me_remount :: "path \<Rightarrow> mount_flag set \<Rightarrow> 'k \<Rightarrow> (errno + unit) \<times> 'k"
  me_mountinfo :: "'k \<Rightarrow> io_error + u8 list"
  me_statvfs :: "path \<Rightarrow> 'k \<Rightarrow> errno + statvfs"

definition io_errno :: "('s \<Rightarrow> (errno + 'a) \<times> 's) \<Rightarrow> ('a, 's) io" where
  "io_errno f s = (case f s of (r, t) \<Rightarrow> Some (from_errno r, t))"

definition io_view :: "('s \<Rightarrow> io_error + 'a) \<Rightarrow> ('a, 's) io" where
  "io_view f s = Some (from_io (f s), s)"

definition enter_private_mount_ns :: "'k mount_env \<Rightarrow> (unit, 'k) io" where
  "enter_private_mount_ns E =
     io_bind (io_context ''unshare(CLONE_NEWNS)'' (io_errno (me_unshare E))) (\<lambda>_.
     io_bind (io_context ''make / mount-slave'' (io_errno (me_change E [RootDir] {DOWNSTREAM, REC}))) (\<lambda>_.
     io_ret ()))"

record mount =
  mn_point :: path
  mn_root :: path
  mn_source :: "u8 list"
  mn_flags :: "mount_flag set"
  mn_ro :: bool
  mn_super_rw :: bool
  mn_fstype :: "u8 list"

section \<open>Parsing mountinfo\<close>

text \<open>
  The loop of \<open>unescape\<close>. A backslash takes the next three bytes as octal digits, without
  looking at them (the arithmetic on bytes wraps in a release build). With fewer than three left,
  those that are left are consumed too and the backslash itself is kept.
\<close>

fun unescape_bytes :: "u8 list \<Rightarrow> u8 list" where
  "unescape_bytes [] = []"
| "unescape_bytes (c # bs) =
     (if c = BACKSLASH
      then case bs of
             a # b1 # b2 # rest \<Rightarrow> ((a - 48) * 64 + (b1 - 48) * 8 + (b2 - 48)) # unescape_bytes rest
           | _ \<Rightarrow> [c]
      else c # unescape_bytes bs)"

definition unescape :: "u8 list \<Rightarrow> path" where
  "unescape s = components (unescape_bytes s)"

definition opt_flag :: "u8 list \<Rightarrow> mount_flag option" where
  "opt_flag opt =
     (if opt = bytes ''nosuid'' then Some NOSUID
      else if opt = bytes ''nodev'' then Some NODEV
      else if opt = bytes ''noexec'' then Some NOEXEC
      else if opt = bytes ''noatime'' then Some NOATIME
      else if opt = bytes ''nodiratime'' then Some NODIRATIME
      else if opt = bytes ''relatime'' then Some RELATIME
      else if opt = bytes ''strictatime'' then Some STRICTATIME
      else if opt = bytes ''sync'' then Some SYNCHRONOUS
      else if opt = bytes ''dirsync'' then Some DIRSYNC
      else if opt = bytes ''lazytime'' then Some LAZYTIME
      else None)"

definition parse_mountinfo :: "u8 list \<Rightarrow> mount option" where
  "parse_mountinfo line =
     Option.bind (split_once sep_dash line) (\<lambda>(head, tail).
     Option.bind (iter_nth 3 (split_on SPACE head)) (\<lambda>(root, h).
     Option.bind (iter_next h) (\<lambda>(point, h).
     Option.bind (iter_next h) (\<lambda>(opts, h).
     Option.bind (iter_next (split_on SPACE tail)) (\<lambda>(fstype, t).
     Option.bind (iter_next t) (\<lambda>(source, t).
     Option.bind (iter_next t) (\<lambda>(super_opts, t).
     Some \<lparr>mn_point = unescape point, mn_root = unescape root, mn_source = source,
           mn_flags = set (List.map_filter opt_flag (split_on COMMA opts)),
           mn_ro = list_ex (\<lambda>o'. o' = bytes ''ro'') (split_on COMMA opts),
           mn_super_rw = list_ex (\<lambda>o'. o' = bytes ''rw'') (split_on COMMA super_opts),
           mn_fstype = fstype\<rparr>)))))))"

section \<open>Remounting\<close>

definition in_scope :: "path list \<Rightarrow> mount \<Rightarrow> bool" where
  "in_scope roots m \<longleftrightarrow>
     list_ex (\<lambda>r. starts_with (mn_point m) r \<or> starts_with r (mn_point m)) roots"

definition remount_one :: "'k mount_env \<Rightarrow> path list \<Rightarrow> mount \<Rightarrow> (unit, 'k) io" where
  "remount_one E roots m =
     (if mn_fstype m \<noteq> bytes ''zfs'' \<or> \<not> mn_ro m \<or> \<not> mn_super_rw m \<or> \<not> in_scope roots m
      then io_ret ()
      else io_bind (io_attempt (io_errno (me_remount E (mn_point m) (mn_flags m \<union> {BIND})))) (\<lambda>_.
           io_ret ()))"

definition remount_rw_binds :: "'k mount_env \<Rightarrow> path list \<Rightarrow> (unit, 'k) io" where
  "remount_rw_binds E roots =
     io_bind (io_view (me_mountinfo E)) (\<lambda>mountinfo.
     io_for (remount_one E roots) (List.map_filter parse_mountinfo (str_lines mountinfo)))"

definition is_ro :: "'k mount_env \<Rightarrow> path \<Rightarrow> 'k \<Rightarrow> bool" where
  "is_ro E p k = (case me_statvfs E p k of Inl e \<Rightarrow> False | Inr s \<Rightarrow> sv_rdonly s)"

section \<open>What the kernel writes\<close>

text \<open>
  A mount as the kernel describes it, and the line of mountinfo it writes for it: bytes of a set
  that has at least space, tab, line feed and backslash are escaped as octal numbers in the root,
  the mount point and the source.
\<close>

record mount_info =
  mi_ids :: "u8 list list"
  mi_root :: path
  mi_point :: path
  mi_opts :: "u8 list list"
  mi_tags :: "u8 list list"
  mi_fstype :: "u8 list"
  mi_source :: "u8 list"
  mi_super :: "u8 list list"

definition escape :: "u8 set \<Rightarrow> u8 list \<Rightarrow> u8 list" where
  "escape S s = concat (map (\<lambda>b.
     if b \<in> S then [BACKSLASH, 48 + b div 64, 48 + b div 8 mod 8, 48 + b mod 8] else [b]) s)"

definition info_head :: "u8 set \<Rightarrow> mount_info \<Rightarrow> u8 list list" where
  "info_head S m = mi_ids m @ [escape S (as_os_str (mi_root m)), escape S (as_os_str (mi_point m)),
     join_with COMMA (mi_opts m)] @ mi_tags m"

definition info_tail :: "u8 set \<Rightarrow> mount_info \<Rightarrow> u8 list list" where
  "info_tail S m = [mi_fstype m, escape S (mi_source m), join_with COMMA (mi_super m)]"

definition info_line :: "u8 set \<Rightarrow> mount_info \<Rightarrow> u8 list" where
  "info_line S m = join_with SPACE (info_head S m) @ sep_dash @ join_with SPACE (info_tail S m)"

definition word_ok :: "u8 list \<Rightarrow> bool" where
  "word_ok w \<longleftrightarrow> SPACE \<notin> set w \<and> NL \<notin> set w \<and> CR \<notin> set w \<and> COMMA \<notin> set w \<and> w \<noteq> [DASH] \<and> w \<noteq> []"

definition info_ok :: "mount_info \<Rightarrow> bool" where
  "info_ok m \<longleftrightarrow> length (mi_ids m) = 3 \<and> path_wf (mi_root m) \<and> path_wf (mi_point m) \<and>
     mi_root m \<noteq> [] \<and> hd (mi_root m) = RootDir \<and> mi_point m \<noteq> [] \<and> hd (mi_point m) = RootDir \<and>
     mi_opts m \<noteq> [] \<and> mi_super m \<noteq> [] \<and>
     list_all word_ok (mi_ids m @ mi_opts m @ mi_tags m @ [mi_fstype m] @ mi_super m)"

definition parsed_info :: "u8 set \<Rightarrow> mount_info \<Rightarrow> mount" where
  "parsed_info S m = \<lparr>mn_point = mi_point m, mn_root = mi_root m, mn_source = escape S (mi_source m),
     mn_flags = set (List.map_filter opt_flag (mi_opts m)), mn_ro = (bytes ''ro'' \<in> set (mi_opts m)),
     mn_super_rw = (bytes ''rw'' \<in> set (mi_super m)), mn_fstype = mi_fstype m\<rparr>"

definition escaping :: "u8 set \<Rightarrow> bool" where
  "escaping S \<longleftrightarrow> {SPACE, TAB, NL, BACKSLASH} \<subseteq> S"

section \<open>Reading back what the kernel writes\<close>

lemma octal_digits: "(b div 64) * 64 + ((b div 8 mod 8) * 8 + b mod 8) = (b :: u8)"
proof -
  have "b div 8 div 8 = b div 64"
    by (simp add: word_unat_eq_iff unat_div flip: div_mult2_eq)
  then have "b div 8 = b div 64 * 8 + b div 8 mod 8"
    using div_mult_mod_eq [of "b div 8" 8] by simp
  then have "b div 8 * 8 = (b div 64 * 8 + b div 8 mod 8) * 8"
    by (rule arg_cong)
  also have "\<dots> = b div 64 * 64 + b div 8 mod 8 * 8"
    by (simp only: distrib_right mult.assoc) simp
  finally have "b div 8 * 8 = b div 64 * 64 + b div 8 mod 8 * 8" .
  then show ?thesis
    using div_mult_mod_eq [of b 8] by (simp add: add.assoc)
qed

lemma escape_simps [simp]:
  "escape S [] = []"
  "escape S (b # bs) = (if b \<in> S then [BACKSLASH, 48 + b div 64, 48 + b div 8 mod 8, 48 + b mod 8] else [b]) @ escape S bs"
  by (simp_all add: escape_def)

lemma unescape_escape:
  assumes "BACKSLASH \<in> S"
  shows "unescape_bytes (escape S s) = s"
  using assms by (induction s) (auto simp: octal_digits)

lemma octal_digit:
  assumes "unat d < 8"
  shows "48 + d \<noteq> SPACE" "48 + d \<noteq> NL" "48 + d \<noteq> SLASH"
proof -
  have "unat (48 + d) = 48 + unat d" using assms by (simp add: unat_word_ariths)
  moreover have "unat SPACE = 32" "unat NL = 10" "unat SLASH = 47" by (simp_all add: char_defs)
  ultimately have "unat (48 + d) \<noteq> unat SPACE" "unat (48 + d) \<noteq> unat NL" "unat (48 + d) \<noteq> unat SLASH" by simp_all
  then show "48 + d \<noteq> SPACE" "48 + d \<noteq> NL" "48 + d \<noteq> SLASH" by metis+
qed

lemma octal_digits_small: "unat (b div 64) < 8" "unat (b div 8 mod 8) < 8" "unat (b mod 8) < 8" for b :: u8
  using unsigned_less [of b, where ?'a = nat] by (simp_all add: unat_div unat_mod)

lemmas octal_digit_range = octal_digit [OF octal_digits_small(1)] octal_digit [OF octal_digits_small(2)]
  octal_digit [OF octal_digits_small(3)]

lemma escape_clean:
  assumes "escaping S"
  shows "SPACE \<notin> set (escape S s)" "NL \<notin> set (escape S s)"
proof -
  have "BACKSLASH \<noteq> SPACE" "BACKSLASH \<noteq> NL" by (simp_all add: char_defs)
  then show "SPACE \<notin> set (escape S s)" "NL \<notin> set (escape S s)"
    using assms octal_digit_range by (induction s) (auto simp: escaping_def dest: sym)
qed

end
