(* ===== verification/RemountCorrect.thy ===== *)
theory RemountCorrect imports Remount begin

text \<open>
  What \<open>remount.rs\<close> does on the text the kernel writes: every line parses to the mount it
  describes, and the calls made are those for the read-only bind mounts in scope.
\<close>

lemma set_join_with: "set (join_with c xss) \<subseteq> insert c (\<Union>(set ` set xss))"
  by (induction c xss rule: join_with.induct) auto

lemma word_okD:
  assumes "list_all word_ok ws" "w \<in> set ws"
  shows "SPACE \<notin> set w" "NL \<notin> set w" "CR \<notin> set w" "COMMA \<notin> set w" "w \<noteq> [DASH]" "w \<noteq> []"
  using assms by (auto simp: list_all_iff word_ok_def)

lemma join_comma:
  assumes "list_all word_ok ws" "ws \<noteq> []"
  shows "SPACE \<notin> set (join_with COMMA ws)" "NL \<notin> set (join_with COMMA ws)" "CR \<notin> set (join_with COMMA ws)"
    "join_with COMMA ws \<noteq> [DASH]" "join_with COMMA ws \<noteq> []" "split_on COMMA (join_with COMMA ws) = ws"
proof -
  have ne: "COMMA \<noteq> SPACE" "COMMA \<noteq> NL" "COMMA \<noteq> CR" by (simp_all add: char_defs)
  show "SPACE \<notin> set (join_with COMMA ws)" "NL \<notin> set (join_with COMMA ws)" "CR \<notin> set (join_with COMMA ws)"
    using set_join_with [of COMMA ws] assms ne by (auto simp: list_all_iff word_ok_def)
  show "split_on COMMA (join_with COMMA ws) = ws"
    using assms by (intro split_on_join) (auto dest: word_okD)
  obtain x xs where ws: "ws = x # xs" using assms(2) by (cases ws) auto
  have x: "x \<noteq> [DASH]" "x \<noteq> []" using assms(1) by (auto simp: ws word_ok_def)
  then show "join_with COMMA ws \<noteq> []" by (cases xs) (auto simp: ws)
  show "join_with COMMA ws \<noteq> [DASH]"
    using x by (cases xs) (auto simp: ws append_eq_Cons_conv)
qed

lemma escape_root_path:
  assumes "p \<noteq> []" "hd p = RootDir"
  shows "escape S (as_os_str p) \<noteq> [DASH]"
proof -
  obtain cs where "p = RootDir # cs" using assms by (cases p) auto
  moreover have "SLASH \<noteq> DASH" "BACKSLASH \<noteq> DASH" by (simp_all add: char_defs)
  ultimately show ?thesis by (simp add: as_os_str_def)
qed

text \<open>The three ids come first, then root, mount point and options.\<close>

lemma info_ids: "info_ok m \<Longrightarrow> \<exists>a b c. mi_ids m = [a, b, c]"
  by (auto simp: info_ok_def length_Suc_conv numeral_3_eq_3)

lemma info_fields:
  assumes "info_ok m" "escaping S"
  shows "\<And>f. f \<in> set (info_head S m) \<Longrightarrow> SPACE \<notin> set f \<and> NL \<notin> set f \<and> f \<noteq> [DASH]"
    and "\<And>f. f \<in> set (info_tail S m) \<Longrightarrow> SPACE \<notin> set f \<and> NL \<notin> set f"
  using assms escape_clean [OF assms(2)] join_comma [of "mi_opts m"] join_comma [of "mi_super m"]
  by (auto simp: info_head_def info_tail_def info_ok_def list_all_iff word_ok_def escape_root_path)

lemma parse_info_line:
  assumes "info_ok m" "escaping S"
  shows "parse_mountinfo (info_line S m) = Some (parsed_info S m)"
proof -
  obtain a b c where ids: "mi_ids m = [a, b, c]" using info_ids [OF assms(1)] by blast
  have head: "info_head S m \<noteq> []" by (simp add: info_head_def)
  have once: "split_once sep_dash (info_line S m) =
      Some (join_with SPACE (info_head S m), join_with SPACE (info_tail S m))"
    unfolding info_line_def using info_fields(1) [OF assms] head
    by (intro split_once_fields) (auto dest: list.set_sel(2))
  have sh: "split_on SPACE (join_with SPACE (info_head S m)) = info_head S m"
    using info_fields(1) [OF assms] head by (intro split_on_join) auto
  have st: "split_on SPACE (join_with SPACE (info_tail S m)) = info_tail S m"
    using info_fields(2) [OF assms] by (intro split_on_join) (auto simp: info_tail_def)
  have paths: "unescape (escape S (as_os_str (mi_root m))) = mi_root m"
      "unescape (escape S (as_os_str (mi_point m))) = mi_point m"
    using assms by (auto simp: unescape_def unescape_escape escaping_def info_ok_def components_as_os_str)
  have opts: "split_on COMMA (join_with COMMA (mi_opts m)) = mi_opts m"
      "split_on COMMA (join_with COMMA (mi_super m)) = mi_super m"
    using assms(1) by (auto simp: info_ok_def intro: join_comma(6))
  show ?thesis
    unfolding parse_mountinfo_def once
    by (simp only: sh st bind.bind_lunit prod.case)
       (simp add: info_head_def info_tail_def ids numeral_3_eq_3 paths opts parsed_info_def list_ex_iff)
qed

lemma join_last: "fs \<noteq> [] \<Longrightarrow> last fs \<noteq> [] \<Longrightarrow> join_with c fs \<noteq> [] \<and> last (join_with c fs) = last (last fs)"
  by (induction c fs rule: join_with.induct) auto

lemma info_line_clean:
  assumes "info_ok m" "escaping S"
  shows "NL \<notin> set (info_line S m)" "last (info_line S m) \<noteq> CR"
proof -
  have "NL \<noteq> SPACE" "NL \<noteq> DASH" by (simp_all add: char_defs)
  then show "NL \<notin> set (info_line S m)"
    using set_join_with [of SPACE "info_head S m"] set_join_with [of SPACE "info_tail S m"] info_fields [OF assms]
    by (auto simp: info_line_def sep_dash_def)
  have sup: "join_with COMMA (mi_super m) \<noteq> []" "CR \<notin> set (join_with COMMA (mi_super m))"
    using assms(1) join_comma [of "mi_super m"] by (auto simp: info_ok_def)
  then have "join_with SPACE (info_tail S m) \<noteq> [] \<and> last (join_with SPACE (info_tail S m)) = last (join_with COMMA (mi_super m))"
    using join_last [of "info_tail S m" SPACE] by (simp add: info_tail_def)
  then show "last (info_line S m) \<noteq> CR"
    using sup by (metis info_line_def last_appendR last_in_set append_is_Nil_conv)
qed

definition info_text :: "u8 set \<Rightarrow> mount_info list \<Rightarrow> u8 list" where
  "info_text S ms = concat (map (\<lambda>m. info_line S m @ [NL]) ms)"

lemma parse_info_text:
  assumes "escaping S" "list_all info_ok ms"
  shows "List.map_filter parse_mountinfo (str_lines (info_text S ms)) = map (parsed_info S) ms"
proof -
  have "info_text S ms = concat (map (\<lambda>l. l @ [NL]) (map (info_line S) ms))"
    by (simp add: info_text_def comp_def)
  then have "str_lines (info_text S ms) = map (info_line S) ms"
    using info_line_clean [OF _ assms(1)] assms(2) by (simp only:, intro str_lines_unlines) (auto simp: list_all_iff)
  then show ?thesis
    using assms by (auto simp: List.map_filter_def list_all_iff parse_info_line intro!: map_cong filter_True)
qed

text \<open>The mounts that are remounted, as the kernel knows them.\<close>

definition wants_remount :: "path list \<Rightarrow> mount_info \<Rightarrow> bool" where
  "wants_remount roots m \<longleftrightarrow> mi_fstype m = bytes ''zfs'' \<and> bytes ''ro'' \<in> set (mi_opts m) \<and>
     bytes ''rw'' \<in> set (mi_super m) \<and> (\<exists>r \<in> set roots. prefix r (mi_point m) \<or> prefix (mi_point m) r)"

text \<open>
  The flags of a mount, from the words that the kernel shows in its options, one for each flag that can
  be set for a mount (the list in proc(5) and mount(8)); what can be lost at a remount is one of these.
\<close>

fun flag_word :: "mount_flag \<Rightarrow> string option" where
  "flag_word NOSUID = Some ''nosuid''"
| "flag_word NODEV = Some ''nodev''"
| "flag_word NOEXEC = Some ''noexec''"
| "flag_word NOATIME = Some ''noatime''"
| "flag_word NODIRATIME = Some ''nodiratime''"
| "flag_word RELATIME = Some ''relatime''"
| "flag_word STRICTATIME = Some ''strictatime''"
| "flag_word SYNCHRONOUS = Some ''sync''"
| "flag_word DIRSYNC = Some ''dirsync''"
| "flag_word LAZYTIME = Some ''lazytime''"
| "flag_word _ = None"

definition kept_flags :: "mount_info \<Rightarrow> mount_flag set" where
  "kept_flags m = {f. \<exists>w. flag_word f = Some w \<and> bytes w \<in> set (mi_opts m)}"

lemma opt_flag_word: "opt_flag x = Some f \<longleftrightarrow> (\<exists>w. flag_word f = Some w \<and> x = bytes w)"
proof
  show "opt_flag x = Some f \<Longrightarrow> \<exists>w. flag_word f = Some w \<and> x = bytes w"
    by (auto simp: opt_flag_def split: if_splits)
  show "\<exists>w. flag_word f = Some w \<and> x = bytes w \<Longrightarrow> opt_flag x = Some f"
    by (cases f) (auto simp: opt_flag_def bytes_def)
qed

lemma kept_flags_set: "set (List.map_filter opt_flag (mi_opts m)) = kept_flags m"
proof -
  have "f \<in> set (List.map_filter opt_flag (mi_opts m)) \<longleftrightarrow> (\<exists>x \<in> set (mi_opts m). opt_flag x = Some f)" for f
    by (force simp: List.map_filter_def image_iff)
  then show ?thesis unfolding opt_flag_word kept_flags_def by blast
qed

lemma remount_one_call:
  "remount_one E roots (parsed_info S m) k = Some (Inr (),
     if wants_remount roots m then snd (me_remount E (mi_point m) (insert BIND (kept_flags m)) k) else k)"
proof -
  have flags: "mn_flags (parsed_info S m) \<union> {BIND} = insert BIND (kept_flags m)"
    by (simp add: parsed_info_def kept_flags_set)
  show ?thesis
    unfolding remount_one_def flags
    by (auto simp: wants_remount_def in_scope_def starts_with_def list_ex_iff parsed_info_def io_simps io_bind_def
        io_attempt_def io_errno_def from_errno_def split: prod.split sum.split fault.split)
qed


section \<open>Properties\<close>

definition nix_store :: mount_info where
  "nix_store = \<lparr>mi_ids = [bytes ''54'', bytes ''39'', bytes ''0:33''],
     mi_root = [RootDir, Normal (bytes ''nix''), Normal (bytes ''my store'')],
     mi_point = [RootDir, Normal (bytes ''nix''), Normal (bytes ''my store'')],
     mi_opts = [bytes ''ro'', bytes ''nosuid'', bytes ''relatime''], mi_tags = [bytes ''shared:17''],
     mi_fstype = bytes ''zfs'', mi_source = bytes ''zroot/root/nixos'', mi_super = [bytes ''rw'', bytes ''xattr'']\<rparr>"

definition backup :: mount_info where
  "backup = nix_store\<lparr>mi_point := [RootDir, Normal (bytes ''backup'')], mi_super := [bytes ''ro'', bytes ''xattr'']\<rparr>"

definition blanks :: "u8 set" where "blanks = {SPACE, TAB, NL, BACKSLASH}"

lemma sample_mounts: "info_ok nix_store" "info_ok backup" "escaping blanks"
  by (simp_all add: info_ok_def backup_def nix_store_def word_ok_def path_wf_def name_ok_def bytes_def char_defs
      escaping_def blanks_def)

lemma sample_flags: "kept_flags nix_store = {NOSUID, RELATIME}"
  by (auto simp: nix_store_def opt_flag_def bytes_def List.map_filter_simps simp flip: kept_flags_set)

text \<open>
  C23. Parsing inverts the kernel's mountinfo format: a line for any mount, with any number of
  optional fields and with spaces and other bytes of its paths escaped as octal numbers, parses to
  that mount: its paths unescaped, the flags of its options, whether it is \<open>ro\<close>, and whether its file
  system is \<open>rw\<close>. (The source stays escaped.)
\<close>

theorem mountinfo_parses:
  assumes "info_ok m" "escaping S"
  shows "parse_mountinfo (info_line S m) = Some \<lparr>mn_point = mi_point m, mn_root = mi_root m,
     mn_source = escape S (mi_source m), mn_flags = kept_flags m, mn_ro = (bytes ''ro'' \<in> set (mi_opts m)),
     mn_super_rw = (bytes ''rw'' \<in> set (mi_super m)), mn_fstype = mi_fstype m\<rparr>"
  using parse_info_line [OF assms] by (simp add: parsed_info_def kept_flags_set)

theorem mountinfo_parses_witness:
  "parse_mountinfo (bytes ''54 39 0:33 /nix/my'' @ BACKSLASH # bytes ''040store /nix/my'' @ BACKSLASH #
      bytes ''040store ro,nosuid,relatime shared:17 - zfs zroot/root/nixos rw,xattr'') =
   Some \<lparr>mn_point = mi_point nix_store, mn_root = mi_root nix_store,
     mn_source = bytes ''zroot/root/nixos'', mn_flags = {NOSUID, RELATIME}, mn_ro = True,
     mn_super_rw = True, mn_fstype = bytes ''zfs''\<rparr>"
proof -
  have line: "info_line blanks nix_store = bytes ''54 39 0:33 /nix/my'' @ BACKSLASH # bytes ''040store /nix/my'' @ BACKSLASH #
      bytes ''040store ro,nosuid,relatime shared:17 - zfs zroot/root/nixos rw,xattr''"
    by (simp add: info_line_def info_head_def info_tail_def nix_store_def bytes_def as_os_str_def blanks_def char_defs
        sep_dash_def)
  have src: "escape blanks (mi_source nix_store) = bytes ''zroot/root/nixos''"
    by (simp add: nix_store_def bytes_def blanks_def char_defs)
  have opts: "bytes ''ro'' \<in> set (mi_opts nix_store)" "bytes ''rw'' \<in> set (mi_super nix_store)" "mi_fstype nix_store = bytes ''zfs''"
    by (simp_all add: nix_store_def)
  show ?thesis
    using mountinfo_parses [OF sample_mounts(1,3)] by (simp only: line src sample_flags opts simp_thms)
qed


definition log_mounts :: "(path \<times> mount_flag set) list mount_env" where
  "log_mounts = \<lparr>me_unshare = (\<lambda>k. (Inr (), k)), me_change = (\<lambda>p fs k. (Inr (), k)),
     me_remount = (\<lambda>p fs k. (Inl EPERM, k @ [(p, fs)])),
     me_mountinfo = (\<lambda>k. Inr (info_text blanks [backup, nix_store])),
     me_statvfs = (\<lambda>p k. Inr \<lparr>sv_fsid = 1, sv_rdonly = False\<rparr>)\<rparr>"


end
