(* ===== verification/ZfsMounts.thy ===== *)
theory ZfsMounts imports RemountCorrect begin

text \<open>
  The ZFS side of \<open>src/walk.rs\<close>: is a path on ZFS, which pools can clone blocks, and where their
  datasets are mounted. \<open>statfs\<close> and running a command are the fields of \<open>zfs_env\<close>.
\<close>

section \<open>UTF-8\<close>

text \<open>
  The standard library's \<open>String::from_utf8_lossy\<close>: a well-formed character is kept, and a longest
  prefix of one that is broken off (or a byte that starts none) becomes one U+FFFD. \<open>utf8_step\<close> gives
  the length of what is at the front, \<open>Inr\<close> for a character and \<open>Inl\<close> for a broken one.
\<close>

definition utf8_cont :: "u8 \<Rightarrow> bool" where
  "utf8_cont b \<longleftrightarrow> 0x80 \<le> b \<and> b \<le> 0xBF"

definition utf8_second :: "u8 \<Rightarrow> u8 \<Rightarrow> bool" where
  "utf8_second a b \<longleftrightarrow>
     (if a = 0xE0 then 0xA0 \<le> b \<and> b \<le> 0xBF
      else if a = 0xED then 0x80 \<le> b \<and> b \<le> 0x9F
      else if a = 0xF0 then 0x90 \<le> b \<and> b \<le> 0xBF
      else if a = 0xF4 then 0x80 \<le> b \<and> b \<le> 0x8F
      else utf8_cont b)"

definition utf8_width :: "u8 \<Rightarrow> nat" where
  "utf8_width a = (if a < 0x80 then 1 else if a < 0xC2 then 0 else if a < 0xE0 then 2
     else if a < 0xF0 then 3 else if a < 0xF5 then 4 else 0)"

fun utf8_tail :: "nat \<Rightarrow> nat \<Rightarrow> u8 list \<Rightarrow> nat + nat" where
  "utf8_tail n 0 bs = Inr n"
| "utf8_tail n (Suc m) [] = Inl n"
| "utf8_tail n (Suc m) (b # bs) = (if utf8_cont b then utf8_tail (Suc n) m bs else Inl n)"

definition utf8_step :: "u8 \<Rightarrow> u8 list \<Rightarrow> nat + nat" where
  "utf8_step a bs =
     (if utf8_width a = 0 then Inl 1
      else if utf8_width a = 1 then Inr 1
      else case bs of
             [] \<Rightarrow> Inl 1
           | b # rest \<Rightarrow> if utf8_second a b then utf8_tail 2 (utf8_width a - 2) rest else Inl 1)"

definition REPLACEMENT :: "u8 list" where "REPLACEMENT = [0xEF, 0xBF, 0xBD]"

lemma utf8_tail_bounds:
  "utf8_tail n m bs = Inl l \<or> utf8_tail n m bs = Inr l \<Longrightarrow> n \<le> l"
  by (induction n m bs rule: utf8_tail.induct) (auto split: if_splits)

lemma utf8_step_pos:
  assumes "utf8_step a bs = Inl l \<or> utf8_step a bs = Inr l"
  shows "0 < l"
  using assms utf8_tail_bounds [of 2 "utf8_width a - 2" "tl bs" l]
  by (auto simp: utf8_step_def split: if_splits list.splits)

function utf8_lossy :: "u8 list \<Rightarrow> u8 list" where
  "utf8_lossy bs =
     (case bs of [] \<Rightarrow> []
      | a # rest \<Rightarrow>
          (case utf8_step a rest of
             Inr n \<Rightarrow> take n bs @ utf8_lossy (drop n bs)
           | Inl n \<Rightarrow> REPLACEMENT @ utf8_lossy (drop n bs)))"
  by pat_completeness auto
termination
  by (relation "measure length") (use utf8_step_pos in fastforce)+

declare utf8_lossy.simps [simp del]

lemma utf8_lossy_ascii:
  "(\<And>b. b \<in> set bs \<Longrightarrow> b < 0x80) \<Longrightarrow> utf8_lossy bs = bs"
proof (induction bs)
  case Nil
  then show ?case by (simp add: utf8_lossy.simps)
next
  case (Cons a bs)
  then have "utf8_step a bs = Inr 1" by (simp add: utf8_step_def utf8_width_def)
  then show ?case using Cons by (subst utf8_lossy.simps) simp
qed

section \<open>Datasets\<close>

definition ZFS_SUPER_MAGIC :: i64 where "ZFS_SUPER_MAGIC = 0x2fc12fc1"

record cmd_output =
  co_success :: bool
  co_stdout :: "u8 list"
  co_stderr :: "u8 list"

record 'k zfs_env =
  ze_statfs :: "path \<Rightarrow> 'k \<Rightarrow> errno + i64"
  ze_command :: "string \<Rightarrow> string list \<Rightarrow> 'k \<Rightarrow> io_error + cmd_output"

definition is_zfs :: "'k zfs_env \<Rightarrow> path \<Rightarrow> 'k \<Rightarrow> bool" where
  "is_zfs Z p k = (case ze_statfs Z p k of Inl e \<Rightarrow> False | Inr t \<Rightarrow> t = ZFS_SUPER_MAGIC)"

definition zfs_cmd :: "'k zfs_env \<Rightarrow> string \<Rightarrow> string list \<Rightarrow> 'k \<Rightarrow> u8 list res" where
  "zfs_cmd Z cmd args k =
     rbind (with_context ''run (is ZFS installed and in PATH?)'' (from_io (ze_command Z cmd args k))) (\<lambda>out.
     if \<not> co_success out then Inl (Fail [Message ''failed''])
     else Inr (utf8_lossy (co_stdout out)))"

text \<open>One line of the command's output; what is printed for a pool that is left out is not modelled.\<close>

definition add_pool :: "u8 list \<times> u8 list \<Rightarrow> u8 list set \<Rightarrow> u8 list set" where
  "add_pool = (\<lambda>(p, v) pools.
     if v = bytes ''active'' \<or> v = bytes ''enabled'' then insert p pools else pools)"

definition pools_of :: "u8 list \<Rightarrow> u8 list set" where
  "pools_of out = fold add_pool (List.map_filter (split_once [TAB]) (str_lines out)) {}"

definition cloneable_pools :: "'k zfs_env \<Rightarrow> 'k \<Rightarrow> u8 list set res" where
  "cloneable_pools Z k =
     rbind (with_context ''query block_cloning pool feature (requires OpenZFS 2.2+)''
       (zfs_cmd Z ''zpool'' [''get'', ''-H'', ''-o'', ''name,value'', ''feature@block_cloning''] k)) (\<lambda>out.
     Inr (pools_of out))"

definition zfs_mountpoints :: "u8 list \<Rightarrow> u8 list set \<Rightarrow> path list" where
  "zfs_mountpoints mountinfo pools =
     map mn_point (filter (\<lambda>m. mn_fstype m = bytes ''zfs'' \<and> mn_root m = components (bytes ''/'') \<and>
         (case iter_next (split_on SLASH (mn_source m)) of
            Some (pool, _) \<Rightarrow> pool \<in> pools | None \<Rightarrow> mn_source m \<in> pools))
       (List.map_filter parse_mountinfo (str_lines mountinfo)))"

definition zfs_mounts :: "'k mount_env \<Rightarrow> 'k zfs_env \<Rightarrow> 'k \<Rightarrow> path list res" where
  "zfs_mounts E Z k =
     rbind (cloneable_pools Z k) (\<lambda>pools.
     rbind (with_context ''read /proc/self/mountinfo'' (from_io (me_mountinfo E k))) (\<lambda>mountinfo.
     Inr (zfs_mountpoints mountinfo pools)))"

definition walk_fsid :: "'k mount_env \<Rightarrow> path \<Rightarrow> 'k \<Rightarrow> u64 res" where
  "walk_fsid E p k = rbind (from_errno (me_statvfs E p k)) (\<lambda>s. Inr (sv_fsid s))"

section \<open>Facts\<close>

lemma in_map_filter: "x \<in> set (List.map_filter f ls) \<longleftrightarrow> (\<exists>l \<in> set ls. f l = Some x)"
  by (induction ls) (auto simp: List.map_filter_simps split: option.split)

lemma pools_of_set:
  "pools_of out = {p. \<exists>l \<in> set (str_lines out). \<exists>v. split_once [TAB] l = Some (p, v) \<and> (v = bytes ''active'' \<or> v = bytes ''enabled'')}"
proof -
  have fold: "fold add_pool xs P = P \<union> {p. \<exists>v. (p, v) \<in> set xs \<and> (v = bytes ''active'' \<or> v = bytes ''enabled'')}" for xs P
    by (induction xs arbitrary: P) (auto simp: add_pool_def split: if_splits)
  show ?thesis by (auto simp: pools_of_def fold in_map_filter)
qed

end
