(* ===== verification/Codec.thy ===== *)
theory Codec imports Prelude begin

text \<open>
  Little-endian fields: \<open>to_le_bytes\<close> and \<open>from_le_bytes\<close> of the standard library's
  integers, and the contract of a fixed-width field codec that the cache's record layout rests
  on.
\<close>

definition le_bytes :: "nat \<Rightarrow> 'a::len word \<Rightarrow> u8 list" where
  "le_bytes n w = map (\<lambda>i. ucast (drop_bit (8 * i) w)) [0..<n]"

definition from_le :: "u8 list \<Rightarrow> 'a::len word" where
  "from_le bs = foldr (\<lambda>b acc. ucast b OR push_bit 8 acc) bs 0"

lemma length_le_bytes [simp]: "length (le_bytes n w) = n"
  by (simp add: le_bytes_def)

lemma bit_from_le:
  "bit (from_le bs :: 'a::len word) i \<longleftrightarrow>
     i < LENGTH('a) \<and> i div 8 < length bs \<and> bit (bs ! (i div 8)) (i mod 8)"
proof (induction bs arbitrary: i)
  case Nil
  then show ?case by (simp add: from_le_def)
next
  case (Cons b bs)
  have step: "from_le (b # bs) = (ucast b OR push_bit 8 (from_le bs) :: 'a word)"
    by (simp add: from_le_def)
  show ?case
  proof (cases "i < 8")
    case True
    then show ?thesis
      by (auto simp: step bit_simps dest: bit_imp_le_length)
  next
    case False
    then have "i div 8 = Suc ((i - 8) div 8)" "(i - 8) mod 8 = i mod 8"
      by (simp_all add: le_div_geq le_mod_geq)
    then show ?thesis
      using False Cons.IH [of "i - 8"]
      by (auto simp: step bit_simps dest: bit_imp_le_length)
  qed
qed

lemma from_le_bytes:
  assumes "LENGTH('a) = 8 * n"
  shows "from_le (le_bytes n w) = (w :: 'a::len word)"
proof (rule bit_word_eqI)
  fix i assume "i < LENGTH('a)"
  then have "i div 8 < n" using assms by (simp add: less_mult_imp_div_less mult.commute)
  then show "bit (from_le (le_bytes n w) :: 'a word) i = bit w i"
    using \<open>i < LENGTH('a)\<close> by (simp add: bit_from_le le_bytes_def bit_simps)
qed

lemma le_bytes_from_le:
  assumes "LENGTH('a) = 8 * n" "length bs = n"
  shows "le_bytes n (from_le bs :: 'a::len word) = bs"
proof (rule nth_equalityI)
  show "length (le_bytes n (from_le bs :: 'a word)) = length bs"
    using assms by simp
  fix i assume "i < length (le_bytes n (from_le bs :: 'a word))"
  then have i: "i < n" by simp
  show "le_bytes n (from_le bs :: 'a word) ! i = bs ! i"
  proof (rule bit_word_eqI)
    fix j assume "j < LENGTH(8)"
    then show "bit (le_bytes n (from_le bs :: 'a word) ! i) j = bit (bs ! i) j"
      using i assms by (simp add: le_bytes_def bit_simps bit_from_le)
  qed
qed

section \<open>The contract of a fixed-width field\<close>

locale field_codec =
  fixes enc :: "'v \<Rightarrow> u8 list" and dec :: "u8 list \<Rightarrow> 'v" and width :: nat
  assumes enc_length: "length (enc v) = width"
    and dec_enc: "dec (enc v) = v"
    and enc_dec: "length bs = width \<Longrightarrow> enc (dec bs) = bs"
begin

lemma enc_inject: "enc v = enc w \<longleftrightarrow> v = w"
  by (metis dec_enc)

lemma dec_field: "dec (slice_of (length pre) width (pre @ enc v @ post)) = v"
  by (simp add: slice_of_def enc_length dec_enc)

lemma enc_field:
  "off + width \<le> length buf \<Longrightarrow> enc (dec (slice_of off width buf)) = slice_of off width buf"
  by (intro enc_dec) simp

end

interpretation u64le: field_codec "le_bytes 8 :: u64 \<Rightarrow> u8 list" from_le 8
  by unfold_locales (simp_all add: from_le_bytes le_bytes_from_le)

interpretation u32le: field_codec "le_bytes 4 :: u32 \<Rightarrow> u8 list" from_le 4
  by unfold_locales (simp_all add: from_le_bytes le_bytes_from_le)

interpretation i128le: field_codec "le_bytes 16 :: i128 \<Rightarrow> u8 list" from_le 16
  by unfold_locales (simp_all add: from_le_bytes le_bytes_from_le)

end
