(* ===== verification/Cache.thy ===== *)
theory Cache imports Codec begin

text \<open>
  \<open>src/cache.rs\<close>: the hash cache. The first half is the byte layout of one entry
  (\<open>encode_into\<close>, \<open>FileEntry::decode\<close>), the second the operations of \<open>Cache\<close> over
  the \<open>redb\<close> database. \<open>redb\<close> is a third-party crate: its calls are the fields of the
  record \<open>redb\<close>, an argument of every cache operation, and \<open>redb_lawful\<close> states the
  documented behaviour the cache relies on, over the table each database or transaction holds.
\<close>

section \<open>Entries and their byte layout\<close>

type_synonym chunk_hash = "u8 list"

definition HASH_LEN :: nat where "HASH_LEN = 16"

text \<open>A \<open>ChunkHash\<close> is a \<open>[u8; HASH_LEN]\<close>: the length is part of the Rust type.\<close>

definition hash_wf :: "chunk_hash \<Rightarrow> bool" where
  "hash_wf h \<longleftrightarrow> length h = HASH_LEN"

record file_entry =
  fe_size :: u64
  fe_mtime_ns :: i128
  fe_ctime_ns :: i128
  fe_blksz :: u32
  fe_hashes :: "chunk_hash list"

record entry_ref =
  er_size :: u64
  er_mtime_ns :: i128
  er_ctime_ns :: i128
  er_blksz :: u32
  er_hashes :: "chunk_hash list"

definition as_ref :: "file_entry \<Rightarrow> entry_ref" where
  "as_ref e = \<lparr>er_size = fe_size e, er_mtime_ns = fe_mtime_ns e, er_ctime_ns = fe_ctime_ns e,
     er_blksz = fe_blksz e, er_hashes = fe_hashes e\<rparr>"

definition entry_matches :: "file_entry \<Rightarrow> u64 \<Rightarrow> i128 \<Rightarrow> i128 \<Rightarrow> u32 \<Rightarrow> bool" where
  "entry_matches e sz mtime_ns ctime_ns blksz \<longleftrightarrow>
     fe_size e = sz \<and> fe_mtime_ns e = mtime_ns \<and> fe_ctime_ns e = ctime_ns \<and> fe_blksz e = blksz"

definition HEADER :: nat where "HEADER = 8 + 16 + 16 + 4"

definition encoded_len :: "entry_ref \<Rightarrow> nat" where
  "encoded_len e = HEADER + length (er_hashes e) * HASH_LEN"

text \<open>
  The loop over \<open>buf[HEADER..].chunks_exact_mut(HASH_LEN).zip(e.hashes)\<close> stops at the
  shorter of the two; \<open>copy_from_slice\<close> panics on a source of another length.
\<close>

fun encode_hashes :: "nat \<Rightarrow> chunk_hash list \<Rightarrow> u8 list \<Rightarrow> u8 list res" where
  "encode_hashes off [] buf = Inr buf"
| "encode_hashes off (h # hs) buf =
     (if length buf < off + HASH_LEN then Inr buf
      else if length h \<noteq> HASH_LEN then Inl Panic
      else rbind (copy_at off h buf) (encode_hashes (off + HASH_LEN) hs))"

definition encode_into :: "u8 list \<Rightarrow> entry_ref \<Rightarrow> u8 list res" where
  "encode_into buf e =
     rbind (copy_at 0 (le_bytes 8 (er_size e)) buf) (\<lambda>buf.
     rbind (copy_at 8 (le_bytes 16 (er_mtime_ns e)) buf) (\<lambda>buf.
     rbind (copy_at 24 (le_bytes 16 (er_ctime_ns e)) buf) (\<lambda>buf.
     rbind (copy_at 40 (le_bytes 4 (er_blksz e)) buf) (\<lambda>buf.
     encode_hashes HEADER (er_hashes e) buf))))"

text \<open>The helper \<open>arr\<close>: a slice as an array of \<open>n\<close> bytes, or a failed \<open>expect\<close>.\<close>

definition arr :: "nat \<Rightarrow> u8 list \<Rightarrow> u8 list res" where
  "arr n b = (if length b = n then Inr b else Inl Panic)"

definition decode :: "u8 list \<Rightarrow> file_entry res" where
  "decode buf =
     (if length buf < HEADER \<or> \<not> HASH_LEN dvd (length buf - HEADER)
      then Inl (Fail [Message ''corrupt cache entry''])
      else
        rbind (rbind (slice_res 0 8 buf) (arr 8)) (\<lambda>size.
        rbind (rbind (slice_res 8 24 buf) (arr 16)) (\<lambda>mtime.
        rbind (rbind (slice_res 24 40 buf) (arr 16)) (\<lambda>ctime.
        rbind (rbind (slice_res 40 44 buf) (arr 4)) (\<lambda>blksz.
        rbind (slice_res HEADER (length buf) buf) (\<lambda>tail.
        rbind (map_res (arr HASH_LEN) (chunks_exact HASH_LEN tail)) (\<lambda>hashes.
        Inr \<lparr>fe_size = from_le size, fe_mtime_ns = from_le mtime, fe_ctime_ns = from_le ctime,
             fe_blksz = from_le blksz, fe_hashes = hashes\<rparr>)))))))"

section \<open>The layout in one piece\<close>

definition entry_header :: "entry_ref \<Rightarrow> u8 list" where
  "entry_header e = le_bytes 8 (er_size e) @ le_bytes 16 (er_mtime_ns e) @
     le_bytes 16 (er_ctime_ns e) @ le_bytes 4 (er_blksz e)"

definition entry_layout :: "entry_ref \<Rightarrow> u8 list" where
  "entry_layout e = entry_header e @ concat (er_hashes e)"

definition entry_wf :: "entry_ref \<Rightarrow> bool" where
  "entry_wf e \<longleftrightarrow> list_all hash_wf (er_hashes e)"

lemma length_entry_header [simp]: "length (entry_header e) = HEADER"
  by (simp add: entry_header_def HEADER_def)

lemma length_concat_hashes:
  "list_all hash_wf hs \<Longrightarrow> length (concat hs) = length hs * HASH_LEN"
  by (induction hs) (auto simp: hash_wf_def)

lemma copy_at_append:
  "off = length pre \<Longrightarrow> length ys \<le> length rest \<Longrightarrow>
   copy_at off ys (pre @ rest) = Inr ((pre @ ys) @ drop (length ys) rest)"
  by (simp add: copy_at_def overwrite_def)

lemma encode_hashes_layout:
  "list_all hash_wf hs \<Longrightarrow> off = length pre \<Longrightarrow> length rest = length hs * HASH_LEN \<Longrightarrow>
   encode_hashes off hs (pre @ rest) = Inr (pre @ concat hs)"
proof (induction hs arbitrary: off pre rest)
  case Nil
  then show ?case by simp
next
  case (Cons h hs)
  have "length h = HASH_LEN" using Cons.prems by (simp add: hash_wf_def)
  then show ?case
    using Cons.prems Cons.IH [of "off + HASH_LEN" "pre @ h" "drop HASH_LEN rest"]
    by (simp add: copy_at_append)
qed

lemma encode_into_layout:
  assumes "entry_wf e" "length buf = encoded_len e"
  shows "encode_into buf e = Inr (entry_layout e)"
proof -
  have buf: "buf = [] @ buf" by simp
  show ?thesis
    using assms
    unfolding encode_into_def
    apply (subst buf)
    apply (simp add: copy_at_append encoded_len_def HEADER_def del: append_assoc append_Nil)
    apply (subst encode_hashes_layout)
    apply (simp_all add: entry_wf_def entry_layout_def entry_header_def)
    done
qed

lemma length_entry_layout: "entry_wf e \<Longrightarrow> length (entry_layout e) = encoded_len e"
  by (simp add: entry_layout_def encoded_len_def entry_wf_def length_concat_hashes)

lemma arr_ok [simp]: "length b = n \<Longrightarrow> arr n b = Inr b"
  by (simp add: arr_def)

text \<open>On a buffer of an accepted length, decoding reads the fields of the layout.\<close>

lemma decode_eq:
  assumes "HEADER \<le> length buf" "HASH_LEN dvd (length buf - HEADER)"
  shows "decode buf = Inr
    \<lparr>fe_size = from_le (slice_of 0 8 buf), fe_mtime_ns = from_le (slice_of 8 16 buf),
     fe_ctime_ns = from_le (slice_of 24 16 buf), fe_blksz = from_le (slice_of 40 4 buf),
     fe_hashes = chunks_exact HASH_LEN (drop HEADER buf)\<rparr>"
proof -
  have "map_res (arr HASH_LEN) (chunks_exact HASH_LEN (drop HEADER buf)) =
      Inr (map id (chunks_exact HASH_LEN (drop HEADER buf)))"
    by (rule map_res_Inr) (auto dest: chunks_exact_length)
  moreover have "slice_of HEADER (length buf - HEADER) buf = drop HEADER buf"
    by (simp add: slice_of_def)
  ultimately show ?thesis
    using assms by (simp add: decode_def slice_res_def HEADER_def)
qed

lemma decode_layout:
  assumes "entry_wf (as_ref e)"
  shows "decode (entry_layout (as_ref e)) = Inr e"
proof -
  let ?b = "entry_layout (as_ref e)"
  have len: "length ?b = HEADER + length (fe_hashes e) * HASH_LEN"
    using length_entry_layout [OF assms] by (simp add: encoded_len_def as_ref_def)
  have hs: "chunks_exact HASH_LEN (concat (fe_hashes e)) = fe_hashes e"
    using assms by (intro chunks_exact_concat)
      (auto simp: HASH_LEN_def entry_wf_def hash_wf_def list_all_iff as_ref_def)
  have "drop HEADER ?b = concat (fe_hashes e)"
    by (simp add: entry_layout_def as_ref_def)
  then show ?thesis
    using len hs
    by (subst decode_eq)
       (simp_all add: entry_layout_def entry_header_def as_ref_def slice_of_def
          u64le.dec_enc i128le.dec_enc u32le.dec_enc)
qed

lemma layout_decode:
  assumes "decode buf = Inr e"
  shows "entry_layout (as_ref e) = buf" and "entry_wf (as_ref e)"
proof -
  have len: "HEADER \<le> length buf" "HASH_LEN dvd (length buf - HEADER)"
    using assms by (auto simp: decode_def split: if_splits)
  note eq = decode_eq [OF len, unfolded assms, simplified]
  have "concat (chunks_exact HASH_LEN (drop HEADER buf)) = drop HEADER buf"
    using len by (intro concat_chunks_exact) (auto simp: HASH_LEN_def)
  moreover have "slice_of 0 8 buf @ slice_of 8 16 buf @ slice_of 24 16 buf @ slice_of 40 4 buf
      = take HEADER buf"
    by (simp only: HEADER_def slice_of_def take_add drop_drop) simp
  ultimately show "entry_layout (as_ref e) = buf"
    using len
    by (simp add: eq entry_layout_def entry_header_def as_ref_def HEADER_def
        u64le.enc_field i128le.enc_field u32le.enc_field flip: append_assoc)
  show "entry_wf (as_ref e)"
    by (auto simp: eq entry_wf_def as_ref_def list_all_iff hash_wf_def dest: chunks_exact_length)
qed

lemma decode_error:
  "length buf < HEADER \<or> \<not> HASH_LEN dvd (length buf - HEADER) \<Longrightarrow>
   decode buf = Inl (Fail [Message ''corrupt cache entry''])"
  by (simp add: decode_def)

end
