(* ===== verification/CacheDb.thy ===== *)
theory CacheDb imports Cache begin

text \<open>
  The operations of \<open>Cache\<close> in \<open>src/cache.rs\<close> over the \<open>redb\<close> database. Every
  operation takes the database's calls as a record of functions, runs one transaction, and
  returns the committed database or the first error; on an error the transaction is dropped and
  the caller keeps the database it had.
\<close>

type_synonym cache_key = "u64 \<times> u64"

text \<open>
  \<open>redb\<close>'s calls, over databases \<open>'db\<close> and transactions with their open table \<open>'tx\<close>.
  \<open>insert_reserve\<close> hands out a buffer of the requested length, which \<open>rd_fill\<close> writes
  back when the guard is dropped. \<open>retain\<close> calls its closure, which has a counter of its
  own, on each entry.
\<close>

record ('db, 'tx) redb =
  rd_create :: "u8 list \<Rightarrow> nat \<Rightarrow> anyhow + 'db"
  rd_begin_read :: "'db \<Rightarrow> anyhow + 'tx"
  rd_begin_write :: "'db \<Rightarrow> anyhow + 'tx"
  rd_open_table :: "'tx \<Rightarrow> anyhow + 'tx"
  rd_get :: "'tx \<Rightarrow> cache_key \<Rightarrow> anyhow + u8 list option"
  rd_insert_reserve :: "'tx \<Rightarrow> cache_key \<Rightarrow> nat \<Rightarrow> anyhow + u8 list \<times> 'tx"
  rd_fill :: "'tx \<Rightarrow> cache_key \<Rightarrow> u8 list \<Rightarrow> 'tx"
  rd_retain :: "'tx \<Rightarrow> (cache_key \<Rightarrow> u8 list \<Rightarrow> nat res \<Rightarrow> bool \<times> nat res) \<Rightarrow> nat res
                  \<Rightarrow> anyhow + nat res \<times> 'tx"
  rd_commit :: "'db \<Rightarrow> 'tx \<Rightarrow> anyhow + 'db"
  rd_stats :: "'tx \<Rightarrow> anyhow + u64 \<times> u64"
  rd_abort :: "'tx \<Rightarrow> anyhow + unit"
  rd_compact :: "'db \<Rightarrow> anyhow + bool \<times> 'db"

section \<open>The cache's operations\<close>

definition cache_open :: "('db, 'tx) redb \<Rightarrow> u8 list \<Rightarrow> 'db res" where
  "cache_open R path =
     rbind (from_anyhow (rd_create R path (64 * 2 ^ 20))) (\<lambda>db.
     rbind (from_anyhow (rd_begin_write R db)) (\<lambda>tx.
     rbind (from_anyhow (rd_open_table R tx)) (\<lambda>tx.
     from_anyhow (rd_commit R db tx))))"

definition cache_get :: "('db, 'tx) redb \<Rightarrow> 'db \<Rightarrow> u64 \<Rightarrow> u64 \<Rightarrow> file_entry option res" where
  "cache_get R db fsid ino =
     rbind (from_anyhow (rd_begin_read R db)) (\<lambda>tx.
     rbind (from_anyhow (rd_open_table R tx)) (\<lambda>table.
     rbind (from_anyhow (rd_get R table (fsid, ino))) (\<lambda>v.
     case v of
       Some bytes \<Rightarrow>
         rbind (with_context ''delete to rebuild the cache'' (decode bytes)) (\<lambda>e. Inr (Some e))
     | None \<Rightarrow> Inr None)))"

definition put_one :: "('db, 'tx) redb \<Rightarrow> u64 \<times> u64 \<times> entry_ref \<Rightarrow> 'tx \<Rightarrow> 'tx res" where
  "put_one R = (\<lambda>(fsid, ino, e) table.
     rbind (from_anyhow (rd_insert_reserve R table (fsid, ino) (encoded_len e))) (\<lambda>(g, table).
     rbind (encode_into g e) (\<lambda>g. Inr (rd_fill R table (fsid, ino) g))))"

definition cache_put_many ::
    "('db, 'tx) redb \<Rightarrow> 'db \<Rightarrow> (u64 \<times> u64 \<times> entry_ref) list \<Rightarrow> 'db res" where
  "cache_put_many R db entries =
     rbind (from_anyhow (rd_begin_write R db)) (\<lambda>tx.
     rbind (from_anyhow (rd_open_table R tx)) (\<lambda>table.
     rbind (fold_res (put_one R) entries table) (\<lambda>tx.
     from_anyhow (rd_commit R db tx))))"

definition cache_put :: "('db, 'tx) redb \<Rightarrow> 'db \<Rightarrow> u64 \<Rightarrow> u64 \<Rightarrow> entry_ref \<Rightarrow> 'db res" where
  "cache_put R db fsid ino e = cache_put_many R db [(fsid, ino, e)]"

text \<open>
  The closure of \<open>prune\<close>: an entry of a dataset outside \<open>fsids\<close> is kept without asking
  \<open>seen\<close>. The counter holds a panic of \<open>seen\<close>, which aborts the transaction.
\<close>

definition prune_keep ::
    "(u64 \<Rightarrow> u64 \<Rightarrow> bool res) \<Rightarrow> u64 set \<Rightarrow> cache_key \<Rightarrow> u8 list \<Rightarrow> nat res \<Rightarrow> bool \<times> nat res" where
  "prune_keep seen fsids = (\<lambda>(fsid, ino) _ removed.
     case removed of Inl e \<Rightarrow> (True, Inl e)
     | Inr n \<Rightarrow>
         (case (if fsid \<notin> fsids then Inr True else seen fsid ino) of
            Inl e \<Rightarrow> (True, Inl e)
          | Inr keep \<Rightarrow> (keep, Inr (if keep then n else Suc n))))"

definition cache_prune ::
    "('db, 'tx) redb \<Rightarrow> 'db \<Rightarrow> (u64 \<Rightarrow> u64 \<Rightarrow> bool res) \<Rightarrow> u64 set \<Rightarrow> (nat \<times> 'db) res" where
  "cache_prune R db seen fsids =
     rbind (from_anyhow (rd_begin_write R db)) (\<lambda>tx.
     rbind (from_anyhow (rd_open_table R tx)) (\<lambda>table.
     rbind (from_anyhow (rd_retain R table (prune_keep seen fsids) (Inr 0))) (\<lambda>(removed, tx).
     rbind removed (\<lambda>n.
     rbind (from_anyhow (rd_commit R db tx)) (\<lambda>db. Inr (n, db))))))"

text \<open>The file's length comes from the OS, the live bytes from an aborted write transaction.\<close>

definition bloated :: "u64 \<Rightarrow> u64 \<Rightarrow> bool" where
  "bloated file used \<longleftrightarrow>
     saturating_mul used 2 < file \<and> 16 * 2 ^ 20 < saturating_sub file used"

definition compact_if_bloated ::
    "('db, 'tx) redb \<Rightarrow> io_error + u64 \<Rightarrow> 'db \<Rightarrow> (bool \<times> 'db) res" where
  "compact_if_bloated R file_len db =
     rbind (from_io file_len) (\<lambda>file.
     rbind (from_anyhow (rd_begin_write R db)) (\<lambda>tx.
     rbind (from_anyhow (rd_stats R tx)) (\<lambda>(stored, metadata).
     rbind (from_anyhow (rd_abort R tx)) (\<lambda>_.
     if bloated file (stored + metadata) then from_anyhow (rd_compact R db)
     else Inr (False, db)))))"

section \<open>What the cache relies on\<close>

text \<open>\<open>retain\<close> visits the keys \<open>ks\<close> in turn and drops those its closure rejects.\<close>

fun retain_run ::
    "(cache_key \<Rightarrow> u8 list \<Rightarrow> nat res \<Rightarrow> bool \<times> nat res) \<Rightarrow> (cache_key \<rightharpoonup> u8 list) \<Rightarrow>
     cache_key list \<Rightarrow> nat res \<Rightarrow> nat res \<times> (cache_key \<rightharpoonup> u8 list)" where
  "retain_run f m [] s = (s, m)"
| "retain_run f m (k # ks) s =
     (let (keep, s') = f k (the (m k)) s
      in retain_run f (if keep then m else m(k := None)) ks s')"

text \<open>
  The documented behaviour of \<open>redb\<close>: a transaction starts from the database's table and
  commits to it, \<open>get\<close> looks a key up, \<open>insert_reserve\<close> gives a buffer of the length
  asked for whose contents become the key's value, and \<open>retain\<close> visits every entry once.
  Any call may fail.
\<close>

definition redb_lawful ::
    "('db, 'tx) redb \<Rightarrow> ('db \<Rightarrow> cache_key \<rightharpoonup> u8 list) \<Rightarrow> ('tx \<Rightarrow> cache_key \<rightharpoonup> u8 list) \<Rightarrow> bool" where
  "redb_lawful R tab ttab \<longleftrightarrow>
     (\<forall>db tx. rd_begin_read R db = Inr tx \<longrightarrow> ttab tx = tab db) \<and>
     (\<forall>db tx. rd_begin_write R db = Inr tx \<longrightarrow> ttab tx = tab db) \<and>
     (\<forall>tx tx'. rd_open_table R tx = Inr tx' \<longrightarrow> ttab tx' = ttab tx) \<and>
     (\<forall>tx k v. rd_get R tx k = Inr v \<longrightarrow> v = ttab tx k) \<and>
     (\<forall>tx k n g tx'. rd_insert_reserve R tx k n = Inr (g, tx') \<longrightarrow>
        length g = n \<and> (\<forall>bs. length bs = n \<longrightarrow> ttab (rd_fill R tx' k bs) = (ttab tx)(k \<mapsto> bs))) \<and>
     (\<forall>tx f s s' tx'. rd_retain R tx f s = Inr (s', tx') \<longrightarrow>
        (\<exists>ks. distinct ks \<and> set ks = dom (ttab tx) \<and> retain_run f (ttab tx) ks s = (s', ttab tx'))) \<and>
     (\<forall>db tx db'. rd_commit R db tx = Inr db' \<longrightarrow> tab db' = ttab tx)"

lemma redb_lawfulD:
  assumes "redb_lawful R tab ttab"
  shows "rd_begin_read R db = Inr tx \<Longrightarrow> ttab tx = tab db"
    and "rd_begin_write R db = Inr tx \<Longrightarrow> ttab tx = tab db"
    and "rd_open_table R tx = Inr tx' \<Longrightarrow> ttab tx' = ttab tx"
    and "rd_get R tx k = Inr v \<Longrightarrow> v = ttab tx k"
    and "rd_insert_reserve R tx k n = Inr (g, tx') \<Longrightarrow> length g = n"
    and "rd_insert_reserve R tx k n = Inr (g, tx') \<Longrightarrow> length bs = n \<Longrightarrow>
           ttab (rd_fill R tx' k bs) = (ttab tx)(k \<mapsto> bs)"
    and "rd_retain R tx f s = Inr (s', tx') \<Longrightarrow>
           \<exists>ks. distinct ks \<and> set ks = dom (ttab tx) \<and> retain_run f (ttab tx) ks s = (s', ttab tx')"
    and "rd_commit R db tx = Inr db' \<Longrightarrow> tab db' = ttab tx"
  using assms by (simp_all add: redb_lawful_def del: split_paired_All)

section \<open>The table after each operation\<close>

text \<open>The entries a table holds, as the cache's callers see them.\<close>

definition entries_of :: "(cache_key \<rightharpoonup> u8 list) \<Rightarrow> cache_key \<rightharpoonup> file_entry" where
  "entries_of m k = (case m k of None \<Rightarrow> None
     | Some bytes \<Rightarrow> (case decode bytes of Inl e \<Rightarrow> None | Inr e \<Rightarrow> Some e))"

lemma cache_get_ok:
  assumes "redb_lawful R tab ttab" "cache_get R db fsid ino = Inr v"
  shows "v = entries_of (tab db) (fsid, ino)"
  using assms(2)
  by (auto simp: cache_get_def res_simps entries_of_def redb_lawfulD(1,3) [OF assms(1)]
      dest!: redb_lawfulD(4) [OF assms(1)] split: option.splits)

definition put_key :: "u64 \<times> u64 \<times> entry_ref \<Rightarrow> cache_key" where
  "put_key = (\<lambda>(fsid, ino, e). (fsid, ino))"

definition put_value :: "u64 \<times> u64 \<times> entry_ref \<Rightarrow> entry_ref" where
  "put_value = (\<lambda>(fsid, ino, e). e)"

lemma put_one_ok:
  assumes "redb_lawful R tab ttab" "entry_wf (put_value x)" "put_one R x tx = Inr tx'"
  shows "ttab tx' = (ttab tx)(put_key x \<mapsto> entry_layout (put_value x))"
proof -
  obtain fsid ino e where x: "x = (fsid, ino, e)" by (cases x) auto
  obtain g t where g: "rd_insert_reserve R tx (fsid, ino) (encoded_len e) = Inr (g, t)"
      and enc: "rbind (encode_into g e) (\<lambda>g. Inr (rd_fill R t (fsid, ino) g)) = Inr tx'"
    using assms(3) by (auto simp: put_one_def x res_simps)
  have wf: "entry_wf e" using assms(2) by (simp add: x put_value_def)
  have "encode_into g e = Inr (entry_layout e)"
    using encode_into_layout [OF wf] redb_lawfulD(5) [OF assms(1) g] by simp
  then have "tx' = rd_fill R t (fsid, ino) (entry_layout e)" using enc by simp
  then show ?thesis
    using redb_lawfulD(6) [OF assms(1) g] length_entry_layout [OF wf]
    by (simp add: x put_key_def put_value_def)
qed

lemma put_fold_ok:
  assumes "redb_lawful R tab ttab" "list_all (entry_wf \<circ> put_value) xs"
    "fold_res (put_one R) xs tx = Inr tx'"
  shows "ttab tx' = ttab tx ++ map_of (rev (map (\<lambda>x. (put_key x, entry_layout (put_value x))) xs))"
  using assms(2,3)
proof (induction xs arbitrary: tx)
  case Nil
  then show ?case by simp
next
  case (Cons x xs)
  obtain t where t: "put_one R x tx = Inr t" "fold_res (put_one R) xs t = Inr tx'"
    using Cons.prems by (auto simp: res_simps)
  then show ?case
    using Cons.IH [OF _ t(2)] Cons.prems(1) put_one_ok [OF assms(1) _ t(1)]
    by (auto simp: fun_eq_iff map_add_def split: option.splits)
qed

lemma cache_put_many_table:
  assumes "redb_lawful R tab ttab" "list_all (entry_wf \<circ> put_value) xs"
    "cache_put_many R db xs = Inr db'"
  shows "tab db' = tab db ++ map_of (rev (map (\<lambda>x. (put_key x, entry_layout (put_value x))) xs))"
proof -
  obtain tx t t' where run:
    "rd_begin_write R db = Inr tx" "rd_open_table R tx = Inr t"
    "fold_res (put_one R) xs t = Inr t'" "rd_commit R db t' = Inr db'"
    using assms(3) by (auto simp: cache_put_many_def res_simps)
  have "ttab t = tab db"
    using redb_lawfulD(2) [OF assms(1) run(1)] redb_lawfulD(3) [OF assms(1) run(2)] by simp
  then show ?thesis
    using put_fold_ok [OF assms(1,2) run(3)] redb_lawfulD(8) [OF assms(1) run(4)] by simp
qed

text \<open>The \<open>seen\<close> closure never panics here: its answers are those of \<open>keep\<close>.\<close>

lemma retain_run_prune:
  assumes "\<And>f i. f \<in> fsids \<Longrightarrow> seen f i = Inr (keep f i)" "distinct ks"
  shows "retain_run (prune_keep seen fsids) m ks (Inr n) =
    (Inr (n + length (filter (\<lambda>(f, i). f \<in> fsids \<and> \<not> keep f i) ks)),
     \<lambda>(f, i). if (f, i) \<in> set ks \<and> f \<in> fsids \<and> \<not> keep f i then None else m (f, i))"
  using assms(2)
proof (induction ks arbitrary: m n)
  case Nil
  then show ?case by (simp add: fun_eq_iff)
next
  case (Cons k ks)
  obtain f i where k: "k = (f, i)" by (cases k)
  show ?case
    using Cons.prems Cons.IH
    by (auto simp: k prune_keep_def assms(1) fun_eq_iff)
qed

lemma cache_prune_table:
  assumes "redb_lawful R tab ttab" "\<And>f i. f \<in> fsids \<Longrightarrow> seen f i = Inr (keep f i)"
    "cache_prune R db seen fsids = Inr (n, db')"
  shows "tab db' = (\<lambda>(f, i). if f \<in> fsids \<and> \<not> keep f i then None else tab db (f, i))"
    and "n = card {(f, i). (f, i) \<in> dom (tab db) \<and> f \<in> fsids \<and> \<not> keep f i}"
proof -
  obtain tx t s t' where
    run: "rd_begin_write R db = Inr tx" "rd_open_table R tx = Inr t"
    "rd_retain R t (prune_keep seen fsids) (Inr 0) = Inr (s, t')" "s = Inr n"
    "rd_commit R db t' = Inr db'"
    using assms(3) by (auto simp: cache_prune_def res_simps)
  obtain ks where ks: "distinct ks" "set ks = dom (ttab t)"
    "retain_run (prune_keep seen fsids) (ttab t) ks (Inr 0) = (s, ttab t')"
    using redb_lawfulD(7) [OF assms(1) run(3)] by blast
  have tab: "ttab t = tab db"
    using redb_lawfulD(2) [OF assms(1) run(1)] redb_lawfulD(3) [OF assms(1) run(2)] by simp
  have eq: "n = length (filter (\<lambda>(f, i). f \<in> fsids \<and> \<not> keep f i) ks)"
    "ttab t' = (\<lambda>(f, i). if (f, i) \<in> set ks \<and> f \<in> fsids \<and> \<not> keep f i then None else tab db (f, i))"
    using ks(3) run(4) by (simp_all add: retain_run_prune [OF assms(2) ks(1)] tab)
  show "tab db' = (\<lambda>(f, i). if f \<in> fsids \<and> \<not> keep f i then None else tab db (f, i))"
    using eq(2) ks(2) redb_lawfulD(8) [OF assms(1) run(5)]
    by (auto simp: fun_eq_iff tab dom_def)
  have "n = card (set (filter (\<lambda>(f, i). f \<in> fsids \<and> \<not> keep f i) ks))"
    using distinct_card [OF distinct_filter [OF ks(1)]] eq(1) by simp
  also have "set (filter (\<lambda>(f, i). f \<in> fsids \<and> \<not> keep f i) ks) =
      {(f, i). (f, i) \<in> dom (tab db) \<and> f \<in> fsids \<and> \<not> keep f i}"
    using ks(2) by (auto simp: tab)
  finally show "n = card {(f, i). (f, i) \<in> dom (tab db) \<and> f \<in> fsids \<and> \<not> keep f i}" .
qed

lemma entries_of_layout:
  "entry_wf (as_ref e) \<Longrightarrow> m k = Some (entry_layout (as_ref e)) \<Longrightarrow> entries_of m k = Some e"
  by (simp add: entries_of_def decode_layout)

end
