(* ===== verification/PathTable.thy ===== *)
theory PathTable imports StdPath begin

text \<open>
  The prefix-compressed path store of \<open>src/walk.rs\<close>: \<open>PathTable\<close> interns every
  directory as (parent id, basename) over one byte arena, \<open>Paths\<close> adds files as
  (directory id, basename, payload). Ids and offsets are \<open>u32\<close>: a conversion that does not
  fit panics, \<open>off + len\<close> wraps, and a slice out of range panics. Following parents is a
  loop that need not end on an arbitrary table, so its result is optional; the invariant shows
  that it returns.
\<close>

record dir =
  d_parent :: u32
  d_off :: u32
  d_len :: u32

record path_table =
  pt_arena :: "u8 list"
  pt_dirs :: "dir list"
  pt_ids :: "path \<rightharpoonup> u32"

definition NO_PARENT :: u32 where "NO_PARENT = - 1"

definition table_empty :: path_table where
  "table_empty = \<lparr>pt_arena = [], pt_dirs = [], pt_ids = Map.empty\<rparr>"

definition u32_try_from :: "nat \<Rightarrow> u32 option" where
  "u32_try_from n = (if n < 2 ^ 32 then Some (of_nat n) else None)"

definition add_name :: "path_table \<Rightarrow> u8 list \<Rightarrow> ((u32 \<times> u32) \<times> path_table) res" where
  "add_name t name =
     rbind (expect (u32_try_from (length (pt_arena t)))) (\<lambda>off.
     Inr ((off, of_nat (length name)), t\<lparr>pt_arena := pt_arena t @ name\<rparr>))"

definition table_name :: "path_table \<Rightarrow> u32 \<Rightarrow> u32 \<Rightarrow> u8 list res" where
  "table_name t off len = slice_res (unat off) (unat (off + len)) (pt_arena t)"

text \<open>Lines 59 to 64 of \<open>intern\<close>: the new entry, for either kind of path.\<close>

definition push_dir :: "path_table \<Rightarrow> path \<Rightarrow> u32 \<Rightarrow> u8 list \<Rightarrow> (u32 \<times> path_table) res" where
  "push_dir t p parent name =
     rbind (add_name t name) (\<lambda>((off, len), t).
     rbind (expect (u32_try_from (length (pt_dirs t)))) (\<lambda>i.
     rbind (assert_that (i \<noteq> NO_PARENT)) (\<lambda>_.
     Inr (i, t\<lparr>pt_dirs := pt_dirs t @ [\<lparr>d_parent = parent, d_off = off, d_len = len\<rparr>],
               pt_ids := (pt_ids t)(p \<mapsto> i)\<rparr>))))"

function intern :: "path_table \<Rightarrow> path \<Rightarrow> (u32 \<times> path_table) res" where
  "intern t p =
     (case pt_ids t p of
        Some i \<Rightarrow> Inr (i, t)
      | None \<Rightarrow>
          (case (path_parent p, path_file_name p) of
             (Some par, Some name) \<Rightarrow>
               rbind (intern t par) (\<lambda>(parent, t). push_dir t p parent name)
           | _ \<Rightarrow> push_dir t p NO_PARENT (as_os_str p)))"
  by pat_completeness auto
termination
  by (relation "measure (\<lambda>(t, p). length p)")
     (auto simp: path_parent_def split: if_splits)

declare intern.simps [simp del]

text \<open>The two loops of \<open>dir_path\<close>: collect the pieces up to a root, then push them in reverse.\<close>

partial_function (option) dir_parts ::
    "dir list \<Rightarrow> u32 \<Rightarrow> (u32 \<times> u32) list \<Rightarrow> (u32 \<times> u32) list res option" where
  "dir_parts dirs i parts =
     (if i = NO_PARENT then Some (Inr parts)
      else if unat i < length dirs
      then dir_parts dirs (d_parent (dirs ! unat i))
             (parts @ [(d_off (dirs ! unat i), d_len (dirs ! unat i))])
      else Some (Inl Panic))"

definition push_parts :: "path_table \<Rightarrow> (u32 \<times> u32) list \<Rightarrow> path \<Rightarrow> path res" where
  "push_parts t = fold_res (\<lambda>(off, len) p.
     rbind (table_name t off len) (\<lambda>n. Inr (path_push p n)))"

definition dir_path :: "path_table \<Rightarrow> u32 \<Rightarrow> path res option" where
  "dir_path t i =
     map_option (\<lambda>r. rbind r (\<lambda>parts. push_parts t (rev parts) [])) (dir_parts (pt_dirs t) i [])"

definition seal :: "path_table \<Rightarrow> path_table" where
  "seal t = t\<lparr>pt_ids := Map.empty\<rparr>"

section \<open>Files\<close>

record file_path =
  fp_dir :: u32
  fp_off :: u32
  fp_len :: u32

record 'a paths =
  ps_table :: path_table
  ps_files :: "(file_path \<times> 'a) list"

definition paths_empty :: "'a paths" where
  "paths_empty = \<lparr>ps_table = table_empty, ps_files = []\<rparr>"

definition to_path :: "path_table \<Rightarrow> file_path \<Rightarrow> path res option" where
  "to_path t fp = map_option (\<lambda>r. rbind r (\<lambda>p.
     rbind (table_name t (fp_off fp) (fp_len fp)) (\<lambda>n. Inr (path_push p n)))) (dir_path t (fp_dir fp))"

definition paths_path :: "'a paths \<Rightarrow> file_path \<Rightarrow> path res option" where
  "paths_path ps fp = to_path (ps_table ps) fp"

definition paths_push :: "'a paths \<Rightarrow> path \<Rightarrow> u8 list \<Rightarrow> 'a \<Rightarrow> 'a paths res" where
  "paths_push ps parent name payload =
     rbind (intern (ps_table ps) parent) (\<lambda>(dir, t).
     rbind (add_name t name) (\<lambda>((off, len), t).
     Inr \<lparr>ps_table = t,
          ps_files = ps_files ps @ [(\<lparr>fp_dir = dir, fp_off = off, fp_len = len\<rparr>, payload)]\<rparr>))"

text \<open>
  \<open>map_batched\<close>, over a step with a state of its own (the hash cache of
  \<open>hash_files\<close>), which keeps what it did before an error; the step may also not return.
  A batch size of 0 ends the loop at once.
\<close>

function batch_loop ::
    "nat \<Rightarrow> ((file_path \<times> 'a) list \<Rightarrow> 's \<Rightarrow> ((file_path \<times> 'b) list res \<times> 's) option) \<Rightarrow>
     (file_path \<times> 'a) list \<Rightarrow> (file_path \<times> 'b) list \<Rightarrow> 's \<Rightarrow>
     ((file_path \<times> 'b) list res \<times> 's) option" where
  "batch_loop n step files out s =
     (if take n files = [] then Some (Inr out, s)
      else case step (take n files) s of
             None \<Rightarrow> None
           | Some (Inl e, s) \<Rightarrow> Some (Inl e, s)
           | Some (Inr ys, s) \<Rightarrow> batch_loop n step (drop n files) (out @ ys) s)"
  by pat_completeness auto
termination
  by (relation "measure (\<lambda>(n, step, files, out, s). length files)") auto

declare batch_loop.simps [simp del]

definition map_batched ::
    "'a paths \<Rightarrow> nat \<Rightarrow>
     (path_table \<Rightarrow> (file_path \<times> 'a) list \<Rightarrow> 's \<Rightarrow> ((file_path \<times> 'b) list res \<times> 's) option) \<Rightarrow>
     's \<Rightarrow> ('b paths res \<times> 's) option" where
  "map_batched ps batch step s =
     map_option (\<lambda>(r, s). (rbind r (\<lambda>out. Inr \<lparr>ps_table = ps_table ps, ps_files = out\<rparr>), s))
       (batch_loop batch (step (ps_table ps)) (ps_files ps) [] s)"

text \<open>\<open>filter_map\<close>, its closure threading a state (the counters and the filter of \<open>run\<close>).\<close>

fun filter_files ::
    "(file_path \<Rightarrow> 'a \<Rightarrow> 's \<Rightarrow> ('b option \<times> 's) res) \<Rightarrow> (file_path \<times> 'a) list \<Rightarrow> 's \<Rightarrow>
     ((file_path \<times> 'b) list \<times> 's) res" where
  "filter_files f [] s = Inr ([], s)"
| "filter_files f ((p, x) # files) s =
     rbind (f p x s) (\<lambda>(u, s).
     rbind (filter_files f files s) (\<lambda>(rest, s).
     Inr ((case u of None \<Rightarrow> rest | Some y \<Rightarrow> (p, y) # rest), s)))"

definition paths_filter_map ::
    "'a paths \<Rightarrow> (file_path \<Rightarrow> 'a \<Rightarrow> path_table \<Rightarrow> 's \<Rightarrow> ('b option \<times> 's) res) \<Rightarrow> 's \<Rightarrow>
     ('b paths \<times> 's) res" where
  "paths_filter_map ps f s =
     rbind (filter_files (\<lambda>p x. f p x (ps_table ps)) (ps_files ps) s) (\<lambda>(files, s).
     Inr (\<lparr>ps_table = ps_table ps, ps_files = files\<rparr>, s))"

end
