(* ===== verification/PathTableInv.thy ===== *)
theory PathTableInv imports PathTable begin

text \<open>
  The path store keeps what it is given: the interface of an append-only store, the invariant
  of a path table, and the proof that interning a directory and pushing a file meet the
  interface as long as the arena stays under 4 GiB.
\<close>

section \<open>The interface\<close>

text \<open>
  An append-only store hands out a handle for every value it takes; the handle keeps resolving
  to a view of that value, whatever is added later, in every state that \<open>fits\<close>.
\<close>

locale append_store =
  fixes add :: "'s \<Rightarrow> 'k \<Rightarrow> ('i \<times> 's) res"
    and get :: "'s \<Rightarrow> 'i \<Rightarrow> 'v"
    and live :: "'s \<Rightarrow> 'i \<Rightarrow> bool"
    and inv :: "'s \<Rightarrow> bool"
    and fits :: "'s \<Rightarrow> bool"
    and takes :: "'k \<Rightarrow> bool"
    and view :: "'k \<Rightarrow> 'v"
  assumes add_fits: "add s k = Inr (i, s') \<Longrightarrow> fits s' \<Longrightarrow> fits s"
    and add_inv: "inv s \<Longrightarrow> takes k \<Longrightarrow> add s k = Inr (i, s') \<Longrightarrow> fits s' \<Longrightarrow> inv s'"
    and add_get: "inv s \<Longrightarrow> takes k \<Longrightarrow> add s k = Inr (i, s') \<Longrightarrow> fits s' \<Longrightarrow>
                    live s' i \<and> get s' i = view k"
    and add_keep: "inv s \<Longrightarrow> takes k \<Longrightarrow> add s k = Inr (i, s') \<Longrightarrow> fits s' \<Longrightarrow> live s j \<Longrightarrow>
                     live s' j \<and> get s' j = get s j"
begin

text \<open>Adding a list of values in order, collecting the handles.\<close>

lemma add_all_fits:
  "fold_res (\<lambda>k (is, s). rbind (add s k) (\<lambda>(i, s). Inr (is @ [i], s))) ks (is, s) = Inr (js, s')
   \<Longrightarrow> fits s' \<Longrightarrow> fits s"
  by (induction ks arbitrary: "is" s) (fastforce simp: res_simps dest: add_fits)+

lemma add_all:
  assumes "inv s" "\<And>k. k \<in> set ks \<Longrightarrow> takes k"
    "fold_res (\<lambda>k (is, s). rbind (add s k) (\<lambda>(i, s). Inr (is @ [i], s))) ks (is, s) = Inr (js, s')"
    "fits s'" "\<And>i. i \<in> set is \<Longrightarrow> live s i"
  shows "inv s' \<and> map (get s') js = map (get s) is @ map view ks \<and>
           (\<forall>j. live s j \<longrightarrow> live s' j \<and> get s' j = get s j)"
  using assms
proof (induction ks arbitrary: "is" s)
  case Nil
  then show ?case by simp
next
  case (Cons k ks)
  obtain i t where i: "add s k = Inr (i, t)"
    "fold_res (\<lambda>k (is, s). rbind (add s k) (\<lambda>(i, s). Inr (is @ [i], s))) ks (is @ [i], t) = Inr (js, s')"
    using Cons.prems(3) by (auto simp: res_simps)
  have "fits t" using add_all_fits [OF i(2) Cons.prems(4)] .
  have t: "inv t" "live t i" "get t i = view k"
    "\<And>j. live s j \<Longrightarrow> live t j \<and> get t j = get s j"
    using add_inv [OF Cons.prems(1) _ i(1) \<open>fits t\<close>] add_get [OF Cons.prems(1) _ i(1) \<open>fits t\<close>]
      add_keep [OF Cons.prems(1) _ i(1) \<open>fits t\<close>] Cons.prems(2) by auto
  have "map (get t) is = map (get s) is" using t(4) Cons.prems(5) by simp
  moreover have "inv s' \<and> map (get s') js = map (get t) (is @ [i]) @ map view ks \<and>
      (\<forall>j. live t j \<longrightarrow> live s' j \<and> get s' j = get t j)"
    by (rule Cons.IH [OF t(1) _ i(2) Cons.prems(4)]) (use Cons.prems(2,5) t in auto)
  ultimately show ?case using t by auto
qed

end

section \<open>The invariant of a path table\<close>

definition chain_ok :: "dir list \<Rightarrow> bool" where
  "chain_ok dirs \<longleftrightarrow> length dirs \<le> 2 ^ 32 - 1 \<and>
     (\<forall>i < length dirs. d_parent (dirs ! i) = NO_PARENT \<or> unat (d_parent (dirs ! i)) < i)"

definition names_ok :: "path_table \<Rightarrow> bool" where
  "names_ok t \<longleftrightarrow>
     (\<forall>i < length (pt_dirs t).
        unat (d_off (pt_dirs t ! i)) + unat (d_len (pt_dirs t ! i)) \<le> length (pt_arena t))"

definition table_inv :: "path_table \<Rightarrow> bool" where
  "table_inv t \<longleftrightarrow> chain_ok (pt_dirs t) \<and> names_ok t \<and>
     (\<forall>p i. pt_ids t p = Some i \<longrightarrow>
        i \<noteq> NO_PARENT \<and> unat i < length (pt_dirs t) \<and> dir_path t i = Some (Inr p))"

definition table_fits :: "path_table \<Rightarrow> bool" where
  "table_fits t \<longleftrightarrow> length (pt_arena t) < 2 ^ 32"

text \<open>A later state of a table: its arena and its directories only grow.\<close>

definition grows :: "path_table \<Rightarrow> path_table \<Rightarrow> bool" where
  "grows t t' \<longleftrightarrow> prefix (pt_arena t) (pt_arena t') \<and> prefix (pt_dirs t) (pt_dirs t')"

lemma grows_refl [simp]: "grows t t"
  by (simp add: grows_def)

lemma grows_trans: "grows t u \<Longrightarrow> grows u v \<Longrightarrow> grows t v"
  by (auto simp: grows_def dest: prefix_order.trans)

lemma grows_fits: "grows t t' \<Longrightarrow> table_fits t' \<Longrightarrow> table_fits t"
  by (auto simp: grows_def table_fits_def dest: prefix_length_le)

lemma unat_NO_PARENT: "unat NO_PARENT = 2 ^ 32 - 1"
  by (simp add: NO_PARENT_def unsigned_minus_1_eq_mask mask_eq_exp_minus_1)

lemma unat_ne_NO_PARENT: "unat i < length dirs \<Longrightarrow> length dirs \<le> 2 ^ 32 - 1 \<Longrightarrow> i \<noteq> NO_PARENT"
  using unat_NO_PARENT by auto

lemma table_name_grows:
  assumes "prefix (pt_arena t) (pt_arena t')"
    "unat off + unat len \<le> length (pt_arena t)" "table_fits t"
  shows "table_name t' off len = Inr (slice_of (unat off) (unat len) (pt_arena t))"
    and "table_name t off len = Inr (slice_of (unat off) (unat len) (pt_arena t))"
proof -
  have sum: "unat (off + len) = unat off + unat len"
    using assms(2,3) by (simp add: table_fits_def unat_word_ariths)
  obtain zs where "pt_arena t' = pt_arena t @ zs" using assms(1) by (auto elim: prefixE)
  then show "table_name t' off len = Inr (slice_of (unat off) (unat len) (pt_arena t))"
    using assms(2) by (simp add: table_name_def slice_res_def sum slice_of_def)
  show "table_name t off len = Inr (slice_of (unat off) (unat len) (pt_arena t))"
    using assms(2) by (simp add: table_name_def slice_res_def sum)
qed

text \<open>Following the parents ends, and the table's later states follow the same chain.\<close>

lemma dir_parts_ends:
  assumes "chain_ok dirs" "i = NO_PARENT \<or> unat i < length dirs"
  shows "\<exists>ps. \<forall>acc zs. dir_parts (dirs @ zs) i acc = Some (Inr (acc @ ps))"
  using assms(2)
proof (induction "if i = NO_PARENT then 0 else Suc (unat i)" arbitrary: i rule: less_induct)
  case less
  show ?case
  proof (cases "i = NO_PARENT")
    case True
    then show ?thesis by (auto simp: dir_parts.simps intro: exI [of _ "[]"])
  next
    case False
    then have i: "unat i < length dirs" using less.prems by simp
    let ?d = "dirs ! unat i"
    have par: "d_parent ?d = NO_PARENT \<or> unat (d_parent ?d) < unat i"
      using assms(1) i by (auto simp: chain_ok_def)
    have "\<exists>ps. \<forall>acc zs. dir_parts (dirs @ zs) (d_parent ?d) acc = Some (Inr (acc @ ps))"
      by (rule less.hyps) (use par False i in auto)
    then obtain ps where "\<And>acc zs. dir_parts (dirs @ zs) (d_parent ?d) acc = Some (Inr (acc @ ps))"
      by blast
    then have "dir_parts (dirs @ zs) i acc = Some (Inr (acc @ (d_off ?d, d_len ?d) # ps))" for acc zs
      using False i by (subst dir_parts.simps) (simp add: nth_append)
    then show ?thesis by blast
  qed
qed

lemma dir_path_NO_PARENT: "dir_path t NO_PARENT = Some (Inr [])"
  by (simp add: dir_path_def dir_parts.simps push_parts_def)

lemma dir_path_step:
  assumes "chain_ok (pt_dirs t)" "unat i < length (pt_dirs t)" "pt_dirs t ! unat i = d"
  shows "dir_path t i = map_option (\<lambda>r. rbind r (\<lambda>p.
           rbind (table_name t (d_off d) (d_len d)) (\<lambda>n. Inr (path_push p n)))) (dir_path t (d_parent d))"
proof -
  have i: "i \<noteq> NO_PARENT" using assms(1,2) unat_ne_NO_PARENT by (auto simp: chain_ok_def)
  have "d_parent d = NO_PARENT \<or> unat (d_parent d) < length (pt_dirs t)"
    using assms by (auto simp: chain_ok_def dest!: spec [of _ "unat i"])
  then obtain ps where ps:
    "\<And>acc zs. dir_parts (pt_dirs t @ zs) (d_parent d) acc = Some (Inr (acc @ ps))"
    using dir_parts_ends [OF assms(1)] by blast
  have "dir_parts (pt_dirs t) i [] = Some (Inr ((d_off d, d_len d) # ps))"
    using i assms(2,3) ps [of "[]" "[(d_off d, d_len d)]"] by (subst dir_parts.simps) simp
  moreover have "dir_parts (pt_dirs t) (d_parent d) [] = Some (Inr ps)"
    using ps [of "[]" "[]"] by simp
  ultimately show ?thesis
    by (simp add: dir_path_def push_parts_def fold_res_snoc)
qed

lemma dir_path_grows:
  assumes "grows t t'" "chain_ok (pt_dirs t)" "names_ok t" "chain_ok (pt_dirs t')" "table_fits t"
    "i = NO_PARENT \<or> unat i < length (pt_dirs t)"
  shows "dir_path t' i = dir_path t i"
  using assms(6)
proof (induction "if i = NO_PARENT then 0 else Suc (unat i)" arbitrary: i rule: less_induct)
  case less
  show ?case
  proof (cases "i = NO_PARENT")
    case True
    then show ?thesis by (simp add: dir_path_NO_PARENT)
  next
    case False
    then have i: "unat i < length (pt_dirs t)" using less.prems by simp
    let ?d = "pt_dirs t ! unat i"
    obtain zs where zs: "pt_dirs t' = pt_dirs t @ zs"
      using assms(1) by (auto simp: grows_def elim: prefixE)
    then have i': "unat i < length (pt_dirs t')" and d': "pt_dirs t' ! unat i = ?d"
      using i by (simp_all add: nth_append)
    have par: "d_parent ?d = NO_PARENT \<or> unat (d_parent ?d) < unat i"
      using assms(2) i by (auto simp: chain_ok_def)
    have IH: "dir_path t' (d_parent ?d) = dir_path t (d_parent ?d)"
      by (rule less.hyps) (use par False i in auto)
    have "table_name t' (d_off ?d) (d_len ?d) = table_name t (d_off ?d) (d_len ?d)"
      using table_name_grows [of t t' "d_off ?d" "d_len ?d"] assms(1,3,5) i
      by (simp add: grows_def names_ok_def)
    then show ?thesis
      using IH dir_path_step [OF assms(2) i refl] dir_path_step [OF assms(4) i' d'] by simp
  qed
qed

section \<open>Interning keeps the invariant\<close>

lemma add_name_ok:
  assumes "add_name t name = Inr ((off, len), t')"
  shows "t' = t\<lparr>pt_arena := pt_arena t @ name\<rparr>" "unat off = length (pt_arena t)" "grows t t'"
    and "table_fits t' \<Longrightarrow> unat len = length name"
    and "table_fits t' \<Longrightarrow> table_name t' off len = Inr name"
proof -
  have off: "length (pt_arena t) < 2 ^ 32" "off = of_nat (length (pt_arena t))"
      "len = of_nat (length name)"
    and t': "t' = t\<lparr>pt_arena := pt_arena t @ name\<rparr>"
    using assms by (auto simp: add_name_def res_simps u32_try_from_def split: if_splits)
  show "t' = t\<lparr>pt_arena := pt_arena t @ name\<rparr>" by (rule t')
  show o: "unat off = length (pt_arena t)"
    using off by (simp add: unat_of_nat take_bit_nat_eq_self)
  show "grows t t'" by (simp add: grows_def t')
  assume f: "table_fits t'"
  then show l: "unat len = length name"
    using off by (simp add: table_fits_def t' unat_of_nat take_bit_nat_eq_self)
  show "table_name t' off len = Inr name"
    using table_name_grows(2) [of t' t' off len] o l f by (simp add: t' slice_of_def)
qed

lemma push_dir_ok:
  assumes inv: "table_inv t" and push: "push_dir t p par name = Inr (i, t')" and fits: "table_fits t'"
    and par: "par = NO_PARENT \<or> unat par < length (pt_dirs t)"
    and path: "dir_path t par = Some (Inr q)" "path_push q name = p"
  shows "table_inv t'" "grows t t'" "pt_ids t' p = Some i"
proof -
  obtain off len t1 where nm: "add_name t name = Inr ((off, len), t1)"
    and i: "length (pt_dirs t1) < 2 ^ 32" "i = of_nat (length (pt_dirs t1))" "i \<noteq> NO_PARENT"
    and t': "t' = t1\<lparr>pt_dirs := pt_dirs t1 @ [\<lparr>d_parent = par, d_off = off, d_len = len\<rparr>],
                     pt_ids := (pt_ids t1)(p \<mapsto> i)\<rparr>"
    using push by (auto simp: push_dir_def res_simps u32_try_from_def split: if_splits)
  note t1 = add_name_ok(1) [OF nm]
  have fits1: "table_fits t1" using fits by (simp add: table_fits_def t')
  have n: "unat i = length (pt_dirs t)"
    using i by (simp add: t1 unat_of_nat take_bit_nat_eq_self)
  have "length (pt_dirs t) \<noteq> 2 ^ 32 - 1"
    using n i(3) unat_NO_PARENT unsigned_word_eqI [where ?'a = nat, of i NO_PARENT] by auto
  then have small: "length (pt_dirs t) < 2 ^ 32 - 1"
    using i(1) by (simp add: t1)
  show g: "grows t t'"
    by (simp add: grows_def t' t1)
  have chain: "chain_ok (pt_dirs t)" and names: "names_ok t"
    using inv by (simp_all add: table_inv_def)
  have chain': "chain_ok (pt_dirs t')"
    using chain small par by (auto simp: chain_ok_def t' t1 nth_append less_Suc_eq)
  have names': "names_ok t'"
    using names add_name_ok(2,4) [OF nm] fits1
    by (auto simp: names_ok_def t' t1 nth_append less_Suc_eq intro: trans_le_add1)
  have keep: "dir_path t' j = dir_path t j" if "j = NO_PARENT \<or> unat j < length (pt_dirs t)" for j
    using dir_path_grows [OF g chain names chain' grows_fits [OF g fits] that] .
  have "table_name t' off len = Inr name"
    using add_name_ok(5) [OF nm fits1] by (simp add: t' table_name_def)
  then have "dir_path t' i = Some (Inr p)"
    using dir_path_step [OF chain', of i "\<lparr>d_parent = par, d_off = off, d_len = len\<rparr>"]
      keep [OF par] path n by (simp add: t' t1)
  then show "table_inv t'"
    using inv chain' names' keep n i(3)
    by (auto simp: table_inv_def t' t1 intro: less_SucI)
  show "pt_ids t' p = Some i" by (simp add: t')
qed

lemma push_dir_grows: "push_dir t p par name = Inr (i, t') \<Longrightarrow> grows t t'"
  by (auto simp: push_dir_def res_simps grows_def dest!: add_name_ok(1))

lemma intern_grows: "intern t p = Inr (i, t') \<Longrightarrow> grows t t'"
proof (induction t p arbitrary: i t' rule: intern.induct)
  case (1 t p)
  from "1.prems" consider "t' = t"
    | par name j u where "pt_ids t p = None" "path_parent p = Some par" "path_file_name p = Some name"
        "intern t par = Inr (j, u)" "push_dir u p j name = Inr (i, t')"
    | "push_dir t p NO_PARENT (as_os_str p) = Inr (i, t')"
    by (subst (asm) intern.simps) (auto simp: res_simps split: option.splits)
  then show ?case
  proof cases
    case (2 par name j u)
    then have "grows t u" using "1.IH" by blast
    then show ?thesis using push_dir_grows [OF 2(5)] by (rule grows_trans)
  qed (auto dest: push_dir_grows)
qed

lemma intern_ok:
  assumes "table_inv t" "path_wf p" "intern t p = Inr (i, t')" "table_fits t'"
  shows "table_inv t' \<and> pt_ids t' p = Some i"
  using assms
proof (induction t p arbitrary: i t' rule: intern.induct)
  case (1 t p)
  show ?case
  proof (cases "pt_ids t p")
    case (Some j)
    then show ?thesis using "1.prems" by (simp add: intern.simps [of t p])
  next
    case None
    show ?thesis
    proof (cases "\<exists>par name. path_parent p = Some par \<and> path_file_name p = Some name")
      case True
      then obtain par name where pn: "path_parent p = Some par" "path_file_name p = Some name"
        by blast
      obtain j u where j: "intern t par = Inr (j, u)" and push: "push_dir u p j name = Inr (i, t')"
        using "1.prems"(3) None pn by (auto simp: intern.simps [of t p] res_simps)
      have "table_fits u" using grows_fits [OF push_dir_grows [OF push] "1.prems"(4)] .
      then have u: "table_inv u" "pt_ids u par = Some j"
        using "1.IH" [OF None refl pn(1) pn(2) "1.prems"(1) _ j] path_file_nameD(3) [OF "1.prems"(2) pn]
        by auto
      then have "j \<noteq> NO_PARENT" "unat j < length (pt_dirs u)" "dir_path u j = Some (Inr par)"
        by (auto simp: table_inv_def)
      moreover have "path_push par name = p"
        using path_file_nameD(1,2) [OF "1.prems"(2) pn] path_push_name by simp
      ultimately show ?thesis
        using push_dir_ok [OF u(1) push "1.prems"(4)] by blast
    next
      case False
      then have "push_dir t p NO_PARENT (as_os_str p) = Inr (i, t')"
        using "1.prems"(3) None by (auto simp: intern.simps [of t p] split: option.splits)
      moreover have "path_push [] (as_os_str p) = p"
        using components_as_os_str [OF "1.prems"(2)] by (simp add: path_push_Nil)
      ultimately show ?thesis
        using push_dir_ok [OF "1.prems"(1) _ "1.prems"(4) _ dir_path_NO_PARENT] by blast
    qed
  qed
qed

lemma table_inv_empty: "table_inv table_empty"
  by (simp add: table_inv_def table_empty_def chain_ok_def names_ok_def)

lemma dir_path_later:
  assumes "table_inv t" "table_inv t'" "grows t t'" "table_fits t'" "unat i < length (pt_dirs t)"
  shows "dir_path t' i = dir_path t i"
  using dir_path_grows [OF assms(3)] assms(1,2,5) grows_fits [OF assms(3,4)]
  by (simp add: table_inv_def)

interpretation dirs: append_store intern dir_path "\<lambda>t i. unat i < length (pt_dirs t)"
  table_inv table_fits path_wf "\<lambda>p. Some (Inr p)"
proof unfold_locales
  fix t p i t'
  assume i: "intern t p = Inr (i, t')" and fits: "table_fits t'"
  show "table_fits t" using grows_fits [OF intern_grows [OF i] fits] .
  assume inv: "table_inv t" and wf: "path_wf p"
  show inv': "table_inv t'" using intern_ok [OF inv wf i fits] by simp
  show "unat i < length (pt_dirs t') \<and> dir_path t' i = Some (Inr p)"
    using intern_ok [OF inv wf i fits] by (auto simp: table_inv_def)
  fix j :: u32 assume j: "unat j < length (pt_dirs t)"
  have "length (pt_dirs t) \<le> length (pt_dirs t')"
    using intern_grows [OF i] by (auto simp: grows_def dest: prefix_length_le)
  then show "unat j < length (pt_dirs t') \<and> dir_path t' j = dir_path t j"
    using dir_path_later [OF inv inv' intern_grows [OF i] fits j] j by simp
qed

end
