(* ===== verification/Paths.thy ===== *)
theory Paths imports PathTableInv begin

text \<open>
  \<open>Paths\<close> of \<open>src/walk.rs\<close> over the path table: pushing files keeps the store's
  invariant, and every file keeps resolving to its directory with its name appended. Also
  \<open>FromIterator\<close>, and what the batched and the filtering traversal do to the files.
\<close>

text \<open>\<open>FromIterator\<close>: the parent and the file name of every path, empty where it has none.\<close>

definition paths_from_iter :: "(path \<times> 'a) list \<Rightarrow> 'a paths res" where
  "paths_from_iter xs =
     rbind (fold_res (\<lambda>(p, x) out. paths_push out
              (case path_parent p of None \<Rightarrow> [] | Some par \<Rightarrow> par)
              (case path_file_name p of None \<Rightarrow> [] | Some n \<Rightarrow> n) x) xs paths_empty) (\<lambda>out.
     Inr (out\<lparr>ps_table := seal (ps_table out)\<rparr>))"

section \<open>The store of files\<close>

text \<open>Pushing a file, with its position as the handle.\<close>

definition push_file :: "'a paths \<Rightarrow> path \<times> u8 list \<times> 'a \<Rightarrow> (nat \<times> 'a paths) res" where
  "push_file ps = (\<lambda>(parent, name, x).
     rbind (paths_push ps parent name x) (\<lambda>ps'. Inr (length (ps_files ps), ps')))"

definition file_view :: "'a paths \<Rightarrow> nat \<Rightarrow> path res option \<times> 'a" where
  "file_view ps i = (paths_path ps (fst (ps_files ps ! i)), snd (ps_files ps ! i))"

definition file_ok :: "path_table \<Rightarrow> file_path \<Rightarrow> bool" where
  "file_ok t fp \<longleftrightarrow> unat (fp_dir fp) < length (pt_dirs t) \<and>
     unat (fp_off fp) + unat (fp_len fp) \<le> length (pt_arena t)"

definition paths_inv :: "'a paths \<Rightarrow> bool" where
  "paths_inv ps \<longleftrightarrow> table_inv (ps_table ps) \<and> list_all (file_ok (ps_table ps) \<circ> fst) (ps_files ps)"

lemma file_ok_grows: "file_ok t fp \<Longrightarrow> grows t t' \<Longrightarrow> file_ok t' fp"
  by (auto simp: file_ok_def grows_def dest!: prefix_length_le)

lemma to_path_later:
  assumes "table_inv t" "table_inv t'" "grows t t'" "table_fits t'" "file_ok t fp"
  shows "to_path t' fp = to_path t fp"
proof -
  have "dir_path t' (fp_dir fp) = dir_path t (fp_dir fp)"
    using dir_path_later [OF assms(1-4)] assms(5) by (simp add: file_ok_def)
  moreover have "table_name t' (fp_off fp) (fp_len fp) = table_name t (fp_off fp) (fp_len fp)"
    using table_name_grows [of t t'] assms(3,5) grows_fits [OF assms(3,4)]
    by (simp add: grows_def file_ok_def)
  ultimately show ?thesis by (simp add: to_path_def)
qed

lemma add_name_inv:
  assumes "add_name t name = Inr (ol, t')" "table_inv t" "table_fits t'"
  shows "table_inv t'"
proof -
  obtain off len where nm: "add_name t name = Inr ((off, len), t')"
    using assms(1) by (cases ol) auto
  note t' = add_name_ok(1) [OF nm] and g = add_name_ok(3) [OF nm]
  have ok: "chain_ok (pt_dirs t)" "names_ok t" using assms(2) by (simp_all add: table_inv_def)
  have names: "names_ok t'"
    using ok(2) by (auto simp: names_ok_def t' intro: trans_le_add1)
  have "dir_path t' i = dir_path t i" if "i = NO_PARENT \<or> unat i < length (pt_dirs t)" for i
    using dir_path_grows [OF g ok _ grows_fits [OF g assms(3)] that] ok(1) by (simp add: t')
  then show ?thesis
    using assms(2) names by (auto simp: table_inv_def t')
qed

lemma paths_push_ok:
  assumes push: "paths_push ps parent name x = Inr ps'" and inv: "paths_inv ps"
    and fits: "table_fits (ps_table ps')" and wf: "path_wf parent" "name_ok name"
  shows "paths_inv ps'" "grows (ps_table ps) (ps_table ps')"
    "\<exists>fp. ps_files ps' = ps_files ps @ [(fp, x)] \<and>
          to_path (ps_table ps') fp = Some (Inr (parent @ [Normal name]))"
proof -
  obtain d t off len u where d: "intern (ps_table ps) parent = Inr (d, t)"
    and nm: "add_name t name = Inr ((off, len), u)"
    and ps': "ps' = \<lparr>ps_table = u,
        ps_files = ps_files ps @ [(\<lparr>fp_dir = d, fp_off = off, fp_len = len\<rparr>, x)]\<rparr>"
    using push by (auto simp: paths_push_def res_simps)
  have g1: "grows (ps_table ps) t" and g2: "grows t u"
    using intern_grows [OF d] add_name_ok(3) [OF nm] by simp_all
  show g: "grows (ps_table ps) (ps_table ps')"
    using grows_trans [OF g1 g2] by (simp add: ps')
  have fu: "table_fits u" using fits by (simp add: ps')
  have ft: "table_fits t" using grows_fits [OF g2 fu] .
  have inv0: "table_inv (ps_table ps)" using inv by (simp add: paths_inv_def)
  have d': "unat d < length (pt_dirs t)" "dir_path t d = Some (Inr parent)"
    using dirs.add_get [OF inv0 wf(1) d ft] by auto
  have inv1: "table_inv t" using dirs.add_inv [OF inv0 wf(1) d ft] .
  have inv2: "table_inv u" using add_name_inv [OF nm inv1 fu] .
  have u: "u = t\<lparr>pt_arena := pt_arena t @ name\<rparr>" using add_name_ok(1) [OF nm] .
  have "file_ok u \<lparr>fp_dir = d, fp_off = off, fp_len = len\<rparr>"
    using d' add_name_ok(2,4) [OF nm] fu by (simp add: file_ok_def u)
  then show "paths_inv ps'"
    using inv inv2 file_ok_grows [OF _ g]
    by (auto simp: paths_inv_def ps' list_all_iff)
  have "dir_path u d = Some (Inr parent)"
    using dir_path_later [OF inv1 inv2 g2 fu d'(1)] d'(2) by simp
  then have "to_path u \<lparr>fp_dir = d, fp_off = off, fp_len = len\<rparr> = Some (Inr (parent @ [Normal name]))"
    using add_name_ok(5) [OF nm fu] path_push_name [OF wf(2)] by (simp add: to_path_def)
  then show "\<exists>fp. ps_files ps' = ps_files ps @ [(fp, x)] \<and>
          to_path (ps_table ps') fp = Some (Inr (parent @ [Normal name]))"
    by (simp add: ps')
qed

lemma paths_push_grows: "paths_push ps parent name x = Inr ps' \<Longrightarrow> grows (ps_table ps) (ps_table ps')"
  by (auto simp: paths_push_def res_simps
      dest!: intern_grows add_name_ok(3) intro: grows_trans)

interpretation files: append_store push_file file_view "\<lambda>ps i. i < length (ps_files ps)"
  paths_inv "\<lambda>ps. table_fits (ps_table ps)" "\<lambda>(parent, name, x). path_wf parent \<and> name_ok name"
  "\<lambda>(parent, name, x). (Some (Inr (parent @ [Normal name])), x)"
proof unfold_locales
  fix ps ps' :: "'a paths" and k :: "path \<times> u8 list \<times> 'a" and i
  obtain parent name x where k: "k = (parent, name, x)" by (cases k) auto
  assume add: "push_file ps k = Inr (i, ps')" and fits: "table_fits (ps_table ps')"
  then have push: "paths_push ps parent name x = Inr ps'" and i: "i = length (ps_files ps)"
    by (auto simp: push_file_def k res_simps)
  show "table_fits (ps_table ps)"
    using grows_fits [OF paths_push_grows [OF push] fits] .
  assume inv: "paths_inv ps" and "case k of (parent, name, x) \<Rightarrow> path_wf parent \<and> name_ok name"
  then have wf: "path_wf parent" "name_ok name" by (simp_all add: k)
  note ok = paths_push_ok [OF push inv fits wf]
  show "paths_inv ps'" using ok(1) .
  obtain fp where fp: "ps_files ps' = ps_files ps @ [(fp, x)]"
      "to_path (ps_table ps') fp = Some (Inr (parent @ [Normal name]))"
    using ok(3) by blast
  then show "i < length (ps_files ps') \<and>
      file_view ps' i = (case k of (parent, name, x) \<Rightarrow> (Some (Inr (parent @ [Normal name])), x))"
    by (simp add: i k file_view_def paths_path_def)
  fix j assume j: "j < length (ps_files ps)"
  then have "file_ok (ps_table ps) (fst (ps_files ps ! j))"
    using inv by (auto simp: paths_inv_def list_all_iff)
  then have "to_path (ps_table ps') (fst (ps_files ps ! j)) = to_path (ps_table ps) (fst (ps_files ps ! j))"
    using to_path_later [OF _ _ ok(2) fits] inv ok(1) by (simp add: paths_inv_def)
  then show "j < length (ps_files ps') \<and> file_view ps' j = file_view ps j"
    using j by (simp add: fp(1) file_view_def paths_path_def nth_append)
qed

lemma paths_inv_empty: "paths_inv paths_empty"
  by (simp add: paths_inv_def paths_empty_def table_inv_empty)

text \<open>Sealing drops the interning map only: every path still resolves.\<close>

lemma seal_paths [simp]:
  "dir_path (seal t) i = dir_path t i" "to_path (seal t) fp = to_path t fp"
  "table_fits (seal t) = table_fits t"
proof -
  have "table_name (seal t) off len = table_name t off len" for off len
    by (simp add: table_name_def seal_def)
  then show d: "dir_path (seal t) i = dir_path t i" for i
    by (simp add: dir_path_def push_parts_def seal_def)
  show "to_path (seal t) fp = to_path t fp"
    by (simp add: to_path_def d \<open>\<And>off len. table_name (seal t) off len = table_name t off len\<close>)
  show "table_fits (seal t) = table_fits t" by (simp add: table_fits_def seal_def)
qed

text \<open>What a store of files holds, in order.\<close>

definition paths_list :: "'a paths \<Rightarrow> (path res option \<times> 'a) list" where
  "paths_list ps = map (\<lambda>(fp, x). (paths_path ps fp, x)) (ps_files ps)"

lemma paths_list_view: "paths_list ps = map (file_view ps) [0..<length (ps_files ps)]"
  by (auto simp: paths_list_def file_view_def intro!: nth_equalityI split: prod.splits)

lemma push_all_fold:
  "fold_res (\<lambda>(parent, name, x) ps. paths_push ps parent name x) ks ps = Inr ps' \<Longrightarrow>
   fold_res (\<lambda>k (is, s). rbind (push_file s k) (\<lambda>(i, s). Inr (is @ [i], s))) ks
     ([0..<length (ps_files ps)], ps) = Inr ([0..<length (ps_files ps')], ps')"
proof (induction ks arbitrary: ps)
  case Nil
  then show ?case by simp
next
  case (Cons k ks)
  obtain parent name x where k: "k = (parent, name, x)" by (cases k) auto
  obtain t where t: "paths_push ps parent name x = Inr t"
      "fold_res (\<lambda>(parent, name, x) ps. paths_push ps parent name x) ks t = Inr ps'"
    using Cons.prems by (auto simp: k res_simps)
  have "length (ps_files t) = Suc (length (ps_files ps))"
    using t(1) by (auto simp: paths_push_def res_simps)
  then show ?case using Cons.IH [OF t(2)] by (simp add: k push_file_def t(1))
qed

lemma push_all_list:
  assumes "paths_inv ps" "\<And>parent name x. (parent, name, x) \<in> set ks \<Longrightarrow> path_wf parent \<and> name_ok name"
    "fold_res (\<lambda>(parent, name, x) ps. paths_push ps parent name x) ks ps = Inr ps'"
    "table_fits (ps_table ps')"
  shows "paths_inv ps'"
    and "paths_list ps' = paths_list ps @ map (\<lambda>(parent, name, x). (Some (Inr (parent @ [Normal name])), x)) ks"
  using files.add_all [OF assms(1) _ push_all_fold [OF assms(3)] assms(4)] assms(2)
  by (auto simp: paths_list_view)

section \<open>The traversals\<close>

lemma batch_loop_zero: "batch_loop 0 step files out s = Some (Inr out, s)"
  by (simp add: batch_loop.simps)

text \<open>
  A step that keeps the length and order of its batch gives each file its own result: the
  relation \<open>P\<close> between a file and its result is any that every step establishes, under an
  invariant of the state that the steps keep.
\<close>

lemma batch_loop_all2:
  assumes step: "\<And>chunk s ys s'. I s \<Longrightarrow> set chunk \<subseteq> set files \<Longrightarrow> step chunk s = Some (Inr ys, s') \<Longrightarrow>
      list_all2 P chunk ys \<and> I s'"
    and "0 < n" "I s" "batch_loop n step files out s = Some (Inr ys, s')"
  shows "\<exists>zs. ys = out @ zs \<and> list_all2 P files zs \<and> I s'"
  using assms
proof (induction n step files out s rule: batch_loop.induct)
  case (1 n step files out s)
  show ?case
  proof (cases "files = []")
    case True
    then show ?thesis using "1.prems" by (simp add: batch_loop.simps)
  next
    case False
    then obtain us t where t: "step (take n files) s = Some (Inr us, t)"
      "batch_loop n step (drop n files) (out @ us) t = Some (Inr ys, s')"
      using "1.prems"(2,4)
      by (simp add: batch_loop.simps [of n step files out s] split: option.splits prod.splits sum.splits)
    have us: "list_all2 P (take n files) us" "I t"
      using "1.prems"(1) [OF "1.prems"(3) _ t(1)] by (auto dest: in_set_takeD)
    have "\<exists>zs. ys = (out @ us) @ zs \<and> list_all2 P (drop n files) zs \<and> I s'"
    proof (rule "1.IH" [OF _ t(1) refl refl _ "1.prems"(2) us(2) t(2)])
      show "take n files \<noteq> []" using False "1.prems"(2) by simp
      show "list_all2 P chunk ys \<and> I s'"
        if "I s" "set chunk \<subseteq> set (drop n files)" "step chunk s = Some (Inr ys, s')"
        for chunk s ys s'
        using "1.prems"(1) [OF that(1) _ that(3)] that(2) set_drop_subset [of n files] by blast
    qed
    then obtain zs where "ys = out @ (us @ zs)" "list_all2 P (drop n files) zs" "I s'"
      by auto
    moreover have "list_all2 P (take n files @ drop n files) (us @ zs)"
      using us(1) calculation(2) by (rule list_all2_appendI)
    ultimately show ?thesis by auto
  qed
qed

text \<open>
  The same where what is known of a result depends on the state: \<open>P s\<close> must survive the
  later steps, each of which moves the state along the preorder \<open>le\<close>.
\<close>

lemma batch_loop_state:
  assumes step: "\<And>chunk s ys s'. set chunk \<subseteq> set files \<Longrightarrow> step chunk s = Some (Inr ys, s') \<Longrightarrow>
      list_all2 (P s') chunk ys \<and> le s s'"
    and stable: "\<And>s s' x y. P s x y \<Longrightarrow> le s s' \<Longrightarrow> P s' x y"
    and order: "\<And>s. le s s" "\<And>s t u. le s t \<Longrightarrow> le t u \<Longrightarrow> le s u"
    and "0 < n" "batch_loop n step files out s = Some (Inr ys, s')"
  shows "\<exists>zs. ys = out @ zs \<and> list_all2 (P s') files zs \<and> le s s'"
  using step \<open>0 < n\<close> \<open>batch_loop n step files out s = Some (Inr ys, s')\<close>
proof (induction n step files out s rule: batch_loop.induct)
  case (1 n step files out s)
  show ?case
  proof (cases "files = []")
    case True
    then show ?thesis using "1.prems" order(1) by (simp add: batch_loop.simps)
  next
    case False
    then obtain us t where t: "step (take n files) s = Some (Inr us, t)"
      "batch_loop n step (drop n files) (out @ us) t = Some (Inr ys, s')"
      using "1.prems"(2,3)
      by (simp add: batch_loop.simps [of n step files out s] split: option.splits prod.splits sum.splits)
    have us: "list_all2 (P t) (take n files) us" "le s t"
      using "1.prems"(1) [OF _ t(1)] by (auto dest: in_set_takeD)
    have "\<exists>zs. ys = (out @ us) @ zs \<and> list_all2 (P s') (drop n files) zs \<and> le t s'"
    proof (rule "1.IH" [OF _ t(1) refl refl _ "1.prems"(2) t(2)])
      show "take n files \<noteq> []" using False "1.prems"(2) by simp
      show "list_all2 (P s') chunk ys \<and> le s s'"
        if "set chunk \<subseteq> set (drop n files)" "step chunk s = Some (Inr ys, s')" for chunk s ys s'
        using "1.prems"(1) [OF _ that(2)] that(1) set_drop_subset [of n files] by blast
    qed
    then obtain zs where zs: "ys = out @ (us @ zs)" "list_all2 (P s') (drop n files) zs" "le t s'"
      by auto
    have "list_all2 (P s') (take n files) us"
      using us(1) stable [OF _ zs(3)] by (rule list_all2_mono)
    then have "list_all2 (P s') (take n files @ drop n files) (us @ zs)"
      using zs(2) by (rule list_all2_appendI)
    then show ?thesis using zs(1) order(2) [OF us(2) zs(3)] by auto
  qed
qed

end
