(* ===== verification/Hasher.thy ===== *)
theory Hasher imports CacheDb Paths begin

text \<open>
  \<open>src/hasher.rs\<close>: a file's stat, reading it in chunks of \<open>st_blksize\<close> bytes, hashing
  each chunk, and the cached hashing of a batch of files. The hash function (XXH3-128, a
  third-party crate) and the file system are arguments: \<open>xxh3\<close>, and the record
  \<open>file_env\<close> of the calls on paths and open files. Reading an endless file does not return,
  so the read loop and its callers have an optional result.
\<close>

section \<open>Stat\<close>

text \<open>The fields of \<open>std::fs::Metadata\<close> that the source reads.\<close>

record metadata =
  md_is_file :: bool
  md_is_dir :: bool
  md_dev :: u64
  md_ino :: u64
  md_nlink :: u64
  md_size :: u64
  md_mtime :: i64
  md_mtime_nsec :: i64
  md_ctime :: i64
  md_ctime_nsec :: i64
  md_blksize :: u64

record stat =
  st_fsid :: u64
  st_ino :: u64
  st_size :: u64
  st_mtime_ns :: i128
  st_ctime_ns :: i128
  st_blksz :: u32

definition from_metadata :: "metadata \<Rightarrow> u64 \<Rightarrow> stat" where
  "from_metadata m fsid = \<lparr>
     st_fsid = fsid,
     st_ino = md_ino m,
     st_size = md_size m,
     st_mtime_ns = scast (md_mtime m) * 1000000000 + scast (md_mtime_nsec m),
     st_ctime_ns = scast (md_ctime m) * 1000000000 + scast (md_ctime_nsec m),
     st_blksz = (case u32_try_from (unat (md_blksize m)) of None \<Rightarrow> - 1 | Some b \<Rightarrow> b)\<rparr>"

definition stat_entry :: "stat \<Rightarrow> chunk_hash list \<Rightarrow> entry_ref" where
  "stat_entry s hashes = \<lparr>er_size = st_size s, er_mtime_ns = st_mtime_ns s,
     er_ctime_ns = st_ctime_ns s, er_blksz = st_blksz s, er_hashes = hashes\<rparr>"

record hashed =
  h_fsid :: u64
  h_ino :: u64
  h_size :: u64
  h_blksz :: u32
  h_from_cache :: bool

definition hashed_new :: "stat \<Rightarrow> bool \<Rightarrow> hashed" where
  "hashed_new s from_cache = \<lparr>h_fsid = st_fsid s, h_ino = st_ino s, h_size = st_size s,
     h_blksz = st_blksz s, h_from_cache = from_cache\<rparr>"

section \<open>Reading and hashing a file\<close>

definition ZERO_HASH :: chunk_hash where
  "ZERO_HASH = replicate HASH_LEN 0"

definition hash_chunk :: "(u8 list \<Rightarrow> u128) \<Rightarrow> u8 list \<Rightarrow> chunk_hash" where
  "hash_chunk xxh3 buf = le_bytes 16 (xxh3 buf)"

definition ZEROS :: "u8 list" where
  "ZEROS = replicate (2 ^ 17) 0"

function is_zero :: "u8 list \<Rightarrow> bool" where
  "is_zero rest =
     (if rest = [] then True
      else let n = min (length rest) (length ZEROS)
           in if take n rest \<noteq> take n ZEROS then False else is_zero (drop n rest))"
  by pat_completeness auto
termination
  by (relation "measure length") (auto simp: ZEROS_def)

declare is_zero.simps [simp del]

text \<open>
  A reader is a state and a read call: at most the requested number of bytes, none at the end
  of the file. A call that returned more than fits is cut to the buffer, as a slice is.
\<close>

type_synonym 'r reader = "'r \<Rightarrow> nat \<Rightarrow> (io_error + u8 list) \<times> 'r"

function read_full ::
    "'r reader \<Rightarrow> u8 list \<Rightarrow> nat \<Rightarrow> 'r \<Rightarrow> (io_error + nat) \<times> u8 list \<times> 'r" where
  "read_full rd buf off r =
     (if off < length buf
      then case rd r (length buf - off) of
             (Inl e, r) \<Rightarrow> (Inl e, buf, r)
           | (Inr bs, r) \<Rightarrow>
               if bs = [] then (Inr off, buf, r)
               else read_full rd (overwrite off (take (length buf - off) bs) buf) (off + length bs) r
      else (Inr off, buf, r))"
  by pat_completeness auto
termination
  by (relation "measure (\<lambda>(rd, buf, off, r). length buf - off)")
     (auto simp flip: length_greater_0_conv)

declare read_full.simps [simp del]

definition chunk_digest :: "(u8 list \<Rightarrow> u128) \<Rightarrow> u8 list \<Rightarrow> chunk_hash" where
  "chunk_digest xxh3 chunk = (if is_zero chunk then ZERO_HASH else hash_chunk xxh3 chunk)"

text \<open>The loop of \<open>hash_fd\<close>; the buffer is reused from chunk to chunk.\<close>

partial_function (option) hash_loop ::
    "(u8 list \<Rightarrow> u128) \<Rightarrow> 'r reader \<Rightarrow> u8 list \<Rightarrow> chunk_hash list \<Rightarrow> 'r \<Rightarrow>
     (chunk_hash list res \<times> 'r) option" where
  "hash_loop xxh3 rd buf hashes r =
     (case read_full rd buf 0 r of (n, buf, r) \<Rightarrow>
        (case n of
           Inl e \<Rightarrow> Some (Inl (Fail [IoCause e]), r)
         | Inr n \<Rightarrow>
             if n = 0 then Some (Inr hashes, r)
             else if length buf < n then Some (Inl Panic, r)
             else if n < length buf
             then Some (Inr (hashes @ [chunk_digest xxh3 (take n buf)]), r)
             else hash_loop xxh3 rd buf (hashes @ [chunk_digest xxh3 (take n buf)]) r))"

text \<open>
  \<open>AlignedBuf\<close>: zeroed pages as long as asked for, at least one byte. \<open>Layout::from_size_align\<close> refuses a
  size that does not fit an \<open>isize\<close> once rounded up. That the allocator gives memory is assumed.
\<close>

definition layout_ok :: "nat \<Rightarrow> nat \<Rightarrow> bool" where
  "layout_ok sz align \<longleftrightarrow> sz + (align - sz mod align) mod align < 2 ^ 63"

definition aligned_buf_new :: "nat \<Rightarrow> u8 list res" where
  "aligned_buf_new len =
     (if layout_ok (max len 1) 4096 then Inr (replicate (max len 1) 0) else Inl Panic)"

definition hash_fd ::
    "(u8 list \<Rightarrow> u128) \<Rightarrow> 'r reader \<Rightarrow> 'r \<Rightarrow> u32 \<Rightarrow> (chunk_hash list res \<times> 'r) option" where
  "hash_fd xxh3 rd r blksz =
     (if \<not> 0 < blksz then Some (Inl (Fail [Message ''blksz must be > 0'']), r)
      else case aligned_buf_new (unat blksz) of
        Inl e \<Rightarrow> Some (Inl e, r)
      | Inr buf \<Rightarrow> hash_loop xxh3 rd buf [] r)"

text \<open>A block size has 32 bits, so the buffer can always be laid out.\<close>

lemma aligned_buf_u32: "aligned_buf_new (unat (b :: u32)) = Inr (replicate (max (unat b) 1) 0)"
proof -
  have "unat b < 2 ^ 32" using unsigned_less [of b, where ?'a = nat] by simp
  moreover have "(4096 - max (unat b) 1 mod 4096) mod 4096 < (4096 :: nat)" by simp
  ultimately have "max (unat b) 1 + (4096 - max (unat b) 1 mod 4096) mod 4096 < 2 ^ 63" by simp
  then show ?thesis by (simp add: aligned_buf_new_def layout_ok_def)
qed

lemma hash_fd_eq:
  "hash_fd xxh3 rd r blksz =
     (if \<not> 0 < blksz then Some (Inl (Fail [Message ''blksz must be > 0'']), r)
      else hash_loop xxh3 rd (replicate (max (unat blksz) 1) 0) [] r)"
  by (simp add: hash_fd_def aligned_buf_u32)

section \<open>Hashing through the cache\<close>

text \<open>
  The calls on the file system: \<open>lstat\<close> on a path, opening without following a symlink,
  \<open>fstat\<close> on the open file, the best-effort \<open>fcntl(O_DIRECT)\<close>, and \<open>read\<close>.
\<close>

record 'r file_env =
  env_lstat :: "path \<Rightarrow> io_error + metadata"
  env_open :: "path \<Rightarrow> io_error + 'r"
  env_fstat :: "'r \<Rightarrow> io_error + metadata"
  env_set_direct :: "'r \<Rightarrow> 'r"
  env_read :: "'r reader"

definition open_nofollow :: "'r file_env \<Rightarrow> path \<Rightarrow> 'r res" where
  "open_nofollow E p = with_context ''open'' (from_io (env_open E p))"

definition try_o_direct :: "'r file_env \<Rightarrow> 'r \<Rightarrow> u32 \<Rightarrow> 'r" where
  "try_o_direct E f blksz = (if 4096 dvd unat blksz then env_set_direct E f else f)"

definition hash_file ::
    "'r file_env \<Rightarrow> (u8 list \<Rightarrow> u128) \<Rightarrow> path \<Rightarrow> u32 \<Rightarrow> chunk_hash list res option" where
  "hash_file E xxh3 p blksz =
     (case open_nofollow E p of
        Inl e \<Rightarrow> Some (Inl e)
      | Inr f \<Rightarrow> map_option fst (hash_fd xxh3 (env_read E) (try_o_direct E f blksz) blksz))"

text \<open>\<open>ensure!(meta.is_file(), ...)\<close> and the stat of what was found.\<close>

definition regular_stat :: "io_error + metadata \<Rightarrow> u64 \<Rightarrow> stat res" where
  "regular_stat m fsid = rbind (from_io m) (\<lambda>meta.
     if md_is_file meta then Inr (from_metadata meta fsid)
     else Inl (Fail [Message ''not a regular file'']))"

definition cached_hashes ::
    "('db, 'tx) redb \<Rightarrow> 'db \<Rightarrow> stat \<Rightarrow> chunk_hash list option res" where
  "cached_hashes R db s = rbind (cache_get R db (st_fsid s) (st_ino s)) (\<lambda>v. Inr (case v of
       None \<Rightarrow> None
     | Some e \<Rightarrow>
         if entry_matches e (st_size s) (st_mtime_ns s) (st_ctime_ns s) (st_blksz s)
         then Some (fe_hashes e) else None))"

definition hash_miss ::
    "'r file_env \<Rightarrow> (u8 list \<Rightarrow> u128) \<Rightarrow> path \<Rightarrow> u64 \<Rightarrow> (stat \<times> bool \<times> chunk_hash list) res option" where
  "hash_miss E xxh3 p fsid =
     (case open_nofollow E p of Inl e \<Rightarrow> Some (Inl e)
      | Inr f \<Rightarrow>
     (case regular_stat (env_fstat E f) fsid of Inl e \<Rightarrow> Some (Inl e)
      | Inr s \<Rightarrow>
          map_option (\<lambda>(r, _). rbind r (\<lambda>hashes. Inr (s, False, hashes)))
            (hash_fd xxh3 (env_read E) (try_o_direct E f (st_blksz s)) (st_blksz s))))"

definition hash_one ::
    "'r file_env \<Rightarrow> ('db, 'tx) redb \<Rightarrow> (u8 list \<Rightarrow> u128) \<Rightarrow> 'db \<Rightarrow> path \<Rightarrow> u64 \<Rightarrow>
     (stat \<times> bool \<times> chunk_hash list) res option" where
  "hash_one E R xxh3 db p fsid =
     (case rbind (with_context ''stat'' (from_io (env_lstat E p)))
             (\<lambda>meta. regular_stat (Inr meta) fsid) of
        Inl e \<Rightarrow> Some (Inl e)
      | Inr s \<Rightarrow>
     (case cached_hashes R db s of
        Inl e \<Rightarrow> Some (Inl e)
      | Inr (Some hashes) \<Rightarrow> Some (Inr (s, True, hashes))
      | Inr None \<Rightarrow> hash_miss E xxh3 p fsid))"

text \<open>An error of one file is kept as its result; a panic ends the whole batch.\<close>

definition split_panic :: "'a res \<Rightarrow> (anyhow + 'a) res" where
  "split_panic r = (case r of Inl Panic \<Rightarrow> Inl Panic | Inl (Fail e) \<Rightarrow> Inr (Inl e) | Inr x \<Rightarrow> Inr (Inr x))"

definition hash_path ::
    "'r file_env \<Rightarrow> ('db, 'tx) redb \<Rightarrow> (u8 list \<Rightarrow> u128) \<Rightarrow> 'db \<Rightarrow> path_table \<Rightarrow> file_path \<Rightarrow> u64 \<Rightarrow>
     (anyhow + stat \<times> bool \<times> chunk_hash list) res option" where
  "hash_path E R xxh3 db t fp fsid =
     (case to_path t fp of
        None \<Rightarrow> None
      | Some (Inl e) \<Rightarrow> Some (Inl e)
      | Some (Inr p) \<Rightarrow> map_option split_panic (hash_one E R xxh3 db p fsid))"

fun hash_all ::
    "(file_path \<Rightarrow> u64 \<Rightarrow> 'x res option) \<Rightarrow> (file_path \<times> u64) list \<Rightarrow> (file_path \<times> 'x) list res option" where
  "hash_all f [] = Some (Inr [])"
| "hash_all f ((p, fsid) # batch) =
     (case f p fsid of
        None \<Rightarrow> None
      | Some r \<Rightarrow> map_option (\<lambda>rest. rbind r (\<lambda>x. rbind rest (\<lambda>xs. Inr ((p, x) # xs))))
                    (hash_all f batch))"

fun miss_entry :: "file_path \<times> (anyhow + stat \<times> bool \<times> chunk_hash list) \<Rightarrow> (u64 \<times> u64 \<times> entry_ref) option" where
  "miss_entry (_, Inr (s, False, hashes)) = Some (st_fsid s, st_ino s, stat_entry s hashes)"
| "miss_entry _ = None"

fun hashed_result :: "file_path \<times> (anyhow + stat \<times> bool \<times> chunk_hash list) \<Rightarrow> file_path \<times> (anyhow + hashed)" where
  "hashed_result (p, Inl e) = (p, Inl e)"
| "hashed_result (p, Inr (s, fc, _)) = (p, Inr (hashed_new s fc))"

text \<open>
  One batch of \<open>hash_files\<close>: the files are hashed in parallel against the cache as it is
  before the batch, in the order of the batch; then the misses are stored in one transaction.
\<close>

definition hash_batch ::
    "'r file_env \<Rightarrow> ('db, 'tx) redb \<Rightarrow> (u8 list \<Rightarrow> u128) \<Rightarrow> path_table \<Rightarrow> (file_path \<times> u64) list \<Rightarrow> 'db \<Rightarrow>
     ((file_path \<times> (anyhow + hashed)) list res \<times> 'db) option" where
  "hash_batch E R xxh3 t batch db =
     map_option (\<lambda>results.
       case results of
         Inl e \<Rightarrow> (Inl e, db)
       | Inr rs \<Rightarrow>
           (case cache_put_many R db (List.map_filter miss_entry rs) of
              Inl e \<Rightarrow> (Inl e, db)
            | Inr db' \<Rightarrow> (Inr (map hashed_result rs), db')))
     (hash_all (hash_path E R xxh3 db t) batch)"

definition hash_files ::
    "'r file_env \<Rightarrow> ('db, 'tx) redb \<Rightarrow> (u8 list \<Rightarrow> u128) \<Rightarrow> 'db \<Rightarrow> u64 paths \<Rightarrow>
     ((anyhow + hashed) paths res \<times> 'db) option" where
  "hash_files E R xxh3 db ps = map_batched ps 100000 (hash_batch E R xxh3) db"

end
