(* ===== verification/Walk.thy ===== *)
theory Walk imports ZfsMounts Hasher "HOL-Library.Multiset" begin

text \<open>
  The directory walk of \<open>src/walk.rs\<close>. Reading a directory is an argument, the same for the
  whole walk: what another process does to the tree meanwhile is not modelled. \<open>walk_dir\<close> runs as
  rayon tasks that spawn more of them and send one batch each through a channel to a single consumer;
  which task runs next and when it sends is a step relation. The consumer, \<open>walk_root\<close>, and the walk
  over all roots, \<open>walk_files\<close>, take the batches in the order they arrive.
\<close>

section \<open>One directory\<close>

datatype ftype = FtDir | FtFile | FtOther

record dir_entry =
  de_name :: "u8 list"
  de_type :: "io_error + ftype"
  de_meta :: "io_error + metadata"

type_synonym read_dir = "path \<Rightarrow> io_error + (io_error + dir_entry) list"

text \<open>A stat'ed file: name, device, inode and number of links; a directory with its files.\<close>

type_synonym found = "u8 list \<times> u64 \<times> u64 \<times> u64"
type_synonym dir_batch = "path \<times> found list"

definition scan_entry ::
    "path \<Rightarrow> u64 \<Rightarrow> io_error + dir_entry \<Rightarrow> path list \<times> found list \<Rightarrow> path list \<times> found list" where
  "scan_entry dir root_dev entry = (\<lambda>(spawned, batch).
     case entry of
       Inl e \<Rightarrow> (spawned, batch)
     | Inr entry \<Rightarrow>
         (case de_type entry of
            Inl e \<Rightarrow> (spawned, batch)
          | Inr ft \<Rightarrow>
              if ft \<noteq> FtDir \<and> ft \<noteq> FtFile then (spawned, batch)
              else
                (case de_meta entry of
                   Inl e \<Rightarrow> (spawned, batch)
                 | Inr m \<Rightarrow>
                     if ft = FtDir
                     then if md_dev m = root_dev then (spawned @ [path_push dir (de_name entry)], batch)
                          else (spawned, batch)
                     else (spawned, batch @ [(de_name entry, md_dev m, md_ino m, md_nlink m)]))))"

definition walk_dir :: "read_dir \<Rightarrow> u64 \<Rightarrow> path \<Rightarrow> path list \<times> dir_batch option" where
  "walk_dir rd root_dev dir =
     (case rd dir of
        Inl e \<Rightarrow> ([], None)
      | Inr entries \<Rightarrow>
          (case fold (scan_entry dir root_dev) entries ([], []) of
             (spawned, batch) \<Rightarrow> (spawned, if batch \<noteq> [] then Some (dir, batch) else None)))"

section \<open>All tasks\<close>

text \<open>The tasks not yet run, the batches not yet sent, and what was sent.\<close>

type_synonym walk_state = "path multiset \<times> dir_batch multiset \<times> dir_batch list"

definition batch_of :: "dir_batch option \<Rightarrow> dir_batch multiset" where
  "batch_of b = (case b of None \<Rightarrow> {#} | Some x \<Rightarrow> {#x#})"

inductive walk_step :: "read_dir \<Rightarrow> u64 \<Rightarrow> walk_state \<Rightarrow> walk_state \<Rightarrow> bool" for rd dev where
  scan: "walk_dir rd dev d = (spawned, b) \<Longrightarrow>
    walk_step rd dev (add_mset d pend, unsent, sent) (pend + mset spawned, unsent + batch_of b, sent)"
| send: "walk_step rd dev (pend, add_mset b unsent, sent) (pend, unsent, sent @ [b])"

inductive_cases walk_stepE: "walk_step rd dev (pend, unsent, sent) t"

text \<open>A whole walk: from the root's task to the end of the channel.\<close>

definition walked :: "read_dir \<Rightarrow> u64 \<Rightarrow> path \<Rightarrow> dir_batch list \<Rightarrow> bool" where
  "walked rd dev root batches \<longleftrightarrow> (walk_step rd dev)\<^sup>*\<^sup>* ({#root#}, {#}, []) ({#}, {#}, batches)"

text \<open>One schedule that can be run: tasks in the order of a stack, each sending at once.\<close>

partial_function (option) walk_stack :: "read_dir \<Rightarrow> u64 \<Rightarrow> path list \<Rightarrow> dir_batch list \<Rightarrow> dir_batch list option" where
  "walk_stack rd dev pend sent =
     (case pend of
        [] \<Rightarrow> Some sent
      | d # ds \<Rightarrow> walk_stack rd dev (fst (walk_dir rd dev d) @ ds)
                    (sent @ (case snd (walk_dir rd dev d) of None \<Rightarrow> [] | Some b \<Rightarrow> [b])))"

section \<open>The consumer\<close>

type_synonym inode = "u64 \<times> u64"

definition take_file ::
    "u64 \<Rightarrow> u64 \<Rightarrow> inode set \<Rightarrow> path \<Rightarrow> found \<Rightarrow> inode set \<times> u64 paths \<Rightarrow> (inode set \<times> u64 paths) res" where
  "take_file root_dev fsid exclude parent = (\<lambda>(name, dev, ino, nlink) (seen, out).
     if dev \<noteq> root_dev \<or> (dev, ino) \<in> exclude then Inr (seen, out)
     else if 1 < nlink \<and> (dev, ino) \<in> seen then Inr (seen, out)
     else rbind (paths_push out parent name fsid) (\<lambda>out.
          Inr (if 1 < nlink then insert (dev, ino) seen else seen, out)))"

definition walk_root ::
    "u64 \<Rightarrow> u64 \<Rightarrow> inode set \<Rightarrow> dir_batch list \<Rightarrow> inode set \<times> u64 paths \<Rightarrow> (inode set \<times> u64 paths) res" where
  "walk_root root_dev fsid exclude =
     fold_res (\<lambda>(parent, files). fold_res (take_file root_dev fsid exclude parent) files)"

text \<open>
  All roots, with \<open>stat\<close> and \<open>fsid\<close> of a root as arguments, and the batches of each root in the order
  they arrive. A root that cannot be stat'ed is left out.
\<close>

definition root_ids :: "(path \<Rightarrow> io_error + metadata) \<Rightarrow> (path \<Rightarrow> u64 res) \<Rightarrow> path \<Rightarrow> (u64 \<times> u64) res" where
  "root_ids stat fsid_of root =
     rbind (from_io (stat root)) (\<lambda>m. rbind (fsid_of root) (\<lambda>f. Inr (md_dev m, f)))"

definition walk_files ::
    "(path \<Rightarrow> io_error + metadata) \<Rightarrow> (path \<Rightarrow> u64 res) \<Rightarrow> (path \<Rightarrow> u64 \<Rightarrow> dir_batch list) \<Rightarrow>
     path list \<Rightarrow> inode set \<Rightarrow> u64 paths res" where
  "walk_files stat fsid_of batches roots exclude =
     rbind (fold_res (\<lambda>root s. case root_ids stat fsid_of root of
         Inl e \<Rightarrow> Inr s
       | Inr (dev, f) \<Rightarrow> walk_root dev f exclude (batches root dev) s) roots ({}, paths_empty)) (\<lambda>(_, out).
     Inr (out\<lparr>ps_table := seal (ps_table out)\<rparr>))"

section \<open>The tree\<close>

text \<open>
  The tree that a walk is about, read off the listings alone, apart from the code: the subdirectories of
  a directory that lie on the walk's device, the regular files of a directory with what their entries
  say, every directory below a root, and the files below a root that a walk has to consider, each with
  its path, its inode and its number of links. Entries that cannot be read are in no listing.
\<close>

definition subdir_of :: "read_dir \<Rightarrow> u64 \<Rightarrow> path \<Rightarrow> path \<Rightarrow> bool" where
  "subdir_of rd dev d' d \<longleftrightarrow> (\<exists>es e m. rd d = Inr es \<and> Inr e \<in> set es \<and> de_type e = Inr FtDir \<and>
     de_meta e = Inr m \<and> md_dev m = dev \<and> d' = d @ [Normal (de_name e)])"

definition file_of :: "read_dir \<Rightarrow> path \<Rightarrow> u8 list \<Rightarrow> metadata \<Rightarrow> bool" where
  "file_of rd d n m \<longleftrightarrow> (\<exists>es e. rd d = Inr es \<and> Inr e \<in> set es \<and> de_type e = Inr FtFile \<and>
     de_meta e = Inr m \<and> de_name e = n)"

inductive under :: "read_dir \<Rightarrow> u64 \<Rightarrow> path \<Rightarrow> path \<Rightarrow> bool" for rd dev root where
  root: "under rd dev root root"
| sub: "under rd dev root d \<Longrightarrow> subdir_of rd dev d' d \<Longrightarrow> under rd dev root d'"

definition tree_files :: "read_dir \<Rightarrow> u64 \<Rightarrow> inode set \<Rightarrow> path \<Rightarrow> (path \<times> u64 \<times> u64) set" where
  "tree_files rd dev ex root = {(d @ [Normal n], md_ino m, md_nlink m) | d n m.
     under rd dev root d \<and> file_of rd d n m \<and> md_dev m = dev \<and> (dev, md_ino m) \<notin> ex}"

text \<open>What the listings of a file system look like: names are names, and each occurs once.\<close>

definition listing_ok :: "read_dir \<Rightarrow> bool" where
  "listing_ok rd \<longleftrightarrow> (\<forall>d es. rd d = Inr es \<longrightarrow>
     (\<forall>e. Inr e \<in> set es \<longrightarrow> name_ok (de_name e)) \<and>
     distinct (List.map_filter (case_sum (\<lambda>_. None) (\<lambda>e. Some (de_name e))) es))"

end
