(* ===== verification/WalkFacts.thy ===== *)
theory WalkFacts imports Walk begin

text \<open>
  Every schedule of the walk reads each directory under the root once and sends its batch once; on
  a tree without infinite branches every schedule ends.
\<close>

section \<open>What one directory gives\<close>

definition subdir_name :: "u64 \<Rightarrow> io_error + dir_entry \<Rightarrow> u8 list option" where
  "subdir_name dev entry = (case entry of Inl _ \<Rightarrow> None | Inr e \<Rightarrow>
     (case (de_type e, de_meta e) of
        (Inr FtDir, Inr m) \<Rightarrow> if md_dev m = dev then Some (de_name e) else None
      | _ \<Rightarrow> None))"

definition regular_file :: "io_error + dir_entry \<Rightarrow> found option" where
  "regular_file entry = (case entry of Inl _ \<Rightarrow> None | Inr e \<Rightarrow>
     (case (de_type e, de_meta e) of
        (Inr FtFile, Inr m) \<Rightarrow> Some (de_name e, md_dev m, md_ino m, md_nlink m)
      | _ \<Rightarrow> None))"

lemma scan_entry_eq:
  "scan_entry dir dev entry (spawned, batch) =
     (spawned @ (case subdir_name dev entry of None \<Rightarrow> [] | Some n \<Rightarrow> [path_push dir n]),
      batch @ (case regular_file entry of None \<Rightarrow> [] | Some f \<Rightarrow> [f]))"
proof (cases entry)
  case (Inr e)
  then show ?thesis
    by (auto simp: scan_entry_def subdir_name_def regular_file_def split: sum.splits ftype.splits)
qed (simp add: scan_entry_def subdir_name_def regular_file_def)

lemma fold_scan:
  "fold (scan_entry dir dev) es (spawned, batch) =
     (spawned @ map (path_push dir) (List.map_filter (subdir_name dev) es),
      batch @ List.map_filter regular_file es)"
  by (induction es arbitrary: spawned batch)
     (auto simp: scan_entry_eq List.map_filter_simps split: option.split)

definition entry_names :: "(io_error + dir_entry) list \<Rightarrow> u8 list list" where
  "entry_names = List.map_filter (case_sum (\<lambda>_. None) (\<lambda>e. Some (de_name e)))"

definition subdirs :: "read_dir \<Rightarrow> u64 \<Rightarrow> path \<Rightarrow> path list" where
  "subdirs rd dev d = fst (walk_dir rd dev d)"

definition dir_files :: "read_dir \<Rightarrow> path \<Rightarrow> found list" where
  "dir_files rd d = (case rd d of Inl e \<Rightarrow> [] | Inr es \<Rightarrow> List.map_filter regular_file es)"

lemma walk_dir_eq:
  "walk_dir rd dev d = (subdirs rd dev d, if dir_files rd d \<noteq> [] then Some (d, dir_files rd d) else None)"
  by (simp add: subdirs_def walk_dir_def dir_files_def fold_scan split: sum.split)

lemma subdirs_eq:
  "subdirs rd dev d = (case rd d of Inl e \<Rightarrow> [] | Inr es \<Rightarrow> map (path_push d) (List.map_filter (subdir_name dev) es))"
  by (simp add: subdirs_def walk_dir_def fold_scan split: sum.split)

lemma subseqD:
  assumes "subseq xs ys"
  shows "set xs \<subseteq> set ys" "distinct ys \<Longrightarrow> distinct xs"
  using assms by (induction rule: list_emb.induct) auto

text \<open>Names come out in the order of the listing, so those of subdirectories and of files are distinct.\<close>

lemma names_subseq:
  "subseq (List.map_filter (subdir_name dev) es) (entry_names es)"
  "subseq (map fst (List.map_filter regular_file es)) (entry_names es)"
  by (induction es)
     (auto simp: entry_names_def List.map_filter_simps subdir_name_def regular_file_def
        split: option.split sum.splits ftype.splits)

lemma listing_okD:
  assumes "listing_ok rd" "rd d = Inr es"
  shows "distinct (entry_names es)" "\<And>n. n \<in> set (entry_names es) \<Longrightarrow> name_ok n"
proof -
  show "distinct (entry_names es)" using assms by (auto simp: listing_ok_def entry_names_def)
  fix n assume "n \<in> set (entry_names es)"
  then obtain x where "x \<in> set es" "case_sum (\<lambda>_. None) (\<lambda>e. Some (de_name e)) x = Some n"
    by (auto simp: entry_names_def in_map_filter)
  then obtain e where "Inr e \<in> set es" "n = de_name e"
    by (auto split: sum.split_asm)
  then show "name_ok n" using assms by (auto simp: listing_ok_def)
qed

lemma subdirs_ok:
  assumes "listing_ok rd"
  obtains ns where "subdirs rd dev d = map (\<lambda>n. d @ [Normal n]) ns" "distinct ns" "\<And>n. n \<in> set ns \<Longrightarrow> name_ok n"
proof (cases "rd d")
  case (Inl e)
  then show ?thesis using that [of "[]"] by (simp add: subdirs_eq)
next
  case (Inr es)
  let ?ns = "List.map_filter (subdir_name dev) es"
  have sub: "set ?ns \<subseteq> set (entry_names es)" "distinct ?ns"
    using names_subseq(1) listing_okD(1) [OF assms Inr] by (auto dest: subseqD)
  then have ok: "name_ok n" if "n \<in> set ?ns" for n using listing_okD(2) [OF assms Inr] that by blast
  then have "subdirs rd dev d = map (\<lambda>n. d @ [Normal n]) ?ns"
    by (auto simp: subdirs_eq Inr path_push_name intro!: map_cong)
  then show ?thesis using that sub(2) ok by blast
qed

lemma dir_files_ok:
  assumes "listing_ok rd"
  shows "distinct (map fst (dir_files rd d))" "\<And>f. f \<in> set (dir_files rd d) \<Longrightarrow> name_ok (fst f)"
proof -
  have "distinct (map fst (dir_files rd d)) \<and> (\<forall>n \<in> set (map fst (dir_files rd d)). name_ok n)"
  proof (cases "rd d")
    case (Inl e)
    then show ?thesis by (simp add: dir_files_def)
  next
    case (Inr es)
    then show ?thesis
      using subseqD [OF names_subseq(2) [of es]] listing_okD [OF assms Inr]
      by (auto simp: dir_files_def)
  qed
  then show "distinct (map fst (dir_files rd d))" "\<And>f. f \<in> set (dir_files rd d) \<Longrightarrow> name_ok (fst f)"
    by auto
qed

text \<open>What one directory gives is what the listing says of it.\<close>

lemma subdir_name_Some:
  "subdir_name dev x = Some n \<longleftrightarrow>
     (\<exists>e m. x = Inr e \<and> de_type e = Inr FtDir \<and> de_meta e = Inr m \<and> md_dev m = dev \<and> n = de_name e)"
  by (auto simp: subdir_name_def split: sum.splits ftype.splits)

lemma regular_file_Some:
  "regular_file x = Some (n, v, i, l) \<longleftrightarrow> (\<exists>e m. x = Inr e \<and> de_type e = Inr FtFile \<and> de_meta e = Inr m \<and>
     n = de_name e \<and> v = md_dev m \<and> i = md_ino m \<and> l = md_nlink m)"
  by (auto simp: regular_file_def split: sum.splits ftype.splits)

lemma subdirs_spec:
  assumes "listing_ok rd"
  shows "d' \<in> set (subdirs rd dev d) \<longleftrightarrow> subdir_of rd dev d' d"
proof (cases "rd d")
  case (Inl e)
  then show ?thesis by (simp add: subdirs_eq subdir_of_def)
next
  case (Inr es)
  have "path_push d (de_name e) = d @ [Normal (de_name e)]" if "Inr e \<in> set es" for e
    using assms Inr that by (intro path_push_name) (auto simp: listing_ok_def)
  moreover have "d' \<in> set (subdirs rd dev d) \<longleftrightarrow> (\<exists>x n. x \<in> set es \<and> subdir_name dev x = Some n \<and> d' = path_push d n)"
    unfolding subdirs_eq Inr sum.case set_map image_iff Bex_def in_map_filter by blast
  ultimately show ?thesis unfolding subdir_name_Some subdir_of_def Inr by (metis Inr_inject)
qed

lemma dir_files_spec:
  "(n, v, i, l) \<in> set (dir_files rd d) \<longleftrightarrow> (\<exists>m. file_of rd d n m \<and> v = md_dev m \<and> i = md_ino m \<and> l = md_nlink m)"
proof (cases "rd d")
  case (Inl e)
  then show ?thesis by (simp add: dir_files_def file_of_def)
next
  case (Inr es)
  have "(n, v, i, l) \<in> set (dir_files rd d) \<longleftrightarrow> (\<exists>x \<in> set es. regular_file x = Some (n, v, i, l))"
    by (auto simp: dir_files_def Inr in_map_filter)
  then show ?thesis unfolding regular_file_Some file_of_def Inr by (metis Inr_inject)
qed

section \<open>Every schedule reads every directory once\<close>

definition batches_of :: "read_dir \<Rightarrow> path set \<Rightarrow> dir_batch multiset" where
  "batches_of rd D = image_mset (\<lambda>d. (d, dir_files rd d)) (filter_mset (\<lambda>d. dir_files rd d \<noteq> []) (mset_set D))"

text \<open>The directories read so far, and those whose tasks wait.\<close>

definition walk_parts :: "read_dir \<Rightarrow> u64 \<Rightarrow> path \<Rightarrow> path set \<Rightarrow> path set \<Rightarrow> bool" where
  "walk_parts rd dev root D P \<longleftrightarrow> finite D \<and> finite P \<and> D \<inter> P = {} \<and> root \<in> D \<union> P \<and>
     (\<forall>d \<in> D. set (subdirs rd dev d) \<subseteq> D \<union> P) \<and> (\<forall>d \<in> D \<union> P. under rd dev root d) \<and>
     (\<forall>d \<in> D \<union> P. d \<noteq> root \<longrightarrow> butlast d \<in> D)"

definition walk_inv :: "read_dir \<Rightarrow> u64 \<Rightarrow> path \<Rightarrow> walk_state \<Rightarrow> bool" where
  "walk_inv rd dev root = (\<lambda>(pend, unsent, sent). \<exists>D P. walk_parts rd dev root D P \<and>
     pend = mset_set P \<and> mset sent + unsent = batches_of rd D)"

lemma under_prefix:
  assumes "under rd dev root d"
  shows "prefix root d"
  using assms
proof (induction rule: under.induct)
  case (sub d d')
  then show ?case by (auto simp: subdir_of_def)
qed simp

lemma walk_parts_scan:
  assumes "listing_ok rd" "walk_parts rd dev root D P" "d \<in> P"
  shows "walk_parts rd dev root (insert d D) (P - {d} \<union> set (subdirs rd dev d))"
    and "(P - {d}) \<inter> set (subdirs rd dev d) = {}"
proof -
  note inv = assms(2) [unfolded walk_parts_def]
  obtain ns where ns: "subdirs rd dev d = map (\<lambda>n. d @ [Normal n]) ns"
    using subdirs_ok [OF assms(1)] by metis
  have d: "under rd dev root d" "d \<notin> D" using inv assms(3) by auto
  have new: "x \<notin> D \<union> P" if sub: "x \<in> set (subdirs rd dev d)" for x
  proof
    assume x: "x \<in> D \<union> P"
    obtain n where n: "x = d @ [Normal n]" using sub ns by auto
    have "length root \<le> length d" using under_prefix [OF d(1)] by (rule prefix_length_le)
    then have "x \<noteq> root" using n by auto
    then have "butlast x \<in> D" using inv x by blast
    then show False using n d(2) by simp
  qed
  have un: "under rd dev root x" "butlast x = d" if "x \<in> set (subdirs rd dev d)" for x
    using that d(1) ns under.sub [of rd dev root d x] by (auto simp flip: subdirs_spec [OF assms(1)])
  show "(P - {d}) \<inter> set (subdirs rd dev d) = {}" using new by blast
  have "d \<notin> set (subdirs rd dev d)" using new assms(3) by blast
  then show "walk_parts rd dev root (insert d D) (P - {d} \<union> set (subdirs rd dev d))"
    using inv new un assms(3) unfolding walk_parts_def by auto
qed

lemma walk_inv_step:
  assumes "walk_step rd dev s t" "listing_ok rd" "walk_inv rd dev root s"
  shows "walk_inv rd dev root t"
  using assms(1,3)
proof (induction rule: walk_step.induct)
  case (scan d spawned b pend unsent sent)
  then obtain D P where inv: "walk_parts rd dev root D P" "add_mset d pend = mset_set P"
      "mset sent + unsent = batches_of rd D"
    by (auto simp: walk_inv_def)
  have fin: "finite P" "finite D" using inv(1) by (auto simp: walk_parts_def)
  then have d: "d \<in> P" using inv(2) by (metis elem_mset_set union_single_eq_member)
  have pend: "pend = mset_set (P - {d})" using inv(2) mset_set.remove [OF fin(1) d] by simp
  have sp: "spawned = subdirs rd dev d" "b = (if dir_files rd d \<noteq> [] then Some (d, dir_files rd d) else None)"
    using scan.hyps by (simp_all add: walk_dir_eq)
  obtain ns where "subdirs rd dev d = map (\<lambda>n. d @ [Normal n]) ns" "distinct ns"
    using subdirs_ok [OF assms(2)] by metis
  then have "distinct spawned" using sp by (simp add: distinct_map inj_on_def)
  then have "pend + mset spawned = mset_set (P - {d} \<union> set (subdirs rd dev d))"
    using pend walk_parts_scan(2) [OF assms(2) inv(1) d] fin sp by (simp add: mset_set_Union mset_set_set)
  moreover have "d \<notin> D" using d inv(1) by (auto simp: walk_parts_def)
  then have "mset sent + (unsent + batch_of b) = batches_of rd (insert d D)"
    using inv(3) fin sp by (simp add: batches_of_def batch_of_def flip: add.assoc)
  ultimately show ?case
    using walk_parts_scan(1) [OF assms(2) inv(1) d] by (auto simp: walk_inv_def)
next
  case (send pend b unsent sent)
  then show ?case by (auto simp: walk_inv_def)
qed

lemma walk_inv_reached:
  assumes "listing_ok rd" "(walk_step rd dev)\<^sup>*\<^sup>* ({#root#}, {#}, []) t"
  shows "walk_inv rd dev root t"
  using assms(2)
proof (induction rule: rtranclp_induct)
  case base
  show ?case
    unfolding walk_inv_def prod.case
    by (intro exI [of _ "{}"] exI [of _ "{root}"]) (auto simp: walk_parts_def batches_of_def under.root)
qed (use walk_inv_step [OF _ assms(1)] in blast)

lemma walked_batches:
  assumes "walked rd dev root batches" "listing_ok rd"
  obtains D where "finite D" "D = Collect (under rd dev root)" "mset batches = batches_of rd D"
proof -
  have "walk_inv rd dev root ({#}, {#}, batches)"
    by (rule walk_inv_reached [OF assms(2) assms(1) [unfolded walked_def]])
  then obtain D P where inv: "walk_parts rd dev root D P" "{#} = mset_set P" "mset batches = batches_of rd D"
    by (auto simp: walk_inv_def)
  have "finite P" using inv(1) by (simp add: walk_parts_def)
  then have P: "P = {}" using inv(2) [symmetric] by (simp add: mset_set_empty_iff)
  have "d \<in> D" if "under rd dev root d" for d
    using that by (induction rule: under.induct) (use inv(1) P in \<open>auto simp: walk_parts_def simp flip: subdirs_spec [OF assms(2)]\<close>)
  then have "D = Collect (under rd dev root)" using inv(1) P by (auto simp: walk_parts_def)
  then show ?thesis using that inv by (auto simp: walk_parts_def)
qed

end
