(* ===== verification/WalkOut.thy ===== *)
theory WalkOut imports WalkFacts begin

text \<open>
  What the consumer of the walk keeps: the files of the root's device that are not excluded, and of
  each set of hard links the first that arrives. Also: every schedule ends, and the schedule of a
  stack is one.
\<close>

section \<open>Schedules end\<close>

text \<open>On a finite tree, a task is replaced by tasks deeper down, which cannot go on forever.\<close>

definition deeper :: "read_dir \<Rightarrow> u64 \<Rightarrow> path \<Rightarrow> (path \<times> path) set" where
  "deeper rd dev root = {(d', d). under rd dev root d \<and> subdir_of rd dev d' d}"

lemma deeper_wf:
  assumes "finite (Collect (under rd dev root))"
  shows "wf (deeper rd dev root)"
proof -
  let ?N = "Max (length ` Collect (under rd dev root))"
  have "length d \<le> ?N" if "under rd dev root d" for d
    using assms that by (intro Max_ge) auto
  moreover have "length d' = Suc (length d) \<and> under rd dev root d'" if "(d', d) \<in> deeper rd dev root" for d' d
    using that by (auto simp: deeper_def subdir_of_def intro: under.sub [unfolded subdir_of_def])
  ultimately have "(d', d) \<in> measure (\<lambda>d. ?N - length d)" if "(d', d) \<in> deeper rd dev root" for d' d
    using that by (metis diff_less_mono2 in_measure lessI less_le_trans)
  then have "deeper rd dev root \<subseteq> measure (\<lambda>d. ?N - length d)" by (rule subrelI)
  then show ?thesis by (rule wf_subset [OF wf_measure])
qed

abbreviation walk_order :: "read_dir \<Rightarrow> u64 \<Rightarrow> path \<Rightarrow> (walk_state \<times> walk_state) set" where
  "walk_order rd dev root \<equiv> inv_image (mult (deeper rd dev root) <*lex*> less_than) (\<lambda>(pend, unsent, sent). (pend, size unsent))"

lemma walk_order_wf: "finite (Collect (under rd dev root)) \<Longrightarrow> wf (walk_order rd dev root)"
  by (intro wf_inv_image wf_lex_prod wf_mult deeper_wf wf_less_than)

lemma walk_step_order:
  assumes "walk_step rd dev s t" "listing_ok rd" "walk_inv rd dev root s"
  shows "(t, s) \<in> walk_order rd dev root"
  using assms(1,3)
proof (induction rule: walk_step.induct)
  case (scan d spawned b pend unsent sent)
  obtain D P where "walk_parts rd dev root D P" "add_mset d pend = mset_set P"
    using scan.prems by (auto simp: walk_inv_def)
  then have "under rd dev root d"
    by (metis UnI2 elem_mset_set union_single_eq_member walk_parts_def)
  then have "\<forall>x. x \<in># mset spawned \<longrightarrow> (x, d) \<in> deeper rd dev root"
    using scan.hyps by (auto simp: deeper_def walk_dir_eq simp flip: subdirs_spec [OF assms(2)])
  then have "(pend + mset spawned, add_mset d pend) \<in> mult1 (deeper rd dev root)"
    by (intro mult1I [of _ d pend _ "mset spawned"]) auto
  then show ?case by (auto simp: mult_def)
qed simp

lemma walk_forever:
  assumes "listing_ok rd" "finite (Collect (under rd dev root))"
    "s 0 = ({#root#}, {#}, [])" "\<And>n. walk_step rd dev (s n) (s (Suc n))"
  shows False
proof -
  have "(walk_step rd dev)\<^sup>*\<^sup>* ({#root#}, {#}, []) (s n)" for n
    by (induction n) (use assms(3,4) in \<open>auto intro: rtranclp.rtrancl_into_rtrancl\<close>)
  then have "(s (Suc n), s n) \<in> walk_order rd dev root" for n
    using walk_step_order [OF assms(4,1)] walk_inv_reached [OF assms(1)] by blast
  then show False using walk_order_wf [OF assms(2)] unfolding wf_iff_no_infinite_down_chain by blast
qed

lemma walk_stack_Nil [simp]: "walk_stack rd dev [] sent = Some sent"
  by (subst walk_stack.simps) simp

lemma walk_stack_steps:
  "walk_stack rd dev pend sent = Some bs \<Longrightarrow> (walk_step rd dev)\<^sup>*\<^sup>* (mset pend, {#}, sent) ({#}, {#}, bs)"
proof (induction rule: walk_stack.raw_induct [rotated, consumes 1, case_names step])
  case (step walk_stack rd dev pend sent bs)
  show ?case
  proof (cases pend)
    case Nil
    then show ?thesis using step(2) by simp
  next
    case (Cons d ds)
    obtain sp b where d: "walk_dir rd dev d = (sp, b)" by force
    have rest: "(walk_step rd dev)\<^sup>*\<^sup>* (mset (sp @ ds), {#}, sent @ (case b of None \<Rightarrow> [] | Some x \<Rightarrow> [x])) ({#}, {#}, bs)"
      using step(2) by (intro step(1)) (simp add: Cons d)
    have one: "walk_step rd dev (mset pend, {#}, sent) (mset ds + mset sp, batch_of b, sent)"
      using walk_step.scan [OF d, of "mset ds" "{#}" sent] by (simp add: Cons)
    have "(walk_step rd dev)\<^sup>*\<^sup>* (mset ds + mset sp, batch_of b, sent)
        (mset ds + mset sp, {#}, sent @ (case b of None \<Rightarrow> [] | Some x \<Rightarrow> [x]))"
      using walk_step.send [of rd dev "mset ds + mset sp" _ "{#}" sent]
      by (cases b) (auto simp: batch_of_def)
    then show ?thesis using one rest by (simp add: add.commute)
  qed
qed

lemma unfinished_steps:
  assumes "\<nexists>t. walk_step rd dev (pend, unsent, sent) t"
  shows "pend = {#}" "unsent = {#}"
proof -
  show "pend = {#}"
  proof (rule ccontr)
    assume "pend \<noteq> {#}"
    then obtain d q where "pend = add_mset d q" by (metis multiset_cases)
    moreover obtain sp b where "walk_dir rd dev d = (sp, b)" by force
    ultimately show False using assms walk_step.scan by metis
  qed
  show "unsent = {#}"
  proof (rule ccontr)
    assume "unsent \<noteq> {#}"
    then obtain b u where "unsent = add_mset b u" by (metis multiset_cases)
    then show False using assms walk_step.send by metis
  qed
qed

lemma stuck_walked:
  assumes "(walk_step rd dev)\<^sup>*\<^sup>* ({#root#}, {#}, []) t \<and> (\<nexists>u. walk_step rd dev t u)"
  shows "\<exists>batches. t = ({#}, {#}, batches) \<and> walked rd dev root batches"
proof -
  obtain pend unsent batches where t: "t = (pend, unsent, batches)" by (cases t)
  then have "t = ({#}, {#}, batches)" using assms unfinished_steps by blast
  then show ?thesis using assms by (auto simp: walked_def)
qed

lemma walk_finishes:
  assumes "listing_ok rd" "finite (Collect (under rd dev root))"
  shows "\<exists>bs. walked rd dev root bs"
proof -
  let ?start = "({#root#}, {#}, [])"
  have "\<exists>bs. (walk_step rd dev)\<^sup>*\<^sup>* ?start ({#}, {#}, bs)" if "(walk_step rd dev)\<^sup>*\<^sup>* ?start s" for s
    using walk_order_wf [OF assms(2)] that
  proof (induction s rule: wf_induct_rule)
    case (less s)
    show ?case
    proof (cases "\<exists>t. walk_step rd dev s t")
      case True
      then obtain t where t: "walk_step rd dev s t" by blast
      show ?thesis
        by (rule less.IH [OF walk_step_order [OF t assms(1) walk_inv_reached [OF assms(1) less.prems]]])
          (rule rtranclp.rtrancl_into_rtrancl [OF less.prems t])
    next
      case False
      obtain pend unsent sent where s: "s = (pend, unsent, sent)" by (cases s)
      show ?thesis using False unfinished_steps [of rd dev pend unsent sent] less.prems unfolding s by blast
    qed
  qed
  then show ?thesis unfolding walked_def by blast
qed

section \<open>The consumer\<close>

text \<open>The files in the order of the batches, and those the consumer keeps.\<close>

definition arrived :: "dir_batch list \<Rightarrow> (path \<times> found) list" where
  "arrived batches = concat (map (\<lambda>(p, fs). map (Pair p) fs) batches)"

fun kept :: "u64 \<Rightarrow> inode set \<Rightarrow> inode set \<Rightarrow> (path \<times> found) list \<Rightarrow> (path \<times> found) list" where
  "kept dev ex seen [] = []"
| "kept dev ex seen ((p, n, d, i, l) # fs) =
     (if d \<noteq> dev \<or> (d, i) \<in> ex \<or> (1 < l \<and> (d, i) \<in> seen) then kept dev ex seen fs
      else (p, n, d, i, l) # kept dev ex (if 1 < l then insert (d, i) seen else seen) fs)"

lemma walk_root_arrived:
  "walk_root dev fs ex batches s = fold_res (\<lambda>(p, f). take_file dev fs ex p f) (arrived batches) s"
  by (auto simp: walk_root_def arrived_def fold_res_concat fold_res_map intro!: fold_res_cong)

lemma take_files_push:
  "fold_res (\<lambda>(p, f). take_file dev fs ex p f) xs (seen, out) = Inr (seen', out') \<Longrightarrow>
   fold_res (\<lambda>(d, n, x) ps. paths_push ps d n x) (map (\<lambda>(p, n, _). (p, n, fs)) (kept dev ex seen xs)) out = Inr out'"
  by (induction dev ex seen xs arbitrary: out rule: kept.induct)
     (auto simp: take_file_def res_simps split: if_splits)

lemma take_files_seen:
  "fold_res (\<lambda>(p, f). take_file dev fs ex p f) xs (seen, out) = Inr (seen', out') \<Longrightarrow> seen \<subseteq> seen'"
  by (induction dev ex seen xs arbitrary: out rule: kept.induct)
     (auto simp: take_file_def res_simps split: if_splits)

lemma kept_subseq: "subseq (kept dev ex seen xs) xs"
  by (induction dev ex seen xs rule: kept.induct) auto

lemma kept_sound: "(p, n, d, i, l) \<in> set (kept dev ex seen xs) \<Longrightarrow> d = dev \<and> (d, i) \<notin> ex"
  by (induction dev ex seen xs rule: kept.induct) (auto split: if_splits)

lemma kept_single:
  "(p, n, dev, i, l) \<in> set xs \<Longrightarrow> \<not> 1 < l \<Longrightarrow> (dev, i) \<notin> ex \<Longrightarrow> (p, n, dev, i, l) \<in> set (kept dev ex seen xs)"
  by (induction dev ex seen xs rule: kept.induct) auto

definition linked :: "u64 \<Rightarrow> u64 \<Rightarrow> path \<times> found \<Rightarrow> bool" where
  "linked dev i = (\<lambda>(p, n, d, j, l). d = dev \<and> j = i \<and> 1 < l)"

lemma linked_simp [simp]: "linked dev i (p, n, d, j, l) \<longleftrightarrow> d = dev \<and> j = i \<and> 1 < l"
  by (simp add: linked_def)

lemma kept_linked:
  "length (filter (linked dev i) (kept dev ex seen xs)) =
     (if (dev, i) \<in> seen \<or> (dev, i) \<in> ex \<or> filter (linked dev i) xs = [] then 0 else 1)"
proof (induction dev ex seen xs rule: kept.induct)
  case (2 dev ex seen p n d j l fs)
  show ?case
  proof (cases "d \<noteq> dev \<or> (d, j) \<in> ex \<or> (1 < l \<and> (d, j) \<in> seen)")
    case True
    then show ?thesis using 2(1) by auto
  next
    case False
    then show ?thesis using 2(2) by (cases "1 < l"; cases "j = i") auto
  qed
qed simp

end
