(* ===== verification/PathsCorrect.thy ===== *)
theory PathsCorrect imports Paths begin

text \<open>
  The properties of the path store: every directory interned and every file pushed keeps
  resolving to its path, interning shares directories, and a name that straddles the 4 GiB
  mark of the arena is accepted but can never be read.
\<close>

definition usr :: path where
  "usr = [RootDir, Normal [117, 115, 114]]"

lemma usr_wf: "path_wf usr" "path_wf (usr @ [Normal [97]])" "name_ok [98]" "name_ok [97]"
  by (simp_all add: usr_def path_wf_def name_ok_def SLASH_def DOT_def)

abbreviation intern_all :: "path list \<Rightarrow> path_table \<Rightarrow> (u32 list \<times> path_table) res" where
  "intern_all ps t \<equiv> fold_res (\<lambda>p (is, t). rbind (intern t p) (\<lambda>(i, t). Inr (is @ [i], t))) ps ([], t)"

text \<open>
  Directories round-trip: after interning any list of well-formed paths into an empty table,
  and whatever order they come in, following the parents of each id from the final table gives
  back the path it was handed out for. The loop over the parents returns.
\<close>

theorem interned_paths_resolve:
  assumes "list_all path_wf ps" "intern_all ps table_empty = Inr (is, t)"
    "table_fits t"
  shows "map (dir_path t) is = map (\<lambda>p. Some (Inr p)) ps"
  using dirs.add_all [OF table_inv_empty _ assms(2,3)] assms(1) by (auto simp: list_all_iff)

theorem interned_paths_resolve_witness:
  "\<exists>is t. intern_all [usr @ [Normal [97]], usr] table_empty = Inr (is, t) \<and> table_fits t \<and>
     map (dir_path t) is = map (\<lambda>p. Some (Inr p)) [usr @ [Normal [97]], usr]"
proof -
  have ex: "\<exists>is t. intern_all [usr @ [Normal [97]], usr] table_empty = Inr (is, t) \<and> table_fits t"
    by (simp add: usr_def intern.simps table_empty_def path_parent_def path_file_name_def push_dir_def
        add_name_def u32_try_from_def NO_PARENT_def as_os_str_def table_fits_def)
  then obtain "is" t where run: "intern_all [usr @ [Normal [97]], usr] table_empty = Inr (is, t)" "table_fits t"
    by blast
  have "list_all path_wf [usr @ [Normal [97]], usr]" using usr_wf by simp
  from interned_paths_resolve [OF this run] run show ?thesis by blast
qed

lemma intern_keeps_ids:
  "intern t p = Inr (i, t') \<Longrightarrow> pt_ids t q = Some j \<Longrightarrow> pt_ids t' q = Some j"
proof (induction t p arbitrary: i t' rule: intern.induct)
  case (1 t p)
  have push: "push_dir u p par name = Inr (i, t') \<Longrightarrow> pt_ids t' q = (if q = p then Some i else pt_ids u q)"
    for u par name by (auto simp: push_dir_def res_simps add_name_def)
  from "1.prems"(1) consider "t' = t"
    | par name k u where "pt_ids t p = None" "path_parent p = Some par" "path_file_name p = Some name"
        "intern t par = Inr (k, u)" "push_dir u p k name = Inr (i, t')"
    | "pt_ids t p = None" "push_dir t p NO_PARENT (as_os_str p) = Inr (i, t')"
    by (subst (asm) intern.simps) (auto simp: res_simps split: option.splits)
  then show ?case
  proof cases
    case (2 par name k u)
    then have "pt_ids u q = Some j" using "1.IH" "1.prems"(2) by blast
    then show ?thesis using push [OF 2(5)] 2(1) "1.prems"(2) by auto
  next
    case 3
    then show ?thesis using push [OF 3(2)] "1.prems"(2) by auto
  qed (use "1.prems" in simp)
qed

abbreviation intern_more :: "path list \<Rightarrow> path_table \<Rightarrow> path_table res" where
  "intern_more qs t \<equiv> fold_res (\<lambda>q t. rbind (intern t q) (\<lambda>(i, t). Inr t)) qs t"

lemma intern_more_keeps_ids:
  "intern_more qs t = Inr u \<Longrightarrow> pt_ids t p = Some i \<Longrightarrow> pt_ids u p = Some i"
  by (induction qs arbitrary: t) (auto simp: res_simps dest: intern_keeps_ids)

text \<open>
  Interning shares: when a directory is interned again, whatever else was interned in
  between, the id is the first one and the table does not grow.
\<close>

theorem intern_shares:
  assumes "table_inv t" "path_wf p" "intern t p = Inr (i, t')" "table_fits t'" "intern_more qs t' = Inr u"
  shows "intern u p = Inr (i, u)"
  using intern_ok [OF assms(1-4)] intern_more_keeps_ids [OF assms(5)]
  by (simp add: intern.simps [of u p])

theorem intern_shares_witness:
  "\<exists>i t u. intern table_empty usr = Inr (i, t) \<and> intern_more [usr @ [Normal [97]]] t = Inr u \<and>
     intern u usr = Inr (i, u)"
proof -
  have "\<exists>i t u. intern table_empty usr = Inr (i, t) \<and> table_fits t \<and> intern_more [usr @ [Normal [97]]] t = Inr u"
    by (simp add: usr_def intern.simps table_empty_def path_parent_def path_file_name_def push_dir_def
        add_name_def u32_try_from_def NO_PARENT_def as_os_str_def table_fits_def)
  then obtain i t u where run: "intern table_empty usr = Inr (i, t)" "table_fits t"
    "intern_more [usr @ [Normal [97]]] t = Inr u" by blast
  show ?thesis using intern_shares [OF table_inv_empty usr_wf(1) run] run by blast
qed

text \<open>
  Files round-trip: after pushing any list of files (directory, name, payload) into an empty
  store, the store lists exactly these files in order, each resolving to its directory with its
  name appended, with its payload.
\<close>

theorem pushed_files_resolve:
  assumes "list_all (\<lambda>(d, n, x). path_wf d \<and> name_ok n) ks"
    "fold_res (\<lambda>(d, n, x) ps. paths_push ps d n x) ks paths_empty = Inr ps"
    "table_fits (ps_table ps)"
  shows "paths_list ps = map (\<lambda>(d, n, x). (Some (Inr (d @ [Normal n])), x)) ks"
proof -
  have "path_wf d \<and> name_ok n" if "(d, n, x) \<in> set ks" for d n x
    using assms(1) that by (auto simp: list_all_iff)
  from push_all_list(2) [OF paths_inv_empty this assms(2,3)] show ?thesis
    by (simp add: paths_list_def paths_empty_def)
qed

theorem pushed_files_resolve_witness:
  "\<exists>ps. fold_res (\<lambda>(d, n, x) ps. paths_push ps d n x) [(usr, [98], 1), (usr, [97], 2 :: nat)] paths_empty = Inr ps \<and>
     paths_list ps = [(Some (Inr (usr @ [Normal [98]])), 1), (Some (Inr (usr @ [Normal [97]])), 2)]"
proof -
  have "\<exists>ps. fold_res (\<lambda>(d, n, x) ps. paths_push ps d n x) [(usr, [98], 1), (usr, [97], 2 :: nat)] paths_empty = Inr ps \<and>
      table_fits (ps_table ps)"
    by (simp add: usr_def paths_push_def paths_empty_def intern.simps table_empty_def path_parent_def
        path_file_name_def push_dir_def add_name_def u32_try_from_def NO_PARENT_def as_os_str_def table_fits_def)
  then obtain ps where run: "fold_res (\<lambda>(d, n, x) ps. paths_push ps d n x) [(usr, [98], 1), (usr, [97], 2 :: nat)] paths_empty = Inr ps"
      "table_fits (ps_table ps)" by blast
  show ?thesis using pushed_files_resolve [OF _ run] usr_wf run(1) by auto
qed

text \<open>
  \<open>Paths::from_iter\<close> keeps the paths and payloads it is given, in order, when each path has
  a file name; sealing the table afterwards changes none of them.
\<close>

theorem from_iter_resolves:
  assumes "list_all (\<lambda>(p, x). path_wf p \<and> path_parent p \<noteq> None \<and> path_file_name p \<noteq> None) xs"
    "paths_from_iter xs = Inr ps" "table_fits (ps_table ps)"
  shows "paths_list ps = map (\<lambda>(p, x). (Some (Inr p), x)) xs"
proof -
  let ?split = "\<lambda>(p, x). (the (path_parent p), the (path_file_name p), x)"
  obtain out where out:
    "fold_res (\<lambda>(p, x) out. paths_push out (case path_parent p of None \<Rightarrow> [] | Some par \<Rightarrow> par)
        (case path_file_name p of None \<Rightarrow> [] | Some n \<Rightarrow> n) x) xs paths_empty = Inr out"
    "ps = out\<lparr>ps_table := seal (ps_table out)\<rparr>"
    using assms(2) by (auto simp: paths_from_iter_def res_simps)
  have "fold_res (\<lambda>(d, n, x) ps. paths_push ps d n x) (map ?split xs) s =
    fold_res (\<lambda>(p, x) out. paths_push out (case path_parent p of None \<Rightarrow> [] | Some par \<Rightarrow> par)
        (case path_file_name p of None \<Rightarrow> [] | Some n \<Rightarrow> n) x) xs s" for s
    using assms(1) by (induction xs arbitrary: s) (auto intro!: rbind_cong)
  then have push: "fold_res (\<lambda>(d, n, x) ps. paths_push ps d n x) (map ?split xs) paths_empty = Inr out"
    using out(1) by simp
  have fits: "table_fits (ps_table out)" using assms(3) out(2) by simp
  have parts: "path_wf (the (path_parent p)) \<and> name_ok (the (path_file_name p)) \<and>
      the (path_parent p) @ [Normal (the (path_file_name p))] = p" if "(p, x) \<in> set xs" for p x
    using that assms(1) path_file_nameD [of p] by (fastforce simp: list_all_iff)
  have "path_wf d \<and> name_ok n" if "(d, n, x) \<in> set (map ?split xs)" for d n x
    using that parts by auto
  from push_all_list(2) [OF paths_inv_empty this push fits]
  have "paths_list out = map (\<lambda>(d, n, x). (Some (Inr (d @ [Normal n])), x)) (map ?split xs)"
    by (simp add: paths_list_def paths_empty_def)
  moreover have "paths_list ps = paths_list out"
    by (simp add: out(2) paths_list_def paths_path_def)
  ultimately show ?thesis using parts by auto
qed

theorem from_iter_resolves_witness:
  "\<exists>ps. paths_from_iter [(usr @ [Normal [98]], True), (usr, False)] = Inr ps \<and>
     paths_list ps = [(Some (Inr (usr @ [Normal [98]])), True), (Some (Inr usr), False)]"
proof -
  have wf: "list_all (\<lambda>(p, x). path_wf p \<and> path_parent p \<noteq> None \<and> path_file_name p \<noteq> None)
      [(usr @ [Normal [98]], True), (usr, False)]"
    by (simp add: usr_def path_wf_def name_ok_def SLASH_def DOT_def path_parent_def path_file_name_def)
  have "\<exists>ps. paths_from_iter [(usr @ [Normal [98]], True), (usr, False)] = Inr ps \<and> table_fits (ps_table ps)"
    by (simp add: paths_from_iter_def usr_def paths_push_def paths_empty_def intern.simps table_empty_def path_parent_def
        path_file_name_def push_dir_def add_name_def u32_try_from_def NO_PARENT_def as_os_str_def table_fits_def seal_def)
  then obtain ps where run: "paths_from_iter [(usr @ [Normal [98]], True), (usr, False)] = Inr ps"
      "table_fits (ps_table ps)" by blast
  show ?thesis using from_iter_resolves [OF wf run] run(1) by simp
qed

text \<open>
  C40. At the 4 GiB mark: a name whose start is below it and whose end is not is accepted by
  \<open>add_name\<close>, but reading it back panics (\<open>off + len\<close> wraps around).
\<close>

theorem straddling_name_panics:
  assumes "length (pt_arena t) < 2 ^ 32" "2 ^ 32 \<le> length (pt_arena t) + length name" "length name < 2 ^ 32"
  shows "\<exists>off len t'. add_name t name = Inr ((off, len), t') \<and> table_name t' off len = Inl Panic"
proof -
  let ?a = "length (pt_arena t)" and ?n = "length name"
  have u: "unat (of_nat ?a :: u32) = ?a" "unat (of_nat ?n :: u32) = ?n"
    using assms by (simp_all add: unat_of_nat)
  have "unat (of_nat ?a + of_nat ?n :: u32) = (?a + ?n) mod 2 ^ 32"
    by (simp add: unat_word_ariths unat_of_nat mod_simps)
  also have "\<dots> = ?a + ?n - 2 ^ 32"
    using assms by (simp add: mod_if)
  finally have "unat (of_nat ?a + of_nat ?n :: u32) < ?a" using assms by simp
  then show ?thesis
    using assms(1) u by (simp add: add_name_def u32_try_from_def table_name_def slice_res_def)
qed

theorem straddling_name_panics_witness:
  "\<exists>off len t'. add_name (table_empty\<lparr>pt_arena := replicate (2 ^ 32 - 1) 0\<rparr>) [97, 98] = Inr ((off, len), t') \<and>
     table_name t' off len = Inl Panic"
  by (rule straddling_name_panics) simp_all

end
