(* ===== verification/WalkResult.thy ===== *)
theory WalkResult imports WalkOut PathsCorrect begin

text \<open>
  The result of the walk in terms of the tree: what the consumer pushes for one root, whatever the
  schedule, and that every pushed file resolves to its path.
\<close>

definition full_name :: "path \<times> found \<Rightarrow> path" where
  "full_name = (\<lambda>(p, n, _). p @ [Normal n])"

lemma full_name_simp [simp]: "full_name (p, n, r) = p @ [Normal n]"
  by (simp add: full_name_def)

lemma arrived_distinct:
  assumes "distinct (map fst bs)" "\<And>p fs. (p, fs) \<in> set bs \<Longrightarrow> distinct (map fst fs)"
  shows "distinct (map full_name (arrived bs))"
  using assms
proof (induction bs)
  case Nil
  then show ?case by (simp add: arrived_def)
next
  case (Cons b bs)
  obtain p fs where b: "b = (p, fs)" by (cases b)
  have "arrived (b # bs) = map (Pair p) fs @ arrived bs" by (simp add: arrived_def b)
  moreover have "map full_name (map (Pair p) fs) = map (\<lambda>n. p @ [Normal n]) (map fst fs)"
    by (auto simp: full_name_def)
  then have "distinct (map full_name (map (Pair p) fs))"
    using Cons.prems(2) [of p fs] by (simp only:, subst distinct_map) (auto simp: b inj_on_def)
  moreover have "fst x \<in> fst ` set bs" if x: "x \<in> set (arrived bs)" for x
    using x by (force simp: arrived_def)
  then have "full_name ` set (map (Pair p) fs) \<inter> full_name ` set (arrived bs) = {}"
    using Cons.prems(1) by (fastforce simp: b full_name_def)
  moreover have "distinct (map full_name (arrived bs))"
    by (rule Cons.IH) (use Cons.prems in auto)
  ultimately show ?case by (simp del: map_map)
qed

lemma walked_batches_eq:
  assumes "walked rd dev root bs" "listing_ok rd"
  shows "set bs = {(d, dir_files rd d) | d. under rd dev root d \<and> dir_files rd d \<noteq> []}"
    and "distinct (map fst bs)"
    and "mset bs = batches_of rd (Collect (under rd dev root))"
proof -
  obtain D where D: "finite D" "D = Collect (under rd dev root)" "mset bs = batches_of rd D"
    using walked_batches [OF assms] .
  then show "mset bs = batches_of rd (Collect (under rd dev root))" by simp
  show "set bs = {(d, dir_files rd d) | d. under rd dev root d \<and> dir_files rd d \<noteq> []}"
    using arg_cong [OF D(3), of set_mset] D(1,2) by (auto simp: batches_of_def)
  obtain ds where ds: "distinct ds" "set ds = {d \<in> D. dir_files rd d \<noteq> []}"
    using D(1) finite_distinct_list [of "{d \<in> D. dir_files rd d \<noteq> []}"] by auto
  have "mset (map fst bs) = filter_mset (\<lambda>d. dir_files rd d \<noteq> []) (mset_set D)"
    using D(3) by (simp add: batches_of_def image_mset.compositionality comp_def)
  also have "\<dots> = mset ds"
    using ds D(1) by (simp add: filter_mset_mset_set flip: mset_set_set)
  finally show "distinct (map fst bs)" using ds(1) mset_eq_imp_distinct_iff by blast
qed

lemma walked_arrived:
  assumes "walked rd dev root bs" "listing_ok rd"
  shows "set (arrived bs) = {(d, f). under rd dev root d \<and> f \<in> set (dir_files rd d)}"
    and "distinct (map full_name (arrived bs))"
proof -
  note eq = walked_batches_eq [OF assms]
  then show "set (arrived bs) = {(d, f). under rd dev root d \<and> f \<in> set (dir_files rd d)}"
    by (fastforce simp: arrived_def)
  show "distinct (map full_name (arrived bs))"
    using dir_files_ok(1) [OF assms(2)] eq by (intro arrived_distinct) auto
qed

text \<open>What one root adds, to whatever was collected before.\<close>

definition collected :: "u64 \<Rightarrow> inode set \<Rightarrow> (path \<times> u64 \<times> u64) set \<Rightarrow> path list \<Rightarrow> bool" where
  "collected dev seen T ps \<longleftrightarrow> distinct ps \<and> set ps \<subseteq> fst ` T \<and>
     (\<forall>(p, i, l) \<in> T. \<not> 1 < l \<longrightarrow> p \<in> set ps) \<and>
     (\<forall>(p, i, l) \<in> T. 1 < l \<and> (dev, i) \<notin> seen \<longrightarrow> (\<exists>!q. q \<in> set ps \<and> (\<exists>l'. (q, i, l') \<in> T \<and> 1 < l')))"

lemma kept_collected:
  assumes "walked rd dev root bs" "listing_ok rd"
  shows "collected dev seen (tree_files rd dev ex root) (map full_name (kept dev ex seen (arrived bs)))"
proof -
  let ?xs = "arrived bs" let ?ks = "kept dev ex seen ?xs" let ?T = "tree_files rd dev ex root"
  note arr = walked_arrived [OF assms]
  note sub = subseqD [OF kept_subseq [of dev ex seen ?xs]]
  have inj: "x = y" if "x \<in> set ?xs" "y \<in> set ?xs" "full_name x = full_name y" for x y
    using arr(2) that by (auto simp: distinct_map dest: inj_onD)
  have dist: "distinct (map full_name ?ks)"
    using arr(2) sub by (auto simp: distinct_map intro: inj_on_subset)
  have T: "(q, i, l) \<in> ?T \<longleftrightarrow> (\<exists>d n. q = d @ [Normal n] \<and> (d, n, dev, i, l) \<in> set ?xs \<and> (dev, i) \<notin> ex)" for q i l
  proof -
    have "(d, n, dev, i, l) \<in> set ?xs \<longleftrightarrow> under rd dev root d \<and> (n, dev, i, l) \<in> set (dir_files rd d)" for d n
      by (simp add: arr(1))
    then show ?thesis unfolding tree_files_def mem_Collect_eq dir_files_spec prod.inject by blast
  qed
  have sound: "full_name x \<in> fst ` ?T" if x: "x \<in> set ?ks" for x
  proof -
    obtain p n d i l where x': "x = (p, n, d, i, l)" by (cases x) auto
    moreover from this x have "d = dev" "(d, i) \<notin> ex" using kept_sound [of p n d i l] by blast+
    ultimately have "(p @ [Normal n], i, l) \<in> ?T" using x sub(1) by (auto simp: T)
    then show ?thesis using x' by force
  qed
  have single: "p \<in> full_name ` set ?ks" if p: "(p, i, l) \<in> ?T" "\<not> 1 < l" for p i l
  proof -
    obtain d n where "p = d @ [Normal n]" "(d, n, dev, i, l) \<in> set ?xs" "(dev, i) \<notin> ex" using p(1) by (auto simp: T)
    then have "(d, n, dev, i, l) \<in> set ?ks" "full_name (d, n, dev, i, l) = p" using kept_single p(2) by auto
    then show ?thesis by blast
  qed
  have links: "\<exists>!q. q \<in> full_name ` set ?ks \<and> (\<exists>l'. (q, i, l') \<in> ?T \<and> 1 < l')"
    if p: "(p, i, l) \<in> ?T" "1 < l" "(dev, i) \<notin> seen" for p i l
  proof -
    obtain d n where "(d, n, dev, i, l) \<in> set ?xs" "(dev, i) \<notin> ex" using p(1) by (auto simp: T)
    then have "(d, n, dev, i, l) \<in> set (filter (linked dev i) ?xs)" using p(2) by simp
    then have "filter (linked dev i) ?xs \<noteq> []" by (metis list.set(1) empty_iff)
    then have "length (filter (linked dev i) ?ks) = 1"
      using kept_linked [of dev i ex seen ?xs] p(3) \<open>(dev, i) \<notin> ex\<close> by simp
    then obtain x where x: "filter (linked dev i) ?ks = [x]" by (auto simp: length_Suc_conv)
    then have only: "{y \<in> set ?ks. linked dev i y} = {x}" by (simp flip: set_filter)
    then have xk: "x \<in> set ?ks" "linked dev i x" by auto
    have only_x: "q = full_name x" if q: "q \<in> full_name ` set ?ks" "(q, i, l') \<in> ?T" "1 < l'" for q l'
    proof -
      obtain y where y: "y \<in> set ?ks" "q = full_name y" using q(1) by auto
      obtain d n where z: "q = d @ [Normal n]" "(d, n, dev, i, l') \<in> set ?xs" using q(2) by (auto simp: T)
      have "y = (d, n, dev, i, l')" using y z sub(1) by (intro inj) auto
      then have "y \<in> {y \<in> set ?ks. linked dev i y}" using y(1) q(3) by simp
      then show ?thesis using only y(2) by auto
    qed
    obtain d n l' where x': "x = (d, n, dev, i, l')" "1 < l'"
      using xk(2) by (cases x) auto
    then have xT: "(full_name x, i, l') \<in> ?T" using xk(1) sub(1) kept_sound [of d n dev i l'] by (auto simp: T)
    show ?thesis
    proof (rule ex1I [of _ "full_name x"])
      show "full_name x \<in> full_name ` set ?ks \<and> (\<exists>l'. (full_name x, i, l') \<in> ?T \<and> 1 < l')"
        using xk(1) xT x'(2) by blast
    qed (use only_x in blast)
  qed
  show ?thesis
    unfolding collected_def set_map
  proof (intro conjI dist image_subsetI sound ballI)
    fix t assume "t \<in> ?T"
    then obtain p i l where t: "t = (p, i, l)" "(p, i, l) \<in> ?T" by (cases t) auto
    show "case t of (p, i, l) \<Rightarrow> \<not> 1 < l \<longrightarrow> p \<in> full_name ` set ?ks"
      unfolding t(1) prod.case using single [OF t(2)] by (rule impI)
    show "case t of (p, i, l) \<Rightarrow> 1 < l \<and> (dev, i) \<notin> seen \<longrightarrow>
        (\<exists>!q. q \<in> full_name ` set ?ks \<and> (\<exists>l'. (q, i, l') \<in> ?T \<and> 1 < l'))"
      unfolding t(1) prod.case using links [OF t(2)] by (intro impI) (elim conjE)
  qed
qed

section \<open>All roots\<close>

lemma under_wf:
  assumes "listing_ok rd" "path_wf root" "under rd dev root d"
  shows "path_wf d"
  using assms(3)
proof (induction rule: under.induct)
  case (sub d d')
  have "path_wf (d @ [Normal n])" if "name_ok n" for n
    using sub(3) that by (cases d) (auto simp: path_wf_def)
  then show ?case using sub(2) assms(1) by (auto simp: subdir_of_def listing_ok_def)
qed (rule assms(2))

definition root_files :: "u64 \<Rightarrow> u64 \<Rightarrow> inode set \<Rightarrow> inode set \<Rightarrow> dir_batch list \<Rightarrow> (path \<times> u8 list \<times> u64) list" where
  "root_files dev fs ex seen bs = map (\<lambda>(p, n, _). (p, n, fs)) (kept dev ex seen (arrived bs))"

definition names_wf :: "(path \<times> u8 list \<times> 'a) list \<Rightarrow> bool" where
  "names_wf ks \<longleftrightarrow> (\<forall>(d, n, x) \<in> set ks. path_wf d \<and> name_ok n)"

lemma root_files_wf:
  assumes "walked rd dev root bs" "listing_ok rd" "path_wf root"
  shows "names_wf (root_files dev fs ex seen bs)"
proof -
  have "path_wf p \<and> name_ok n" if k: "(p, n, r) \<in> set (kept dev ex seen (arrived bs))" for p n r
  proof -
    have "(p, n, r) \<in> set (arrived bs)"
      using k subseqD(1) [OF kept_subseq [of dev ex seen "arrived bs"]] by blast
    then have "under rd dev root p" "(n, r) \<in> set (dir_files rd p)"
      using walked_arrived(1) [OF assms(1,2)] by simp_all
    then show ?thesis
      using under_wf [OF assms(2,3)] dir_files_ok(2) [OF assms(2), of "(n, r)" p] by simp
  qed
  then show ?thesis by (fastforce simp: names_wf_def root_files_def)
qed

lemma walk_root_pushes:
  assumes "walk_root dev fs ex bs (seen, out) = Inr (seen', out')"
  shows "fold_res (\<lambda>(d, n, x) ps. paths_push ps d n x) (root_files dev fs ex seen bs) out = Inr out'"
  using assms take_files_push unfolding walk_root_arrived root_files_def by blast

lemma root_files_paths:
  "map (\<lambda>(d, n, x). (Some (Inr (d @ [Normal n])), x)) (root_files dev fs ex seen bs) =
     map (\<lambda>p. (Some (Inr p), fs)) (map full_name (kept dev ex seen (arrived bs)))"
  by (auto simp: root_files_def)

lemma listed_files:
  assumes "fold_res (\<lambda>(d, n, x) ps. paths_push ps d n x) ks paths_empty = Inr out"
    "names_wf ks" "table_fits (ps_table out)"
  shows "paths_list (out\<lparr>ps_table := seal (ps_table out)\<rparr>) = map (\<lambda>(d, n, x). (Some (Inr (d @ [Normal n])), x)) ks"
proof -
  have "paths_list (out\<lparr>ps_table := seal (ps_table out)\<rparr>) = paths_list out"
    by (simp add: paths_list_def paths_path_def)
  moreover have "paths_list out = map (\<lambda>(d, n, x). (Some (Inr (d @ [Normal n])), x)) ks"
    using push_all_list(2) [OF paths_inv_empty _ assms(1,3)] assms(2)
    by (force simp: paths_list_def paths_empty_def names_wf_def)
  ultimately show ?thesis by simp
qed

end
