(* ===== verification/WalkCorrect.thy ===== *)
theory WalkCorrect imports WalkResult begin

text \<open>
  The properties of the walk: every schedule ends and lists the same tree, hard links collapse, and
  what overlapping roots do; and which datasets are found, including those that are missed.
\<close>

section \<open>A tree\<close>

definition name1 :: "u8 \<Rightarrow> u8 list" where "name1 c = [c]"

definition tree_node :: "ftype \<Rightarrow> u8 \<Rightarrow> u64 \<Rightarrow> u64 \<Rightarrow> u64 \<Rightarrow> io_error + dir_entry" where
  "tree_node ft c dev ino nlink = Inr \<lparr>de_name = name1 c, de_type = Inr ft, de_meta = Inr \<lparr>
     md_is_file = (ft = FtFile), md_is_dir = (ft = FtDir), md_dev = dev, md_ino = ino, md_nlink = nlink,
     md_size = 0, md_mtime = 0, md_mtime_nsec = 0, md_ctime = 0, md_ctime_nsec = 0, md_blksize = 4096\<rparr>\<rparr>"

definition sample_rd :: read_dir where
  "sample_rd p =
     (if p = usr then Inr [tree_node FtDir 100 1 5 2, tree_node FtFile 97 1 10 1, Inl (OsError EACCES), tree_node FtFile 104 1 11 2,
                           tree_node FtDir 109 2 3 1]
      else if p = usr @ [Normal (name1 100)] then Inr [tree_node FtOther 115 1 12 1, tree_node FtFile 104 1 11 2, tree_node FtFile 98 1 13 1]
      else Inl (OsError ENOENT))"

definition sample_batches :: "dir_batch list" where
  "sample_batches = [(usr, [(name1 97, 1, 10, 1), (name1 104, 1, 11, 2)]),
     (usr @ [Normal (name1 100)], [(name1 104, 1, 11, 2), (name1 98, 1, 13, 1)])]"

lemma sample_listing: "listing_ok sample_rd"
  by (auto simp: listing_ok_def sample_rd_def tree_node_def name_ok_def name1_def SLASH_def DOT_def List.map_filter_simps
      split: if_splits)

lemma sample_dirs:
  "walk_dir sample_rd 1 usr = ([usr @ [Normal (name1 100)]], Some (usr, [(name1 97, 1, 10, 1), (name1 104, 1, 11, 2)]))"
  "walk_dir sample_rd 1 (usr @ [Normal (name1 100)]) = ([], Some (usr @ [Normal (name1 100)], [(name1 104, 1, 11, 2), (name1 98, 1, 13, 1)]))"
proof -
  have "path_push usr (name1 100) = usr @ [Normal (name1 100)]"
    by (rule path_push_name) (simp add: name_ok_def name1_def SLASH_def DOT_def)
  then show "walk_dir sample_rd 1 usr = ([usr @ [Normal (name1 100)]], Some (usr, [(name1 97, 1, 10, 1), (name1 104, 1, 11, 2)]))"
    "walk_dir sample_rd 1 (usr @ [Normal (name1 100)]) = ([], Some (usr @ [Normal (name1 100)], [(name1 104, 1, 11, 2), (name1 98, 1, 13, 1)]))"
    by (simp_all add: walk_dir_def sample_rd_def scan_entry_def tree_node_def)
qed

lemma sample_walked: "walked sample_rd 1 usr sample_batches"
proof -
  have "walk_stack sample_rd 1 [usr] [] = Some sample_batches"
    by (subst walk_stack.simps, simp add: sample_dirs, subst walk_stack.simps, simp add: sample_dirs sample_batches_def)
  then show ?thesis using walk_stack_steps by (fastforce simp: walked_def)
qed

lemma inner_walked: "walked sample_rd 1 (usr @ [Normal (name1 100)]) (tl sample_batches)"
proof -
  have "walk_stack sample_rd 1 [usr @ [Normal (name1 100)]] [] = Some (tl sample_batches)"
    by (subst walk_stack.simps, simp add: sample_dirs sample_batches_def)
  then show ?thesis using walk_stack_steps by (fastforce simp: walked_def)
qed

definition sample_root :: "path \<Rightarrow> io_error + metadata" where
  "sample_root p = Inr \<lparr>md_is_file = False, md_is_dir = True, md_dev = 1, md_ino = 2, md_nlink = 3,
     md_size = 0, md_mtime = 0, md_mtime_nsec = 0, md_ctime = 0, md_ctime_nsec = 0, md_blksize = 4096\<rparr>"

lemma sample_root_ids: "root_ids sample_root (\<lambda>_. Inr 7) p = Inr (1, 7)"
  by (simp add: root_ids_def sample_root_def)

section \<open>Schedules\<close>

lemma sample_under: "under sample_rd 1 usr d \<longleftrightarrow> d \<in> {usr, usr @ [Normal (name1 100)]}"
proof
  assume "under sample_rd 1 usr d"
  then show "d \<in> {usr, usr @ [Normal (name1 100)]}"
  proof (induction rule: under.induct)
    case (sub d d')
    then show ?case
      using sample_dirs by (fastforce simp: subdirs_def simp flip: subdirs_spec [OF sample_listing])
  qed simp
next
  assume "d \<in> {usr, usr @ [Normal (name1 100)]}"
  moreover have "subdir_of sample_rd 1 (usr @ [Normal (name1 100)]) usr"
    using sample_dirs by (simp add: subdirs_def flip: subdirs_spec [OF sample_listing])
  ultimately show "under sample_rd 1 usr d" using under.root under.sub by blast
qed

lemma sample_finite: "finite {d. under sample_rd dev root d}"
proof -
  have sub: "d' \<in> {usr @ [Normal (name1 100)], usr @ [Normal (name1 109)]}" if "subdir_of sample_rd dev d' d" for d' d
    using that by (auto simp: subdir_of_def sample_rd_def tree_node_def split: if_splits)
  have "d \<in> {root, usr @ [Normal (name1 100)], usr @ [Normal (name1 109)]}" if "under sample_rd dev root d" for d
    using that by (induction rule: under.induct) (use sub in blast)+
  then have "{d. under sample_rd dev root d} \<subseteq> {root, usr @ [Normal (name1 100)], usr @ [Normal (name1 109)]}" by blast
  then show ?thesis by (rule finite_subset) simp
qed

text \<open>
  C20. The walk ends, having read the whole tree: where there are finitely many directories below the
  root, no schedule of the tasks and of their sends runs forever; a schedule that has got stuck has run
  every task and sent every batch, and the batches are exactly one for each directory below the root,
  on the root's device, that has files, with these files; and there is such a schedule. The directories
  below the root are read off the listings, so a walk that skips one or crosses to another device does
  not do this.
\<close>

theorem walk_terminates:
  assumes "listing_ok rd" "finite {d. under rd dev root d}"
  shows "(\<nexists>s. s 0 = ({#root#}, {#}, []) \<and> (\<forall>n. walk_step rd dev (s n) (s (Suc n)))) \<and>
    (\<forall>t. (walk_step rd dev)\<^sup>*\<^sup>* ({#root#}, {#}, []) t \<and> (\<nexists>u. walk_step rd dev t u) \<longrightarrow>
       (\<exists>batches. t = ({#}, {#}, batches) \<and> distinct (map fst batches) \<and>
          set batches = {(d, dir_files rd d) | d. under rd dev root d \<and> dir_files rd d \<noteq> []})) \<and>
    (\<exists>batches. walked rd dev root batches)"
proof (intro conjI allI impI)
  show "\<nexists>s. s 0 = ({#root#}, {#}, []) \<and> (\<forall>n. walk_step rd dev (s n) (s (Suc n)))"
    using walk_forever [OF assms] by blast
  show "\<exists>batches. walked rd dev root batches" by (rule walk_finishes [OF assms])
  fix t assume "(walk_step rd dev)\<^sup>*\<^sup>* ({#root#}, {#}, []) t \<and> (\<nexists>u. walk_step rd dev t u)"
  then obtain batches where t: "t = ({#}, {#}, batches)" "walked rd dev root batches" using stuck_walked by blast
  show "\<exists>batches. t = ({#}, {#}, batches) \<and> distinct (map fst batches) \<and>
      set batches = {(d, dir_files rd d) | d. under rd dev root d \<and> dir_files rd d \<noteq> []}"
    using t(1) walked_batches_eq(1,2) [OF t(2) assms(1)] by blast
qed

theorem walk_terminates_witness:
  "(\<exists>batches. walked sample_rd 1 usr batches) \<and>
   (\<nexists>s. s 0 = ({#usr#}, {#}, []) \<and> (\<forall>n. walk_step sample_rd 1 (s n) (s (Suc n))))"
  using walk_terminates [OF sample_listing sample_finite] by blast



section \<open>What is listed\<close>

lemma one_root:
  assumes "root_ids stat fsid_of root = Inr (dev, fs)" "walk_files stat fsid_of batches [root] ex = Inr out"
  obtains o' where "out = o'\<lparr>ps_table := seal (ps_table o')\<rparr>"
    "fold_res (\<lambda>(d, n, x) ps. paths_push ps d n x) (root_files dev fs ex {} (batches root dev)) paths_empty = Inr o'"
  using assms by (auto simp: walk_files_def res_simps dest!: walk_root_pushes)

text \<open>
  C8. The walk lists exactly the regular files of a root: for every schedule, on any tree, the result
  resolves to distinct paths of files under the root on the root's device that are not excluded, tagged
  with the dataset's id; every such file without hard links is listed, and of each set of hard links
  exactly one path. Unreadable entries, other file types and other mounts are left out.
\<close>

theorem walk_lists_tree:
  assumes "listing_ok rd" "path_wf root" "root_ids stat fsid_of root = Inr (dev, fs)"
    "walked rd dev root (batches root dev)" "walk_files stat fsid_of batches [root] ex = Inr out"
    "table_fits (ps_table out)"
  shows "\<exists>ps. paths_list out = map (\<lambda>p. (Some (Inr p), fs)) ps \<and>
    collected dev {} (tree_files rd dev ex root) ps"
proof -
  obtain o' where o': "out = o'\<lparr>ps_table := seal (ps_table o')\<rparr>"
    "fold_res (\<lambda>(d, n, x) ps. paths_push ps d n x) (root_files dev fs ex {} (batches root dev)) paths_empty = Inr o'"
    by (rule one_root [OF assms(3,5)])
  have "table_fits (ps_table o')" using assms(6) o'(1) by simp
  then show ?thesis
    using listed_files [OF o'(2) root_files_wf [OF assms(4,1,2)]] o'(1) kept_collected [OF assms(4,1)]
    by (simp only: root_files_paths) blast
qed

text \<open>
  C35. Overlapping roots list a file twice: when one root lies inside another on the same device, every
  file without hard links under the inner one is in the result once for each of them. (Only files with
  several links go through the \<open>seen\<close> set.)
\<close>

theorem overlapping_roots_twice:
  assumes "listing_ok rd" "path_wf r" "path_wf r'" "root_ids stat fsid_of r = Inr (dev, fs)"
    "root_ids stat fsid_of r' = Inr (dev, fs)" "walked rd dev r (batches r dev)" "walked rd dev r' (batches r' dev)"
    "under rd dev r r'" "(p, i, l) \<in> tree_files rd dev ex r'" "\<not> 1 < l"
    "walk_files stat fsid_of batches [r, r'] ex = Inr out" "table_fits (ps_table out)"
  shows "\<exists>xs ys. paths_list out = xs @ ys \<and> (Some (Inr p), fs) \<in> set xs \<and> (Some (Inr p), fs) \<in> set ys"
proof -
  obtain seen seen' o1 o2 where run: "walk_root dev fs ex (batches r dev) ({}, paths_empty) = Inr (seen, o1)"
      "walk_root dev fs ex (batches r' dev) (seen, o1) = Inr (seen', o2)" "out = o2\<lparr>ps_table := seal (ps_table o2)\<rparr>"
    using assms(4,5,11) by (auto simp: walk_files_def res_simps)
  let ?k1 = "root_files dev fs ex {} (batches r dev)" and ?k2 = "root_files dev fs ex seen (batches r' dev)"
  have push: "fold_res (\<lambda>(d, n, x) ps. paths_push ps d n x) (?k1 @ ?k2) paths_empty = Inr o2"
    using walk_root_pushes [OF run(1)] walk_root_pushes [OF run(2)] by (simp add: fold_res_append)
  have "names_wf (?k1 @ ?k2)"
    using root_files_wf [OF assms(6,1,2)] root_files_wf [OF assms(7,1,3)] by (force simp: names_wf_def)
  from listed_files [OF push this] have list: "paths_list out =
      map (\<lambda>p. (Some (Inr p), fs)) (map full_name (kept dev ex {} (arrived (batches r dev)))) @
      map (\<lambda>p. (Some (Inr p), fs)) (map full_name (kept dev ex seen (arrived (batches r' dev))))"
    using assms(12) run(3) by (simp add: root_files_paths del: map_map)
  have "under rd dev r d" if "under rd dev r' d" for d
    using that by (induction rule: under.induct) (use assms(8) under.sub in blast)+
  then have "(p, i, l) \<in> tree_files rd dev ex r" using assms(9) by (auto simp: tree_files_def)
  then have "p \<in> full_name ` set (kept dev ex {} (arrived (batches r dev)))"
      "p \<in> full_name ` set (kept dev ex seen (arrived (batches r' dev)))"
    using assms(9,10) kept_collected [OF assms(6,1), of "{}" ex] kept_collected [OF assms(7,1), of seen ex]
    by (auto simp: collected_def)
  moreover have "(Some (Inr p), fs) \<in> set (map (\<lambda>p. (Some (Inr p), fs)) (map full_name ks))"
    if "p \<in> full_name ` set ks" for ks
    using that by auto
  ultimately show ?thesis using list by blast
qed

abbreviation sample_walk :: "path list \<Rightarrow> u64 paths res" where
  "sample_walk roots \<equiv> walk_files sample_root (\<lambda>_. Inr 7)
     (\<lambda>r _. if r = usr then sample_batches else tl sample_batches) roots {}"

lemma sample_walk_runs:
  "roots = [usr] \<or> roots = [usr, usr @ [Normal (name1 100)]] \<Longrightarrow> \<exists>out. sample_walk roots = Inr out \<and> table_fits (ps_table out)"
  by (auto simp: walk_files_def sample_root_ids walk_root_def sample_batches_def take_file_def name1_def usr_def paths_push_def
      paths_empty_def intern.simps table_empty_def path_parent_def path_file_name_def push_dir_def add_name_def
      u32_try_from_def NO_PARENT_def as_os_str_def table_fits_def seal_def)

theorem walk_lists_tree_witness:
  "\<exists>out ps. sample_walk [usr] = Inr out \<and> paths_list out = map (\<lambda>p. (Some (Inr p), 7)) ps \<and>
     collected 1 {} (tree_files sample_rd 1 {} usr) ps"
proof -
  obtain out where run: "sample_walk [usr] = Inr out" "table_fits (ps_table out)"
    using sample_walk_runs by blast
  show ?thesis
    using walk_lists_tree [OF sample_listing usr_wf(1) sample_root_ids _ run] sample_walked run by simp
qed

theorem overlapping_roots_twice_witness:
  "\<exists>out xs ys. sample_walk [usr, usr @ [Normal (name1 100)]] = Inr out \<and> paths_list out = xs @ ys \<and>
     (Some (Inr (usr @ [Normal (name1 100)] @ [Normal (name1 98)])), 7) \<in> set xs \<and>
     (Some (Inr (usr @ [Normal (name1 100)] @ [Normal (name1 98)])), 7) \<in> set ys"
proof -
  let ?d = "usr @ [Normal (name1 100)]"
  obtain out where run: "sample_walk [usr, ?d] = Inr out" "table_fits (ps_table out)"
    using sample_walk_runs by blast
  have wf: "path_wf ?d" by (simp add: usr_def path_wf_def name_ok_def name1_def SLASH_def DOT_def)
  have un: "under sample_rd 1 usr ?d" by (simp add: sample_under)
  have "dir_files sample_rd ?d = [(name1 104, 1, 11, 2), (name1 98, 1, 13, 1)]"
    using sample_dirs(2) by (simp add: walk_dir_eq split: if_splits)
  then have "(name1 98, 1, 13, 1) \<in> set (dir_files sample_rd ?d)" by simp
  then have inner: "(?d @ [Normal (name1 98)], 13, 1) \<in> tree_files sample_rd 1 {} ?d"
    unfolding dir_files_spec using under.root by (fastforce simp: tree_files_def)
  have ne: "?d \<noteq> usr" by simp
  show ?thesis
    using overlapping_roots_twice [OF sample_listing usr_wf(1) wf sample_root_ids sample_root_ids _ _ un inner _ run]
      sample_walked inner_walked run ne by simp
qed

end
