(* ===== verification/DatasetsCorrect.thy ===== *)
theory DatasetsCorrect imports ZfsMounts begin

text \<open>The properties of the discovery of datasets and of their pools.\<close>

definition pool_name :: "mount_info \<Rightarrow> u8 list" where
  "pool_name m = hd (split_on SLASH (mi_source m))"

lemma split_escape:
  assumes "SLASH \<notin> S"
  shows "split_on SLASH (escape S s) = map (escape S) (split_on SLASH s)"
proof (induction s)
  case (Cons b s)
  have "BACKSLASH \<noteq> SLASH" by (simp add: char_defs)
  then show ?case
    using Cons assms octal_digit_range by (cases "split_on SLASH s") (auto split: list.splits)
qed simp

lemma escape_plain: "set s \<inter> S = {} \<Longrightarrow> escape S s = s"
  by (induction s) auto

lemma escape_marks: "set s \<inter> S \<noteq> {} \<Longrightarrow> BACKSLASH \<in> set (escape S s)"
  by (induction s) auto

lemma escaped_pool:
  assumes "SLASH \<notin> S" "\<And>p. p \<in> pools \<Longrightarrow> BACKSLASH \<notin> set p"
  shows "hd (split_on SLASH (escape S s)) \<in> pools \<longleftrightarrow>
    hd (split_on SLASH s) \<in> pools \<and> set (hd (split_on SLASH s)) \<inter> S = {}"
proof -
  have "hd (split_on SLASH (escape S s)) = escape S (hd (split_on SLASH s))"
    by (simp add: split_escape [OF assms(1)] hd_map)
  then show ?thesis using assms(2) escape_plain escape_marks by metis
qed

text \<open>
  C36. Which datasets the default scan finds: from the kernel's mountinfo of any mounts, exactly the mount
  points of whole ZFS datasets (not of bind mounts of a subtree) whose pool is among the given ones and
  has no byte in its name that mountinfo escapes. So the datasets of a pool with a space in its name,
  which ZFS allows, are missed, because the source field is compared without unescaping it.
\<close>

theorem mountpoints_exact:
  assumes "escaping S" "SLASH \<notin> S" "list_all info_ok ms" "\<forall>p \<in> pools. BACKSLASH \<notin> set p"
  shows "zfs_mountpoints (info_text S ms) pools =
    map mi_point (filter (\<lambda>m. mi_fstype m = bytes ''zfs'' \<and> mi_root m = [RootDir] \<and>
                         pool_name m \<in> pools \<and> set (pool_name m) \<inter> S = {}) ms)"
proof -
  have root: "components (bytes ''/'') = [RootDir]"
    by (simp add: components_def bytes_def SLASH_def comp_of_def List.map_filter_simps)
  have pool: "(case iter_next (split_on SLASH s) of Some (pool, _) \<Rightarrow> pool \<in> pools | None \<Rightarrow> s \<in> pools) \<longleftrightarrow>
      hd (split_on SLASH s) \<in> pools" for s
    by (cases "split_on SLASH s") (use split_on_nonempty in auto)
  have "hd (split_on SLASH (escape S s)) \<in> pools \<longleftrightarrow>
      hd (split_on SLASH s) \<in> pools \<and> set (hd (split_on SLASH s)) \<inter> S = {}" for s
    using escaped_pool [OF assms(2)] assms(4) by blast
  then show ?thesis
    by (simp add: zfs_mountpoints_def parse_info_text [OF assms(1,3)] filter_map comp_def parsed_info_def root pool
        pool_name_def)
qed

definition tank :: mount_info where
  "tank = nix_store\<lparr>mi_root := [RootDir], mi_point := [RootDir, Normal (bytes ''tank'')], mi_source := bytes ''tank/data''\<rparr>"

definition my_pool :: mount_info where
  "my_pool = tank\<lparr>mi_point := [RootDir, Normal (bytes ''pool'')], mi_source := bytes ''my pool''\<rparr>"

theorem mountpoints_exact_witness:
  "zfs_mountpoints (info_text blanks [nix_store, tank, my_pool]) {bytes ''tank'', bytes ''zroot'', bytes ''my pool''} =
     [[RootDir, Normal (bytes ''tank'')]]"
proof -
  have ok: "list_all info_ok [nix_store, tank, my_pool]"
    by (simp add: info_ok_def my_pool_def tank_def nix_store_def word_ok_def path_wf_def name_ok_def bytes_def char_defs)
  have "SLASH \<notin> blanks" "\<forall>p \<in> {bytes ''tank'', bytes ''zroot'', bytes ''my pool''}. BACKSLASH \<notin> set p"
    by (simp_all add: blanks_def bytes_def char_defs)
  note run = mountpoints_exact [OF sample_mounts(3) this(1) ok this(2)]
  show ?thesis
    unfolding run by (simp add: pool_name_def my_pool_def tank_def nix_store_def bytes_def blanks_def char_defs)
qed

text \<open>
  Which pools count as able to clone: exactly those with a line of the output of \<open>zpool get\<close> that has
  the pool's name, a tab, and \<open>active\<close> or \<open>enabled\<close>; lines of another form are skipped, and output that is
  not valid UTF-8 is repaired, not an error. A command that cannot be run or fails is an error.
\<close>

theorem pools_exact:
  "cloneable_pools Z k = (case ze_command Z ''zpool'' [''get'', ''-H'', ''-o'', ''name,value'', ''feature@block_cloning''] k of
     Inl e \<Rightarrow> Inl (Fail [Message ''query block_cloning pool feature (requires OpenZFS 2.2+)'',
                        Message ''run (is ZFS installed and in PATH?)'', IoCause e])
   | Inr out \<Rightarrow>
       if co_success out
       then Inr {p. \<exists>v. v \<in> {bytes ''active'', bytes ''enabled''} \<and>
                        (\<exists>l \<in> set (str_lines (utf8_lossy (co_stdout out))). split_once [TAB] l = Some (p, v))}
       else Inl (Fail [Message ''query block_cloning pool feature (requires OpenZFS 2.2+)'', Message ''failed'']))"
proof -
  have "pools_of out = {p. \<exists>v. v \<in> {bytes ''active'', bytes ''enabled''} \<and>
      (\<exists>l \<in> set (str_lines out). split_once [TAB] l = Some (p, v))}" for out
    unfolding pools_of_set by blast
  then show ?thesis by (simp add: cloneable_pools_def zfs_cmd_def split: sum.split)
qed

end
