(* ===== verification/Errors.thy ===== *)
theory Errors imports Prelude begin

text \<open>
  The classification of \<open>anyhow\<close> errors at the end of \<open>src/dedup.rs\<close>: which errors
  count as a vanished file, which as a file in use, and which as a failure of the run. Both
  predicates walk the whole chain of causes and look only at causes that are a
  \<open>std::io::Error\<close>.
\<close>

fun as_io_error :: "cause \<Rightarrow> io_error option" where
  "as_io_error (IoCause e) = Some e"
| "as_io_error (ErrnoCause e) = None"
| "as_io_error (Message m) = None"

definition is_not_found :: "anyhow \<Rightarrow> bool" where
  "is_not_found e = list_ex (\<lambda>c. case as_io_error c of
      None \<Rightarrow> False
    | Some io \<Rightarrow> error_kind io = NotFound \<or> error_kind io = UnexpectedEof) e"

definition is_busy :: "anyhow \<Rightarrow> bool" where
  "is_busy e = list_ex (\<lambda>c. case as_io_error c of
      None \<Rightarrow> False
    | Some io \<Rightarrow> (case raw_os_error io of
        None \<Rightarrow> False
      | Some errno \<Rightarrow> errno = EAGAIN \<or> errno = ETXTBSY \<or> errno = EPERM)) e"

text \<open>How a caller in \<open>dedup.rs\<close> or \<open>main.rs\<close> treats an error, in the order of its match arms.\<close>

datatype verdict = Vanished | Busy | Failed

definition classify :: "anyhow \<Rightarrow> verdict" where
  "classify e = (if is_not_found e then Vanished else if is_busy e then Busy else Failed)"

lemma is_not_found_simps [simp]:
  "is_not_found [] = False"
  "is_not_found (IoCause io # e) =
     (error_kind io = NotFound \<or> error_kind io = UnexpectedEof \<or> is_not_found e)"
  "is_not_found (ErrnoCause n # e) = is_not_found e"
  "is_not_found (Message m # e) = is_not_found e"
  by (auto simp: is_not_found_def)

lemma is_busy_simps [simp]:
  "is_busy [] = False"
  "is_busy (IoCause io # e) =
     ((case raw_os_error io of None \<Rightarrow> False
       | Some n \<Rightarrow> n = EAGAIN \<or> n = ETXTBSY \<or> n = EPERM) \<or> is_busy e)"
  "is_busy (ErrnoCause n # e) = is_busy e"
  "is_busy (Message m # e) = is_busy e"
  by (auto simp: is_busy_def)

lemma classify_context [simp]: "classify (Message m # e) = classify e"
  by (simp add: classify_def)

lemma classify_errno [simp]: "classify (ErrnoCause n # e) = classify e"
  by (simp add: classify_def)

lemma classify_Nil [simp]: "classify [] = Failed"
  by (simp add: classify_def)

lemma classify_os_error:
  "classify [IoCause (OsError n)] =
     (if n = ENOENT then Vanished
      else if n = EAGAIN \<or> n = ETXTBSY \<or> n = EPERM then Busy else Failed)"
  by (auto simp: classify_def errno_defs)

text \<open>An error chain with no \<open>std::io::Error\<close> in it always counts as a failure.\<close>

lemma classify_no_io:
  "list_all (\<lambda>c. as_io_error c = None) e \<Longrightarrow> classify e = Failed"
  by (auto simp: classify_def is_not_found_def is_busy_def list_ex_iff list_all_iff)

end
