(* ===== verification/Clone.thy ===== *)
theory Clone imports Errors Codec begin

text \<open>
  \<open>src/clone.rs\<close>: the two ioctls that share blocks, their argument structs, and the probe
  that finds out whether FIDEDUPERANGE works. The ioctl system calls are arguments: they take
  the kernel's state, which the model threads through. A \<open>RawFd\<close> is an \<open>i32\<close>.
\<close>

type_synonym fd = i32

record file_clone_range =
  fc_src_fd :: i64
  fc_src_offset :: u64
  fc_src_length :: u64
  fc_dest_offset :: u64

record file_dedupe_range =
  dr_src_offset :: u64
  dr_src_length :: u64
  dr_dest_count :: u16
  dr_reserved1 :: u16
  dr_reserved2 :: u32

record file_dedupe_range_info =
  di_dest_fd :: i64
  di_dest_offset :: u64
  di_bytes_deduped :: u64
  di_status :: i32
  di_reserved :: u32

record dedupe_one =
  do_range :: file_dedupe_range
  do_info :: file_dedupe_range_info

definition FILE_DEDUPE_RANGE_DIFFERS :: i32 where "FILE_DEDUPE_RANGE_DIFFERS = 1"

datatype dedupe = Same u64 | Differs | Unsupported

text \<open>
  \<open>ioctl(fd, FIDEDUPERANGE, &mut arg)\<close>: the kernel writes its answer into the argument, and
  \<open>output_from_ptr\<close> reads it back.
\<close>

type_synonym 'k dedupe_ioctl = "fd \<Rightarrow> dedupe_one \<Rightarrow> 'k \<Rightarrow> (errno + dedupe_one) \<times> 'k"

type_synonym 'k clone_ioctl = "fd \<Rightarrow> file_clone_range \<Rightarrow> 'k \<Rightarrow> (errno + unit) \<times> 'k"

definition output_from_ptr :: "dedupe_one \<Rightarrow> i32 \<times> u64" where
  "output_from_ptr out = (di_status (do_info out), di_bytes_deduped (do_info out))"

definition dedupe_arg :: "u64 \<Rightarrow> fd \<Rightarrow> u64 \<Rightarrow> u64 \<Rightarrow> dedupe_one" where
  "dedupe_arg src_off dst dst_off len = \<lparr>
     do_range = \<lparr>dr_src_offset = src_off, dr_src_length = len, dr_dest_count = 1,
                 dr_reserved1 = 0, dr_reserved2 = 0\<rparr>,
     do_info = \<lparr>di_dest_fd = scast dst, di_dest_offset = dst_off, di_bytes_deduped = 0,
                di_status = 0, di_reserved = 0\<rparr>\<rparr>"

definition dedupe_range ::
    "'k dedupe_ioctl \<Rightarrow> fd \<Rightarrow> u64 \<Rightarrow> fd \<Rightarrow> u64 \<Rightarrow> u64 \<Rightarrow> 'k \<Rightarrow> (errno + dedupe) \<times> 'k" where
  "dedupe_range ioctl src src_off dst dst_off len k =
     (case ioctl src (dedupe_arg src_off dst dst_off len) k of (r, k) \<Rightarrow>
        let (status, n) = (case r of Inr out \<Rightarrow> output_from_ptr out | Inl e \<Rightarrow> (- e, 0))
        in (if status = 0 then Inr (Same n)
            else if status = FILE_DEDUPE_RANGE_DIFFERS then Inr Differs
            else if - status = ENOTTY \<or> - status = EOPNOTSUPP \<or> - status = ENOSYS
            then Inr Unsupported
            else Inl (- status), k))"

definition clone_range ::
    "'k clone_ioctl \<Rightarrow> fd \<Rightarrow> u64 \<Rightarrow> fd \<Rightarrow> u64 \<Rightarrow> u64 \<Rightarrow> 'k \<Rightarrow> (errno + unit) \<times> 'k" where
  "clone_range ioctl src src_off dst dst_off len k =
     ioctl dst \<lparr>fc_src_fd = scast src, fc_src_offset = src_off, fc_src_length = len,
                fc_dest_offset = dst_off\<rparr> k"

section \<open>The probe\<close>

definition xorshift :: "u64 \<Rightarrow> u64" where
  "xorshift x = (let x = x XOR push_bit 13 x; x = x XOR drop_bit 7 x in x XOR push_bit 17 x)"

fun xorshifts :: "nat \<Rightarrow> u64 \<Rightarrow> u64 list" where
  "xorshifts 0 x = []"
| "xorshifts (Suc n) x = xorshift x # xorshifts n (xorshift x)"

definition PROBE_LEN :: nat where "PROBE_LEN = 128 * 1024"

definition probe_data :: "u8 list" where
  "probe_data = concat (map (le_bytes 8) (xorshifts (PROBE_LEN div 8) 0x9e3779b97f4a7c15))"

text \<open>The calls on temporary files: the \<open>tempfile\<close> crate, and writing and syncing a file.\<close>

record 'k temp_env =
  te_tempfile :: "u8 list \<Rightarrow> 'k \<Rightarrow> (io_error + fd) \<times> 'k"
  te_write_all :: "fd \<Rightarrow> u8 list \<Rightarrow> 'k \<Rightarrow> (io_error + unit) \<times> 'k"
  te_sync_all :: "fd \<Rightarrow> 'k \<Rightarrow> (io_error + unit) \<times> 'k"
  te_dedupe :: "'k dedupe_ioctl"

text \<open>\<open>?\<close> on an I/O result, with the state threaded through.\<close>

definition and_then :: "(io_error + 'a) \<times> 'k \<Rightarrow> ('a \<Rightarrow> 'k \<Rightarrow> (io_error + 'b) \<times> 'k) \<Rightarrow> (io_error + 'b) \<times> 'k" where
  "and_then x f = (case x of (Inl e, k) \<Rightarrow> (Inl e, k) | (Inr a, k) \<Rightarrow> f a k)"

definition probe_dedupe :: "'k temp_env \<Rightarrow> u8 list \<Rightarrow> 'k \<Rightarrow> (io_error + bool) \<times> 'k" where
  "probe_dedupe E d k =
     and_then (te_tempfile E d k) (\<lambda>a k.
     and_then (te_tempfile E d k) (\<lambda>b k.
     and_then (te_write_all E a probe_data k) (\<lambda>_ k.
     and_then (te_write_all E b probe_data k) (\<lambda>_ k.
     and_then (te_sync_all E a k) (\<lambda>_ k.
     and_then (te_sync_all E b k) (\<lambda>_ k.
     case dedupe_range (te_dedupe E) a 0 b 0 (of_nat PROBE_LEN) k of
       (Inr Unsupported, k) \<Rightarrow> (Inr False, k)
     | (Inr _, k) \<Rightarrow> (Inr True, k)
     | (Inl e, k) \<Rightarrow> (Inl (OsError e), k)))))))"

section \<open>Facts\<close>

lemma length_xorshifts [simp]: "length (xorshifts n x) = n"
  by (induction n arbitrary: x) simp_all

lemma length_concat_map: "(\<And>x. x \<in> set xs \<Longrightarrow> length (f x) = n) \<Longrightarrow> length (concat (map f xs)) = n * length xs"
  by (induction xs) simp_all

lemma length_probe_data: "length probe_data = PROBE_LEN"
  unfolding probe_data_def by (subst length_concat_map [where n = 8]) (auto simp: PROBE_LEN_def)

lemma xor_push_bit_zero:
  assumes "x XOR push_bit n x = (0 :: 'a::len word)" "0 < n"
  shows "x = 0"
proof -
  have "\<not> bit x i" for i
  proof (induction i rule: less_induct)
    case (less i)
    have "bit x i = bit (push_bit n x) i" using assms(1) by (metis xor_self_eq xor.right_neutral xor.assoc)
    then show ?case using less [of "i - n"] assms(2) by (auto simp: bit_simps)
  qed
  then show ?thesis by (simp add: bit_eq_iff)
qed

lemma xor_drop_bit_zero:
  assumes "x XOR drop_bit n x = (0 :: 'a::len word)" "0 < n"
  shows "x = 0"
proof (rule ccontr)
  assume "x \<noteq> 0"
  have "x = drop_bit n x" using assms(1) by (metis xor_self_eq xor.right_neutral xor.assoc)
  then have "unat x = unat x div 2 ^ n" by (metis unat_drop_bit_eq drop_bit_eq_div)
  moreover have "0 < unat x" using \<open>x \<noteq> 0\<close> by (simp add: unat_gt_0)
  then have "unat x div 2 ^ n < unat x" using assms(2) one_less_power [of "2 :: nat" n] by (intro div_less_dividend) auto
  ultimately show False by simp
qed

lemma xorshift_nonzero: "x \<noteq> 0 \<Longrightarrow> xorshift x \<noteq> 0"
  unfolding xorshift_def Let_def using xor_push_bit_zero xor_drop_bit_zero by (metis zero_less_numeral)

lemma xorshifts_nonzero: "x \<noteq> 0 \<Longrightarrow> 0 \<notin> set (xorshifts n x)"
proof (induction n arbitrary: x)
  case (Suc n)
  then show ?case using xorshift_nonzero by (metis insert_iff list.set(2) xorshifts.simps(2))
qed simp

end
