(* ===== verification/Cli.thy ===== *)
theory Cli imports WalkCorrect DatasetsCorrect Clone begin

text \<open>
  The first half of \<open>src/main.rs\<close>: the key of the prune filter, the command line and the probe of
  FIDEDUPERANGE over several directories. The \<open>lexopt\<close> crate, which splits the command line, is the
  record \<open>lexopt\<close> over a parser state; the environment variables are an argument.
\<close>

section \<open>The key of the prune filter\<close>

definition prune_key :: "u64 \<Rightarrow> u64 \<Rightarrow> u64" where
  "prune_key fs ino =
     (let k = word_rotl 32 fs XOR ino;
          k = (k XOR drop_bit 30 k) * 0xbf58476d1ce4e5b9;
          k = (k XOR drop_bit 27 k) * 0x94d049bb133111eb
      in k XOR drop_bit 31 k)"

section \<open>The command line\<close>

definition default_cache :: "(string \<Rightarrow> u8 list option) \<Rightarrow> path" where
  "default_cache env =
     (let base = (case env ''XDG_CACHE_HOME'' of
            Some x \<Rightarrow> components x
          | None \<Rightarrow> (case env ''HOME'' of
              Some h \<Rightarrow> path_push (components h) (bytes ''.cache'')
            | None \<Rightarrow> components (bytes ''/var/cache'')))
      in path_push (path_push base (bytes ''zfs-dedup'')) (bytes ''cache.redb''))"

record args =
  ar_cache :: path
  ar_dry_run :: bool
  ar_jobs :: "u64 option"
  ar_force :: bool
  ar_dirs :: "path list"

datatype arg = Short char | Long string | Value "u8 list"

type_synonym lex_error = string

record 'p lexopt =
  lx_next :: "'p \<Rightarrow> (lex_error + arg option) \<times> 'p"
  lx_value :: "'p \<Rightarrow> (lex_error + u8 list) \<times> 'p"
  lx_parse :: "u8 list \<Rightarrow> lex_error + u64"
  lx_unexpected :: "arg \<Rightarrow> lex_error"

text \<open>What the loop ends with; the help and the version end the process with success.\<close>

datatype outcome = Parsed args | BadUsage lex_error | ExitSuccess

definition handle_arg :: "'p lexopt \<Rightarrow> arg \<Rightarrow> 'p \<Rightarrow> args \<Rightarrow> (outcome + args) \<times> 'p" where
  "handle_arg P arg p args =
     (if arg = Short CHR ''c'' \<or> arg = Long ''cache''
      then case lx_value P p of
             (Inl e, p) \<Rightarrow> (Inl (BadUsage e), p)
           | (Inr v, p) \<Rightarrow> (Inr (args\<lparr>ar_cache := components v\<rparr>), p)
      else if arg = Short CHR ''n'' \<or> arg = Long ''dry-run'' then (Inr (args\<lparr>ar_dry_run := True\<rparr>), p)
      else if arg = Short CHR ''j'' \<or> arg = Long ''jobs''
      then case lx_value P p of
             (Inl e, p) \<Rightarrow> (Inl (BadUsage e), p)
           | (Inr v, p) \<Rightarrow>
               (case lx_parse P v of
                  Inl e \<Rightarrow> (Inl (BadUsage e), p)
                | Inr n \<Rightarrow> (Inr (args\<lparr>ar_jobs := Some n\<rparr>), p))
      else if arg = Short CHR ''f'' \<or> arg = Long ''force'' then (Inr (args\<lparr>ar_force := True\<rparr>), p)
      else if arg = Short CHR ''h'' \<or> arg = Long ''help'' then (Inl ExitSuccess, p)
      else if arg = Short CHR ''V'' \<or> arg = Long ''version'' then (Inl ExitSuccess, p)
      else case arg of
             Value v \<Rightarrow> (Inr (args\<lparr>ar_dirs := ar_dirs args @ [components v]\<rparr>), p)
           | _ \<Rightarrow> (Inl (BadUsage (lx_unexpected P arg)), p))"

partial_function (option) parse_loop :: "'p lexopt \<Rightarrow> 'p \<Rightarrow> args \<Rightarrow> outcome option" where
  "parse_loop P p args =
     (case lx_next P p of
        (Inl e, p) \<Rightarrow> Some (BadUsage e)
      | (Inr None, p) \<Rightarrow> Some (Parsed args)
      | (Inr (Some arg), p) \<Rightarrow>
          (case handle_arg P arg p args of
             (Inl out, p) \<Rightarrow> Some out
           | (Inr args, p) \<Rightarrow> parse_loop P p args))"

definition parse_args :: "'p lexopt \<Rightarrow> (string \<Rightarrow> u8 list option) \<Rightarrow> 'p \<Rightarrow> outcome option" where
  "parse_args P env p = parse_loop P p
     \<lparr>ar_cache = default_cache env, ar_dry_run = False, ar_jobs = None, ar_force = False, ar_dirs = []\<rparr>"

section \<open>The probe over several directories\<close>

fun probe_fideduperange :: "'k temp_env \<Rightarrow> path list \<Rightarrow> 'k \<Rightarrow> bool \<times> 'k" where
  "probe_fideduperange T [] k = (False, k)"
| "probe_fideduperange T (d # dirs) k =
     (case probe_dedupe T (as_os_str d) k of
        (Inr b, k) \<Rightarrow> (b, k)
      | (Inl e, k) \<Rightarrow> probe_fideduperange T dirs k)"

section \<open>The command line that was meant\<close>

text \<open>One option or directory, as it is written in its short or long form.\<close>

datatype opt = CacheOpt bool "u8 list" | DryRun bool | JobsOpt bool "u8 list" | Force bool | Dir "u8 list"

fun opt_arg :: "opt \<Rightarrow> arg" where
  "opt_arg (CacheOpt l v) = (if l then Long ''cache'' else Short CHR ''c'')"
| "opt_arg (DryRun l) = (if l then Long ''dry-run'' else Short CHR ''n'')"
| "opt_arg (JobsOpt l v) = (if l then Long ''jobs'' else Short CHR ''j'')"
| "opt_arg (Force l) = (if l then Long ''force'' else Short CHR ''f'')"
| "opt_arg (Dir v) = Value v"

fun opt_value :: "opt \<Rightarrow> u8 list option" where
  "opt_value (CacheOpt l v) = Some v"
| "opt_value (JobsOpt l v) = Some v"
| "opt_value _ = None"

text \<open>The documented behaviour of \<open>lexopt\<close> on a command line of options, with the values it holds.\<close>

definition lexopt_lawful :: "'p lexopt \<Rightarrow> ('p \<Rightarrow> opt list) \<Rightarrow> bool" where
  "lexopt_lawful P view \<longleftrightarrow> (\<forall>p. case view p of
     [] \<Rightarrow> fst (lx_next P p) = Inr None
   | t # ts \<Rightarrow> fst (lx_next P p) = Inr (Some (opt_arg t)) \<and>
       (case opt_value t of
          None \<Rightarrow> view (snd (lx_next P p)) = ts
        | Some v \<Rightarrow> fst (lx_value P (snd (lx_next P p))) = Inr v \<and> view (snd (lx_value P (snd (lx_next P p)))) = ts))"

definition last_some :: "'a \<Rightarrow> 'a option list \<Rightarrow> 'a" where
  "last_some d xs = (case filter (\<lambda>x. x \<noteq> None) xs of [] \<Rightarrow> d | ys \<Rightarrow> the (last ys))"

lemma last_some_simps [simp]:
  "last_some d [] = d"
  "last_some d (None # xs) = last_some d xs"
  "last_some d (Some x # xs) = last_some x xs"
  by (auto simp: last_some_def split: list.split)

fun cache_value :: "opt \<Rightarrow> path option" where
  "cache_value (CacheOpt l v) = Some (components v)"
| "cache_value _ = None"

fun jobs_value :: "(u8 list \<Rightarrow> lex_error + u64) \<Rightarrow> opt \<Rightarrow> u64 option option" where
  "jobs_value num (JobsOpt l v) = Some (case num v of Inl e \<Rightarrow> None | Inr n \<Rightarrow> Some n)"
| "jobs_value num _ = None"

fun is_dry_run :: "opt \<Rightarrow> bool" where
  "is_dry_run (DryRun l) = True"
| "is_dry_run _ = False"

fun is_force :: "opt \<Rightarrow> bool" where
  "is_force (Force l) = True"
| "is_force _ = False"

fun dir_value :: "opt \<Rightarrow> path option" where
  "dir_value (Dir v) = Some (components v)"
| "dir_value _ = None"

text \<open>The arguments after one option, with the numbers that \<open>parse\<close> reads.\<close>

fun apply_opt :: "(u8 list \<Rightarrow> lex_error + u64) \<Rightarrow> opt \<Rightarrow> args \<Rightarrow> args" where
  "apply_opt num (CacheOpt l v) a = a\<lparr>ar_cache := components v\<rparr>"
| "apply_opt num (DryRun l) a = a\<lparr>ar_dry_run := True\<rparr>"
| "apply_opt num (JobsOpt l v) a = a\<lparr>ar_jobs := (case num v of Inl e \<Rightarrow> None | Inr n \<Rightarrow> Some n)\<rparr>"
| "apply_opt num (Force l) a = a\<lparr>ar_force := True\<rparr>"
| "apply_opt num (Dir v) a = a\<lparr>ar_dirs := ar_dirs a @ [components v]\<rparr>"

definition numbers_ok :: "'p lexopt \<Rightarrow> opt list \<Rightarrow> bool" where
  "numbers_ok P ts \<longleftrightarrow> (\<forall>l v. JobsOpt l v \<in> set ts \<longrightarrow> (\<exists>n. lx_parse P v = Inr n))"

lemma handle_opt:
  assumes "opt_value t = None \<and> q' = q \<or> (\<exists>v. opt_value t = Some v \<and> lx_value P q = (Inr v, q'))" "numbers_ok P [t]"
  shows "handle_arg P (opt_arg t) q a = (Inr (apply_opt (lx_parse P) t a), q')"
  using assms by (cases t) (auto simp: handle_arg_def numbers_ok_def)

lemma parse_loop_opts:
  assumes "lexopt_lawful P view" "numbers_ok P (view p)"
  shows "parse_loop P p a = Some (Parsed (fold (apply_opt (lx_parse P)) (view p) a))"
  using assms(2)
proof (induction "view p" arbitrary: p a)
  case Nil
  then show ?case
    using assms(1) [unfolded lexopt_lawful_def, rule_format, of p]
    by (subst parse_loop.simps) (auto split: prod.split)
next
  case (Cons t ts)
  note view = Cons.hyps(2) [symmetric]
  obtain r q where nx: "lx_next P p = (r, q)" by force
  obtain r' q1 where vl: "lx_value P q = (r', q1)" by force
  note law = assms(1) [unfolded lexopt_lawful_def, rule_format, of p, unfolded view, simplified, unfolded nx, simplified]
  then obtain q' where q': "view q' = ts" "opt_value t = None \<and> q' = q \<or> (\<exists>v. opt_value t = Some v \<and> lx_value P q = (Inr v, q'))"
    using vl by (cases "opt_value t") auto
  have num: "numbers_ok P [t]" "numbers_ok P (view q')"
    using Cons.prems q'(1) by (auto simp: numbers_ok_def view)
  have "parse_loop P p a = parse_loop P q' (apply_opt (lx_parse P) t a)"
    using law by (subst parse_loop.simps) (simp add: nx handle_opt [OF q'(2) num(1)])
  also have "\<dots> = Some (Parsed (fold (apply_opt (lx_parse P)) (view q') (apply_opt (lx_parse P) t a)))"
    by (rule Cons.hyps(1)) (use q' num in simp_all)
  finally show ?case by (simp add: view q')
qed

lemma fold_apply_opt:
  "fold (apply_opt num) ts a = \<lparr>
    ar_cache = last_some (ar_cache a) (map cache_value ts),
    ar_dry_run = (ar_dry_run a \<or> list_ex is_dry_run ts),
    ar_jobs = last_some (ar_jobs a) (map (jobs_value num) ts),
    ar_force = (ar_force a \<or> list_ex is_force ts),
    ar_dirs = ar_dirs a @ List.map_filter dir_value ts\<rparr>"
proof (induction ts arbitrary: a)
  case (Cons t ts)
  then show ?case by (cases t) (simp_all add: List.map_filter_simps)
qed (simp add: List.map_filter_simps)

end
