(* ===== verification/HasherFacts.thy ===== *)
theory HasherFacts imports Hasher begin

text \<open>
  What hashing computes: the zero test, the read loop over any lawful reader (short reads and a
  reused buffer included), the chunk hashes of a file as a function of its contents, and the
  cached hashing of one file.
\<close>

section \<open>The reference: a file cut into chunks\<close>

function chunks :: "nat \<Rightarrow> 'a list \<Rightarrow> 'a list list" where
  "chunks n xs = (if n = 0 \<or> xs = [] then [] else take n xs # chunks n (drop n xs))"
  by pat_completeness auto
termination
  by (relation "measure (\<lambda>(n, xs). length xs)") auto

declare chunks.simps [simp del]

definition file_hashes :: "(u8 list \<Rightarrow> u128) \<Rightarrow> nat \<Rightarrow> u8 list \<Rightarrow> chunk_hash list" where
  "file_hashes xxh3 n xs = map (chunk_digest xxh3) (chunks n xs)"

lemma chunks_Nil [simp]: "chunks n [] = []"
  by (simp add: chunks.simps)

lemma concat_chunks: "0 < n \<Longrightarrow> concat (chunks n xs) = xs"
proof (induction n xs rule: chunks.induct)
  case (1 n xs)
  then show ?case by (subst chunks.simps) simp
qed

lemma length_chunks: "0 < n \<Longrightarrow> length (chunks n xs) = (length xs + n - 1) div n"
proof (induction n xs rule: chunks.induct)
  case (1 n xs)
  show ?case
  proof (cases "length xs \<le> n")
    case True
    then have "chunks n (drop n xs) = []" by simp
    then have "length (chunks n xs) = (if xs = [] then 0 else 1)"
      using 1(2) by (simp add: chunks.simps [of n xs])
    moreover have "(length xs + n - 1) div n = (if xs = [] then 0 else 1)"
    proof (cases "xs = []")
      case False
      then have "length xs + n - 1 = n + (length xs - 1)" "length xs - 1 < n"
        using True by (cases xs; simp)+
      then show ?thesis using False 1(2) by (simp only: div_add_self1) simp
    qed (use 1(2) in simp)
    ultimately show ?thesis by simp
  next
    case False
    then have "xs \<noteq> []" by auto
    with False have "length (chunks n (drop n xs)) = (length xs - 1) div n"
      using 1 by auto
    moreover have "length xs + n - 1 = (length xs - 1) + n" using False by simp
    then have "(length xs + n - 1) div n = Suc ((length xs - 1) div n)"
      using 1(2) by (simp only: div_add_self2)
    moreover have "length (chunks n xs) = Suc (length (chunks n (drop n xs)))"
      using \<open>xs \<noteq> []\<close> 1(2) by (subst chunks.simps) simp
    ultimately show ?thesis by simp
  qed
qed

lemma nth_chunks: "i < length (chunks n xs) \<Longrightarrow> chunks n xs ! i = slice_of (i * n) n xs"
proof (induction n xs arbitrary: i rule: chunks.induct)
  case (1 n xs)
  show ?case
  proof (cases "n = 0 \<or> xs = []")
    case True
    then show ?thesis using "1.prems" by (simp add: chunks.simps [of n xs])
  next
    case False
    then have eq: "chunks n xs = take n xs # chunks n (drop n xs)" by (simp add: chunks.simps)
    show ?thesis
    proof (cases i)
      case 0
      then show ?thesis by (simp add: eq slice_of_def)
    next
      case (Suc j)
      then have "chunks n (drop n xs) ! j = slice_of (j * n) n (drop n xs)"
        using "1.prems" False by (intro "1.IH") (auto simp: eq)
      then show ?thesis by (simp add: eq Suc slice_of_def add.commute)
    qed
  qed
qed

section \<open>The zero test\<close>

lemma is_zero_eq: "is_zero buf \<longleftrightarrow> buf = replicate (length buf) 0"
proof (induction buf rule: is_zero.induct)
  case (1 rest)
  show ?case
  proof (cases "rest = []")
    case True
    then show ?thesis by (simp add: is_zero.simps)
  next
    case False
    define n where "n = min (length rest) (length ZEROS)"
    have take: "take n ZEROS = replicate n 0" by (simp add: ZEROS_def n_def)
    have "is_zero rest \<longleftrightarrow> take n rest = replicate n 0 \<and> is_zero (drop n rest)"
      using False by (subst is_zero.simps) (simp add: n_def [symmetric] take Let_def)
    also have "\<dots> \<longleftrightarrow> take n rest = replicate n 0 \<and> drop n rest = replicate (length rest - n) 0"
      using "1.IH" [OF False n_def] by (auto simp: take)
    also have "\<dots> \<longleftrightarrow> rest = replicate (length rest) 0"
    proof
      assume "take n rest = replicate n 0 \<and> drop n rest = replicate (length rest - n) 0"
      then have "rest = replicate n 0 @ replicate (length rest - n) 0"
        by (metis append_take_drop_id)
      then show "rest = replicate (length rest) 0"
        by (metis n_def le_add_diff_inverse min.cobounded1 replicate_add)
    next
      assume "rest = replicate (length rest) 0"
      then show "take n rest = replicate n 0 \<and> drop n rest = replicate (length rest - n) 0"
        by (metis n_def drop_replicate min.absorb1 min.cobounded1 take_replicate)
    qed
    finally show ?thesis .
  qed
qed

section \<open>Lawful readers\<close>

text \<open>
  The contract of \<open>std::io::Read\<close> over the bytes \<open>rem r\<close> still ahead: a successful read
  returns the next bytes, at most as many as asked for, and none only at the end.
\<close>

definition reader_lawful :: "'r reader \<Rightarrow> ('r \<Rightarrow> u8 list) \<Rightarrow> bool" where
  "reader_lawful rd rem \<longleftrightarrow> (\<forall>r n bs r'. 0 < n \<longrightarrow> rd r n = (Inr bs, r') \<longrightarrow>
     length bs \<le> n \<and> rem r = bs @ rem r' \<and> (bs = [] \<longrightarrow> rem r = []))"

lemma reader_lawfulD:
  assumes "reader_lawful rd rem" "0 < n" "rd r n = (Inr bs, r')"
  shows "length bs \<le> n" "rem r = bs @ rem r'" "bs = [] \<longrightarrow> rem r = []"
  using assms unfolding reader_lawful_def by blast+

definition never_fails :: "'r reader \<Rightarrow> bool" where
  "never_fails rd \<longleftrightarrow> (\<forall>r n. \<exists>bs r'. rd r n = (Inr bs, r'))"

lemma length_overwrite_take:
  "off \<le> length xs \<Longrightarrow> length (overwrite off (take (length xs - off) bs) xs) = length xs"
  by (intro length_overwrite) simp

lemma read_full_length: "read_full rd buf off r = (n, buf', r') \<Longrightarrow> length buf' = length buf"
proof (induction rd buf off r arbitrary: n buf' r' rule: read_full.induct)
  case (1 rd buf off r)
  consider "buf' = buf"
    | bs t where "off < length buf" "rd r (length buf - off) = (Inr bs, t)" "bs \<noteq> []"
        "read_full rd (overwrite off (take (length buf - off) bs) buf) (off + length bs) t = (n, buf', r')"
    using "1.prems" by (simp add: read_full.simps [of rd buf off r] split: if_splits sum.splits prod.splits)
  then show ?case
  proof cases
    case (2 bs t)
    then have "length buf' = length (overwrite off (take (length buf - off) bs) buf)"
      using "1.IH" [OF 2(1) 2(2) [symmetric] refl 2(3) 2(4)] by simp
    then show ?thesis using 2(1) by (simp add: length_overwrite_take)
  qed simp
qed

lemma read_full_ok:
  assumes "reader_lawful rd rem" "off \<le> length buf" "read_full rd buf off r = (Inr n, buf', r')"
  shows "n = min (length buf) (off + length (rem r))"
    and "take n buf' = take off buf @ take (n - off) (rem r)"
    and "rem r' = drop (n - off) (rem r)"
proof -
  have "n = min (length buf) (off + length (rem r)) \<and>
        take n buf' = take off buf @ take (n - off) (rem r) \<and> rem r' = drop (n - off) (rem r)"
    using assms
  proof (induction rd buf off r arbitrary: n buf' r' rule: read_full.induct)
    case (1 rd buf off r)
    show ?case
    proof (cases "off < length buf")
      case False
      then have "read_full rd buf off r = (Inr off, buf, r)"
        by (simp add: read_full.simps [of rd buf off r])
      then show ?thesis using "1.prems" False by auto
    next
      case True
      let ?w = "length buf - off"
      obtain bs t where rd: "rd r ?w = (Inr bs, t)"
        using "1.prems"(3) True
        by (auto simp: read_full.simps [of rd buf off r] split: sum.splits prod.splits)
      have law: "length bs \<le> ?w" "rem r = bs @ rem t" "bs = [] \<longrightarrow> rem r = []"
        using reader_lawfulD [OF "1.prems"(1) _ rd] True by auto
      show ?thesis
      proof (cases "bs = []")
        case True
        then show ?thesis
          using "1.prems" \<open>off < length buf\<close> rd law by (simp add: read_full.simps [of rd buf off r])
      next
        case False
        let ?buf = "overwrite off bs buf"
        have le: "off + length bs \<le> length buf" using law(1) True by simp
        then have len: "length ?buf = length buf" by simp
        have rec: "read_full rd ?buf (off + length bs) t = (Inr n, buf', r')"
          using "1.prems"(3) True rd False law(1)
          by (simp add: read_full.simps [of rd buf off r])
        have tk: "take ?w bs = bs" using law(1) by simp
        have IH: "n = min (length ?buf) (off + length bs + length (rem t)) \<and>
            take n buf' = take (off + length bs) ?buf @ take (n - (off + length bs)) (rem t) \<and>
            rem r' = drop (n - (off + length bs)) (rem t)"
          by (rule "1.IH" [OF True rd [symmetric] refl False, unfolded tk, OF "1.prems"(1) _ rec])
             (simp add: le)
        have front: "take (off + length bs) ?buf = take off buf @ bs"
          using True by (simp add: overwrite_def)
        have "off + length bs \<le> n" using IH len law True by simp
        then have rest: "take (n - off) (rem r) = bs @ take (n - (off + length bs)) (rem t)"
            "drop (n - off) (rem r) = drop (n - (off + length bs)) (rem t)"
          using law(2) by simp_all
        have "n = min (length buf) (off + length (rem r))"
          using IH len law(2) by simp
        moreover have "take n buf' = take off buf @ take (n - off) (rem r)"
          using conjunct1 [OF conjunct2 [OF IH]] by (simp only: front rest append.assoc)
        moreover have "rem r' = drop (n - off) (rem r)"
          using conjunct2 [OF conjunct2 [OF IH]] by (simp only: rest)
        ultimately show ?thesis by blast
      qed
    qed
  qed
  then show "n = min (length buf) (off + length (rem r))"
    "take n buf' = take off buf @ take (n - off) (rem r)"
    "rem r' = drop (n - off) (rem r)" by auto
qed

lemma read_full_never_fails:
  "never_fails rd \<Longrightarrow> \<exists>n buf' r'. read_full rd buf off r = (Inr n, buf', r')"
proof (induction rd buf off r rule: read_full.induct)
  case (1 rd buf off r)
  obtain bs t where "rd r (length buf - off) = (Inr bs, t)"
    using "1.prems" unfolding never_fails_def by blast
  then show ?case
    using "1.IH" "1.prems" by (subst read_full.simps) auto
qed

text \<open>
  Over a lawful reader the loop returns, never panics, and a success is the hash of every chunk
  of what was ahead; only an error of the reader can keep it from succeeding.
\<close>

lemma hash_loop_ok:
  assumes "reader_lawful rd rem" "0 < length buf"
  shows "\<exists>res r'. hash_loop xxh3 rd buf hashes r = Some (res, r') \<and> res \<noteq> Inl Panic \<and>
           (\<forall>hs. res = Inr hs \<longrightarrow> hs = hashes @ file_hashes xxh3 (length buf) (rem r)) \<and>
           (never_fails rd \<longrightarrow> (\<exists>hs. res = Inr hs))"
  using assms(2)
proof (induction "length (rem r)" arbitrary: buf hashes r rule: less_induct)
  case less
  obtain n buf' r' where full: "read_full rd buf 0 r = (n, buf', r')" by (metis prod_cases3)
  show ?case
  proof (cases n)
    case (Inl e)
    then have "\<not> never_fails rd" using full read_full_never_fails [of rd buf 0 r] by auto
    then show ?thesis using full Inl by (subst hash_loop.simps) simp
  next
    case (Inr k)
    have k: "k = min (length buf) (length (rem r))" "take k buf' = take k (rem r)"
        "rem r' = drop k (rem r)"
      using read_full_ok [OF assms(1) _ full [unfolded Inr]] by simp_all
    have len: "length buf' = length buf" using read_full_length [OF full] .
    have chunks: "chunks (length buf) (rem r) =
        (if k = 0 then [] else take k (rem r) # chunks (length buf) (rem r'))"
      using less.prems k by (subst chunks.simps) (auto simp: min_def)
    consider "k = 0" | "0 < k" "k < length buf" | "k = length buf" "0 < k" using k(1) less.prems by linarith
    then show ?thesis
    proof cases
      case 1
      then show ?thesis
        using full Inr chunks by (subst hash_loop.simps) (simp add: file_hashes_def)
    next
      case 2
      then have "rem r' = []" using k by simp
      then show ?thesis
        using 2 full Inr len chunks k(2) by (subst hash_loop.simps) (simp add: file_hashes_def)
    next
      case 3
      let ?hs = "hashes @ [chunk_digest xxh3 (take k buf')]"
      have "length (rem r') = length (rem r) - k" "k \<le> length (rem r)" using k(1,3) by simp_all
      then have "length (rem r') < length (rem r)" using 3(2) by linarith
      then obtain res t where IH: "hash_loop xxh3 rd buf' ?hs r' = Some (res, t)" "res \<noteq> Inl Panic"
          "\<And>hs. res = Inr hs \<Longrightarrow> hs = ?hs @ file_hashes xxh3 (length buf') (rem r')"
          "never_fails rd \<Longrightarrow> \<exists>hs. res = Inr hs"
        using less.hyps [of r' buf' ?hs] less.prems len by auto
      have "hash_loop xxh3 rd buf hashes r = hash_loop xxh3 rd buf' ?hs r'"
        using 3 full Inr len by (subst hash_loop.simps) simp
      then show ?thesis
        using IH len 3 chunks k(2) by (auto simp: file_hashes_def)
    qed
  qed
qed

lemma hash_fd_ok:
  assumes "reader_lawful rd rem" "0 < blksz"
  shows "\<exists>res r'. hash_fd xxh3 rd r blksz = Some (res, r') \<and> res \<noteq> Inl Panic \<and>
           (\<forall>hs. res = Inr hs \<longrightarrow> hs = file_hashes xxh3 (unat blksz) (rem r)) \<and>
           (never_fails rd \<longrightarrow> (\<exists>hs. res = Inr hs))"
proof -
  have "0 < unat blksz" using assms(2) by (simp add: word_less_nat_alt)
  then have "max (unat blksz) 1 = unat blksz" by simp
  then show ?thesis
    using hash_loop_ok [OF assms(1), of "replicate (unat blksz) 0" xxh3 "[]" r] assms(2) \<open>0 < unat blksz\<close>
    by (simp add: hash_fd_eq)
qed

lemma length_chunk_digest [simp]: "length (chunk_digest xxh3 c) = HASH_LEN"
  by (simp add: chunk_digest_def ZERO_HASH_def hash_chunk_def HASH_LEN_def)

lemma file_hashes_wf: "list_all hash_wf (file_hashes xxh3 n xs)"
  by (simp add: file_hashes_def list_all_iff hash_wf_def)

end
