(* ===== verification/Membership.thy ===== *)
theory Membership imports Prelude begin

text \<open>
  The contract of an approximate membership filter, as the two clients of
  \<open>src/bloom.rs\<close> rely on it (the duplicate pre-filter of \<open>build_index\<close> and the
  pruning of the hash cache): a filter never forgets a key and never panics, but may claim to
  have seen a key that it has not.
\<close>

text \<open>
  One key of the pre-filter pass of \<open>build_index\<close>, over the filter's check-and-insert
  operation: a key that the filter claims to have seen goes into the set of candidates.
\<close>

definition dup_step ::
    "('f \<Rightarrow> 'k \<Rightarrow> (bool \<times> 'f) res) \<Rightarrow> 'k \<Rightarrow> 'f \<times> 'k set \<Rightarrow> ('f \<times> 'k set) res" where
  "dup_step chk k = (\<lambda>(seen, dup). rbind (chk seen k) (\<lambda>(present, seen').
     Inr (seen', if present then insert k dup else dup)))"

locale membership_filter =
  fixes ins :: "'f \<Rightarrow> 'k \<Rightarrow> 'f res"
    and has :: "'f \<Rightarrow> 'k \<Rightarrow> bool res"
    and chk :: "'f \<Rightarrow> 'k \<Rightarrow> (bool \<times> 'f) res"
    and inv :: "'f \<Rightarrow> bool"
  assumes ins_total: "inv f \<Longrightarrow> \<exists>g. ins f k = Inr g \<and> inv g"
    and has_total: "inv f \<Longrightarrow> \<exists>b. has f k = Inr b"
    and ins_has: "inv f \<Longrightarrow> ins f k = Inr g \<Longrightarrow> has g k = Inr True"
    and ins_mono: "inv f \<Longrightarrow> has f j = Inr True \<Longrightarrow> ins f k = Inr g \<Longrightarrow> has g j = Inr True"
    and chk_eq: "chk f k = rbind (has f k) (\<lambda>p. rbind (ins f k) (\<lambda>g. Inr (p, g)))"
begin

lemma insert_all:
  assumes "inv f"
  shows "\<exists>g. fold_res (\<lambda>k f. ins f k) ks f = Inr g \<and> inv g \<and>
           (\<forall>k. k \<in> set ks \<or> has f k = Inr True \<longrightarrow> has g k = Inr True)"
  using assms
proof (induction ks arbitrary: f)
  case Nil
  then show ?case by simp
next
  case (Cons k ks)
  obtain g where g: "ins f k = Inr g" "inv g"
    using ins_total Cons.prems by blast
  obtain h where h: "fold_res (\<lambda>k f. ins f k) ks g = Inr h" "inv h"
      "\<And>j. j \<in> set ks \<or> has g j = Inr True \<Longrightarrow> has h j = Inr True"
    using Cons.IH [OF g(2)] by blast
  have "has h j = Inr True" if "j \<in> set (k # ks) \<or> has f j = Inr True" for j
    using that h(3) ins_has [OF Cons.prems g(1)] ins_mono [OF Cons.prems _ g(1)] by auto
  then show ?case using g h(1,2) by auto
qed

lemma chk_total:
  assumes "inv f"
  obtains p g where "chk f k = Inr (p, g)" "ins f k = Inr g" "has f k = Inr p" "inv g"
  using ins_total [OF assms, of k] has_total [OF assms, of k] by (auto simp: chk_eq)

text \<open>
  The scan never fails, adds no key but those it visits, and finds every key it visits twice,
  or visits once when the filter already claims it.
\<close>

lemma dup_scan:
  assumes "inv f"
  shows "\<exists>g D'. fold_res (dup_step chk) ks (f, D) = Inr (g, D') \<and> inv g \<and>
           D \<subseteq> D' \<and> D' \<subseteq> D \<union> set ks \<and>
           (\<forall>k. 2 \<le> count_list ks k \<or> (has f k = Inr True \<and> k \<in> set ks) \<longrightarrow> k \<in> D')"
  using assms
proof (induction ks arbitrary: f D)
  case Nil
  then show ?case by simp
next
  case (Cons k ks)
  from Cons.prems obtain p g where
    chk: "chk f k = Inr (p, g)" and ins: "ins f k = Inr g" and
    has: "has f k = Inr p" and "inv g"
    by (rule chk_total)
  define E where "E = (if p then insert k D else D)"
  obtain h D' where rest: "fold_res (dup_step chk) ks (g, E) = Inr (h, D')" "inv h"
      "E \<subseteq> D'" "D' \<subseteq> E \<union> set ks"
      "\<And>j. 2 \<le> count_list ks j \<or> (has g j = Inr True \<and> j \<in> set ks) \<Longrightarrow> j \<in> D'"
    using Cons.IH [OF \<open>inv g\<close>, of E] by blast
  have "j \<in> D'" if "2 \<le> count_list (k # ks) j \<or> (has f j = Inr True \<and> j \<in> set (k # ks))" for j
  proof (cases "j = k")
    case False
    then show ?thesis
      using that rest(5) [of j] ins_mono [OF Cons.prems _ ins, of j] by auto
  next
    case True
    have "k \<in> set ks \<or> p"
    proof (rule disjCI)
      assume "\<not> p"
      then have "2 \<le> count_list (k # ks) k" using that True has by auto
      then show "k \<in> set ks" by (cases "k \<in> set ks") (auto simp: count_notin)
    qed
    then consider "k \<in> set ks" | "p" by blast
    then show ?thesis
    proof cases
      case 1
      then show ?thesis
        using rest(5) [of k] ins_has [OF Cons.prems ins] True by simp
    next
      case 2
      then show ?thesis using rest(3) True by (auto simp: E_def)
    qed
  qed
  moreover have "fold_res (dup_step chk) (k # ks) (f, D) = Inr (h, D')"
    using rest(1) by (simp add: dup_step_def chk E_def)
  ultimately show ?case
    using rest(2-4) by (auto simp: E_def split: if_splits)
qed

end

end
