(* ===== verification/Bloom.thy ===== *)
theory Bloom imports Membership begin

text \<open>
  \<open>src/bloom.rs\<close>: a Bloom filter over 64-bit keys with seven probes per key. The bit array
  is a list of 64-bit words; probe \<open>i\<close> of key \<open>k\<close> is
  \<open>k + i * ((k >> 32) | 1)\<close>, wrapping, masked to the array. Indexing the array panics out
  of range, so every operation returns a result; the invariant shows that none of them panics.
\<close>

section \<open>The standard library's \<open>next_power_of_two\<close>\<close>

text \<open>
  The smallest power of two at or above the argument, by doubling; a release build returns 0
  when it does not fit (\<open>of_nat (2 ^ 64) = 0\<close>).
\<close>

function pow2_from :: "nat \<Rightarrow> nat \<Rightarrow> nat" where
  "pow2_from p n = (if p < n \<and> 0 < p then pow2_from (2 * p) n else p)"
  by pat_completeness auto
termination
  by (relation "measure (\<lambda>(p, n). n - p)") auto

declare pow2_from.simps [simp del]

definition next_power_of_two :: "u64 \<Rightarrow> u64" where
  "next_power_of_two n = of_nat (pow2_from 1 (unat n))"

section \<open>The filter and its operations\<close>

record bloom =
  bl_bits :: "u64 list"
  bl_mask :: u64

text \<open>The loop \<open>for i in 0..K\<close> with \<open>K = 7\<close>.\<close>

definition bloom_rounds :: "u32 list" where
  "bloom_rounds = [0, 1, 2, 3, 4, 5, 6]"

definition bloom_new :: "u64 \<Rightarrow> bloom" where
  "bloom_new n_keys =
     (let bits = max (next_power_of_two (n_keys * 10)) 64
      in \<lparr>bl_bits = replicate (unat (bits div 64)) 0, bl_mask = bits - 1\<rparr>)"

definition bloom_pos :: "bloom \<Rightarrow> u64 \<Rightarrow> u32 \<Rightarrow> u64" where
  "bloom_pos b k i = (let step = drop_bit 32 k OR 1 in (k + ucast i * step) AND bl_mask b)"

definition bloom_insert_at :: "u64 \<Rightarrow> u32 \<Rightarrow> bloom \<Rightarrow> bloom res" where
  "bloom_insert_at k i b =
     (let pos = bloom_pos b k i; w = unat pos div 64
      in rbind (index_res (bl_bits b) w) (\<lambda>x.
           Inr (b\<lparr>bl_bits := (bl_bits b)[w := x OR push_bit (unat (pos mod 64)) 1]\<rparr>)))"

definition bloom_insert :: "bloom \<Rightarrow> u64 \<Rightarrow> bloom res" where
  "bloom_insert b k = fold_res (bloom_insert_at k) bloom_rounds b"

definition bloom_contains :: "bloom \<Rightarrow> u64 \<Rightarrow> bool res" where
  "bloom_contains b k = all_res (\<lambda>i.
     let pos = bloom_pos b k i
     in rbind (index_res (bl_bits b) (unat pos div 64)) (\<lambda>x.
          Inr (x AND push_bit (unat (pos mod 64)) 1 \<noteq> 0))) bloom_rounds"

definition bloom_check_insert :: "bloom \<Rightarrow> u64 \<Rightarrow> (bool \<times> bloom) res" where
  "bloom_check_insert b k =
     rbind (bloom_contains b k) (\<lambda>present.
     rbind (bloom_insert b k) (\<lambda>b'. Inr (present, b')))"

section \<open>The invariant and the set of bits that are set\<close>

definition bloom_inv :: "bloom \<Rightarrow> bool" where
  "bloom_inv b \<longleftrightarrow> 64 * length (bl_bits b) = Suc (unat (bl_mask b))"

text \<open>The abstraction: the bit numbers set in the array.\<close>

definition bloom_bit :: "bloom \<Rightarrow> nat \<Rightarrow> bool" where
  "bloom_bit b n \<longleftrightarrow> bit (bl_bits b ! (n div 64)) (n mod 64)"

definition bloom_probes :: "bloom \<Rightarrow> u64 \<Rightarrow> nat set" where
  "bloom_probes b k = (\<lambda>i. unat (bloom_pos b k i)) ` set bloom_rounds"

lemma pow2_from_power: "\<exists>j. pow2_from (2 ^ i) n = 2 ^ j \<and> i \<le> j"
proof (induction "2 ^ i :: nat" n arbitrary: i rule: pow2_from.induct)
  case (1 n)
  show ?case
  proof (cases "(2 :: nat) ^ i < n")
    case True
    then obtain j where "pow2_from (2 ^ Suc i) n = 2 ^ j" "Suc i \<le> j"
      using 1(1) [of "Suc i"] by auto
    then show ?thesis
      using True by (auto simp: pow2_from.simps [of "2 ^ i"] intro!: exI [of _ j])
  next
    case False
    then show ?thesis by (auto simp: pow2_from.simps [of "2 ^ i"])
  qed
qed

lemma pow2_from_ge: "0 < p \<Longrightarrow> n \<le> pow2_from p n"
proof (induction p n rule: pow2_from.induct)
  case (1 p n)
  then show ?case by (cases "p < n") (auto simp: pow2_from.simps [of p])
qed

lemma pow2_from_less_double: "0 < p \<Longrightarrow> p < 2 * n \<Longrightarrow> pow2_from p n < 2 * n"
proof (induction p n rule: pow2_from.induct)
  case (1 p n)
  then show ?case by (cases "p < n") (auto simp: pow2_from.simps [of p])
qed

lemma next_power_of_two_cases:
  obtains j where "j < 64" "unat (next_power_of_two n) = 2 ^ j" | "next_power_of_two n = 0"
proof -
  obtain j where j: "pow2_from 1 (unat n) = 2 ^ j"
    using pow2_from_power [of 0 "unat n"] by auto
  show thesis
  proof (cases "j < 64")
    case True
    then have "(2 :: nat) ^ j < 2 ^ 64" by (rule power_strict_increasing) simp
    then have "unat (of_nat (2 ^ j) :: u64) = 2 ^ j"
      by (simp add: unat_of_nat del: of_nat_power)
    then have "unat (next_power_of_two n) = 2 ^ j"
      by (simp only: next_power_of_two_def j)
    with True that(1) show ?thesis by blast
  next
    case False
    then have "(2 ^ LENGTH(64) :: nat) dvd 2 ^ j" by (intro le_imp_power_dvd) simp
    then have "(of_nat (2 ^ j) :: u64) = 0"
      by (simp only: word_of_nat_eq_0_iff)
    then show ?thesis using that(2) j by (simp add: next_power_of_two_def del: of_nat_power)
  qed
qed

lemma bloom_size:
  obtains j where "6 \<le> j" "j < 64"
    "unat (max (next_power_of_two (n * 10)) 64) = 2 ^ j"
proof (cases rule: next_power_of_two_cases [of "n * 10"])
  case (1 j)
  show thesis
  proof (cases "6 \<le> j")
    case True
    then have "(2 :: nat) ^ 6 \<le> 2 ^ j" by (rule power_increasing) simp
    then have "64 \<le> next_power_of_two (n * 10)" using 1 by (simp add: word_le_nat_alt)
    then show ?thesis using that [of j] True 1 by (simp add: max_def)
  next
    case False
    then have "(2 :: nat) ^ j < 2 ^ 6" by (intro power_strict_increasing) auto
    then have "next_power_of_two (n * 10) < 64" using 1 by (simp add: word_less_nat_alt)
    then have "max (next_power_of_two (n * 10)) 64 = 64" by (intro max_absorb2) simp
    then show ?thesis using that [of 6] by simp
  qed
next
  case 2
  then show ?thesis using that [of 6] by simp
qed

lemma bloom_new_inv: "bloom_inv (bloom_new n)"
proof -
  let ?bits = "max (next_power_of_two (n * 10)) 64"
  obtain j where j: "6 \<le> j" "j < 64" "unat ?bits = 2 ^ j" by (rule bloom_size)
  then have "64 * unat (?bits div 64) = unat ?bits"
    using le_imp_power_dvd [of 6 j "2 :: nat"] by (simp add: unat_div)
  moreover have "Suc (unat (?bits - 1)) = unat ?bits"
    using j by (metis add.commute not_gr_zero plus_1_eq_Suc power_not_zero unat_gt_0 unat_minus_one
        le_add_diff_inverse less_eq_Suc_le One_nat_def zero_neq_numeral)
  ultimately show ?thesis by (simp add: bloom_inv_def bloom_new_def Let_def)
qed

text \<open>What each operation does under the invariant: it returns, and sets or tests the probes.\<close>

lemma bloom_bit_set:
  assumes "i div 64 < length (bl_bits b)"
  shows "bloom_bit (b\<lparr>bl_bits := (bl_bits b)[i div 64 := bl_bits b ! (i div 64) OR push_bit (i mod 64) 1]\<rparr>) n
    \<longleftrightarrow> bloom_bit b n \<or> n = i"
proof (cases "n div 64 = i div 64")
  case True
  have "n = i \<longleftrightarrow> n mod 64 = i mod 64"
    using True by (metis mult_div_mod_eq)
  then show ?thesis
    using assms True by (auto simp: bloom_bit_def bit_simps)
next
  case False
  then show ?thesis by (auto simp: bloom_bit_def)
qed

lemma bloom_pos_in_range:
  assumes "bloom_inv b"
  shows "unat (bloom_pos b k i) div 64 < length (bl_bits b)"
proof -
  have "unat (bloom_pos b k i) \<le> unat (bl_mask b)"
    by (simp add: bloom_pos_def Let_def unat_and_le)
  then show ?thesis using assms by (auto simp: bloom_inv_def)
qed

lemma bloom_pos_mask: "bl_mask b = bl_mask c \<Longrightarrow> bloom_pos b k i = bloom_pos c k i"
  by (simp add: bloom_pos_def)

lemma bloom_insert_at_ok:
  assumes "bloom_inv b"
  shows "\<exists>c. bloom_insert_at k i b = Inr c \<and> bloom_inv c \<and> bl_mask c = bl_mask b \<and>
           (\<forall>n. bloom_bit c n \<longleftrightarrow> bloom_bit b n \<or> n = unat (bloom_pos b k i))"
proof -
  let ?p = "unat (bloom_pos b k i)"
  have r: "?p div 64 < length (bl_bits b)" by (rule bloom_pos_in_range [OF assms])
  have m: "unat (bloom_pos b k i mod 64) = ?p mod 64" by (simp add: unat_mod)
  show ?thesis
    using r assms bloom_bit_set [OF r]
    by (simp add: bloom_insert_at_def Let_def index_res_def m bloom_inv_def)
qed

lemma bloom_insert_ok:
  assumes "bloom_inv b"
  shows "\<exists>c. bloom_insert b k = Inr c \<and> bloom_inv c \<and> bl_mask c = bl_mask b \<and>
           (\<forall>n. bloom_bit c n \<longleftrightarrow> bloom_bit b n \<or> n \<in> bloom_probes b k)"
proof -
  have "\<exists>c. fold_res (bloom_insert_at k) is b = Inr c \<and> bloom_inv c \<and> bl_mask c = bl_mask b \<and>
     (\<forall>n. bloom_bit c n \<longleftrightarrow> bloom_bit b n \<or> n \<in> (\<lambda>i. unat (bloom_pos b k i)) ` set is)" for "is"
    using assms
  proof (induction "is" arbitrary: b)
    case Nil
    then show ?case by simp
  next
    case (Cons i "is")
    obtain c where c: "bloom_insert_at k i b = Inr c" "bloom_inv c" "bl_mask c = bl_mask b"
        "\<And>n. bloom_bit c n \<longleftrightarrow> bloom_bit b n \<or> n = unat (bloom_pos b k i)"
      using bloom_insert_at_ok [OF Cons.prems] by blast
    then show ?case
      using Cons.IH [OF c(2)] bloom_pos_mask [OF c(3)] by auto
  qed
  then show ?thesis by (simp add: bloom_insert_def bloom_probes_def)
qed

lemma bloom_contains_ok:
  assumes "bloom_inv b"
  shows "bloom_contains b k = Inr (\<forall>n. n \<in> bloom_probes b k \<longrightarrow> bloom_bit b n)"
proof -
  have "bloom_contains b k =
      Inr (list_all (\<lambda>i. bloom_bit b (unat (bloom_pos b k i))) bloom_rounds)"
    unfolding bloom_contains_def
    by (rule all_res_Inr)
       (auto simp: Let_def index_res_def bloom_pos_in_range [OF assms] bloom_bit_def unat_mod
          and_exp_eq_0_iff_not_bit push_bit_eq_mult)
  then show ?thesis by (auto simp: list_all_iff bloom_probes_def)
qed

lemma bloom_new_empty: "n div 64 < length (bl_bits (bloom_new m)) \<Longrightarrow> \<not> bloom_bit (bloom_new m) n"
  by (simp add: bloom_new_def Let_def bloom_bit_def)

section \<open>The filter meets the membership contract\<close>

interpretation bf: membership_filter bloom_insert bloom_contains bloom_check_insert bloom_inv
proof unfold_locales
  fix b :: bloom and k j :: u64
  show "bloom_inv b \<Longrightarrow> \<exists>c. bloom_insert b k = Inr c \<and> bloom_inv c"
    using bloom_insert_ok by blast
  show "bloom_inv b \<Longrightarrow> \<exists>p. bloom_contains b k = Inr p"
    by (simp add: bloom_contains_ok)
  show "bloom_check_insert b k =
      rbind (bloom_contains b k) (\<lambda>p. rbind (bloom_insert b k) (\<lambda>c. Inr (p, c)))"
    by (simp add: bloom_check_insert_def)
  fix c assume b: "bloom_inv b" and c: "bloom_insert b k = Inr c"
  have inv: "bloom_inv c" and mask: "bl_mask c = bl_mask b"
    and bits: "\<And>n. bloom_bit c n \<longleftrightarrow> bloom_bit b n \<or> n \<in> bloom_probes b k"
    using bloom_insert_ok [OF b, of k] c by auto
  have probes: "bloom_probes c x = bloom_probes b x" for x
    by (simp add: bloom_probes_def bloom_pos_mask [OF mask])
  show "bloom_contains c k = Inr True"
    by (simp add: bloom_contains_ok [OF inv] probes bits)
  show "bloom_contains b j = Inr True \<Longrightarrow> bloom_contains c j = Inr True"
    by (simp add: bloom_contains_ok [OF inv] bloom_contains_ok [OF b] probes bits)
qed

end
