(* ===== verification/Index.thy ===== *)
theory Index imports HasherFacts Bloom begin

text \<open>
  The index of \<open>src/dedup.rs\<close>: chunk locations, the hasher of the index's keys, the
  traversal of every cached chunk hash, and \<open>build_index\<close> with its two passes (the Bloom
  pre-filter, then the grouping). A \<open>HashMap\<close> is a map: what it holds does not depend on
  the hasher, which decides only the speed and the order of iteration.
\<close>

section \<open>Locations and keys\<close>

record loc =
  loc_file :: u32
  loc_chunk :: u32

definition loc_off :: "loc \<Rightarrow> u64 \<Rightarrow> u64" where
  "loc_off l blksz = ucast (loc_chunk l) * blksz"

type_synonym index_key = "u32 \<times> chunk_hash"

definition GOLDEN :: u64 where "GOLDEN = 0x9e3779b97f4a7c15"

text \<open>
  \<open>ChunkKeyHasher\<close>: the state is one \<open>u64\<close>, which \<open>finish\<close> returns. A short
  \<open>write\<close> is the loop over its bytes.
\<close>

definition hasher_write :: "u64 \<Rightarrow> u8 list \<Rightarrow> u64" where
  "hasher_write s bs =
     (if 8 \<le> length bs then s XOR from_le (drop (length bs - 8) bs)
      else fold (\<lambda>b s. word_rotl 8 s XOR ucast b) bs s)"

definition hasher_write_u32 :: "u64 \<Rightarrow> u32 \<Rightarrow> u64" where
  "hasher_write_u32 s n = s XOR (ucast n * GOLDEN)"

definition hasher_write_u64 :: "u64 \<Rightarrow> u64 \<Rightarrow> u64" where
  "hasher_write_u64 s n = s XOR (n * GOLDEN)"

text \<open>
  What the standard library's \<open>Hash\<close> of a \<open>(u32, [u8; 16])\<close> calls: the \<open>u32\<close>, the
  length of the array (a \<open>usize\<close>, whose default \<open>write_usize\<close> is a \<open>write\<close> of its
  8 bytes), and the array's bytes.
\<close>

definition index_key_hash :: "index_key \<Rightarrow> u64" where
  "index_key_hash = (\<lambda>(blksz, h).
     hasher_write (hasher_write (hasher_write_u32 0 blksz) (le_bytes 8 (of_nat (length h) :: u64))) h)"

text \<open>The truncated key of the pre-filter; the slice of a 16-byte array always has 8 bytes.\<close>

definition dup_key :: "u32 \<Rightarrow> chunk_hash \<Rightarrow> u64" where
  "dup_key blksz h = from_le (slice_of 8 8 h) XOR (ucast blksz * GOLDEN)"

section \<open>Visiting the chunks\<close>

definition visit_entry ::
    "(nat \<Rightarrow> nat \<Rightarrow> hashed \<Rightarrow> chunk_hash \<Rightarrow> 's \<Rightarrow> 's res) \<Rightarrow> nat \<Rightarrow> hashed \<Rightarrow> file_entry \<Rightarrow> 's \<Rightarrow> 's res" where
  "visit_entry f fi h entry = fold_res (\<lambda>(ci, hash) s.
     if hash \<noteq> ZERO_HASH then f fi ci h hash s else Inr s) (enumerate 0 (fe_hashes entry))"

definition each_chunk ::
    "('db, 'tx) redb \<Rightarrow> 'db \<Rightarrow> (nat \<Rightarrow> nat \<Rightarrow> hashed \<Rightarrow> chunk_hash \<Rightarrow> 's \<Rightarrow> 's res) \<Rightarrow>
     (file_path \<times> hashed) list \<Rightarrow> 's \<Rightarrow> 's res" where
  "each_chunk R db f files = fold_res (\<lambda>(fi, _, h) s.
     rbind (cache_get R db (h_fsid h) (h_ino h)) (\<lambda>v.
     case v of None \<Rightarrow> Inr s | Some entry \<Rightarrow> visit_entry f fi h entry s)) (enumerate 0 files)"

section \<open>Building the index\<close>

type_synonym 'k groups = "'k \<rightharpoonup> loc list"

definition n_chunks :: "(file_path \<times> hashed) list \<Rightarrow> u64" where
  "n_chunks files = sum_list (map (\<lambda>(_, h). h_size h div ucast (max (h_blksz h) 1) + 1) files)"

definition push_loc ::
    "u64 set \<Rightarrow> nat \<Rightarrow> nat \<Rightarrow> hashed \<Rightarrow> chunk_hash \<Rightarrow> index_key groups \<Rightarrow> index_key groups res" where
  "push_loc dup fi ci h hash idx =
     (if dup_key (h_blksz h) hash \<notin> dup then Inr idx
      else rbind (expect (u32_try_from ci)) (\<lambda>c.
           let k = (h_blksz h, hash); l = \<lparr>loc_file = of_nat fi, loc_chunk = c\<rparr>
           in Inr (idx(k \<mapsto> (case idx k of None \<Rightarrow> [] | Some locs \<Rightarrow> locs) @ [l]))))"

definition retain_dups :: "'k groups \<Rightarrow> 'k groups" where
  "retain_dups idx k = (case idx k of None \<Rightarrow> None | Some v \<Rightarrow> if 1 < length v then Some v else None)"

definition build_index ::
    "('db, 'tx) redb \<Rightarrow> 'db \<Rightarrow> (file_path \<times> hashed) list \<Rightarrow> index_key groups res" where
  "build_index R db files =
     rbind (assert_that (u32_try_from (length files) \<noteq> None)) (\<lambda>_.
     rbind (each_chunk R db (\<lambda>_ _ h hash. dup_step bloom_check_insert (dup_key (h_blksz h) hash))
              files (bloom_new (n_chunks files), {})) (\<lambda>(_, dup).
     rbind (each_chunk R db (push_loc dup) files Map.empty) (\<lambda>idx.
     Inr (retain_dups idx))))"

section \<open>The reference: the chunks in order, and their groups\<close>

type_synonym chunk_ref = "nat \<times> nat \<times> hashed \<times> chunk_hash"

definition file_chunks :: "(cache_key \<rightharpoonup> file_entry) \<Rightarrow> nat \<times> file_path \<times> hashed \<Rightarrow> chunk_ref list" where
  "file_chunks ents = (\<lambda>(fi, _, h). case ents (h_fsid h, h_ino h) of None \<Rightarrow> []
     | Some e \<Rightarrow> map (\<lambda>(ci, hash). (fi, ci, h, hash))
                  (filter (\<lambda>(ci, hash). hash \<noteq> ZERO_HASH) (enumerate 0 (fe_hashes e))))"

definition chunk_stream :: "(cache_key \<rightharpoonup> file_entry) \<Rightarrow> (file_path \<times> hashed) list \<Rightarrow> chunk_ref list" where
  "chunk_stream ents files = concat (map (file_chunks ents) (enumerate 0 files))"

definition ref_key :: "chunk_ref \<Rightarrow> index_key" where
  "ref_key = (\<lambda>(fi, ci, h, hash). (h_blksz h, hash))"

definition ref_loc :: "chunk_ref \<Rightarrow> loc" where
  "ref_loc = (\<lambda>(fi, ci, h, hash). \<lparr>loc_file = of_nat fi, loc_chunk = of_nat ci\<rparr>)"

text \<open>The locations of a key, in the order of the stream; groups are those with two or more.\<close>

definition locs_of :: "chunk_ref list \<Rightarrow> index_key \<Rightarrow> loc list" where
  "locs_of xs k = map ref_loc (filter (\<lambda>x. ref_key x = k) xs)"

definition dup_groups :: "chunk_ref list \<Rightarrow> index_key groups" where
  "dup_groups xs k = (if 2 \<le> length (locs_of xs k) then Some (locs_of xs k) else None)"

lemma visit_entry_stream:
  assumes "ents (h_fsid h, h_ino h) = Some e"
  shows "visit_entry f fi h e s = fold_res (\<lambda>(fi, ci, h, hash). f fi ci h hash) (file_chunks ents (fi, p, h)) s"
  unfolding visit_entry_def file_chunks_def
  by (simp add: assms fold_res_map fold_res_filter case_prod_unfold)

lemma fold_res_each:
  "fold_res f xs s = Inr t \<Longrightarrow> x \<in> set xs \<Longrightarrow> \<exists>u v. f x u = Inr v"
  by (induction xs arbitrary: s) (auto simp: res_simps)

lemma in_enumerate: "x \<in> set xs \<longleftrightarrow> (\<exists>i. (i, x) \<in> set (enumerate n xs))"
proof -
  have "set xs = snd ` set (enumerate n xs)" by (simp flip: set_map)
  then show ?thesis by force
qed

text \<open>Where every lookup succeeds, visiting is folding over the stream.\<close>

lemma each_chunk_stream:
  assumes "\<And>p h. (p, h) \<in> set files \<Longrightarrow>
      cache_get R db (h_fsid h) (h_ino h) = Inr (ents (h_fsid h, h_ino h))"
  shows "each_chunk R db f files s = fold_res (\<lambda>(fi, ci, h, hash). f fi ci h hash) (chunk_stream ents files) s"
proof -
  have "(case x of (fi, _, h) \<Rightarrow> \<lambda>s. rbind (cache_get R db (h_fsid h) (h_ino h)) (\<lambda>v.
           case v of None \<Rightarrow> Inr s | Some entry \<Rightarrow> visit_entry f fi h entry s)) s =
        fold_res (\<lambda>(fi, ci, h, hash). f fi ci h hash) (file_chunks ents x) s"
    if "x \<in> set (enumerate 0 files)" for x s
  proof -
    obtain fi p h where x: "x = (fi, p, h)" by (cases x)
    have "(p, h) \<in> set files" using that unfolding x in_enumerate [of _ files 0] by (rule exI)
    then have get: "cache_get R db (h_fsid h) (h_ino h) = Inr (ents (h_fsid h, h_ino h))"
      by (rule assms)
    show ?thesis
    proof (cases "ents (h_fsid h, h_ino h)")
      case None
      then show ?thesis by (simp add: x get file_chunks_def)
    next
      case (Some e)
      then show ?thesis using visit_entry_stream [of ents h e f fi s p] by (simp add: x get)
    qed
  qed
  then show ?thesis
    unfolding each_chunk_def chunk_stream_def fold_res_concat fold_res_map
    by (intro fold_res_cong) auto
qed

lemma each_chunk_lookups:
  assumes "each_chunk R db f files s = Inr t" "(p, h) \<in> set files"
  shows "\<exists>v. cache_get R db (h_fsid h) (h_ino h) = Inr v"
proof -
  obtain fi where "(fi, p, h) \<in> set (enumerate 0 files)"
    using assms(2) unfolding in_enumerate [of _ files 0] by (rule exE)
  from fold_res_each [OF assms(1) [unfolded each_chunk_def] this]
  show ?thesis by (auto simp: res_simps)
qed

section \<open>The two passes\<close>

lemma chunk_key_hash:
  assumes "hash_wf h"
  shows "index_key_hash (blksz, h) = dup_key blksz h XOR 16"
proof -
  have "length h = 16" using assms by (simp add: hash_wf_def HASH_LEN_def)
  then have "slice_of 8 8 h = drop 8 h" by (simp add: slice_of_def)
  moreover have "hasher_write s (le_bytes 8 (16 :: u64)) = s XOR 16" for s
    by (simp add: hasher_write_def u64le.dec_enc)
  ultimately show ?thesis
    using \<open>length h = 16\<close>
    by (simp add: index_key_hash_def hasher_write_def hasher_write_u32_def dup_key_def ac_simps)
qed

abbreviation ref_dup :: "chunk_ref \<Rightarrow> u64" where
  "ref_dup x \<equiv> dup_key (fst (ref_key x)) (snd (ref_key x))"

text \<open>Pass 1 finds every truncated key that occurs twice.\<close>

lemma pass1_ok:
  "\<exists>seen dup. fold_res (\<lambda>(fi, ci, h, hash). dup_step bloom_check_insert (dup_key (h_blksz h) hash)) xs
       (bloom_new n, {}) = Inr (seen, dup) \<and>
     (\<forall>k. 2 \<le> count_list (map ref_dup xs) k \<longrightarrow> k \<in> dup)"
proof -
  have "fold_res (\<lambda>(fi, ci, h, hash). dup_step bloom_check_insert (dup_key (h_blksz h) hash)) xs s =
      fold_res (dup_step bloom_check_insert) (map ref_dup xs) s" for s
    by (auto simp: fold_res_map ref_key_def intro!: fold_res_cong)
  then show ?thesis
    using bf.dup_scan [OF bloom_new_inv, of "map ref_dup xs" n "{}"] by auto
qed

text \<open>Pass 2 groups the candidates; only a chunk number above 32 bits stops it.\<close>

lemma pass2_ok:
  assumes "fold_res (\<lambda>(fi, ci, h, hash). push_loc dup fi ci h hash) xs Map.empty = Inr idx"
  shows "idx k = (if dup_key (fst k) (snd k) \<in> dup \<and> locs_of xs k \<noteq> [] then Some (locs_of xs k) else None)"
  using assms
proof (induction xs arbitrary: idx k rule: rev_induct)
  case Nil
  then show ?case by (auto simp: locs_of_def)
next
  case (snoc x xs)
  obtain fi ci h hash where x: "x = (fi, ci, h, hash)" by (cases x)
  obtain m where m: "fold_res (\<lambda>(fi, ci, h, hash). push_loc dup fi ci h hash) xs Map.empty = Inr m"
      "push_loc dup fi ci h hash m = Inr idx"
    using snoc.prems by (auto simp: fold_res_snoc res_simps x)
  have locs: "locs_of (xs @ [x]) k = locs_of xs k @
      (if k = (h_blksz h, hash) then [\<lparr>loc_file = of_nat fi, loc_chunk = of_nat ci\<rparr>] else [])" for k
    by (simp add: locs_of_def x ref_key_def ref_loc_def)
  have IH: "m k = (if dup_key (fst k) (snd k) \<in> dup \<and> locs_of xs k \<noteq> [] then Some (locs_of xs k) else None)" for k
    using snoc.IH [OF m(1)] .
  have num: "u32_try_from ci = Some c \<Longrightarrow> c = of_nat ci" for c
    by (simp add: u32_try_from_def split: if_splits)
  show ?case
  proof (cases "dup_key (h_blksz h) hash \<in> dup")
    case False
    then show ?thesis using m(2) IH [of k] by (auto simp: push_loc_def locs)
  next
    case True
    then have "idx = m((h_blksz h, hash) \<mapsto> (case m (h_blksz h, hash) of None \<Rightarrow> [] | Some ls \<Rightarrow> ls)
        @ [\<lparr>loc_file = of_nat fi, loc_chunk = of_nat ci\<rparr>])"
      using m(2) by (auto simp: push_loc_def res_simps Let_def dest!: num)
    then show ?thesis using True IH [of k] IH [of "(h_blksz h, hash)"] by (auto simp: locs)
  qed
qed

lemma pass2_total:
  assumes "\<And>fi ci h hash. (fi, ci, h, hash) \<in> set xs \<Longrightarrow> ci < 2 ^ 32"
  shows "\<exists>idx. fold_res (\<lambda>(fi, ci, h, hash). push_loc dup fi ci h hash) xs m = Inr idx"
  using assms
proof (induction xs arbitrary: m)
  case Nil
  then show ?case by simp
next
  case (Cons x xs)
  obtain fi ci h hash where x: "x = (fi, ci, h, hash)" by (cases x)
  have "ci < 2 ^ 32" using Cons.prems [of fi ci h hash] x by simp
  then have "u32_try_from ci = Some (of_nat ci)" by (simp add: u32_try_from_def)
  then have "\<exists>t. push_loc dup fi ci h hash m = Inr t"
    by (simp add: push_loc_def Let_def)
  then obtain t where "push_loc dup fi ci h hash m = Inr t" ..
  moreover have "\<exists>idx. fold_res (\<lambda>(fi, ci, h, hash). push_loc dup fi ci h hash) xs t = Inr idx"
    using Cons.prems by (intro Cons.IH) auto
  ultimately show ?case by (simp add: x)
qed

lemma count_list_locs: "length (locs_of xs k) \<le> count_list (map ref_dup xs) (dup_key (fst k) (snd k))"
  by (induction xs) (auto simp: locs_of_def)

text \<open>Hence the Bloom filter and the truncation of keys do not show in the result.\<close>

lemma passes_exact:
  assumes "\<And>k. 2 \<le> length (locs_of xs k) \<Longrightarrow> dup_key (fst k) (snd k) \<in> dup"
    "fold_res (\<lambda>(fi, ci, h, hash). push_loc dup fi ci h hash) xs Map.empty = Inr idx"
  shows "retain_dups idx = dup_groups xs"
proof
  fix k
  show "retain_dups idx k = dup_groups xs k"
    using pass2_ok [OF assms(2), of k] assms(1) [of k]
    by (cases "2 \<le> length (locs_of xs k)")
       (auto simp: retain_dups_def dup_groups_def)
qed

lemma build_index_passes:
  assumes "redb_lawful R tab ttab" "build_index R db files = Inr idx"
  obtains dup m where "length files < 2 ^ 32" "idx = retain_dups m"
    "fold_res (\<lambda>(fi, ci, h, hash). push_loc dup fi ci h hash)
       (chunk_stream (entries_of (tab db)) files) Map.empty = Inr m"
    "\<And>k. 2 \<le> length (locs_of (chunk_stream (entries_of (tab db)) files) k) \<Longrightarrow>
       dup_key (fst k) (snd k) \<in> dup"
proof -
  let ?xs = "chunk_stream (entries_of (tab db)) files"
  obtain s0 dup m where run:
    "length files < 2 ^ 32"
    "each_chunk R db (\<lambda>_ _ h hash. dup_step bloom_check_insert (dup_key (h_blksz h) hash))
              files (bloom_new (n_chunks files), {}) = Inr (s0, dup)"
    "each_chunk R db (push_loc dup) files Map.empty = Inr m" "idx = retain_dups m"
    using assms(2)
    by (auto simp: build_index_def res_simps u32_try_from_def split: if_splits)
  have "cache_get R db (h_fsid h) (h_ino h) = Inr (entries_of (tab db) (h_fsid h, h_ino h))"
    if "(p, h) \<in> set files" for p h
    using each_chunk_lookups [OF run(2) that] cache_get_ok [OF assms(1)] by auto
  note stream = each_chunk_stream [OF this]
  obtain seen d where "fold_res (\<lambda>(fi, ci, h, hash). dup_step bloom_check_insert (dup_key (h_blksz h) hash)) ?xs
       (bloom_new (n_chunks files), {}) = Inr (seen, d)"
     "\<And>k. 2 \<le> count_list (map ref_dup ?xs) k \<Longrightarrow> k \<in> d"
    using pass1_ok [of ?xs "n_chunks files"] by blast
  then have "k \<in> dup" if "2 \<le> count_list (map ref_dup ?xs) k" for k
    using run(2) that by (simp add: stream)
  then have "dup_key (fst k) (snd k) \<in> dup" if "2 \<le> length (locs_of ?xs k)" for k
    using count_list_locs [of ?xs k] that by (meson order_trans)
  then show ?thesis
    using that run(1,3,4) by (simp add: stream)
qed

lemma build_index_exact_aux:
  assumes "redb_lawful R tab ttab" "build_index R db files = Inr idx"
  shows "idx = dup_groups (chunk_stream (entries_of (tab db)) files)"
    and "length files < 2 ^ 32"
  using build_index_passes [OF assms] passes_exact by metis+

text \<open>When every cached entry can be read and numbers fit, the index is built.\<close>

lemma build_index_total_aux:
  assumes "\<And>p h. (p, h) \<in> set files \<Longrightarrow>
      cache_get R db (h_fsid h) (h_ino h) = Inr (ents (h_fsid h, h_ino h))"
    and "\<And>fi ci h hash. (fi, ci, h, hash) \<in> set (chunk_stream ents files) \<Longrightarrow> ci < 2 ^ 32"
    and "length files < 2 ^ 32"
  shows "build_index R db files = Inr (dup_groups (chunk_stream ents files))"
proof -
  let ?xs = "chunk_stream ents files"
  note stream = each_chunk_stream [OF assms(1)]
  obtain seen d where p1: "fold_res (\<lambda>(fi, ci, h, hash). dup_step bloom_check_insert (dup_key (h_blksz h) hash)) ?xs
       (bloom_new (n_chunks files), {}) = Inr (seen, d)"
     and d: "\<And>k. 2 \<le> count_list (map ref_dup ?xs) k \<Longrightarrow> k \<in> d"
    using pass1_ok [of ?xs "n_chunks files"] by blast
  obtain m where p2: "fold_res (\<lambda>(fi, ci, h, hash). push_loc d fi ci h hash) ?xs Map.empty = Inr m"
    using pass2_total [of ?xs d Map.empty] assms(2) by blast
  have "dup_key (fst k) (snd k) \<in> d" if "2 \<le> length (locs_of ?xs k)" for k
    using d count_list_locs [of ?xs k] that by (meson order_trans)
  then show ?thesis
    using assms(3) passes_exact [OF _ p2] by (simp add: build_index_def u32_try_from_def stream p1 p2)
qed

end
