(* ===== verification/IndexWf.thy ===== *)
theory IndexWf imports Index begin

text \<open>
  The structure of an index that \<open>build_index\<close> returns: groups of two or more locations,
  each in (file, chunk) order, no location in two groups, every location a valid file of the
  group's block size. The pairing and the parallel clone phase of \<open>src/dedup.rs\<close> rest
  on it.
\<close>

definition loc_less :: "loc \<Rightarrow> loc \<Rightarrow> bool" where
  "loc_less l m \<longleftrightarrow> loc_file l < loc_file m \<or> loc_file l = loc_file m \<and> loc_chunk l < loc_chunk m"

definition group_wf :: "(file_path \<times> hashed) list \<Rightarrow> u32 \<Rightarrow> loc list \<Rightarrow> bool" where
  "group_wf files blksz ls \<longleftrightarrow> 2 \<le> length ls \<and> sorted_wrt loc_less ls \<and>
     list_all (\<lambda>l. unat (loc_file l) < length files \<and>
                   h_blksz (snd (files ! unat (loc_file l))) = blksz) ls"

definition index_wf :: "(file_path \<times> hashed) list \<Rightarrow> index_key groups \<Rightarrow> bool" where
  "index_wf files idx \<longleftrightarrow>
     (\<forall>k ls. idx k = Some ls \<longrightarrow> group_wf files (fst k) ls) \<and>
     (\<forall>k k' ls ls'. idx k = Some ls \<longrightarrow> idx k' = Some ls' \<longrightarrow> k \<noteq> k' \<longrightarrow> set ls \<inter> set ls' = {})"

lemma index_wfD:
  assumes "index_wf files idx" "idx k = Some ls"
  shows "group_wf files (fst k) ls"
    and "idx k' = Some ls' \<Longrightarrow> l \<in> set ls \<Longrightarrow> l \<in> set ls' \<Longrightarrow> k = k'"
  using assms unfolding index_wf_def by (blast, fastforce)

lemma group_distinct: "group_wf files b ls \<Longrightarrow> distinct ls"
  unfolding group_wf_def
proof (elim conjE)
  show "sorted_wrt loc_less ls \<Longrightarrow> distinct ls"
    by (induction ls) (auto simp: loc_less_def)
qed

text \<open>The positions of the stream are strictly increasing.\<close>

definition ref_pos :: "chunk_ref \<Rightarrow> nat \<times> nat" where
  "ref_pos = (\<lambda>(fi, ci, h, hash). (fi, ci))"

definition pos_less :: "nat \<times> nat \<Rightarrow> nat \<times> nat \<Rightarrow> bool" where
  "pos_less p q \<longleftrightarrow> fst p < fst q \<or> fst p = fst q \<and> snd p < snd q"

lemma file_chunks_sorted: "sorted_wrt (\<lambda>x y. pos_less (ref_pos x) (ref_pos y)) (file_chunks ents y)"
proof -
  obtain fi p h where y: "y = (fi, p, h)" by (cases y)
  have "sorted_wrt (\<lambda>x y. fst x < fst y) (enumerate n hs)" for n and hs :: "chunk_hash list"
    by (induction hs arbitrary: n) (auto simp: in_set_enumerate_eq)
  then show ?thesis
    by (auto simp: y file_chunks_def sorted_wrt_map ref_pos_def pos_less_def case_prod_unfold
        intro!: sorted_wrt_filter split: option.splits)
qed

lemma file_chunks_mem:
  assumes "x \<in> set (file_chunks ents (fi, p, h))"
  shows "fst (ref_pos x) = fi" "fst (ref_key x) = h_blksz h"
  using assms by (auto simp: file_chunks_def ref_pos_def ref_key_def split: option.splits)

lemma stream_sorted: "sorted_wrt (\<lambda>x y. pos_less (ref_pos x) (ref_pos y)) (chunk_stream ents files)"
proof -
  have "sorted_wrt (\<lambda>x y. pos_less (ref_pos x) (ref_pos y))
      (concat (map (file_chunks ents) (enumerate n files)))" for n
  proof (induction files arbitrary: n)
    case Nil
    then show ?case by simp
  next
    case (Cons f files)
    have "pos_less (ref_pos x) (ref_pos y)"
      if "x \<in> set (file_chunks ents (n, f))" "y \<in> set (file_chunks ents z)"
        "z \<in> set (enumerate (Suc n) files)" for x y z
      using that file_chunks_mem(1) [of x ents n "fst f" "snd f"]
        file_chunks_mem(1) [of y ents "fst z" "fst (snd z)" "snd (snd z)"]
      by (auto simp: pos_less_def in_set_enumerate_eq)
    then show ?case
      using Cons.IH [of "Suc n"] by (auto simp: sorted_wrt_append file_chunks_sorted)
  qed
  then show ?thesis by (simp add: chunk_stream_def)
qed

lemma stream_mem:
  assumes "x \<in> set (chunk_stream ents files)"
  shows "fst (ref_pos x) < length files"
    "h_blksz (snd (files ! fst (ref_pos x))) = fst (ref_key x)"
proof -
  obtain fi p h where y: "(fi, p, h) \<in> set (enumerate 0 files)" "x \<in> set (file_chunks ents (fi, p, h))"
    using assms by (auto simp: chunk_stream_def)
  then have "fi < length files" "files ! fi = (p, h)" by (auto simp: in_set_enumerate_eq)
  then show "fst (ref_pos x) < length files"
    "h_blksz (snd (files ! fst (ref_pos x))) = fst (ref_key x)"
    using file_chunks_mem [OF y(2)] by simp_all
qed

text \<open>A group's locations come from stream elements of its key, with numbers that fit.\<close>

definition refs_fit :: "chunk_ref list \<Rightarrow> bool" where
  "refs_fit xs \<longleftrightarrow> (\<forall>x \<in> set xs. 2 \<le> length (locs_of xs (ref_key x)) \<longrightarrow>
     fst (ref_pos x) < 2 ^ 32 \<and> snd (ref_pos x) < 2 ^ 32)"

lemma ref_loc_less:
  assumes "pos_less (ref_pos x) (ref_pos y)"
    "fst (ref_pos x) < 2 ^ 32" "snd (ref_pos x) < 2 ^ 32"
    "fst (ref_pos y) < 2 ^ 32" "snd (ref_pos y) < 2 ^ 32"
  shows "loc_less (ref_loc x) (ref_loc y)"
proof -
  obtain fi ci h a fj cj g b where x: "x = (fi, ci, h, a)" and y: "y = (fj, cj, g, b)"
    by (cases x, cases y)
  have "unat (of_nat n :: u32) = n" if "n < 2 ^ 32" for n
    using that by (simp add: unat_of_nat)
  then show ?thesis
    using assms
    by (auto simp: x y ref_pos_def ref_loc_def pos_less_def loc_less_def word_less_nat_alt)
qed

lemma dup_groups_wf:
  assumes "refs_fit (chunk_stream ents files)"
  shows "index_wf files (dup_groups (chunk_stream ents files))"
proof -
  let ?xs = "chunk_stream ents files"
  have fit: "fst (ref_pos x) < 2 ^ 32 \<and> snd (ref_pos x) < 2 ^ 32"
    if "dup_groups ?xs k = Some ls" "x \<in> set (filter (\<lambda>x. ref_key x = k) ?xs)" for k ls x
    using assms that by (auto simp: refs_fit_def dup_groups_def split: if_splits)
  have num: "unat (loc_file (ref_loc x)) = fst (ref_pos x)" if "fst (ref_pos x) < 2 ^ 32" for x
    using that by (auto simp: ref_loc_def ref_pos_def unat_of_nat split: prod.splits)
  have ls: "ls = map ref_loc (filter (\<lambda>x. ref_key x = k) ?xs)" "2 \<le> length ls"
    if "dup_groups ?xs k = Some ls" for k ls
    using that by (auto simp: dup_groups_def locs_of_def split: if_splits)
  have "group_wf files (fst k) ls" if k: "dup_groups ?xs k = Some ls" for k ls
  proof -
    have "sorted_wrt (\<lambda>x y. pos_less (ref_pos x) (ref_pos y)) (filter (\<lambda>x. ref_key x = k) ?xs)"
      by (intro sorted_wrt_filter stream_sorted)
    then have "sorted_wrt (\<lambda>x y. loc_less (ref_loc x) (ref_loc y)) (filter (\<lambda>x. ref_key x = k) ?xs)"
      by (rule sorted_wrt_mono_rel [rotated]) (use fit [OF k] in \<open>blast intro: ref_loc_less\<close>)
    moreover have "unat (loc_file (ref_loc x)) < length files \<and>
        h_blksz (snd (files ! unat (loc_file (ref_loc x)))) = fst k"
      if "x \<in> set (filter (\<lambda>x. ref_key x = k) ?xs)" for x
      using stream_mem [of x ents files] that fit [OF k that] by (auto simp: num)
    ultimately show ?thesis
      using ls [OF k] by (auto simp: group_wf_def sorted_wrt_map list_all_iff)
  qed
  moreover have "set ls \<inter> set ls' = {}"
    if k: "dup_groups ?xs k = Some ls" "dup_groups ?xs k' = Some ls'" "k \<noteq> k'" for k k' ls ls'
  proof (rule ccontr)
    assume "set ls \<inter> set ls' \<noteq> {}"
    then obtain x y where xy: "x \<in> set ?xs" "y \<in> set ?xs" "ref_key x = k" "ref_key y = k'" "ref_loc x = ref_loc y"
      using ls(1) [OF k(1)] ls(1) [OF k(2)] by fastforce
    have "\<not> loc_less (ref_loc x) (ref_loc y)" "\<not> loc_less (ref_loc y) (ref_loc x)"
      using xy(5) by (simp_all add: loc_less_def)
    moreover have "fst (ref_pos x) < 2 ^ 32" "snd (ref_pos x) < 2 ^ 32"
        "fst (ref_pos y) < 2 ^ 32" "snd (ref_pos y) < 2 ^ 32"
      using fit [OF k(1), of x] fit [OF k(2), of y] xy(1-4) by auto
    ultimately have "\<not> pos_less (ref_pos x) (ref_pos y)" "\<not> pos_less (ref_pos y) (ref_pos x)"
      using ref_loc_less [of x y] ref_loc_less [of y x] by blast+
    moreover have "x \<noteq> y" using xy k(3) by auto
    ultimately show False
      using stream_sorted [of ents files] xy(1,2)
      by (metis in_set_conv_nth linorder_neqE_nat sorted_wrt_nth_less)
  qed
  ultimately show ?thesis unfolding index_wf_def by blast
qed

text \<open>On success the second pass saw only chunk numbers that fit, as far as groups go.\<close>

lemma pass2_bound:
  assumes "fold_res (\<lambda>(fi, ci, h, hash). push_loc dup fi ci h hash) xs m = Inr idx"
    "x \<in> set xs" "ref_dup x \<in> dup"
  shows "snd (ref_pos x) < 2 ^ 32"
proof -
  obtain fi ci h hash where x: "x = (fi, ci, h, hash)" by (cases x)
  obtain u v where "push_loc dup fi ci h hash u = Inr v"
    using fold_res_each [OF assms(1,2)] by (auto simp: x)
  then show ?thesis
    using assms(3)
    by (auto simp: push_loc_def x ref_key_def ref_pos_def res_simps u32_try_from_def split: if_splits)
qed

lemma build_index_wf_aux:
  assumes "redb_lawful R tab ttab" "build_index R db files = Inr idx"
  shows "index_wf files idx"
proof -
  let ?xs = "chunk_stream (entries_of (tab db)) files"
  have "refs_fit ?xs"
  proof (rule build_index_passes [OF assms])
    fix dup m
    assume run: "length files < 2 ^ 32"
      "fold_res (\<lambda>(fi, ci, h, hash). push_loc dup fi ci h hash) ?xs Map.empty = Inr m"
      "\<And>k. 2 \<le> length (locs_of ?xs k) \<Longrightarrow> dup_key (fst k) (snd k) \<in> dup"
    show "refs_fit ?xs"
      unfolding refs_fit_def
    proof (intro ballI impI)
      fix x assume x: "x \<in> set ?xs" "2 \<le> length (locs_of ?xs (ref_key x))"
      have "fst (ref_pos x) < length files" by (rule stream_mem(1) [OF x(1)])
      then show "fst (ref_pos x) < 2 ^ 32 \<and> snd (ref_pos x) < 2 ^ 32"
        using run(1) pass2_bound [OF run(2) x(1) run(3) [OF x(2)]] by linarith
    qed
  qed
  then show ?thesis
    using dup_groups_wf build_index_exact_aux(1) [OF assms] by simp
qed

end
