(* ===== verification/Runs.thy ===== *)
theory Runs imports IndexWf begin

text \<open>
  From hash groups to runs, in \<open>src/dedup.rs\<close>: \<open>build_runs\<close> pairs the first location of
  each group with every other one, \<open>coalesce\<close> merges consecutive pairs of one (source file,
  destination file) into runs. The order in which a \<open>HashMap\<close> is iterated is not
  specified, so the keys in iteration order are an argument of \<open>build_runs\<close>.
\<close>

record run =
  run_src :: loc
  run_dst :: loc
  run_chunks :: u32

definition MAX_RUN_BYTES :: u64 where "MAX_RUN_BYTES = push_bit 20 16"

type_synonym pair_key = "u32 \<times> u32 \<times> u32"

definition chunk_len :: "hashed \<Rightarrow> u64 \<Rightarrow> u64 \<Rightarrow> u64" where
  "chunk_len h chunk blksz = min (saturating_sub (h_size h) (chunk * blksz)) blksz"

section \<open>Coalescing\<close>

definition extends :: "u64 \<Rightarrow> run \<Rightarrow> loc \<Rightarrow> loc \<Rightarrow> bool" where
  "extends blksz r src dst \<longleftrightarrow>
     loc_chunk src = loc_chunk (run_src r) + run_chunks r \<and>
     loc_chunk dst = loc_chunk (run_dst r) + run_chunks r \<and>
     (ucast (run_chunks r) + 1) * blksz \<le> MAX_RUN_BYTES"

definition coalesce_step :: "u64 \<Rightarrow> loc \<times> loc \<Rightarrow> run list \<Rightarrow> run list" where
  "coalesce_step blksz = (\<lambda>(src, dst) runs.
     if runs \<noteq> [] \<and> extends blksz (last runs) src dst
     then butlast runs @ [(last runs)\<lparr>run_chunks := run_chunks (last runs) + 1\<rparr>]
     else runs @ [\<lparr>run_src = src, run_dst = dst, run_chunks = 1\<rparr>])"

text \<open>
  \<open>sort_unstable_by_key\<close> may order equal keys in any way; the keys are distinct (each
  destination chunk is in one group), and then every sort gives the same list.
\<close>

definition dst_chunk :: "loc \<times> loc \<Rightarrow> u32" where
  "dst_chunk = (\<lambda>(_, dst). loc_chunk dst)"

definition coalesce :: "(loc \<times> loc) list \<Rightarrow> u64 \<Rightarrow> run list" where
  "coalesce locs blksz = fold (coalesce_step blksz) (sort_key dst_chunk locs) []"

section \<open>Building the runs\<close>

definition push_pair ::
    "(file_path \<times> hashed) list \<Rightarrow> u32 \<Rightarrow> loc \<Rightarrow> u64 \<Rightarrow> loc \<Rightarrow> (pair_key \<rightharpoonup> (loc \<times> loc) list) \<Rightarrow>
     (pair_key \<rightharpoonup> (loc \<times> loc) list) res" where
  "push_pair files blksz src src_len dst pairs =
     rbind (index_res files (unat (loc_file dst))) (\<lambda>(_, hd).
     if chunk_len hd (ucast (loc_chunk dst)) (ucast blksz) \<noteq> src_len then Inr pairs
     else let k = (blksz, loc_file src, loc_file dst)
          in Inr (pairs(k \<mapsto> (case pairs k of None \<Rightarrow> [] | Some ps \<Rightarrow> ps) @ [(src, dst)])))"

definition push_group ::
    "(file_path \<times> hashed) list \<Rightarrow> index_key \<Rightarrow> loc list \<Rightarrow> (pair_key \<rightharpoonup> (loc \<times> loc) list) \<Rightarrow>
     (pair_key \<rightharpoonup> (loc \<times> loc) list) res" where
  "push_group files = (\<lambda>(blksz, _) locs pairs.
     rbind (index_res locs 0) (\<lambda>src.
     rbind (index_res files (unat (loc_file src))) (\<lambda>(_, hs).
     let src_len = chunk_len hs (ucast (loc_chunk src)) (ucast blksz)
     in if src_len = 0 then Inr pairs
        else fold_res (push_pair files blksz src src_len) (tl locs) pairs)))"

definition build_runs ::
    "index_key list \<Rightarrow> index_key groups \<Rightarrow> (file_path \<times> hashed) list \<Rightarrow> (pair_key \<rightharpoonup> run list) res" where
  "build_runs order idx files =
     rbind (fold_res (\<lambda>k. case idx k of None \<Rightarrow> Inr | Some locs \<Rightarrow> push_group files k locs)
              order Map.empty) (\<lambda>pairs.
     Inr (\<lambda>k. map_option (\<lambda>locs. coalesce locs (ucast (fst k))) (pairs k)))"

section \<open>What coalescing guarantees\<close>

text \<open>The chunk pairs a run stands for.\<close>

definition expand :: "run \<Rightarrow> (loc \<times> loc) list" where
  "expand r = map (\<lambda>i. ((run_src r)\<lparr>loc_chunk := loc_chunk (run_src r) + of_nat i\<rparr>,
                        (run_dst r)\<lparr>loc_chunk := loc_chunk (run_dst r) + of_nat i\<rparr>))
                [0..<unat (run_chunks r)]"

definition run_ok :: "u64 \<Rightarrow> run \<Rightarrow> bool" where
  "run_ok blksz r \<longleftrightarrow> 0 < unat (run_chunks r) \<and>
     (run_chunks r = 1 \<or> unat (run_chunks r) * unat blksz \<le> 16 * 2 ^ 20)"

text \<open>
  Two runs that should have been one: the second starts in both files where the first ends, and one more
  chunk would still fit into 16 MiB. In natural numbers, where the code computes with 32 and 64 bits.
\<close>

definition joinable :: "u64 \<Rightarrow> run \<Rightarrow> run \<Rightarrow> bool" where
  "joinable blksz r r' \<longleftrightarrow>
     unat (loc_chunk (run_src r')) = unat (loc_chunk (run_src r)) + unat (run_chunks r) \<and>
     unat (loc_chunk (run_dst r')) = unat (loc_chunk (run_dst r)) + unat (run_chunks r) \<and>
     (unat (run_chunks r) + 1) * unat blksz \<le> 16 * 2 ^ 20"

definition runs_ok :: "u64 \<Rightarrow> run list \<Rightarrow> bool" where
  "runs_ok blksz runs \<longleftrightarrow> list_all (run_ok blksz) runs \<and> successively (\<lambda>r r'. \<not> joinable blksz r r') runs"

definition one_pair :: "u32 \<Rightarrow> u32 \<Rightarrow> (loc \<times> loc) list \<Rightarrow> bool" where
  "one_pair s d xs \<longleftrightarrow> list_all (\<lambda>(src, dst). loc_file src = s \<and> loc_file dst = d) xs"

text \<open>The code's test of the size does not wrap.\<close>

lemma run_bytes:
  fixes c b :: u32
  shows "unat ((ucast c + 1) * ucast b :: u64) = Suc (unat c) * unat b"
proof -
  have c: "unat c < 2 ^ 32" and b: "unat b < 2 ^ 32"
    using unsigned_less [of c, where ?'a = nat] unsigned_less [of b, where ?'a = nat] by simp_all
  have w: "unat (ucast c :: u64) = unat c" "unat (ucast b :: u64) = unat b"
    by (simp_all add: unat_ucast_up)
  then have s: "unat (ucast c + 1 :: u64) = Suc (unat c)"
    using c by (simp add: unat_word_ariths)
  have "Suc (unat c) * unat b \<le> 2 ^ 32 * (2 ^ 32 - 1)"
    using c b by (intro mult_le_mono) auto
  then have "Suc (unat c) * unat b < 2 ^ 64" by simp
  then show ?thesis by (simp add: unat_word_ariths(2) s w)
qed

lemma extends_bound:
  assumes "extends (ucast (b :: u32)) r src dst" "0 < b"
  shows "Suc (unat (run_chunks r)) * unat b \<le> 16 * 2 ^ 20"
    and "unat (run_chunks r + 1) = Suc (unat (run_chunks r))"
proof -
  have "unat ((ucast (run_chunks r) + 1) * ucast b :: u64) \<le> unat MAX_RUN_BYTES"
    using assms(1) by (simp add: extends_def word_le_nat_alt)
  then show le: "Suc (unat (run_chunks r)) * unat b \<le> 16 * 2 ^ 20"
    unfolding run_bytes by (simp add: MAX_RUN_BYTES_def)
  have "0 < unat b" using assms(2) by (simp add: word_less_nat_alt)
  then have "Suc (unat (run_chunks r)) * 1 \<le> Suc (unat (run_chunks r)) * unat b"
    by (intro mult_le_mono2) simp
  then have "Suc (unat (run_chunks r)) \<le> 16 * 2 ^ 20"
    using le by (metis mult.right_neutral order_trans)
  then show "unat (run_chunks r + 1) = Suc (unat (run_chunks r))"
    by (simp add: unat_word_ariths)
qed

lemma unat_add_eqI: "unat x = unat y + unat z \<Longrightarrow> x = y + (z :: 'a::len word)"
  by (drule arg_cong [where f = "of_nat :: nat \<Rightarrow> 'a word"]) simp

lemma joinable_extends:
  assumes "joinable (ucast (b :: u32)) r r'"
  shows "extends (ucast b) r (run_src r') (run_dst r')"
proof -
  have "unat ((ucast (run_chunks r) + 1) * ucast b :: u64) \<le> unat MAX_RUN_BYTES"
    unfolding run_bytes using assms by (simp add: joinable_def MAX_RUN_BYTES_def unat_ucast_up)
  then show ?thesis
    using assms by (auto simp: extends_def joinable_def word_le_nat_alt intro: unat_add_eqI)
qed

lemma loc_eqI: "loc_file l = f \<Longrightarrow> loc_chunk l = c \<Longrightarrow> l = \<lparr>loc_file = f, loc_chunk = c\<rparr>"
  by simp

lemma expand_files:
  assumes "one_pair s d (expand r)" "0 < unat (run_chunks r)"
  shows "loc_file (run_src r) = s" "loc_file (run_dst r) = d"
  using assms by (auto simp: one_pair_def expand_def list_all_iff)

lemma expand_extend:
  assumes "extends (ucast (b :: u32)) r src dst" "0 < b"
    "loc_file (run_src r) = loc_file src" "loc_file (run_dst r) = loc_file dst"
  shows "expand (r\<lparr>run_chunks := run_chunks r + 1\<rparr>) = expand r @ [(src, dst)]"
  using assms(1,3,4) extends_bound(2) [OF assms(1,2)]
  by (simp add: expand_def extends_def)

text \<open>The greedy loop over pairs in any order, of which the source's sorted order is one.\<close>

lemma coalesce_fold:
  assumes "0 < (b :: u32)" "one_pair s d xs"
  shows "concat (map expand (fold (coalesce_step (ucast b)) xs [])) = xs \<and>
         runs_ok (ucast b) (fold (coalesce_step (ucast b)) xs [])"
  using assms(2)
proof (induction xs rule: rev_induct)
  case Nil
  then show ?case by (simp add: runs_ok_def)
next
  case (snoc x xs)
  obtain src dst where x: "x = (src, dst)" by (cases x)
  let ?rs = "fold (coalesce_step (ucast b)) xs []"
  have IH: "concat (map expand ?rs) = xs" "runs_ok (ucast b) ?rs"
    using snoc by (auto simp: one_pair_def)
  have files: "loc_file src = s" "loc_file dst = d" "one_pair s d xs"
    using snoc.prems by (auto simp: one_pair_def x)
  show ?case
  proof (cases "?rs \<noteq> [] \<and> extends (ucast b) (last ?rs) src dst")
    case False
    then have "fold (coalesce_step (ucast b)) (xs @ [x]) [] =
        ?rs @ [\<lparr>run_src = src, run_dst = dst, run_chunks = 1\<rparr>]"
      by (auto simp: coalesce_step_def x)
    moreover have "runs_ok (ucast b) (?rs @ [\<lparr>run_src = src, run_dst = dst, run_chunks = 1\<rparr>])"
      using IH(2) False joinable_extends [of b "last ?rs" "\<lparr>run_src = src, run_dst = dst, run_chunks = 1\<rparr>"]
      by (auto simp: runs_ok_def run_ok_def successively_append_iff)
    moreover have "expand \<lparr>run_src = src, run_dst = dst, run_chunks = 1\<rparr> = [(src, dst)]"
      by (simp add: expand_def)
    ultimately show ?thesis using IH(1) by (simp add: x)
  next
    case True
    define rs r where "rs = butlast ?rs" and "r = last ?rs"
    have split: "?rs = rs @ [r]" using True by (simp add: rs_def r_def)
    have ext: "extends (ucast b) r src dst" using True by (simp add: r_def)
    let ?r = "r\<lparr>run_chunks := run_chunks r + 1\<rparr>"
    have step: "fold (coalesce_step (ucast b)) (xs @ [x]) [] = rs @ [?r]"
      using True by (simp add: coalesce_step_def x rs_def r_def)
    have ok: "run_ok (ucast b) r" using IH(2) by (simp add: runs_ok_def split)
    have "one_pair s d (concat (map expand ?rs))" using IH(1) files(3) by simp
    then have "one_pair s d (expand r)" by (simp add: split one_pair_def)
    then have "loc_file (run_src r) = loc_file src" "loc_file (run_dst r) = loc_file dst"
      using expand_files ok files by (auto simp: run_ok_def)
    note exp = expand_extend [OF ext assms(1) this]
    have "run_ok (ucast b) ?r"
      using extends_bound [OF ext assms(1)] by (simp add: run_ok_def unat_ucast_up)
    then have "runs_ok (ucast b) (rs @ [?r])"
      using IH(2) by (auto simp: runs_ok_def split successively_append_iff joinable_def)
    moreover have "concat (map expand (rs @ [?r])) = xs @ [x]"
      using IH(1) by (simp add: exp split x)
    ultimately show ?thesis using step by simp
  qed
qed

lemma one_pair_sort [simp]: "one_pair s d (sort_key f xs) = one_pair s d xs"
  by (simp add: one_pair_def list_all_iff)

lemma coalesce_ok:
  assumes "0 < (b :: u32)" "one_pair s d locs"
  shows "concat (map expand (coalesce locs (ucast b))) = sort_key dst_chunk locs"
    and "runs_ok (ucast b) (coalesce locs (ucast b))"
  using coalesce_fold [OF assms(1), of s d "sort_key dst_chunk locs"] assms(2)
  by (simp_all add: coalesce_def)

text \<open>With distinct destination chunks, every sort by them gives the same list.\<close>

lemma sort_unique:
  assumes "set xs = set ys" "distinct (map dst_chunk xs)" "distinct (map dst_chunk ys)"
    "sorted (map dst_chunk ys)"
  shows "sort_key dst_chunk xs = ys"
proof -
  have inj: "inj_on dst_chunk (set ys)" using assms(3) by (simp add: distinct_map)
  have "sorted_list_of_set (dst_chunk ` set ys) = map dst_chunk ys"
    using assms(3,4) by (metis set_map sorted_list_of_set.idem_if_sorted_distinct)
  moreover have "distinct (map dst_chunk (sort_key dst_chunk xs))"
    using assms(1,2) by (simp add: distinct_map)
  then have "sorted_list_of_set (dst_chunk ` set ys) = map dst_chunk (sort_key dst_chunk xs)"
    using assms(1)
    by (metis set_map set_sort sorted_list_of_set.idem_if_sorted_distinct sorted_sort_key)
  ultimately have "map dst_chunk (sort_key dst_chunk xs) = map dst_chunk ys" by simp
  then show ?thesis using inj assms(1) by (simp add: inj_on_map_eq_map)
qed

end
