(* ===== verification/RunsFacts.thy ===== *)
theory RunsFacts imports Runs begin

text \<open>
  What \<open>build_runs\<close> returns on a well-formed index, whatever the order in which the
  \<open>HashMap\<close> is iterated: for each (block size, source file, destination file) the runs that
  stand for exactly the chunk pairs the groups prescribe, each destination chunk in one run and
  never a source.
\<close>

definition loc_len :: "(file_path \<times> hashed) list \<Rightarrow> u32 \<Rightarrow> loc \<Rightarrow> u64" where
  "loc_len files b l = chunk_len (snd (files ! unat (loc_file l))) (ucast (loc_chunk l)) (ucast b)"

text \<open>The chunk pairs of the specification.\<close>

definition dup_pairs ::
    "index_key groups \<Rightarrow> (file_path \<times> hashed) list \<Rightarrow> pair_key \<Rightarrow> (loc \<times> loc) set" where
  "dup_pairs idx files = (\<lambda>(b, s, d). {(src, dst). \<exists>h ls. idx (b, h) = Some ls \<and>
     src = hd ls \<and> dst \<in> set (tl ls) \<and> loc_file src = s \<and> loc_file dst = d \<and>
     loc_len files b src \<noteq> 0 \<and> loc_len files b dst = loc_len files b src})"

section \<open>The two loops as lists\<close>

definition group_list ::
    "(file_path \<times> hashed) list \<Rightarrow> index_key \<Rightarrow> loc list \<Rightarrow> (pair_key \<times> loc \<times> loc) list" where
  "group_list files k ls =
     (if loc_len files (fst k) (hd ls) = 0 then []
      else map (\<lambda>dst. ((fst k, loc_file (hd ls), loc_file dst), hd ls, dst))
             (filter (\<lambda>dst. loc_len files (fst k) dst = loc_len files (fst k) (hd ls)) (tl ls)))"

definition all_pairs ::
    "index_key list \<Rightarrow> index_key groups \<Rightarrow> (file_path \<times> hashed) list \<Rightarrow> (pair_key \<times> loc \<times> loc) list" where
  "all_pairs order idx files =
     concat (map (\<lambda>k. case idx k of None \<Rightarrow> [] | Some ls \<Rightarrow> group_list files k ls) order)"

definition at_key :: "('k \<times> 'v) list \<Rightarrow> 'k \<Rightarrow> 'v list" where
  "at_key L k = map snd (filter (\<lambda>x. fst x = k) L)"

definition multimap :: "('k \<times> 'v) list \<Rightarrow> 'k \<rightharpoonup> 'v list" where
  "multimap L k = (if at_key L k = [] then None else Some (at_key L k))"

lemma multimap_Nil [simp]: "multimap [] = Map.empty"
  by (simp add: multimap_def at_key_def fun_eq_iff)

lemma multimap_snoc:
  "(multimap L)(k \<mapsto> (case multimap L k of None \<Rightarrow> [] | Some vs \<Rightarrow> vs) @ [v]) = multimap (L @ [(k, v)])"
  by (auto simp: multimap_def at_key_def fun_eq_iff)

lemma push_pair_list:
  assumes "unat (loc_file dst) < length files"
  shows "push_pair files b src n dst (multimap L) =
    Inr (multimap (L @ (if loc_len files b dst = n then [((b, loc_file src, loc_file dst), src, dst)] else [])))"
  using assms
  by (simp add: push_pair_def index_res_def loc_len_def Let_def case_prod_unfold multimap_snoc)

lemma push_pairs_list:
  assumes "list_all (\<lambda>dst. unat (loc_file dst) < length files) ls"
  shows "fold_res (push_pair files b src n) ls (multimap L) =
    Inr (multimap (L @ map (\<lambda>dst. ((b, loc_file src, loc_file dst), src, dst))
                         (filter (\<lambda>dst. loc_len files b dst = n) ls)))"
  using assms by (induction ls arbitrary: L) (auto simp: push_pair_list)

lemma push_group_list:
  assumes "group_wf files (fst k) ls"
  shows "push_group files k ls (multimap L) = Inr (multimap (L @ group_list files k ls))"
proof -
  obtain src tl where ls: "ls = src # tl" using assms by (cases ls) (auto simp: group_wf_def)
  have ok: "unat (loc_file src) < length files" "list_all (\<lambda>l. unat (loc_file l) < length files) tl"
    using assms by (auto simp: group_wf_def ls list_all_iff)
  then show ?thesis
    by (simp add: push_group_def case_prod_unfold index_res_def ls Let_def group_list_def
        loc_len_def [symmetric] push_pairs_list)
qed

lemma build_runs_list:
  assumes "index_wf files idx"
  shows "build_runs order idx files = Inr (\<lambda>k. map_option (\<lambda>locs. coalesce locs (ucast (fst k)))
           (multimap (all_pairs order idx files) k))"
proof -
  have "fold_res (\<lambda>k. case idx k of None \<Rightarrow> Inr | Some locs \<Rightarrow> push_group files k locs) order (multimap L) =
      Inr (multimap (L @ all_pairs order idx files))" for L
    unfolding all_pairs_def
    using push_group_list index_wfD(1) [OF assms]
    by (induction order arbitrary: L) (auto split: option.splits)
  from this [of "[]"] show ?thesis by (simp add: build_runs_def)
qed

section \<open>Which pairs there are\<close>

lemma in_group_list:
  "(k', src, dst) \<in> set (group_list files k ls) \<longleftrightarrow>
     loc_len files (fst k) (hd ls) \<noteq> 0 \<and> src = hd ls \<and> dst \<in> set (tl ls) \<and>
     loc_len files (fst k) dst = loc_len files (fst k) (hd ls) \<and> k' = (fst k, loc_file src, loc_file dst)"
  by (auto simp: group_list_def)

lemma in_all_pairs_group:
  "x \<in> set (all_pairs order idx files) \<longleftrightarrow>
     (\<exists>k ls. k \<in> set order \<and> idx k = Some ls \<and> x \<in> set (group_list files k ls))"
proof -
  have "x \<in> set (case idx k of None \<Rightarrow> [] | Some ls \<Rightarrow> group_list files k ls) \<longleftrightarrow>
      (\<exists>ls. idx k = Some ls \<and> x \<in> set (group_list files k ls))" for k
    by (cases "idx k") auto
  then show ?thesis by (simp add: all_pairs_def Bex_def del: split_paired_Ex)
qed

lemma in_all_pairs:
  "set order = dom idx \<Longrightarrow> (k', p) \<in> set (all_pairs order idx files) \<longleftrightarrow> p \<in> dup_pairs idx files k'"
proof -
  assume dom: "set order = dom idx"
  obtain b s d where k': "k' = (b, s, d)" by (cases k')
  obtain src dst where p: "p = (src, dst)" by (cases p)
  have "(k', p) \<in> set (all_pairs order idx files) \<longleftrightarrow>
      (\<exists>k ls. idx k = Some ls \<and> (k', src, dst) \<in> set (group_list files k ls))"
    using dom by (auto simp: in_all_pairs_group p dom_def)
  also have "\<dots> \<longleftrightarrow> p \<in> dup_pairs idx files k'"
    by (auto simp: in_group_list dup_pairs_def k' p)
  finally show ?thesis .
qed

lemma set_at_key: "set (at_key L k) = {v. (k, v) \<in> set L}"
  by (force simp: at_key_def)

text \<open>Each destination occurs once over all the pairs.\<close>

lemma group_list_dsts:
  assumes "group_wf files b ls"
  shows "distinct (map (\<lambda>x. snd (snd x)) (group_list files k ls))"
    and "set (map (\<lambda>x. snd (snd x)) (group_list files k ls)) \<subseteq> set ls"
proof -
  have "distinct (tl ls)" using group_distinct [OF assms] by (rule distinct_tl)
  then show "distinct (map (\<lambda>x. snd (snd x)) (group_list files k ls))"
    by (simp add: group_list_def comp_def)
  show "set (map (\<lambda>x. snd (snd x)) (group_list files k ls)) \<subseteq> set ls"
    by (auto simp: group_list_def dest: list.set_sel(2) [rotated] split: if_splits)
       (metis list.sel(2) list.set_sel(2))
qed

lemma all_pairs_dsts:
  assumes "index_wf files idx" "distinct order"
  shows "distinct (map (\<lambda>x. snd (snd x)) (all_pairs order idx files))"
  using assms(2)
proof (induction order)
  case Nil
  then show ?case by (simp add: all_pairs_def)
next
  case (Cons k order)
  have IH: "distinct (map (\<lambda>x. snd (snd x)) (all_pairs order idx files))" using Cons by simp
  show ?case
  proof (cases "idx k")
    case None
    then show ?thesis using IH by (simp add: all_pairs_def)
  next
    case (Some ls)
    note wf = index_wfD [OF assms(1) Some]
    have "set (map (\<lambda>x. snd (snd x)) (group_list files k ls)) \<inter>
        set (map (\<lambda>x. snd (snd x)) (all_pairs order idx files)) = {}"
    proof (rule ccontr)
      assume "\<not> ?thesis"
      then obtain l where l0: "l \<in> set (map (\<lambda>x. snd (snd x)) (group_list files k ls))"
          "l \<in> set (map (\<lambda>x. snd (snd x)) (all_pairs order idx files))" by blast
      have "\<exists>k' ls'. k' \<in> set order \<and> idx k' = Some ls' \<and>
          l \<in> set (map (\<lambda>x. snd (snd x)) (group_list files k' ls'))"
        using l0(2) in_all_pairs_group [of _ order idx files] unfolding set_map by blast
      then obtain k' ls' where l: "l \<in> set ls" "k' \<in> set order" "idx k' = Some ls'"
          "l \<in> set (map (\<lambda>x. snd (snd x)) (group_list files k' ls'))"
        using l0(1) group_list_dsts(2) [OF wf(1), of k] by blast
      then have "l \<in> set ls'" using group_list_dsts(2) [OF index_wfD(1) [OF assms(1) l(3)], of k'] by blast
      then have "k = k'" using wf(2) [OF l(3,1)] by simp
      then show False using Cons.prems l(2) by simp
    qed
    then show ?thesis
      using IH group_list_dsts(1) [OF wf(1), of k] by (simp add: all_pairs_def Some)
  qed
qed

lemma at_key_ok:
  assumes "index_wf files idx" "distinct order" "set order = dom idx"
  shows "set (at_key (all_pairs order idx files) k) = dup_pairs idx files k"
    and "distinct (map dst_chunk (at_key (all_pairs order idx files) k))"
    and "one_pair (fst (snd k)) (snd (snd k)) (at_key (all_pairs order idx files) k)"
proof -
  let ?L = "all_pairs order idx files"
  show set: "set (at_key ?L k) = dup_pairs idx files k"
    using in_all_pairs [OF assms(3)] by (auto simp: set_at_key)
  show one: "one_pair (fst (snd k)) (snd (snd k)) (at_key ?L k)"
    unfolding one_pair_def list_all_iff set by (auto simp: dup_pairs_def split: prod.splits)
  have "distinct (map snd (at_key ?L k))"
    using all_pairs_dsts [OF assms(1,2)]
    by (simp add: at_key_def comp_def distinct_map inj_on_def)
  moreover have "inj_on loc_chunk (set (map snd (at_key ?L k)))"
  proof (rule inj_onI)
    have fs: "loc_file (snd x) = snd (snd k)" if "x \<in> set (at_key ?L k)" for x
      using one that by (simp add: one_pair_def list_all_iff case_prod_unfold)
    fix l m assume "l \<in> set (map snd (at_key ?L k))" "m \<in> set (map snd (at_key ?L k))"
      and c: "loc_chunk l = loc_chunk m"
    then have "loc_file l = loc_file m" using fs by auto
    with c show "l = m" by (cases l, cases m) simp
  qed
  ultimately have "distinct (map loc_chunk (map snd (at_key ?L k)))" by (simp add: distinct_map comp_inj_on)
  then show "distinct (map dst_chunk (at_key ?L k))"
    by (simp only: map_map) (simp add: dst_chunk_def case_prod_unfold comp_def)
qed

lemma loc_len_zero [simp]: "loc_len files 0 l = 0"
  by (simp add: loc_len_def chunk_len_def)

lemma dup_pairs_zero: "dup_pairs idx files (0, s, d) = {}"
  by (simp add: dup_pairs_def)

section \<open>The runs\<close>

lemma build_runs_spec:
  assumes "index_wf files idx" "distinct order" "set order = dom idx"
  obtains pairs where "build_runs order idx files = Inr pairs"
    "\<And>k. pairs k = None \<longleftrightarrow> dup_pairs idx files k = {}"
    "\<And>k runs. pairs k = Some runs \<Longrightarrow> 0 < fst k \<and> runs_ok (ucast (fst k)) runs \<and>
       sorted (map dst_chunk (concat (map expand runs))) \<and>
       distinct (map dst_chunk (concat (map expand runs))) \<and>
       set (concat (map expand runs)) = dup_pairs idx files k"
proof -
  let ?L = "all_pairs order idx files"
  note key = at_key_ok [OF assms]
  show thesis
  proof (rule that [OF build_runs_list [OF assms(1)]])
    fix k
    show "map_option (\<lambda>locs. coalesce locs (ucast (fst k))) (multimap ?L k) = None \<longleftrightarrow>
        dup_pairs idx files k = {}"
      using key(1) [of k] by (simp add: multimap_def flip: set_empty)
    fix runs
    assume "map_option (\<lambda>locs. coalesce locs (ucast (fst k))) (multimap ?L k) = Some runs"
    then have runs: "runs = coalesce (at_key ?L k) (ucast (fst k))" "at_key ?L k \<noteq> []"
      by (auto simp: multimap_def split: if_splits)
    then have "dup_pairs idx files k \<noteq> {}" using key(1) [of k] by auto
    then have b: "0 < fst k" using dup_pairs_zero by (cases k) (auto simp: word_gt_0)
    note co = coalesce_ok [OF b key(3)]
    have "set (concat (map expand runs)) = dup_pairs idx files k"
      using key(1) by (simp only: runs(1) co(1) set_sort)
    moreover have "distinct (map dst_chunk (concat (map expand runs)))"
      using key(2) [of k] by (simp only: runs(1) co(1)) (simp add: distinct_map)
    ultimately show "0 < fst k \<and> runs_ok (ucast (fst k)) runs \<and>
       sorted (map dst_chunk (concat (map expand runs))) \<and>
       distinct (map dst_chunk (concat (map expand runs))) \<and>
       set (concat (map expand runs)) = dup_pairs idx files k"
      using b co by (simp add: runs(1))
  qed
qed

lemma build_runs_specD:
  assumes "index_wf files idx" "distinct order" "set order = dom idx" "build_runs order idx files = Inr pairs"
  shows "pairs k = None \<longleftrightarrow> dup_pairs idx files k = {}"
    and "pairs k = Some runs \<Longrightarrow> 0 < fst k \<and> runs_ok (ucast (fst k)) runs \<and>
       sorted (map dst_chunk (concat (map expand runs))) \<and>
       distinct (map dst_chunk (concat (map expand runs))) \<and>
       set (concat (map expand runs)) = dup_pairs idx files k"
proof -
  have "(pairs k = None \<longleftrightarrow> dup_pairs idx files k = {}) \<and>
    (\<forall>runs. pairs k = Some runs \<longrightarrow> 0 < fst k \<and> runs_ok (ucast (fst k)) runs \<and>
       sorted (map dst_chunk (concat (map expand runs))) \<and>
       distinct (map dst_chunk (concat (map expand runs))) \<and>
       set (concat (map expand runs)) = dup_pairs idx files k)"
  proof (rule build_runs_spec [OF assms(1-3)])
    fix ps
    assume ps: "build_runs order idx files = Inr ps" "\<And>k. ps k = None \<longleftrightarrow> dup_pairs idx files k = {}"
      "\<And>k runs. ps k = Some runs \<Longrightarrow> 0 < fst k \<and> runs_ok (ucast (fst k)) runs \<and>
       sorted (map dst_chunk (concat (map expand runs))) \<and>
       distinct (map dst_chunk (concat (map expand runs))) \<and>
       set (concat (map expand runs)) = dup_pairs idx files k"
    then have "ps = pairs" using assms(4) by simp
    then show ?thesis using ps(2,3) by blast
  qed
  then show "pairs k = None \<longleftrightarrow> dup_pairs idx files k = {}"
    and "pairs k = Some runs \<Longrightarrow> 0 < fst k \<and> runs_ok (ucast (fst k)) runs \<and>
       sorted (map dst_chunk (concat (map expand runs))) \<and>
       distinct (map dst_chunk (concat (map expand runs))) \<and>
       set (concat (map expand runs)) = dup_pairs idx files k" by blast+
qed

lemma build_runs_order_aux:
  assumes "index_wf files idx" "distinct order" "set order = dom idx"
    "distinct order'" "set order' = dom idx"
  shows "build_runs order idx files = build_runs order' idx files"
proof -
  note key = at_key_ok [OF assms(1-3)] and key' = at_key_ok [OF assms(1,4,5)]
  have eq: "sort_key dst_chunk (at_key (all_pairs order idx files) k) =
      sort_key dst_chunk (at_key (all_pairs order' idx files) k)" for k
    using key(1,2) [of k] key'(1,2) [of k] by (intro sort_unique) (auto simp: distinct_map)
  have "map_option (\<lambda>locs. coalesce locs (ucast (fst k))) (multimap (all_pairs order idx files) k) =
      map_option (\<lambda>locs. coalesce locs (ucast (fst k))) (multimap (all_pairs order' idx files) k)" for k
    using key(1) [of k] key'(1) [of k] by (auto simp: multimap_def coalesce_def eq simp flip: set_empty)
  then show ?thesis by (simp add: build_runs_list [OF assms(1)])
qed

text \<open>A destination chunk is in one run of one pair, and is no run's source.\<close>

lemma dup_pairs_unique:
  assumes "index_wf files idx" "(src, dst) \<in> dup_pairs idx files k" "(src', dst') \<in> dup_pairs idx files k'"
  shows "dst \<noteq> src'" and "dst = dst' \<Longrightarrow> k = k' \<and> src = src'"
proof -
  obtain h ls where 1: "idx (fst k, h) = Some ls" "src = hd ls" "dst \<in> set (tl ls)"
      "snd k = (loc_file src, loc_file dst)"
    using assms(2) by (auto simp: dup_pairs_def)
  obtain h' ls' where 2: "idx (fst k', h') = Some ls'" "src' = hd ls'" "dst' \<in> set (tl ls')"
      "snd k' = (loc_file src', loc_file dst')"
    using assms(3) by (auto simp: dup_pairs_def)
  note wf = index_wfD [OF assms(1) 1(1)]
  have ne: "ls \<noteq> []" "ls' \<noteq> []" using 1(3) 2(3) by auto
  have in1: "dst \<in> set ls" and in2: "src' \<in> set ls'" "dst' \<in> set ls'"
    using 1(3) 2(2,3) ne by (auto dest: list.set_sel(2) [rotated])
  show "dst \<noteq> src'"
  proof
    assume eq: "dst = src'"
    then have "(fst k, h) = (fst k', h')" using wf(2) [OF 2(1) in1] in2(1) by simp
    then have "ls = ls'" using 1(1) 2(1) by simp
    then have "hd ls \<in> set (tl ls)" using 1(3) 2(2) eq by simp
    then show False using group_distinct [OF wf(1)] ne(1) by (cases ls) auto
  qed
  assume eq: "dst = dst'"
  then have "(fst k, h) = (fst k', h')" using wf(2) [OF 2(1) in1] in2(2) by simp
  then have "ls = ls'" "fst k = fst k'" using 1(1) 2(1) by simp_all
  then show "k = k' \<and> src = src'" using 1 2 eq by (simp add: prod_eq_iff)
qed

end
