(* ===== verification/Worker.thy ===== *)
theory Worker imports RunsFacts Clone Io begin

text \<open>
  The clone phase of \<open>src/dedup.rs\<close>: the statistics, the worker with its two reused buffers,
  verifying and cloning one run, all runs of one pair of files, and \<open>dedup\<close>. The file system
  is the record \<open>kernel\<close> of system calls over a kernel state that is threaded through. The
  order of a \<open>HashMap\<close> and the way rayon splits the pairs into tasks are arguments; tasks run
  one after the other here, and in parallel in the theories \<open>Calls\<close> and \<open>Schedule\<close>. What \<open>eprintln!\<close>
  writes is left out.
\<close>

section \<open>Statistics\<close>

record stats =
  n_candidates :: u64
  n_verified :: u64
  n_cloned :: u64
  n_bytes :: u64
  n_mismatches :: u64
  n_busy :: u64
  n_errors :: u64

definition stats_default :: stats where
  "stats_default = \<lparr>n_candidates = 0, n_verified = 0, n_cloned = 0, n_bytes = 0,
     n_mismatches = 0, n_busy = 0, n_errors = 0\<rparr>"

definition stats_add :: "stats \<Rightarrow> stats \<Rightarrow> stats" where
  "stats_add a o' = \<lparr>n_candidates = n_candidates a + n_candidates o',
     n_verified = n_verified a + n_verified o',
     n_cloned = n_cloned a + n_cloned o',
     n_bytes = n_bytes a + n_bytes o',
     n_mismatches = n_mismatches a + n_mismatches o',
     n_busy = n_busy a + n_busy o',
     n_errors = n_errors a + n_errors o'\<rparr>"

interpretation total: comm_monoid_list stats_add stats_default
  by unfold_locales (simp_all add: stats_add_def stats_default_def ac_simps)

section \<open>The worker\<close>

record opts =
  op_dry_run :: bool
  op_fideduperange :: bool

text \<open>\<open>kn_open\<close> takes the path and whether to open for writing too; never with truncation.\<close>

record 'k kernel =
  kn_open :: "path \<Rightarrow> bool \<Rightarrow> 'k \<Rightarrow> (io_error + fd) \<times> 'k"
  kn_read_at :: "fd \<Rightarrow> u64 \<Rightarrow> nat \<Rightarrow> 'k \<Rightarrow> (io_error + u8 list) \<times> 'k"
  kn_dedupe :: "'k dedupe_ioctl"
  kn_clone :: "'k clone_ioctl"

text \<open>A worker's state, with the kernel it acts on.\<close>

record 'k wstate =
  ws_kernel :: 'k
  ws_buf_a :: "u8 list"
  ws_buf_b :: "u8 list"
  ws_stats :: stats

definition worker_new :: "'k \<Rightarrow> 'k wstate" where
  "worker_new k = \<lparr>ws_kernel = k, ws_buf_a = [], ws_buf_b = [], ws_stats = stats_default\<rparr>"

definition io_call :: "('k \<Rightarrow> (io_error + 'a) \<times> 'k) \<Rightarrow> ('a, 'k wstate) io" where
  "io_call f s = (case f (ws_kernel s) of (r, k) \<Rightarrow> Some (from_io r, s\<lparr>ws_kernel := k\<rparr>))"

definition io_ioctl :: "('k \<Rightarrow> (errno + 'a) \<times> 'k) \<Rightarrow> ('a, 'k wstate) io" where
  "io_ioctl f s = (case f (ws_kernel s) of (r, k) \<Rightarrow> Some (from_errno r, s\<lparr>ws_kernel := k\<rparr>))"

text \<open>Adding to the counters.\<close>

definition bump :: "stats \<Rightarrow> (unit, 'k wstate) io" where
  "bump d = io_modify (\<lambda>s. s\<lparr>ws_stats := stats_add (ws_stats s) d\<rparr>)"

definition worker_open ::
    "'k kernel \<Rightarrow> opts \<Rightarrow> hashed paths \<Rightarrow> nat \<Rightarrow> bool \<Rightarrow> (fd, 'k wstate) io" where
  "worker_open K opts ps i wr =
     io_bind (io_lift (index_res (ps_files ps) i)) (\<lambda>(fp, _).
     io_bind (io_opt (paths_path ps fp)) (\<lambda>p.
     io_context ''open'' (io_call (kn_open K p (wr \<and> \<not> op_dry_run opts)))))"

definition run_len :: "hashed paths \<Rightarrow> nat \<Rightarrow> u32 \<Rightarrow> u32 \<Rightarrow> u64 \<Rightarrow> u64 res" where
  "run_len ps i first_chunk n blksz =
     rbind (index_res (ps_files ps) i) (\<lambda>(_, h).
     Inr (min (saturating_sub (h_size h) (ucast first_chunk * blksz)) (ucast n * blksz)))"

text \<open>
  The standard library's \<open>FileExt::read_exact_at\<close>: reads until the buffer is full; the end
  of the file before that is \<open>UnexpectedEof\<close>. (A read that a signal interrupts is repeated,
  which is inside \<open>kn_read_at\<close>.)
\<close>

function read_exact_at ::
    "'k kernel \<Rightarrow> fd \<Rightarrow> u8 list \<Rightarrow> nat \<Rightarrow> u64 \<Rightarrow> 'k \<Rightarrow> (io_error + unit) \<times> u8 list \<times> 'k" where
  "read_exact_at K f buf n off k =
     (if n < length buf
      then case kn_read_at K f off (length buf - n) k of
             (Inl e, k) \<Rightarrow> (Inl e, buf, k)
           | (Inr bs, k) \<Rightarrow>
               if bs = [] then (Inl (SimpleIo UnexpectedEof), buf, k)
               else read_exact_at K f (overwrite n (take (length buf - n) bs) buf)
                      (n + length bs) (off + of_nat (length bs)) k
      else (Inr (), buf, k))"
  by pat_completeness auto
termination
  by (relation "measure (\<lambda>(K, f, buf, n, off, k). length buf - n)")
     (auto simp flip: length_greater_0_conv)

declare read_exact_at.simps [simp del]

definition resize :: "nat \<Rightarrow> u8 list \<Rightarrow> u8 list" where
  "resize n buf = take n buf @ replicate (n - length buf) 0"

definition read_a :: "'k kernel \<Rightarrow> fd \<Rightarrow> u64 \<Rightarrow> u64 \<Rightarrow> (unit, 'k wstate) io" where
  "read_a K f off len s =
     (case read_exact_at K f (resize (unat len) (ws_buf_a s)) 0 off (ws_kernel s) of
        (r, buf, k) \<Rightarrow> Some (from_io r, s\<lparr>ws_kernel := k, ws_buf_a := buf\<rparr>))"

definition read_b :: "'k kernel \<Rightarrow> fd \<Rightarrow> u64 \<Rightarrow> u64 \<Rightarrow> (unit, 'k wstate) io" where
  "read_b K f off len s =
     (case read_exact_at K f (resize (unat len) (ws_buf_b s)) 0 off (ws_kernel s) of
        (r, buf, k) \<Rightarrow> Some (from_io r, s\<lparr>ws_kernel := k, ws_buf_b := buf\<rparr>))"

definition verify_and_clone ::
    "'k kernel \<Rightarrow> opts \<Rightarrow> fd \<Rightarrow> u64 \<Rightarrow> fd \<Rightarrow> u64 \<Rightarrow> u64 \<Rightarrow> bool \<Rightarrow> (u64 option, 'k wstate) io" where
  "verify_and_clone K opts sf src_off df dst_off len compare =
     (if \<not> compare
      then io_bind (io_context ''FIDEDUPERANGE''
                      (io_ioctl (dedupe_range (kn_dedupe K) sf src_off df dst_off len))) (\<lambda>r.
           case r of
             Same b \<Rightarrow> io_ret (Some b)
           | Differs \<Rightarrow> io_ret None
           | Unsupported \<Rightarrow> io_lift (Inl (Fail [Message ''FIDEDUPERANGE unsupported''])))
      else
        io_bind (read_a K sf src_off len) (\<lambda>_.
        io_bind (read_b K df dst_off len) (\<lambda>_.
        io_bind (io_gets (\<lambda>s. ws_buf_a s \<noteq> ws_buf_b s)) (\<lambda>differ.
        if differ then io_ret None
        else
          io_bind (if \<not> op_dry_run opts
                   then io_context ''FICLONERANGE''
                          (io_ioctl (clone_range (kn_clone K) sf src_off df dst_off len))
                   else io_ret ()) (\<lambda>_.
          io_ret (Some len))))))"

section \<open>One pair of files\<close>

definition count_error :: "anyhow \<Rightarrow> (unit, 'k wstate) io" where
  "count_error e = (case classify e of
      Vanished \<Rightarrow> io_ret ()
    | Busy \<Rightarrow> bump (stats_default\<lparr>n_busy := 1\<rparr>)
    | Failed \<Rightarrow> bump (stats_default\<lparr>n_errors := 1\<rparr>))"

definition count_result :: "opts \<Rightarrow> anyhow + u64 option \<Rightarrow> (unit, 'k wstate) io" where
  "count_result opts r = (case r of
      Inr (Some n) \<Rightarrow>
        io_bind (bump (stats_default\<lparr>n_verified := 1\<rparr>)) (\<lambda>_.
        io_bind (if \<not> op_dry_run opts then bump (stats_default\<lparr>n_cloned := 1\<rparr>) else io_ret ()) (\<lambda>_.
        bump (stats_default\<lparr>n_bytes := n\<rparr>)))
    | Inr None \<Rightarrow> bump (stats_default\<lparr>n_mismatches := 1\<rparr>)
    | Inl e \<Rightarrow> count_error e)"

text \<open>The body of the loop over the runs.\<close>

definition do_run ::
    "'k kernel \<Rightarrow> opts \<Rightarrow> hashed paths \<Rightarrow> u64 \<Rightarrow> u32 \<Rightarrow> u32 \<Rightarrow> bool \<Rightarrow> fd \<Rightarrow> fd \<Rightarrow> run \<Rightarrow> (unit, 'k wstate) io" where
  "do_run K opts ps blksz src_file dst_file compare sf df r =
     io_bind (io_lift (run_len ps (unat src_file) (loc_chunk (run_src r)) (run_chunks r) blksz)) (\<lambda>len.
     if len = 0 then io_ret ()
     else
       io_bind (io_lift (run_len ps (unat dst_file) (loc_chunk (run_dst r)) (run_chunks r) blksz)) (\<lambda>len'.
       if len \<noteq> len' then io_ret ()
       else
         io_bind (bump (stats_default\<lparr>n_candidates := 1\<rparr>)) (\<lambda>_.
         io_bind (io_attempt (verify_and_clone K opts sf (loc_off (run_src r) blksz)
                                df (loc_off (run_dst r) blksz) len compare)) (\<lambda>r.
         count_result opts r))))"

definition pair_files ::
    "'k kernel \<Rightarrow> opts \<Rightarrow> hashed paths \<Rightarrow> u64 \<Rightarrow> u32 \<Rightarrow> u32 \<Rightarrow> run list \<Rightarrow> (unit, 'k wstate) io" where
  "pair_files K opts ps blksz src_file dst_file runs =
     (let compare = op_dry_run opts \<or> \<not> op_fideduperange opts
      in io_bind (io_attempt
           (io_bind (worker_open K opts ps (unat src_file) False) (\<lambda>sf.
            io_bind (worker_open K opts ps (unat dst_file) True) (\<lambda>df.
            io_ret (sf, df))))) (\<lambda>opened.
         case opened of
           Inl e \<Rightarrow> count_error e
         | Inr (sf, df) \<Rightarrow> io_for (do_run K opts ps blksz src_file dst_file compare sf df) runs))"

section \<open>All pairs\<close>

text \<open>A rayon task: a fresh worker, and the pairs of the task in turn.\<close>

definition run_task ::
    "'k kernel \<Rightarrow> opts \<Rightarrow> hashed paths \<Rightarrow> (pair_key \<rightharpoonup> run list) \<Rightarrow> pair_key list \<Rightarrow> (stats, 'k) io" where
  "run_task K opts ps pairs keys k = map_option
     (\<lambda>(r, w). (rbind r (\<lambda>_. Inr (ws_stats w)), ws_kernel w))
     (io_for (\<lambda>(blksz, s, d). case pairs (blksz, s, d) of
                None \<Rightarrow> io_ret ()
              | Some runs \<Rightarrow> pair_files K opts ps (ucast blksz) s d runs) keys (worker_new k))"

fun run_tasks ::
    "'k kernel \<Rightarrow> opts \<Rightarrow> hashed paths \<Rightarrow> (pair_key \<rightharpoonup> run list) \<Rightarrow> pair_key list list \<Rightarrow> (stats, 'k) io" where
  "run_tasks K opts ps pairs [] = io_ret stats_default"
| "run_tasks K opts ps pairs (t # ts) =
     io_bind (run_task K opts ps pairs t) (\<lambda>a.
     io_bind (run_tasks K opts ps pairs ts) (\<lambda>b. io_ret (stats_add a b)))"

definition dedup ::
    "'k kernel \<Rightarrow> ('db, 'tx) redb \<Rightarrow> (index_key groups \<Rightarrow> index_key list) \<Rightarrow>
     ((pair_key \<rightharpoonup> run list) \<Rightarrow> pair_key list list) \<Rightarrow>
     hashed paths \<Rightarrow> 'db \<Rightarrow> opts \<Rightarrow> (stats, 'k) io" where
  "dedup K R order split ps db opts =
     io_bind (io_lift (build_index R db (ps_files ps))) (\<lambda>idx.
     io_bind (io_lift (build_runs (order idx) idx (ps_files ps))) (\<lambda>pairs.
     run_tasks K opts ps pairs (split pairs)))"

end
