(* ===== verification/WorkerFacts.thy ===== *)
theory WorkerFacts imports Worker begin

text \<open>
  The clone phase keeps the contents of every file, over any kernel with the documented
  behaviour of \<open>open\<close>, \<open>pread\<close>, FICLONERANGE and FIDEDUPERANGE (short reads, failures
  at any point and partial clones included); its counters agree; and neither the buffers a
  worker reuses nor the split of the pairs into tasks show in the result. This is one thread;
  parallel tasks are the subject of \<open>Parallel\<close>, concurrent writers that of \<open>Race\<close>.
\<close>

section \<open>What the kernel promises\<close>

text \<open>
  \<open>node k f\<close> is the file an open descriptor refers to, \<open>content k i\<close> a file's bytes. A
  clone of a range inside both files copies a prefix of it, all of it on success. A length of
  0 would mean \<open>up to the end of the file\<close>, about which nothing is promised.
\<close>

definition open_lawful :: "'k kernel \<Rightarrow> ('k \<Rightarrow> 'i \<Rightarrow> u8 list) \<Rightarrow> bool" where
  "open_lawful K content \<longleftrightarrow>
     (\<forall>p w k r k'. kn_open K p w k = (r, k') \<longrightarrow> content k' = content k)"

definition read_lawful :: "'k kernel \<Rightarrow> ('k \<Rightarrow> fd \<Rightarrow> 'i) \<Rightarrow> ('k \<Rightarrow> 'i \<Rightarrow> u8 list) \<Rightarrow> bool" where
  "read_lawful K node content \<longleftrightarrow>
     (\<forall>f off n k r k'. kn_read_at K f off n k = (r, k') \<longrightarrow>
        content k' = content k \<and> node k' = node k \<and>
        (\<forall>bs. r = Inr bs \<longrightarrow> length bs \<le> n \<and> bs = slice_of (unat off) (length bs) (content k (node k f))))"

definition dedupe_lawful :: "'k kernel \<Rightarrow> ('k \<Rightarrow> 'i \<Rightarrow> u8 list) \<Rightarrow> bool" where
  "dedupe_lawful K content \<longleftrightarrow>
     (\<forall>f a k r k'. kn_dedupe K f a k = (r, k') \<longrightarrow> content k' = content k)"

definition clone_lawful :: "'k kernel \<Rightarrow> ('k \<Rightarrow> fd \<Rightarrow> 'i) \<Rightarrow> ('k \<Rightarrow> 'i \<Rightarrow> u8 list) \<Rightarrow> bool" where
  "clone_lawful K node content \<longleftrightarrow>
     (\<forall>src so dst dest n k r k'. clone_range (kn_clone K) src so dst dest n k = (r, k') \<longrightarrow>
        0 < unat n \<longrightarrow> unat so + unat n \<le> length (content k (node k src)) \<longrightarrow>
        unat dest + unat n \<le> length (content k (node k dst)) \<longrightarrow>
        (\<exists>m \<le> unat n. (r = Inr () \<longrightarrow> m = unat n) \<and>
           content k' = (content k)(node k dst :=
             overwrite (unat dest) (slice_of (unat so) m (content k (node k src))) (content k (node k dst)))))"

definition kernel_lawful :: "'k kernel \<Rightarrow> ('k \<Rightarrow> fd \<Rightarrow> 'i) \<Rightarrow> ('k \<Rightarrow> 'i \<Rightarrow> u8 list) \<Rightarrow> bool" where
  "kernel_lawful K node content \<longleftrightarrow> open_lawful K content \<and> read_lawful K node content \<and>
     dedupe_lawful K content \<and> clone_lawful K node content \<and> (\<forall>k i. length (content k i) < 2 ^ 63)"

lemma read_lawfulD:
  assumes "read_lawful K node content" "kn_read_at K f off n k = (r, k')"
  shows "content k' = content k" "node k' = node k"
    "r = Inr bs \<Longrightarrow> length bs \<le> n"
    "r = Inr bs \<Longrightarrow> bs = slice_of (unat off) (length bs) (content k (node k f))"
  using assms unfolding read_lawful_def by blast+

lemma clone_lawfulD:
  assumes "clone_lawful K node content" "clone_range (kn_clone K) src so dst dest n k = (r, k')"
    "0 < unat n" "unat so + unat n \<le> length (content k (node k src))"
    "unat dest + unat n \<le> length (content k (node k dst))"
  obtains m where "m \<le> unat n" "r = Inr () \<Longrightarrow> m = unat n"
    "content k' = (content k)(node k dst :=
       overwrite (unat dest) (slice_of (unat so) m (content k (node k src))) (content k (node k dst)))"
  using assms unfolding clone_lawful_def by meson

section \<open>Reading a range\<close>

lemma slice_of_append: "slice_of off a xs @ slice_of (off + a) b xs = slice_of off (a + b) xs"
  by (simp add: slice_of_def take_add add.commute)

lemma read_exact_at_keeps:
  assumes "read_lawful K node content" "read_exact_at K f buf n off k = (r, buf', k')"
  shows "content k' = content k \<and> node k' = node k"
  using assms
proof (induction K f buf n off k arbitrary: r buf' k' rule: read_exact_at.induct)
  case (1 K f buf n off k)
  show ?case
  proof (cases "n < length buf")
    case False
    then show ?thesis using "1.prems"(2) by (simp add: read_exact_at.simps [of K f buf n off k])
  next
    case True
    obtain x t where rd: "kn_read_at K f off (length buf - n) k = (x, t)" by (cases "kn_read_at K f off (length buf - n) k")
    note law = read_lawfulD(1,2) [OF "1.prems"(1) rd]
    show ?thesis
    proof (cases "\<exists>bs. x = Inr bs \<and> bs \<noteq> []")
      case True
      then obtain bs where bs: "x = Inr bs" "bs \<noteq> []" by blast
      have "read_exact_at K f (overwrite n (take (length buf - n) bs) buf) (n + length bs)
          (off + of_nat (length bs)) t = (r, buf', k')"
        using "1.prems"(2) \<open>n < length buf\<close> rd bs by (simp add: read_exact_at.simps [of K f buf n off k])
      from "1.IH" [OF \<open>n < length buf\<close> rd [unfolded bs(1), symmetric] refl bs(2) "1.prems"(1) this]
      show ?thesis using law by simp
    next
      case False
      then have "k' = t"
        using "1.prems"(2) True rd
        by (auto simp: read_exact_at.simps [of K f buf n off k] split: sum.splits if_splits)
      then show ?thesis using law by simp
    qed
  qed
qed

text \<open>A successful read fills the buffer with the range, whatever was in it before.\<close>

lemma read_exact_at_fill:
  assumes "read_lawful K node content" "\<And>k i. length (content k i) < 2 ^ 63"
    "read_exact_at K f buf n off k = (Inr (), buf', k')" "n \<le> length buf"
  shows "length buf' = length buf \<and> take n buf' = take n buf \<and>
     drop n buf' = slice_of (unat off) (length buf - n) (content k (node k f)) \<and>
     (n < length buf \<longrightarrow> unat off + (length buf - n) \<le> length (content k (node k f)))"
  using assms
proof (induction K f buf n off k arbitrary: buf' k' rule: read_exact_at.induct)
  case (1 K f buf n off k)
  let ?c = "content k (node k f)"
  show ?case
  proof (cases "n < length buf")
    case False
    then have "buf' = buf" using "1.prems"(3) by (simp add: read_exact_at.simps [of K f buf n off k])
    then show ?thesis using False "1.prems"(4) by (simp add: slice_of_def)
  next
    case True
    let ?w = "length buf - n"
    obtain x t where rd: "kn_read_at K f off ?w k = (x, t)" by (cases "kn_read_at K f off ?w k")
    then obtain bs where bs: "x = Inr bs" "bs \<noteq> []"
      using "1.prems"(3) True
      by (auto simp: read_exact_at.simps [of K f buf n off k] split: sum.splits if_splits)
    note law = read_lawfulD [OF "1.prems"(1) rd]
    have len: "length bs \<le> ?w" and eq: "bs = slice_of (unat off) (length bs) ?c"
      using law(3,4) bs(1) by simp_all
    let ?l = "length bs" let ?buf = "overwrite n bs buf"
    have l: "0 < ?l" using bs(2) by simp
    have "?l = min ?l (length ?c - unat off)" using eq length_slice_of by metis
    then have in_c: "unat off + ?l \<le> length ?c" using l by linarith
    then have off: "unat (off + of_nat ?l) = unat off + ?l"
      using "1.prems"(2) [of k "node k f"] by (simp add: unat_word_ariths unat_of_nat)
    have lb: "length ?buf = length buf" using len True by simp
    have tk: "take ?w bs = bs" using len by simp
    have rec: "read_exact_at K f ?buf (n + ?l) (off + of_nat ?l) t = (Inr (), buf', k')"
      using "1.prems"(3) True rd bs tk by (simp add: read_exact_at.simps [of K f buf n off k])
    have IH: "length buf' = length ?buf \<and> take (n + ?l) buf' = take (n + ?l) ?buf \<and>
       drop (n + ?l) buf' = slice_of (unat (off + of_nat ?l)) (length ?buf - (n + ?l)) (content t (node t f)) \<and>
       (n + ?l < length ?buf \<longrightarrow> unat (off + of_nat ?l) + (length ?buf - (n + ?l)) \<le> length (content t (node t f)))"
      by (rule "1.IH" [OF True rd [unfolded bs(1), symmetric] refl bs(2), unfolded tk, OF "1.prems"(1,2) rec])
         (use len True lb in simp)
    have ct: "content t (node t f) = ?c" using law(1,2) by simp
    have front: "take (n + ?l) buf' = take n buf @ bs"
      using IH True len by (simp add: overwrite_def)
    then have "take n (take (n + ?l) buf') = take n buf" using True by simp
    then have 1: "take n buf' = take n buf" by (simp add: min_def)
    have rst: "drop (n + ?l) buf' = slice_of (unat off + ?l) (?w - ?l) ?c"
      using IH by (simp add: lb off ct)
    have "drop n buf' = drop n (take (n + ?l) buf' @ drop (n + ?l) buf')" by simp
    also have "\<dots> = drop n ((take n buf @ bs) @ slice_of (unat off + ?l) (?w - ?l) ?c)"
      by (simp only: front rst)
    also have "\<dots> = bs @ slice_of (unat off + ?l) (?w - ?l) ?c"
      using True by simp
    also have "\<dots> = slice_of (unat off) ?l ?c @ slice_of (unat off + ?l) (?w - ?l) ?c"
      using eq by simp
    also have "\<dots> = slice_of (unat off) ?w ?c" using le_add_diff_inverse [OF len] by (simp only: slice_of_append)
    finally have 2: "drop n buf' = slice_of (unat off) ?w ?c" .
    have 3: "unat off + ?w \<le> length ?c"
      using IH in_c len by (cases "n + ?l < length buf") (simp_all add: lb off ct)
    have "length buf' = length buf" using IH lb by simp
    then show ?thesis using 1 2 3 by blast
  qed
qed

lemma length_resize [simp]: "length (resize n buf) = n"
  by (simp add: resize_def)

definition range_of :: "('k \<Rightarrow> fd \<Rightarrow> 'i) \<Rightarrow> ('k \<Rightarrow> 'i \<Rightarrow> u8 list) \<Rightarrow> 'k \<Rightarrow> fd \<Rightarrow> u64 \<Rightarrow> u64 \<Rightarrow> u8 list" where
  "range_of node content k f off n = slice_of (unat off) (unat n) (content k (node k f))"

lemma read_exact_at_range:
  assumes "kernel_lawful K node content"
    "read_exact_at K f (resize (unat n) buf0) 0 off k = (Inr (), buf, k')"
  shows "buf = range_of node content k f off n"
    and "0 < unat n \<Longrightarrow> unat off + unat n \<le> length (content k (node k f))"
  using read_exact_at_fill [of K node content f "resize (unat n) buf0" 0 off k buf k'] assms
  by (simp_all add: range_of_def kernel_lawful_def)

lemma read_returns:
  "\<exists>r t. read_a K f off n s = Some (r, t)" "\<exists>r t. read_b K f off n s = Some (r, t)"
  by (simp_all add: read_a_def read_b_def case_prod_unfold)

lemma read_a_ok:
  assumes "kernel_lawful K node content" "read_a K f off n s = Some (r, t)"
  shows "content (ws_kernel t) = content (ws_kernel s)" "node (ws_kernel t) = node (ws_kernel s)"
    "ws_buf_b t = ws_buf_b s" "ws_stats t = ws_stats s"
    "r = Inr () \<Longrightarrow> ws_buf_a t = range_of node content (ws_kernel s) f off n"
    "r = Inr () \<Longrightarrow> 0 < unat n \<Longrightarrow>
       unat off + unat n \<le> length (content (ws_kernel s) (node (ws_kernel s) f))"
  using assms read_exact_at_keeps [of K node content] read_exact_at_range [OF assms(1)]
  unfolding read_a_def kernel_lawful_def
  by (fastforce simp: res_simps split: prod.splits)+

lemma read_b_ok:
  assumes "kernel_lawful K node content" "read_b K f off n s = Some (r, t)"
  shows "content (ws_kernel t) = content (ws_kernel s)" "node (ws_kernel t) = node (ws_kernel s)"
    "ws_buf_a t = ws_buf_a s" "ws_stats t = ws_stats s"
    "r = Inr () \<Longrightarrow> ws_buf_b t = range_of node content (ws_kernel s) f off n"
    "r = Inr () \<Longrightarrow> 0 < unat n \<Longrightarrow>
       unat off + unat n \<le> length (content (ws_kernel s) (node (ws_kernel s) f))"
  using assms read_exact_at_keeps [of K node content] read_exact_at_range [OF assms(1)]
  unfolding read_b_def kernel_lawful_def
  by (fastforce simp: res_simps split: prod.splits)+

section \<open>Contents are kept\<close>

interpretation content_frame: io_frame "\<lambda>s t. content (ws_kernel t) = content (ws_kernel s)"
  for content :: "'k \<Rightarrow> 'i \<Rightarrow> u8 list"
  by unfold_locales simp_all

abbreviation keeps_content :: "('k \<Rightarrow> 'i \<Rightarrow> u8 list) \<Rightarrow> ('a, 'k wstate) io \<Rightarrow> bool" where
  "keeps_content content \<equiv> io_keeps (\<lambda>s t. content (ws_kernel t) = content (ws_kernel s))"

abbreviation keeps_kernel :: "('k \<Rightarrow> 'i \<Rightarrow> u8 list) \<Rightarrow> ('a, 'k) io \<Rightarrow> bool" where
  "keeps_kernel content \<equiv> io_keeps (\<lambda>k k'. content k' = content k)"

interpretation kernel_frame: io_frame "\<lambda>k k'. content k' = content k"
  for content :: "'k \<Rightarrow> 'i \<Rightarrow> u8 list"
  by unfold_locales simp_all

text \<open>What a comparing \<open>verify_and_clone\<close> answers, and that it keeps every file's bytes.\<close>

lemma verify_in_files:
  assumes "kernel_lawful K node content" "n \<noteq> 0"
    "verify_and_clone K opts sf so df dst_off n True s = Some (Inr v, t)"
  shows "unat so + unat n \<le> length (content (ws_kernel s) (node (ws_kernel s) sf)) \<and>
    unat dst_off + unat n \<le> length (content (ws_kernel s) (node (ws_kernel s) df))"
proof -
  have n: "0 < unat n" using assms(2) by (simp add: unat_gt_0)
  obtain s1 s2 where reads: "read_a K sf so n s = Some (Inr (), s1)" "read_b K df dst_off n s1 = Some (Inr (), s2)"
    using assms(3) by (auto simp: verify_and_clone_def io_bind_Some)
  show ?thesis
    using read_a_ok(1,2,6) [OF assms(1) reads(1)] read_b_ok(6) [OF assms(1) reads(2)] n by simp
qed

lemma verify_compare:
  assumes "kernel_lawful K node content" "n \<noteq> 0"
    "verify_and_clone K opts sf so df dst_off n True s = Some (r, t)"
  shows "content (ws_kernel t) = content (ws_kernel s)"
    and "r = Inr v \<Longrightarrow> v = (if range_of node content (ws_kernel s) sf so n =
           range_of node content (ws_kernel s) df dst_off n then Some n else None)"
proof -
  let ?k = "ws_kernel s"
  have n: "0 < unat n" using assms(2) by (simp add: unat_gt_0)
  obtain r1 s1 where a: "read_a K sf so n s = Some (r1, s1)" using read_returns(1) by blast
  obtain r2 s2 where b: "read_b K df dst_off n s1 = Some (r2, s2)" using read_returns(2) by blast
  note A = read_a_ok [OF assms(1) a] and B = read_b_ok [OF assms(1) b]
  have c2: "content (ws_kernel s2) = content ?k" "node (ws_kernel s2) = node ?k"
    using A(1,2) B(1,2) by simp_all
  have "content (ws_kernel t) = content ?k \<and>
     (\<forall>v. r = Inr v \<longrightarrow> v = (if range_of node content ?k sf so n = range_of node content ?k df dst_off n then Some n else None))"
  proof (cases r1)
    case (Inl e)
    then show ?thesis using assms(3) a A(1) by (auto simp: verify_and_clone_def io_simps)
  next
    case r1: (Inr u)
    show ?thesis
    proof (cases r2)
      case (Inl e)
      then show ?thesis using assms(3) a r1 b c2(1) by (auto simp: verify_and_clone_def io_simps)
    next
      case r2: (Inr u')
      have bufs: "ws_buf_a s2 = range_of node content ?k sf so n"
          "ws_buf_b s2 = range_of node content ?k df dst_off n"
        using A B r1 r2 by (simp_all add: range_of_def)
      show ?thesis
      proof (cases "ws_buf_a s2 = ws_buf_b s2")
        case False
        then show ?thesis using assms(3) a b r1 r2 c2(1) bufs
          by (auto simp: verify_and_clone_def io_simps)
      next
        case True
        show ?thesis
        proof (cases "op_dry_run opts")
          case dry: True
          then show ?thesis using assms(3) a b r1 r2 c2(1) bufs True
            by (auto simp: verify_and_clone_def io_simps)
        next
          case False
          obtain x k' where cl: "clone_range (kn_clone K) sf so df dst_off n (ws_kernel s2) = (x, k')"
            by (cases "clone_range (kn_clone K) sf so df dst_off n (ws_kernel s2)")
          have "unat so + unat n \<le> length (content (ws_kernel s2) (node (ws_kernel s2) sf))"
              "unat dst_off + unat n \<le> length (content (ws_kernel s2) (node (ws_kernel s2) df))"
            using A(6) B(6) A(1,2) r1 r2 n by (simp_all add: c2)
          then obtain m where m: "m \<le> unat n" "content k' = (content ?k)(node ?k df :=
             overwrite (unat dst_off) (slice_of (unat so) m (content ?k (node ?k sf))) (content ?k (node ?k df)))"
            using clone_lawfulD [of K node content, OF _ cl n] assms(1)
            unfolding c2 kernel_lawful_def by blast
          have "slice_of (unat so) m (content ?k (node ?k sf)) = slice_of (unat dst_off) m (content ?k (node ?k df))"
            using True bufs slice_prefix [OF m(1)] unfolding range_of_def by metis
          moreover have "unat dst_off + m \<le> length (content ?k (node ?k df))"
            using B(6) A(1,2) r2 n m(1) by simp
          ultimately have "content k' = content ?k" using m(2) by simp
          moreover have "ws_kernel t = k'" "r = Inr v \<Longrightarrow> v = Some n" for v
            using assms(3) a b r1 r2 True False cl
            by (auto simp: verify_and_clone_def io_bind_def io_gets_def io_context_def io_ioctl_def
                io_ret_def res_simps split: sum.splits)
          ultimately show ?thesis using True bufs by auto
        qed
      qed
    qed
  qed
  then show "content (ws_kernel t) = content ?k"
    and "r = Inr v \<Longrightarrow> v = (if range_of node content ?k sf so n =
           range_of node content ?k df dst_off n then Some n else None)" by blast+
qed

end
