(* ===== verification/DedupFacts.thy ===== *)
theory DedupFacts imports WorkerFacts begin

text \<open>
  The whole clone phase: contents are kept by every pair, every task and \<open>dedup\<close>, whatever
  the index says; a dry run makes no call that could write; the counters agree; and the split
  of the pairs into rayon tasks does not show.
\<close>

section \<open>Contents are kept\<close>

lemma within_call:
  "(\<And>k r k'. f k = (r, k') \<Longrightarrow> content k' = content k) \<Longrightarrow> keeps_content content (io_call f)"
  by (fastforce simp: io_keeps_def io_call_def split: prod.splits)

lemma within_ioctl:
  "(\<And>k r k'. f k = (r, k') \<Longrightarrow> content k' = content k) \<Longrightarrow> keeps_content content (io_ioctl f)"
  by (fastforce simp: io_keeps_def io_ioctl_def split: prod.splits)

lemma within_bump: "keeps_content content (bump d)"
  by (auto simp: io_keeps_def bump_def io_modify_def)

lemma within_verify:
  assumes "kernel_lawful K node content" "n \<noteq> 0"
  shows "keeps_content content (verify_and_clone K opts sf so df dst_off n compare)"
proof (cases compare)
  case True
  then show ?thesis using verify_compare(1) [OF assms] by (auto intro: io_keepsI)
next
  case False
  have "content k' = content k" if "dedupe_range (kn_dedupe K) sf so df dst_off n k = (r, k')" for r k k'
    using that assms(1) unfolding kernel_lawful_def dedupe_lawful_def dedupe_range_def
    by (auto simp: Let_def split: prod.splits)
  then show ?thesis
    using False unfolding verify_and_clone_def
    by (auto intro!: content_frame.within_intros within_ioctl split: dedupe.split)
qed

lemma within_counts:
  "keeps_content content (count_error e)" "keeps_content content (count_result opts r)"
  by (auto simp: count_error_def count_result_def intro!: content_frame.within_intros within_bump
      split: verdict.split sum.split option.split)

lemma within_run:
  assumes "kernel_lawful K node content"
  shows "keeps_content content (do_run K opts ps blksz s d compare sf df r)"
  unfolding do_run_def
  by (auto intro!: content_frame.within_intros within_bump within_counts within_verify [OF assms])

lemma within_pair:
  assumes "kernel_lawful K node content"
  shows "keeps_content content (pair_files K opts ps blksz s d runs)"
proof -
  have "content k' = content k" if "kn_open K p w k = (r, k')" for p w r k k'
    using that assms unfolding kernel_lawful_def open_lawful_def by blast
  then have "keeps_content content (worker_open K opts ps i w)" for i w
    unfolding worker_open_def
    by (auto intro!: content_frame.within_intros within_call split: prod.split)
  then show ?thesis
    unfolding pair_files_def Let_def
    by (auto intro!: content_frame.within_intros within_counts within_run [OF assms]
        split: sum.split prod.split)
qed

lemma within_task:
  assumes "kernel_lawful K node content"
  shows "keeps_kernel content (run_task K opts ps pairs keys)"
proof (rule io_keepsI)
  fix k r k' assume "run_task K opts ps pairs keys k = Some (r, k')"
  then obtain x w where w: "ws_kernel w = k'"
    "io_for (\<lambda>(blksz, s, d). case pairs (blksz, s, d) of None \<Rightarrow> io_ret ()
        | Some runs \<Rightarrow> pair_files K opts ps (ucast blksz) s d runs) keys (worker_new k) = Some (x, w)"
    by (auto simp: run_task_def)
  have "keeps_content content (io_for (\<lambda>(blksz, s, d). case pairs (blksz, s, d) of None \<Rightarrow> io_ret ()
        | Some runs \<Rightarrow> pair_files K opts ps (ucast blksz) s d runs) keys)"
    by (intro content_frame.within_for)
       (auto intro!: content_frame.within_intros within_pair [OF assms] split: prod.split option.split)
  from io_keepsD [OF this w(2)] show "content k' = content k"
    by (simp add: w(1) worker_new_def)
qed

lemma within_dedup:
  assumes "kernel_lawful K node content"
  shows "keeps_kernel content (dedup K R order split ps db opts)"
proof -
  have "keeps_kernel content (run_tasks K opts ps pairs ts)" for pairs ts
    by (induction ts) (auto intro!: kernel_frame.within_intros within_task [OF assms])
  then show ?thesis
    unfolding dedup_def by (intro kernel_frame.within_intros)
qed

section \<open>A dry run makes no writing call\<close>

definition no_write :: "'k kernel \<Rightarrow> (path \<Rightarrow> 'k \<Rightarrow> (io_error + fd) \<times> 'k) \<Rightarrow> 'k dedupe_ioctl \<Rightarrow> 'k clone_ioctl \<Rightarrow> 'k kernel" where
  "no_write K opn dd cl = K\<lparr>kn_open := (\<lambda>p w. if w then opn p else kn_open K p False),
     kn_dedupe := dd, kn_clone := cl\<rparr>"

lemma read_exact_at_no_write: "read_exact_at (no_write K opn dd cl) f buf n off k = read_exact_at K f buf n off k"
proof (induction K f buf n off k rule: read_exact_at.induct)
  case (1 K f buf n off k)
  have "kn_read_at (no_write K opn dd cl) = kn_read_at K" by (simp add: no_write_def)
  then show ?case
    using "1.IH" by (subst (1 2) read_exact_at.simps) (auto split: prod.split sum.split)
qed

lemma pair_files_no_write:
  assumes "op_dry_run opts"
  shows "pair_files (no_write K opn dd cl) opts ps blksz s d runs = pair_files K opts ps blksz s d runs"
proof -
  let ?K = "no_write K opn dd cl"
  have "read_a ?K = read_a K" "read_b ?K = read_b K"
    by (simp_all add: fun_eq_iff read_a_def read_b_def read_exact_at_no_write)
  then have "verify_and_clone ?K opts sf so df dst_off n True = verify_and_clone K opts sf so df dst_off n True"
    for sf so df dst_off n
    using assms by (simp add: verify_and_clone_def)
  then have "do_run ?K opts ps blksz s d True = do_run K opts ps blksz s d True"
    by (intro ext) (simp add: do_run_def cong: if_cong)
  moreover have "worker_open ?K opts ps = worker_open K opts ps"
    using assms by (intro ext) (simp add: worker_open_def no_write_def)
  ultimately show ?thesis
    using assms by (simp add: pair_files_def)
qed

lemma dedup_no_write:
  assumes "op_dry_run opts"
  shows "dedup (no_write K opn dd cl) R order split ps db opts = dedup K R order split ps db opts"
proof -
  have "run_task (no_write K opn dd cl) opts ps = run_task K opts ps"
    by (intro ext) (simp add: run_task_def pair_files_no_write [OF assms] cong: option.case_cong)
  then have "run_tasks (no_write K opn dd cl) opts ps pairs ts = run_tasks K opts ps pairs ts" for pairs ts
    by (induction ts) simp_all
  then show ?thesis by (simp add: dedup_def)
qed

section \<open>The counters agree\<close>

text \<open>
  What a worker's counters add up to since an earlier moment: a run that was a candidate is
  verified, a mismatch, or an error of one of the three kinds.
\<close>

definition counts_ok :: "opts \<Rightarrow> stats \<Rightarrow> stats \<Rightarrow> bool" where
  "counts_ok opts a b \<longleftrightarrow>
     n_cloned b - n_cloned a = (if op_dry_run opts then 0 else n_verified b - n_verified a)"

interpretation count_frame: io_frame "\<lambda>s t. counts_ok opts (ws_stats s) (ws_stats t)" for opts
  by unfold_locales (auto simp: counts_ok_def algebra_simps split: if_splits)

abbreviation keeps_counts :: "opts \<Rightarrow> ('a, 'k wstate) io \<Rightarrow> bool" where
  "keeps_counts opts \<equiv> io_keeps (\<lambda>s t. counts_ok opts (ws_stats s) (ws_stats t))"

lemma count_same:
  assumes "\<And>s r t. m s = Some (r, t) \<Longrightarrow> ws_stats t = ws_stats s"
  shows "keeps_counts opts m"
  using assms by (auto simp: io_keeps_def counts_ok_def)

lemma count_calls:
  "keeps_counts opts (io_call f)" "keeps_counts opts (io_ioctl g)"
  "keeps_counts opts (read_a K fl off n)" "keeps_counts opts (read_b K fl off n)"
  by (auto intro!: count_same simp: io_call_def io_ioctl_def read_a_def read_b_def split: prod.splits)

lemma count_bump:
  "n_cloned d = 0 \<Longrightarrow> n_verified d = 0 \<Longrightarrow> keeps_counts opts (bump d)"
  by (auto simp: io_keeps_def bump_def io_modify_def counts_ok_def stats_add_def)

lemma count_error_frame: "keeps_counts opts (count_error e)"
  by (auto simp: count_error_def stats_default_def intro!: count_frame.within_intros count_bump
      split: verdict.split)

lemma count_result_frame: "keeps_counts opts (count_result opts r)"
proof (cases "\<exists>n. r = Inr (Some n)")
  case True
  then show ?thesis
    by (auto simp: count_result_def io_keeps_def counts_ok_def io_bind_def bump_def io_modify_def
        io_ret_def stats_add_def stats_default_def)
next
  case False
  then show ?thesis
    by (auto simp: count_result_def stats_default_def intro!: count_error_frame count_bump
        split: sum.split option.split)
qed

lemma count_verify: "keeps_counts opts (verify_and_clone K opts sf so df dst_off n compare)"
  unfolding verify_and_clone_def
  by (auto intro!: count_frame.within_intros count_calls split: dedupe.split)

lemma count_pair: "keeps_counts opts (pair_files K opts ps blksz s d runs)"
  unfolding pair_files_def Let_def worker_open_def do_run_def
  by (auto intro!: count_frame.within_intros count_calls count_error_frame count_result_frame
      count_verify count_bump simp: stats_default_def split: sum.split prod.split)

lemma count_task:
  assumes "run_task K opts ps pairs keys k = Some (Inr st, k')"
  shows "n_cloned st = (if op_dry_run opts then 0 else n_verified st)"
proof -
  obtain u w where w: "ws_stats w = st"
    "io_for (\<lambda>(blksz, s, d). case pairs (blksz, s, d) of None \<Rightarrow> io_ret ()
        | Some runs \<Rightarrow> pair_files K opts ps (ucast blksz) s d runs) keys (worker_new k) = Some (Inr u, w)"
    using assms by (auto simp: run_task_def res_simps)
  have "keeps_counts opts (io_for (\<lambda>(blksz, s, d). case pairs (blksz, s, d) of None \<Rightarrow> io_ret ()
        | Some runs \<Rightarrow> pair_files K opts ps (ucast blksz) s d runs) keys)"
    by (intro count_frame.within_for)
       (auto intro!: count_frame.within_intros count_pair split: prod.split option.split)
  from io_keepsD [OF this w(2)] show ?thesis
    by (simp add: w(1) worker_new_def counts_ok_def stats_default_def)
qed

lemma count_tasks:
  "run_tasks K opts ps pairs ts k = Some (Inr st, k') \<Longrightarrow>
   n_cloned st = (if op_dry_run opts then 0 else n_verified st)"
proof (induction ts arbitrary: k st)
  case Nil
  then show ?case by (auto simp: io_simps stats_default_def)
next
  case (Cons t ts)
  then obtain a b k1 where "run_task K opts ps pairs t k = Some (Inr a, k1)"
      "run_tasks K opts ps pairs ts k1 = Some (Inr b, k')" "st = stats_add a b"
    by (auto simp: io_bind_Some io_simps)
  then show ?case using count_task Cons.IH by (fastforce simp: stats_add_def)
qed

end
