(* ===== verification/Partition.thy ===== *)
theory Partition imports DedupFacts begin

text \<open>
  The counters and the effects of the clone phase do not depend on how rayon splits the pairs
  into tasks: a computation of the worker adds to the counters an amount that depends on the
  kernel only, not on the counters so far or on what the reused buffers hold.
\<close>

definition outcome :: "('a res \<times> 'k wstate) option \<Rightarrow> ('a res \<times> 'k \<times> stats) option" where
  "outcome o' = map_option (\<lambda>(r, t). (r, ws_kernel t, ws_stats t)) o'"

definition add_to :: "stats \<Rightarrow> ('a res \<times> 'k \<times> stats) option \<Rightarrow> ('a res \<times> 'k \<times> stats) option" where
  "add_to a o' = map_option (\<lambda>(r, k, d). (r, k, stats_add a d)) o'"

definition uniform :: "('a, 'k wstate) io \<Rightarrow> bool" where
  "uniform m \<longleftrightarrow> (\<forall>s. outcome (m s) = add_to (ws_stats s) (outcome (m (worker_new (ws_kernel s)))))"

lemma outcome_simps [simp]:
  "outcome None = None" "outcome (Some (r, t)) = Some (r, ws_kernel t, ws_stats t)"
  "add_to a None = None" "add_to a (Some (r, k, d)) = Some (r, k, stats_add a d)"
  by (simp_all add: outcome_def add_to_def)

lemma add_to_add [simp]: "add_to a (add_to b x) = add_to (stats_add a b) x"
  by (cases x) (auto simp: add_to_def total.assoc)

lemma add_to_default [simp]: "add_to stats_default x = x"
  by (cases x) (auto simp: add_to_def)

lemma worker_new_simps [simp]:
  "ws_kernel (worker_new k) = k" "ws_stats (worker_new k) = stats_default"
  by (simp_all add: worker_new_def)

lemma uniformD: "uniform m \<Longrightarrow> outcome (m s) = add_to (ws_stats s) (outcome (m (worker_new (ws_kernel s))))"
  unfolding uniform_def by (rule spec)

text \<open>A computation that leaves the counters alone and whose effect depends on the kernel only.\<close>

lemma uniform_quiet:
  fixes m :: "('a, 'k wstate) io"
  assumes "\<And>s. map_option (\<lambda>(r, t). (r, ws_kernel t)) (m s) =
      map_option (\<lambda>(r, t). (r, ws_kernel t)) (m (worker_new (ws_kernel s)))"
    "\<And>s r t. m s = Some (r, t) \<Longrightarrow> ws_stats t = ws_stats s"
  shows "uniform m"
  unfolding uniform_def
proof
  fix s :: "'k wstate"
  let ?w = "worker_new (ws_kernel s)"
  show "outcome (m s) = add_to (ws_stats s) (outcome (m ?w))"
  proof (cases "m ?w")
    case None
    then show ?thesis using assms(1) [of s] by simp
  next
    case (Some rt)
    obtain r t where rt: "m ?w = Some (r, t)" using Some by (cases rt) simp
    obtain t' where t': "m s = Some (r, t')" "ws_kernel t' = ws_kernel t"
      using assms(1) [of s] by (auto simp: rt)
    have "ws_stats t = stats_default" using assms(2) [OF rt] by simp
    moreover have "ws_stats t' = ws_stats s" by (rule assms(2) [OF t'(1)])
    ultimately show ?thesis using rt t' by simp
  qed
qed

lemma uniform_pure: "uniform (io_lift r)" "uniform (io_ret x)" "uniform (io_opt y)"
  by (cases y; simp add: uniform_def io_simps io_opt_def)+

lemma uniform_calls: "uniform (io_call f)" "uniform (io_ioctl g)"
  by (auto intro!: uniform_quiet simp: io_call_def io_ioctl_def split: prod.splits)

lemma uniform_bump: "uniform (bump d)"
  by (simp add: uniform_def bump_def io_modify_def)

lemma uniform_bind:
  fixes m :: "('a, 'k wstate) io"
  assumes "uniform m" "\<And>x. uniform (f x)"
  shows "uniform (io_bind m f)"
  unfolding uniform_def
proof
  fix s :: "'k wstate"
  let ?w = "worker_new (ws_kernel s)"
  have eq: "outcome (m s) = add_to (ws_stats s) (outcome (m ?w))" by (rule uniformD [OF assms(1)])
  show "outcome (io_bind m f s) = add_to (ws_stats s) (outcome (io_bind m f ?w))"
  proof (cases "m ?w")
    case None
    then have "m s = None" using eq by (cases "m s") auto
    then show ?thesis using None by (simp add: io_simps)
  next
    case (Some rt)
    obtain r t where rt: "rt = (r, t)" by (cases rt)
    then obtain t' where t': "m s = Some (r, t')" "ws_kernel t' = ws_kernel t"
        "ws_stats t' = stats_add (ws_stats s) (ws_stats t)"
      using eq Some by (cases "m s") auto
    show ?thesis
    proof (cases r)
      case (Inl e)
      then show ?thesis using Some rt t' by (simp add: io_simps)
    next
      case (Inr x)
      have "outcome (f x t') = add_to (ws_stats s) (outcome (f x t))"
        using uniformD [OF assms(2), of x t'] uniformD [OF assms(2), of x t] by (simp add: t'(2,3))
      then show ?thesis using Some rt t' Inr by (simp add: io_simps)
    qed
  qed
qed

lemma uniform_attempt:
  fixes m :: "('a, 'k wstate) io"
  assumes "uniform m"
  shows "uniform (io_attempt m)"
  unfolding uniform_def
proof
  fix s :: "'k wstate"
  have "outcome (m s) = add_to (ws_stats s) (outcome (m (worker_new (ws_kernel s))))"
    by (rule uniformD [OF assms])
  then show "outcome (io_attempt m s) = add_to (ws_stats s) (outcome (io_attempt m (worker_new (ws_kernel s))))"
    by (cases "m s"; cases "m (worker_new (ws_kernel s))")
       (auto simp: io_attempt_def split: sum.splits fault.splits)
qed

lemma uniform_context:
  fixes m :: "('a, 'k wstate) io"
  assumes "uniform m"
  shows "uniform (io_context msg m)"
  unfolding uniform_def
proof
  fix s :: "'k wstate"
  have "outcome (m s) = add_to (ws_stats s) (outcome (m (worker_new (ws_kernel s))))"
    by (rule uniformD [OF assms])
  then show "outcome (io_context msg m s) = add_to (ws_stats s) (outcome (io_context msg m (worker_new (ws_kernel s))))"
    by (cases "m s"; cases "m (worker_new (ws_kernel s))") (auto simp: io_context_def)
qed

lemma uniform_for: "(\<And>x. uniform (f x)) \<Longrightarrow> uniform (io_for f xs)"
  by (induction xs) (auto intro: uniform_bind uniform_pure)

lemmas uniform_intros = uniform_pure uniform_calls uniform_bump uniform_bind uniform_attempt
  uniform_context uniform_for

section \<open>The buffers do not show\<close>

lemma read_exact_at_buffers:
  assumes "length buf = length buf2" "take n buf = take n buf2"
    "read_exact_at K f buf n off k = (r, b, k')" "read_exact_at K f buf2 n off k = (r2, b2, k2)"
  shows "r = r2 \<and> k' = k2 \<and> (r = Inr () \<longrightarrow> b = b2)"
  using assms
proof (induction K f buf n off k arbitrary: buf2 r b k' r2 b2 k2 rule: read_exact_at.induct)
  case (1 K f buf n off k)
  show ?case
  proof (cases "n < length buf")
    case False
    then have "buf = buf2" using "1.prems"(1,2) by simp
    then show ?thesis using "1.prems"(3,4) by simp
  next
    case True
    let ?w = "length buf - n"
    obtain x t where rd: "kn_read_at K f off ?w k = (x, t)" by (cases "kn_read_at K f off ?w k")
    show ?thesis
    proof (cases "\<exists>bs. x = Inr bs \<and> bs \<noteq> []")
      case False
      then show ?thesis
        using "1.prems"(1,3,4) True rd
        by (auto simp: read_exact_at.simps [of K f buf n off k] read_exact_at.simps [of K f buf2 n off k]
            split: sum.splits if_splits)
    next
      case True
      then obtain bs where bs: "x = Inr bs" "bs \<noteq> []" by blast
      let ?o = "\<lambda>buf. overwrite n (take ?w bs) buf"
      have recs: "read_exact_at K f (?o buf) (n + length bs) (off + of_nat (length bs)) t = (r, b, k')"
          "read_exact_at K f (?o buf2) (n + length bs) (off + of_nat (length bs)) t = (r2, b2, k2)"
        using "1.prems"(1,3,4) \<open>n < length buf\<close> rd bs
        by (simp_all add: read_exact_at.simps [of K f buf n off k] read_exact_at.simps [of K f buf2 n off k])
      have len: "length (?o buf) = length (?o buf2)"
        using "1.prems"(1) \<open>n < length buf\<close> by simp
      have front: "take (n + length bs) (?o b) = take n b @ take ?w bs" if "length b = length buf" for b
        using that \<open>n < length buf\<close> by (cases "length bs \<le> ?w") (simp_all add: overwrite_def)
      have "take (n + length bs) (?o buf) = take (n + length bs) (?o buf2)"
        by (simp only: front [OF refl] front [OF "1.prems"(1) [symmetric]] "1.prems"(2))
      from "1.IH" [OF \<open>n < length buf\<close> rd [unfolded bs(1), symmetric] refl bs(2) len this recs]
      show ?thesis .
    qed
  qed
qed

lemma read_a_quiet:
  assumes "ws_kernel s = ws_kernel s'"
  obtains r t t' where "read_a K f off n s = Some (r, t)" "read_a K f off n s' = Some (r, t')"
    "ws_kernel t = ws_kernel t'" "ws_stats t = ws_stats s" "r = Inr () \<longrightarrow> ws_buf_a t = ws_buf_a t'"
proof -
  obtain x b k x' b' k' where runs:
    "read_exact_at K f (resize (unat n) (ws_buf_a s)) 0 off (ws_kernel s) = (x, b, k)"
    "read_exact_at K f (resize (unat n) (ws_buf_a s')) 0 off (ws_kernel s) = (x', b', k')"
    by (metis prod_cases3)
  have "x = x' \<and> k = k' \<and> (x = Inr () \<longrightarrow> b = b')"
    by (rule read_exact_at_buffers [OF _ _ runs]) simp_all
  then show ?thesis using runs assms
    by (intro that [of "from_io x" "s\<lparr>ws_kernel := k, ws_buf_a := b\<rparr>" "s'\<lparr>ws_kernel := k', ws_buf_a := b'\<rparr>"])
       (auto simp: read_a_def res_simps)
qed

lemma read_b_quiet:
  assumes "ws_kernel s = ws_kernel s'"
  obtains r t t' where "read_b K f off n s = Some (r, t)" "read_b K f off n s' = Some (r, t')"
    "ws_kernel t = ws_kernel t'" "ws_stats t = ws_stats s" "ws_buf_a t = ws_buf_a s" "ws_buf_a t' = ws_buf_a s'"
    "r = Inr () \<longrightarrow> ws_buf_b t = ws_buf_b t'"
proof -
  obtain x b k x' b' k' where runs:
    "read_exact_at K f (resize (unat n) (ws_buf_b s)) 0 off (ws_kernel s) = (x, b, k)"
    "read_exact_at K f (resize (unat n) (ws_buf_b s')) 0 off (ws_kernel s) = (x', b', k')"
    by (metis prod_cases3)
  have "x = x' \<and> k = k' \<and> (x = Inr () \<longrightarrow> b = b')"
    by (rule read_exact_at_buffers [OF _ _ runs]) simp_all
  then show ?thesis using runs assms
    by (intro that [of "from_io x" "s\<lparr>ws_kernel := k, ws_buf_b := b\<rparr>" "s'\<lparr>ws_kernel := k', ws_buf_b := b'\<rparr>"])
       (auto simp: read_b_def res_simps)
qed

lemma verify_quiet:
  assumes "ws_kernel s = ws_kernel s'"
  shows "map_option (\<lambda>(r, t). (r, ws_kernel t)) (verify_and_clone K opts sf so df dst_off n True s) =
         map_option (\<lambda>(r, t). (r, ws_kernel t)) (verify_and_clone K opts sf so df dst_off n True s') \<and>
         (\<forall>r t. verify_and_clone K opts sf so df dst_off n True s = Some (r, t) \<longrightarrow> ws_stats t = ws_stats s)"
proof -
  obtain r t t' where a: "read_a K sf so n s = Some (r, t)" "read_a K sf so n s' = Some (r, t')"
    "ws_kernel t = ws_kernel t'" "ws_stats t = ws_stats s" "r = Inr () \<longrightarrow> ws_buf_a t = ws_buf_a t'"
    by (rule read_a_quiet [OF assms, where K = K and f = sf and off = so and n = n])
  obtain r2 u u' where b: "read_b K df dst_off n t = Some (r2, u)" "read_b K df dst_off n t' = Some (r2, u')"
    "ws_kernel u = ws_kernel u'" "ws_stats u = ws_stats t" "ws_buf_a u = ws_buf_a t" "ws_buf_a u' = ws_buf_a t'"
    "r2 = Inr () \<longrightarrow> ws_buf_b u = ws_buf_b u'"
    by (rule read_b_quiet [OF a(3), where K = K and f = df and off = dst_off and n = n])
  show ?thesis
    using a b
    by (cases r; cases r2)
       (auto simp: verify_and_clone_def io_bind_def io_gets_def io_ret_def io_context_def io_ioctl_def
          split: sum.splits prod.splits)
qed

lemma uniform_verify: "uniform (verify_and_clone K opts sf so df dst_off n compare)"
proof (cases compare)
  case True
  show ?thesis
  proof (rule uniform_quiet)
    fix s :: "'a wstate"
    note q = verify_quiet [of s "worker_new (ws_kernel s)" K opts sf so df dst_off n]
    show "map_option (\<lambda>(r, t). (r, ws_kernel t)) (verify_and_clone K opts sf so df dst_off n compare s) =
      map_option (\<lambda>(r, t). (r, ws_kernel t)) (verify_and_clone K opts sf so df dst_off n compare (worker_new (ws_kernel s)))"
      using q True by simp
    show "ws_stats t = ws_stats s" if "verify_and_clone K opts sf so df dst_off n compare s = Some (r, t)" for r t
      using q True that by simp
  qed
next
  case False
  then show ?thesis
    unfolding verify_and_clone_def by (auto intro!: uniform_intros split: dedupe.split)
qed

lemma uniform_pair: "uniform (pair_files K opts ps blksz s d runs)"
proof -
  have err: "uniform (count_error e)" for e
    by (auto simp: count_error_def intro!: uniform_intros split: verdict.split)
  have "uniform (count_result opts r)" for r
    by (auto simp: count_result_def intro!: uniform_intros err split: sum.split option.split)
  then have "uniform (do_run K opts ps blksz s d compare sf df r)" for compare sf df r
    unfolding do_run_def by (auto intro!: uniform_intros uniform_verify)
  moreover have "uniform (worker_open K opts ps i w)" for i w
    unfolding worker_open_def by (auto intro!: uniform_intros split: prod.split)
  ultimately show ?thesis
    unfolding pair_files_def Let_def by (auto intro!: uniform_intros err split: sum.split prod.split)
qed

section \<open>Splitting tasks\<close>

definition task_loop :: "'k kernel \<Rightarrow> opts \<Rightarrow> hashed paths \<Rightarrow> (pair_key \<rightharpoonup> run list) \<Rightarrow> pair_key list \<Rightarrow> (unit, 'k wstate) io" where
  "task_loop K opts ps pairs = io_for (\<lambda>(blksz, s, d). case pairs (blksz, s, d) of
      None \<Rightarrow> io_ret () | Some runs \<Rightarrow> pair_files K opts ps (ucast blksz) s d runs)"

lemma uniform_task: "uniform (task_loop K opts ps pairs keys)"
  unfolding task_loop_def
  by (intro uniform_for) (auto intro!: uniform_intros uniform_pair split: prod.split option.split)

lemma run_task_outcome:
  "run_task K opts ps pairs keys k =
     map_option (\<lambda>(r, k, d). (rbind r (\<lambda>_. Inr d), k)) (outcome (task_loop K opts ps pairs keys (worker_new k)))"
  by (simp add: run_task_def task_loop_def outcome_def option.map_comp comp_def case_prod_unfold)

lemma run_task_append:
  "run_task K opts ps pairs (xs @ ys) =
     io_bind (run_task K opts ps pairs xs) (\<lambda>a. io_bind (run_task K opts ps pairs ys) (\<lambda>b. io_ret (stats_add a b)))"
proof
  fix k
  let ?L = "task_loop K opts ps pairs"
  have app: "?L (xs @ ys) (worker_new k) = io_bind (?L xs) (\<lambda>_. ?L ys) (worker_new k)"
    by (simp add: task_loop_def io_for_append)
  show "run_task K opts ps pairs (xs @ ys) k = io_bind (run_task K opts ps pairs xs)
      (\<lambda>a. io_bind (run_task K opts ps pairs ys) (\<lambda>b. io_ret (stats_add a b))) k"
  proof (cases "?L xs (worker_new k)")
    case None
    then show ?thesis by (simp add: run_task_outcome app io_bind_def)
  next
    case (Some rt)
    obtain r t where rt: "rt = (r, t)" by (cases rt)
    show ?thesis
    proof (cases r)
      case (Inl e)
      then show ?thesis using Some rt by (simp add: run_task_outcome app io_bind_def)
    next
      case (Inr x)
      have "outcome (?L ys t) = add_to (ws_stats t) (outcome (?L ys (worker_new (ws_kernel t))))"
        by (rule uniformD [OF uniform_task])
      then show ?thesis
        using Some rt Inr
        by (cases "?L ys (worker_new (ws_kernel t))"; cases "?L ys t")
           (auto simp: run_task_outcome app io_bind_def io_ret_def rbind_def split: sum.splits)
    qed
  qed
qed

lemma run_tasks_concat: "run_tasks K opts ps pairs ts = run_task K opts ps pairs (concat ts)"
proof (induction ts)
  case Nil
  show ?case by (rule ext) (simp add: run_task_def io_simps)
next
  case (Cons t ts)
  then show ?case by (simp add: run_task_append)
qed

end
