(* ===== verification/Completes.thy ===== *)
theory Completes imports Partition begin

text \<open>
  The clone phase always finishes: over a store of paths that keeps its invariant, following
  parents ends, no index is out of range, every error of a call is counted, and no pair panics,
  whatever the kernel answers.
\<close>

section \<open>Paths resolve\<close>

lemma dir_parts_members:
  assumes "chain_ok dirs" "i = NO_PARENT \<or> unat i < length dirs"
  shows "\<exists>ps. dir_parts dirs i acc = Some (Inr (acc @ ps)) \<and> set ps \<subseteq> (\<lambda>d. (d_off d, d_len d)) ` set dirs"
  using assms(2)
proof (induction "if i = NO_PARENT then 0 else Suc (unat i)" arbitrary: i acc rule: less_induct)
  case less
  show ?case
  proof (cases "i = NO_PARENT")
    case True
    then show ?thesis by (simp add: dir_parts.simps)
  next
    case False
    then have i: "unat i < length dirs" using less.prems by simp
    let ?d = "dirs ! unat i"
    have par: "d_parent ?d = NO_PARENT \<or> unat (d_parent ?d) < unat i"
      using assms(1) i by (simp add: chain_ok_def)
    then have less: "(if d_parent ?d = NO_PARENT then 0 else Suc (unat (d_parent ?d))) <
        (if i = NO_PARENT then 0 else Suc (unat i))" using False by auto
    have "d_parent ?d = NO_PARENT \<or> unat (d_parent ?d) < length dirs" using par i by auto
    then obtain ps where "dir_parts dirs (d_parent ?d) (acc @ [(d_off ?d, d_len ?d)]) =
        Some (Inr ((acc @ [(d_off ?d, d_len ?d)]) @ ps))" "set ps \<subseteq> (\<lambda>d. (d_off d, d_len d)) ` set dirs"
      using less.hyps [OF less, of "acc @ [(d_off ?d, d_len ?d)]"] by blast
    then show ?thesis
      using False i by (intro exI [of _ "(d_off ?d, d_len ?d) # ps"]) (simp add: dir_parts.simps [of dirs i])
  qed
qed

lemma to_path_ok:
  assumes "paths_inv ps" "table_fits (ps_table ps)" "(fp, x) \<in> set (ps_files ps)"
  shows "\<exists>p. paths_path ps fp = Some (Inr p)"
proof -
  let ?t = "ps_table ps"
  have inv: "chain_ok (pt_dirs ?t)" "names_ok ?t" and fp: "file_ok ?t fp"
    using assms(1,3) by (auto simp: paths_inv_def table_inv_def list_all_iff)
  obtain parts where parts: "dir_parts (pt_dirs ?t) (fp_dir fp) [] = Some (Inr parts)"
      "set parts \<subseteq> (\<lambda>d. (d_off d, d_len d)) ` set (pt_dirs ?t)"
    using dir_parts_members [OF inv(1), of "fp_dir fp" "[]"] fp by (auto simp: file_ok_def)
  have name: "\<exists>n. table_name ?t off len = Inr n" if "unat off + unat len \<le> length (pt_arena ?t)" for off len
    using table_name_grows(2) [of ?t ?t off len] that assms(2) by auto
  have "\<exists>n. table_name ?t off len = Inr n" if "(off, len) \<in> set parts" for off len
    using that parts(2) inv(2) by (fastforce simp: names_ok_def in_set_conv_nth intro!: name)
  then have "\<exists>p'. fold_res (\<lambda>(off, len) p. rbind (table_name ?t off len) (\<lambda>n. Inr (path_push p n))) qs p = Inr p'"
    if "set qs \<subseteq> set parts" for qs p
    using that
  proof (induction qs arbitrary: p)
    case (Cons q qs)
    then obtain n where "table_name ?t (fst q) (snd q) = Inr n" by (metis insert_subset list.set(2) prod.collapse)
    then show ?case using Cons by (simp add: case_prod_unfold)
  qed simp
  then obtain d where "push_parts ?t (rev parts) [] = Inr d"
    unfolding push_parts_def by (metis set_rev subset_refl)
  moreover obtain n where "table_name ?t (fp_off fp) (fp_len fp) = Inr n"
    using name fp by (auto simp: file_ok_def)
  ultimately show ?thesis
    using parts(1) by (simp add: paths_path_def to_path_def dir_path_def)
qed

section \<open>Computations that return without a panic\<close>

definition io_safe :: "('a, 's) io \<Rightarrow> bool" where
  "io_safe m \<longleftrightarrow> (\<forall>s. \<exists>r t. m s = Some (r, t) \<and> r \<noteq> Inl Panic)"

definition io_total :: "('a, 's) io \<Rightarrow> bool" where
  "io_total m \<longleftrightarrow> (\<forall>s. \<exists>x t. m s = Some (Inr x, t))"

lemma total_safe: "io_total m \<Longrightarrow> io_safe m"
  by (fastforce simp: io_total_def io_safe_def)

lemma safe_bind:
  assumes "io_safe m" "\<And>s x t. m s = Some (Inr x, t) \<Longrightarrow> io_safe (f x)"
  shows "io_safe (io_bind m f)"
  unfolding io_safe_def
proof
  fix s
  obtain r t where r: "m s = Some (r, t)" "r \<noteq> Inl Panic" using assms(1) unfolding io_safe_def by blast
  show "\<exists>r t. io_bind m f s = Some (r, t) \<and> r \<noteq> Inl Panic"
  proof (cases r)
    case (Inl e)
    then show ?thesis using r by (simp add: io_simps)
  next
    case (Inr x)
    then show ?thesis using r assms(2) [of s x t] by (simp add: io_simps io_safe_def)
  qed
qed

lemma total_bind:
  assumes "io_total m" "\<And>s x t. m s = Some (Inr x, t) \<Longrightarrow> io_total (f x)"
  shows "io_total (io_bind m f)"
  unfolding io_total_def
proof
  fix s
  obtain x t where "m s = Some (Inr x, t)" using assms(1) unfolding io_total_def by blast
  then show "\<exists>x t. io_bind m f s = Some (Inr x, t)"
    using assms(2) [of s x t] by (simp add: io_simps io_total_def)
qed

lemma total_attempt: "io_safe m \<Longrightarrow> io_total (io_attempt m)"
  unfolding io_safe_def io_total_def
proof
  fix s assume "\<forall>s. \<exists>r t. m s = Some (r, t) \<and> r \<noteq> Inl Panic"
  then obtain r t where "m s = Some (r, t)" "r \<noteq> Inl Panic" by blast
  then show "\<exists>x t. io_attempt m s = Some (Inr x, t)"
    by (cases r) (auto simp: io_attempt_def split: fault.split)
qed

lemma total_basic: "io_total (io_ret x)" "io_total (io_gets f)" "io_total (bump d)" "io_total (io_lift (Inr x))"
  by (simp_all add: io_total_def io_simps bump_def)

lemma total_for: "(\<And>x. x \<in> set xs \<Longrightarrow> io_total (f x)) \<Longrightarrow> io_total (io_for f xs)"
  by (induction xs) (simp_all add: total_basic total_bind)

lemma safe_calls:
  "io_safe (io_call f)" "io_safe (io_ioctl g)" "io_safe (read_a K h off n)" "io_safe (read_b K h off n)"
  by (auto simp: io_safe_def io_call_def io_ioctl_def read_a_def read_b_def from_io_def from_errno_def
      split: prod.splits sum.splits)

lemma safe_context: "io_safe m \<Longrightarrow> io_safe (io_context msg m)"
  unfolding io_safe_def
proof
  fix s assume "\<forall>s. \<exists>r t. m s = Some (r, t) \<and> r \<noteq> Inl Panic"
  then obtain r t where "m s = Some (r, t)" "r \<noteq> Inl Panic" by blast
  then show "\<exists>r t. io_context msg m s = Some (r, t) \<and> r \<noteq> Inl Panic"
    by (cases r) (auto simp: io_context_def with_context_def split: fault.split)
qed

lemma safe_fail: "io_safe (io_lift (Inl (Fail e)))"
  by (simp add: io_safe_def io_simps)

lemmas safe_intros = safe_bind safe_calls safe_context safe_fail total_basic [THEN total_safe]

lemma safe_verify: "io_safe (verify_and_clone K opts sf so df dst_off n compare)"
  unfolding verify_and_clone_def by (auto intro!: safe_intros split: dedupe.split)

lemma total_counts: "io_total (count_error e)" "io_total (count_result opts r)"
proof -
  show "io_total (count_error e)" for e by (auto simp: count_error_def intro!: total_basic split: verdict.split)
  then show "io_total (count_result opts r)"
    by (auto simp: count_result_def intro!: total_basic total_bind split: sum.split option.split)
qed

lemma safe_open:
  assumes "paths_inv ps" "table_fits (ps_table ps)" "i < length (ps_files ps)"
  shows "io_safe (worker_open K opts ps i w)"
proof -
  obtain fp h where f: "ps_files ps ! i = (fp, h)" by (cases "ps_files ps ! i")
  then have "(fp, h) \<in> set (ps_files ps)" using assms(3) by (metis nth_mem)
  then obtain p where p: "paths_path ps fp = Some (Inr p)" using to_path_ok [OF assms(1,2)] by blast
  have "index_res (ps_files ps) i = Inr (fp, h)" using assms(3) by (simp add: index_res_def f)
  then show ?thesis
    by (simp add: worker_open_def p safe_context safe_calls io_lift_Inr io_opt_Some)
qed

lemma total_pair:
  assumes "paths_inv ps" "table_fits (ps_table ps)" "unat s < length (ps_files ps)" "unat d < length (ps_files ps)"
  shows "io_total (pair_files K opts ps blksz s d runs)"
proof -
  have len: "\<exists>n. run_len ps i c m b = Inr n" if "i < length (ps_files ps)" for i c m b
    using that by (simp add: run_len_def index_res_def case_prod_unfold)
  have run: "io_total (do_run K opts ps blksz s d compare sf df r)" for compare sf df r
    using len [OF assms(3), of "loc_chunk (run_src r)" "run_chunks r" blksz]
      len [OF assms(4), of "loc_chunk (run_dst r)" "run_chunks r" blksz]
    by (auto simp: do_run_def intro!: total_bind total_basic total_attempt total_counts safe_verify)
  have "io_safe (io_bind (worker_open K opts ps (unat s) False) (\<lambda>sf.
            io_bind (worker_open K opts ps (unat d) True) (\<lambda>df. io_ret (sf, df))))"
    by (intro safe_bind safe_open assms total_basic [THEN total_safe])
  then show ?thesis
    unfolding pair_files_def Let_def
    by (intro total_bind total_attempt) (auto intro!: total_for run total_counts split: sum.split prod.split)
qed

lemma pairs_in_range:
  assumes "index_wf files idx" "distinct order" "set order = dom idx" "build_runs order idx files = Inr pairs"
    "pairs (b, s, d) = Some runs"
  shows "unat s < length files" "unat d < length files"
proof -
  have "dup_pairs idx files (b, s, d) \<noteq> {}"
    using build_runs_specD(1) [OF assms(1-4), of "(b, s, d)"] assms(5) by simp
  then obtain h ls dst where g: "idx (b, h) = Some ls" "dst \<in> set (tl ls)" "loc_file (hd ls) = s" "loc_file dst = d"
    by (auto simp: dup_pairs_def)
  have "group_wf files b ls" using index_wfD(1) [OF assms(1) g(1)] by simp
  moreover have "hd ls \<in> set ls" "dst \<in> set ls" using g(2) by (cases ls; simp)+
  ultimately show "unat s < length files" "unat d < length files"
    using g(3,4) by (auto simp: group_wf_def list_all_iff)
qed

lemma run_task_returns:
  assumes "paths_inv ps" "table_fits (ps_table ps)" "index_wf (ps_files ps) idx" "distinct order" "set order = dom idx"
    "build_runs order idx (ps_files ps) = Inr pairs"
  shows "\<exists>st k'. run_task K opts ps pairs keys k = Some (Inr st, k')"
proof -
  have "io_total (task_loop K opts ps pairs keys)"
    unfolding task_loop_def
  proof (rule total_for)
    fix key :: pair_key
    obtain b s d where key: "key = (b, s, d)" by (cases key)
    show "io_total ((\<lambda>(blksz, s, d). case pairs (blksz, s, d) of
        None \<Rightarrow> io_ret () | Some runs \<Rightarrow> pair_files K opts ps (ucast blksz) s d runs) key)"
      using pairs_in_range [OF assms(3-6), of b s d] total_pair [OF assms(1,2)]
      by (auto simp: key total_basic split: option.split)
  qed
  then show ?thesis
    by (auto simp: run_task_outcome io_total_def) (metis outcome_simps(2) option.simps(9) prod.case rbind_simps(2))
qed

lemma dedup_completes_aux:
  assumes "paths_inv ps" "table_fits (ps_table ps)" "redb_lawful R tab ttab"
    "build_index R db (ps_files ps) = Inr idx" "distinct (order idx)" "set (order idx) = dom idx"
  shows "\<exists>st k'. dedup K R order split ps db opts k = Some (Inr st, k')"
proof -
  have wf: "index_wf (ps_files ps) idx" by (rule build_index_wf_aux [OF assms(3,4)])
  obtain pairs where pairs: "build_runs (order idx) idx (ps_files ps) = Inr pairs"
    by (rule build_runs_spec [OF wf assms(5,6)])
  show ?thesis
    using run_task_returns [OF assms(1,2) wf assms(5,6) pairs]
    by (simp add: dedup_def io_bind_def io_lift_def assms(4) pairs run_tasks_concat)
qed

end
