(* ===== verification/Instances.thy ===== *)
theory Instances imports WorkerFacts "HOL-Library.AList" begin

text \<open>
  Concrete instances of the parameters: a \<open>redb\<close> database held as an association list, a
  reader over a byte list, and a kernel whose files are byte lists. They show that the
  documented behaviour the theorems assume can hold, and are what the theorems are run on.
\<close>

section \<open>A database in memory\<close>

type_synonym mem_db = "(cache_key \<times> u8 list) list"

fun mem_retain ::
    "(cache_key \<Rightarrow> u8 list \<Rightarrow> nat res \<Rightarrow> bool \<times> nat res) \<Rightarrow> mem_db \<Rightarrow> cache_key list \<Rightarrow> nat res \<Rightarrow>
     nat res \<times> mem_db" where
  "mem_retain f t [] s = (s, t)"
| "mem_retain f t (k # ks) s =
     (let (keep, s') = f k (the (map_of t k)) s
      in mem_retain f (if keep then t else AList.delete k t) ks s')"

definition mem_redb :: "(mem_db, mem_db) redb" where
  "mem_redb = \<lparr>
     rd_create = (\<lambda>p n. Inr []),
     rd_begin_read = Inr,
     rd_begin_write = Inr,
     rd_open_table = Inr,
     rd_get = (\<lambda>t k. Inr (map_of t k)),
     rd_insert_reserve = (\<lambda>t k n. Inr (replicate n 0, t)),
     rd_fill = (\<lambda>t k v. AList.update k v t),
     rd_retain = (\<lambda>t f s. Inr (mem_retain f t (remdups (map fst t)) s)),
     rd_commit = (\<lambda>db t. Inr t),
     rd_stats = (\<lambda>t. Inr (0, 0)),
     rd_abort = (\<lambda>t. Inr ()),
     rd_compact = (\<lambda>db. Inr (True, db))\<rparr>"

lemma mem_retain_run:
  "mem_retain f t ks s = (s', t') \<Longrightarrow> retain_run f (map_of t) ks s = (s', map_of t')"
  by (induction f t ks s rule: mem_retain.induct)
     (auto simp: Let_def delete_conv' split: prod.splits if_splits)

lemma mem_retain_keys: "distinct (remdups (map fst t))" "set (remdups (map fst t)) = dom (map_of t)"
  by (simp_all add: dom_map_of_conv_image_fst)

lemma mem_redb_lawful: "redb_lawful mem_redb map_of map_of"
  unfolding redb_lawful_def
proof (intro conjI allI impI)
  fix t f s s' t' assume "rd_retain mem_redb t f s = Inr (s', t')"
  then have "retain_run f (map_of t) (remdups (map fst t)) s = (s', map_of t')"
    by (auto simp: mem_redb_def intro: mem_retain_run)
  then show "\<exists>ks. distinct ks \<and> set ks = dom (map_of t) \<and> retain_run f (map_of t) ks s = (s', map_of t')"
    by (intro exI [of _ "remdups (map fst t)"] conjI mem_retain_keys)
qed (auto simp: mem_redb_def update_conv')

section \<open>A reader over bytes\<close>

text \<open>It returns at most \<open>m\<close> bytes at a time, as a short read does.\<close>

definition mem_reader :: "nat \<Rightarrow> u8 list reader" where
  "mem_reader m r n = (Inr (take (min m n) r), drop (min m n) r)"

lemma mem_reader_lawful: "0 < m \<Longrightarrow> reader_lawful (mem_reader m) id"
  by (auto simp: reader_lawful_def mem_reader_def)

lemma mem_reader_never_fails: "never_fails (mem_reader m)"
  by (simp add: never_fails_def mem_reader_def)

section \<open>A kernel over byte lists\<close>

text \<open>
  A descriptor is the position of its file. No file is longer than an \<open>off_t\<close> can say. FIDEDUPERANGE
  compares and answers; sharing blocks does not show in a list of bytes.
\<close>

type_synonym mem_fs = "(path \<times> u8 list) list"

definition mem_bytes :: "mem_fs \<Rightarrow> nat \<Rightarrow> u8 list" where
  "mem_bytes k i = (if i < length k then take (2 ^ 63 - 1) (snd (k ! i)) else [])"

definition mem_node :: "mem_fs \<Rightarrow> fd \<Rightarrow> nat" where
  "mem_node k f = unat f"

fun mem_find :: "mem_fs \<Rightarrow> path \<Rightarrow> nat \<Rightarrow> nat option" where
  "mem_find [] p i = None"
| "mem_find ((q, _) # k) p i = (if p = q then Some i else mem_find k p (Suc i))"

definition mem_open :: "path \<Rightarrow> bool \<Rightarrow> mem_fs \<Rightarrow> (io_error + fd) \<times> mem_fs" where
  "mem_open p w k = (case mem_find k p 0 of None \<Rightarrow> (Inl (OsError ENOENT), k) | Some i \<Rightarrow> (Inr (of_nat i), k))"

definition mem_read_at :: "fd \<Rightarrow> u64 \<Rightarrow> nat \<Rightarrow> mem_fs \<Rightarrow> (io_error + u8 list) \<times> mem_fs" where
  "mem_read_at f off n k = (Inr (slice_of (unat off) n (mem_bytes k (mem_node k f))), k)"

definition mem_dedupe :: "mem_fs dedupe_ioctl" where
  "mem_dedupe f a k =
     (let r = do_range a; i = do_info a;
          xs = slice_of (unat (dr_src_offset r)) (unat (dr_src_length r)) (mem_bytes k (unat f));
          ys = slice_of (unat (di_dest_offset i)) (unat (dr_src_length r)) (mem_bytes k (unat (ucast (di_dest_fd i) :: fd)))
      in (Inr (a\<lparr>do_info := (if xs = ys then i\<lparr>di_status := 0, di_bytes_deduped := dr_src_length r\<rparr>
                              else i\<lparr>di_status := 1\<rparr>)\<rparr>), k))"

definition mem_clone :: "mem_fs clone_ioctl" where
  "mem_clone f a k =
     (let src = mem_bytes k (unat (ucast (fc_src_fd a) :: fd)); dst = mem_bytes k (unat f);
          n = unat (fc_src_length a)
      in if 0 < n \<and> unat (fc_src_offset a) + n \<le> length src \<and> unat (fc_dest_offset a) + n \<le> length dst
         then (Inr (), k[unat f := (fst (k ! unat f),
                 overwrite (unat (fc_dest_offset a)) (slice_of (unat (fc_src_offset a)) n src) dst)])
         else (Inl EINVAL, k))"

definition mem_kernel :: "mem_fs kernel" where
  "mem_kernel = \<lparr>kn_open = mem_open, kn_read_at = mem_read_at, kn_dedupe = mem_dedupe, kn_clone = mem_clone\<rparr>"

lemma mem_clone_ok:
  assumes "mem_clone dst \<lparr>fc_src_fd = scast (src :: fd), fc_src_offset = so, fc_src_length = n, fc_dest_offset = dest\<rparr> k = (r, k')"
    "0 < unat n" "unat so + unat n \<le> length (mem_bytes k (unat src))"
    "unat dest + unat n \<le> length (mem_bytes k (unat dst))"
  shows "r = Inr () \<and> mem_bytes k' = (mem_bytes k)(unat dst :=
     overwrite (unat dest) (slice_of (unat so) (unat n) (mem_bytes k (unat src))) (mem_bytes k (unat dst)))"
proof -
  let ?bs = "overwrite (unat dest) (slice_of (unat so) (unat n) (mem_bytes k (unat src))) (mem_bytes k (unat dst))"
  have fd: "ucast (scast src :: i64) = src" for src :: fd
    by (rule bit_word_eqI) (simp add: bit_simps)
  have run: "r = Inr ()" "k' = k[unat dst := (fst (k ! unat dst), ?bs)]"
    using assms by (simp_all add: mem_clone_def Let_def fd)
  have i: "unat dst < length k"
    using assms(2,4) by (auto simp: mem_bytes_def split: if_splits)
  have "length ?bs = length (mem_bytes k (unat dst))"
    using assms(3,4) by simp
  then have "length ?bs \<le> 2 ^ 63 - 1" by (simp add: mem_bytes_def)
  then show ?thesis
    using run i by (auto simp: mem_bytes_def fun_eq_iff nth_list_update)
qed

lemma mem_kernel_lawful: "kernel_lawful mem_kernel mem_node mem_bytes"
proof -
  have "open_lawful mem_kernel mem_bytes"
    by (auto simp: open_lawful_def mem_kernel_def mem_open_def split: option.splits)
  moreover have "read_lawful mem_kernel mem_node mem_bytes"
    by (auto simp: read_lawful_def mem_kernel_def mem_read_at_def slice_of_def min_def)
  moreover have "dedupe_lawful mem_kernel mem_bytes"
    by (auto simp: dedupe_lawful_def mem_kernel_def mem_dedupe_def Let_def)
  moreover have "clone_lawful mem_kernel mem_node mem_bytes"
    unfolding clone_lawful_def clone_range_def mem_kernel_def mem_node_def
    using mem_clone_ok by fastforce
  moreover have "length (mem_bytes k i) < 2 ^ 63" for k i
    by (simp add: mem_bytes_def min_less_iff_disj)
  ultimately show ?thesis by (simp add: kernel_lawful_def)
qed

end
