(* ===== verification/CacheCorrect.thy ===== *)
theory CacheCorrect imports Instances begin

text \<open>
  The properties of the hash cache: entries round-trip through their byte layout both ways and
  decoding never panics; storing, looking up and pruning do to the database exactly what a map
  from (dataset, inode) to entries says.
\<close>

definition sample_entry :: file_entry where
  "sample_entry = \<lparr>fe_size = 5000, fe_mtime_ns = 7, fe_ctime_ns = - 8, fe_blksz = 4096,
     fe_hashes = [replicate 16 1, replicate 16 2]\<rparr>"

lemma sample_wf: "entry_wf (as_ref sample_entry)"
  by (simp add: sample_entry_def as_ref_def entry_wf_def hash_wf_def HASH_LEN_def)

text \<open>
  C27. Decoding what \<open>encode_into\<close> wrote into a buffer of the reserved length, whatever the
  buffer held, gives the entry back: every field and every chunk hash in order.
\<close>

theorem cache_entry_roundtrip:
  assumes "entry_wf (as_ref e)" "length buf = encoded_len (as_ref e)"
  shows "rbind (encode_into buf (as_ref e)) decode = Inr e"
  using encode_into_layout [OF assms] decode_layout [OF assms(1)] by simp

theorem cache_entry_roundtrip_witness:
  "rbind (encode_into (replicate (encoded_len (as_ref sample_entry)) 0xff) (as_ref sample_entry)) decode
     = Inr sample_entry"
  by (rule cache_entry_roundtrip [OF sample_wf]) simp

text \<open>
  The layout is canonical: whatever bytes decode to an entry are exactly the bytes that
  encoding this entry writes, so an entry has one representation.
\<close>

theorem cache_entry_canonical:
  assumes "decode buf = Inr e" "length out = length buf"
  shows "encode_into out (as_ref e) = Inr buf"
proof -
  note l = layout_decode [OF assms(1)]
  have "length out = encoded_len (as_ref e)"
    using assms(2) l length_entry_layout by metis
  then show ?thesis using encode_into_layout l by metis
qed

theorem cache_entry_canonical_witness:
  "encode_into (replicate 76 9) (as_ref sample_entry) = Inr (entry_layout (as_ref sample_entry))"
proof (rule cache_entry_canonical)
  show "decode (entry_layout (as_ref sample_entry)) = Inr sample_entry"
    by (rule decode_layout [OF sample_wf])
  show "length (replicate 76 9 :: u8 list) = length (entry_layout (as_ref sample_entry))"
    using length_entry_layout [OF sample_wf]
    by (simp add: encoded_len_def HEADER_def HASH_LEN_def as_ref_def sample_entry_def)
qed

text \<open>
  Decoding arbitrary bytes never panics: bytes shorter than the header or with a partial
  trailing hash are reported as a corrupt entry, all others decode.
\<close>

theorem decode_never_panics:
  "if HEADER \<le> length buf \<and> HASH_LEN dvd (length buf - HEADER)
   then \<exists>e. decode buf = Inr e
   else decode buf = Inl (Fail [Message ''corrupt cache entry''])"
  using decode_eq [of buf] decode_error [of buf] by auto

definition put_refs :: "(u64 \<times> u64 \<times> file_entry) list \<Rightarrow> (u64 \<times> u64 \<times> entry_ref) list" where
  "put_refs = map (\<lambda>(f, i, e). (f, i, as_ref e))"

text \<open>
  C29. \<open>put_many\<close> is a map update: over any lawful database, after a successful call the
  lookups see the new entries (the last one where a key is given twice), and every other entry
  as before.
\<close>

theorem put_many_updates:
  assumes "redb_lawful R tab ttab" "list_all (\<lambda>(f, i, e). entry_wf (as_ref e)) es"
    "cache_put_many R db (put_refs es) = Inr db'" "cache_get R db' f i = Inr v"
  shows "v = (entries_of (tab db) ++ map_of (rev (map (\<lambda>(f, i, e). ((f, i), e)) es))) (f, i)"
proof -
  let ?l = "map (\<lambda>(f, i, e). ((f, i), entry_layout (as_ref e))) es"
  have wf: "list_all (entry_wf \<circ> put_value) (put_refs es)"
    using assms(2) by (auto simp: put_refs_def list_all_iff put_value_def)
  have "map (\<lambda>x. (put_key x, entry_layout (put_value x))) (put_refs es) = ?l"
    by (auto simp: put_refs_def put_key_def put_value_def)
  then have tab: "tab db' = tab db ++ map_of (rev ?l)"
    using cache_put_many_table [OF assms(1) wf assms(3)] by simp
  have look: "map_of (rev ?l) k = map_option (\<lambda>e. entry_layout (as_ref e)) (map_of (rev (map (\<lambda>(f, i, e). ((f, i), e)) es)) k)" for k
    unfolding rev_map map_of_map [symmetric]
    by (induction es) (auto simp: map_add_def split: option.splits)
  have good: "decode (entry_layout (as_ref e)) = Inr e"
    if "map_of (rev (map (\<lambda>(f, i, e). ((f, i), e)) es)) k = Some e" for k e
    using map_of_SomeD [OF that] assms(2) by (intro decode_layout) (auto simp: list_all_iff)
  have "entries_of (tab db') (f, i) = (entries_of (tab db) ++ map_of (rev (map (\<lambda>(f, i, e). ((f, i), e)) es))) (f, i)"
    using good [of "(f, i)"]
    by (auto simp: entries_of_def tab map_add_def look split: option.splits)
  then show ?thesis using cache_get_ok [OF assms(1,4)] by simp
qed

theorem put_many_updates_witness:
  "\<exists>db. cache_put_many mem_redb [] (put_refs [(1, 2, sample_entry)]) = Inr db \<and>
     Some sample_entry = (entries_of (map_of []) ++ map_of (rev (map (\<lambda>(f, i, e). ((f, i), e)) [(1, 2, sample_entry)]))) (1, 2)"
proof -
  let ?db = "[((1, 2), entry_layout (as_ref sample_entry))] :: mem_db"
  have wf: "list_all (\<lambda>(f, i, e). entry_wf (as_ref e)) [(1 :: u64, 2 :: u64, sample_entry)]"
    using sample_wf by simp
  have "encode_into (replicate (encoded_len (as_ref sample_entry)) 0) (as_ref sample_entry) =
      Inr (entry_layout (as_ref sample_entry))"
    by (intro encode_into_layout sample_wf) simp
  then have put: "cache_put_many mem_redb [] (put_refs [(1, 2, sample_entry)]) = Inr ?db"
    by (simp add: cache_put_many_def put_refs_def put_one_def mem_redb_def)
  have get: "cache_get mem_redb ?db 1 2 = Inr (Some sample_entry)"
    by (simp add: cache_get_def mem_redb_def decode_layout [OF sample_wf])
  show ?thesis
    using put put_many_updates [OF mem_redb_lawful wf put get] by blast
qed

text \<open>
  C26. \<open>prune\<close> removes exactly the entries of the datasets being scanned that the filter does
  not claim to have seen, keeps every other entry (those of datasets outside the scan without
  asking), and returns the number it removed.
\<close>

theorem prune_exact:
  assumes "redb_lawful R tab ttab" "\<forall>f i. f \<in> fsids \<longrightarrow> seen f i = Inr (keep f i)"
    "cache_prune R db seen fsids = Inr (n, db')"
  shows "entries_of (tab db') = (\<lambda>(f, i). if f \<in> fsids \<and> \<not> keep f i then None else entries_of (tab db) (f, i)) \<and>
    n = card {(f, i). (f, i) \<in> dom (tab db) \<and> f \<in> fsids \<and> \<not> keep f i}"
proof -
  have "seen f i = Inr (keep f i)" if "f \<in> fsids" for f i using assms(2) that by blast
  note pr = cache_prune_table [OF assms(1) this assms(3)]
  show ?thesis
    using pr by (auto simp: fun_eq_iff entries_of_def)
qed

theorem prune_exact_witness:
  "\<exists>n db. cache_prune mem_redb [((1, 2), []), ((1, 3), []), ((9, 2), [])] (\<lambda>f i. Inr (i = 2)) {1} = Inr (n, db) \<and>
     n = card {(f, i). (f, i) \<in> dom (map_of [((1, 2), []), ((1, 3), []), ((9, 2), [])] :: cache_key \<rightharpoonup> u8 list)
           \<and> f \<in> {1} \<and> \<not> i = 2} \<and> n = 1"
proof -
  let ?db = "[((1, 2), []), ((1, 3), []), ((9, 2), [])] :: mem_db"
  have run: "cache_prune mem_redb ?db (\<lambda>f i. Inr (i = 2)) {1} = Inr (1, [((1, 2), []), ((9, 2), [])])"
    by (simp add: cache_prune_def mem_redb_def prune_keep_def)
  show ?thesis
    using run prune_exact [OF mem_redb_lawful, of "{1}" "\<lambda>f i. Inr (i = 2)" "\<lambda>f i. i = 2", OF _ run] by simp
qed

text \<open>
  Compaction is asked for exactly when more than half of the file and more than 16 MiB are
  free, as exact arithmetic: neither the saturating product nor the saturating difference
  changes the answer, at any sizes.
\<close>

theorem bloated_exact:
  "bloated len used \<longleftrightarrow> 2 * unat used < unat len \<and> unat used + 16 * 2 ^ 20 < unat len"
proof (cases "unat used * 2 < 2 ^ 64")
  case True
  then have "unat (used * 2) = 2 * unat used" by (simp add: unat_word_ariths)
  moreover have "unat (saturating_sub len used) = unat len - unat used" by (rule unat_saturating_sub)
  ultimately show ?thesis
    using True by (auto simp: bloated_def saturating_mul_def word_less_nat_alt)
next
  case False
  have "unat len < 2 ^ 64" using unsigned_less [of len, where ?'a = nat] by simp
  moreover have "\<not> (- 1 :: u64) < len" by simp
  ultimately show ?thesis using False by (auto simp: bloated_def saturating_mul_def)
qed

end
