(* ===== verification/HashCorrect.thy ===== *)
theory HashCorrect imports CacheCorrect PathsCorrect begin

text \<open>
  The properties of hashing: the zero test, the chunk hashes of a file over any lawful reader,
  the nanosecond arithmetic of a stat, and hashing through the cache, for one file and for the
  whole list.
\<close>

lemma zeros_iff: "buf = replicate (length buf) 0 \<longleftrightarrow> list_all (\<lambda>b. b = 0) buf"
  by (induction buf) auto

text \<open>
  The block-wise zero test holds exactly for buffers of zeros, of any length.
\<close>

theorem is_zero_correct: "is_zero buf \<longleftrightarrow> list_all (\<lambda>b. b = 0) buf"
  by (simp only: is_zero_eq zeros_iff)

text \<open>
  C25. Hashing an open file returns, over any reader that follows the contract of \<open>Read\<close>
  (however short its reads): without a read error it gives one hash per \<open>blksz\<close> bytes of what
  was ahead, the last for the short rest, each the zero hash for a chunk of zeros and otherwise
  the XXH3-128 of the chunk; with one it may fail; it never panics.
\<close>

theorem hash_fd_correct:
  assumes "reader_lawful rd rem" "0 < blksz"
  shows "\<exists>res r'. hash_fd xxh3 rd r blksz = Some (res, r') \<and> res \<noteq> Inl Panic \<and>
    (case res of Inr hs \<Rightarrow> hs = map (\<lambda>c. if list_all (\<lambda>b. b = 0) c then ZERO_HASH else le_bytes 16 (xxh3 c))
                                 (chunks (unat blksz) (rem r))
     | Inl _ \<Rightarrow> \<not> never_fails rd)"
proof -
  have "chunk_digest xxh3 = (\<lambda>c. if list_all (\<lambda>b. b = 0) c then ZERO_HASH else le_bytes 16 (xxh3 c))"
    by (rule ext) (simp only: chunk_digest_def hash_chunk_def is_zero_eq zeros_iff)
  then have "file_hashes xxh3 n xs = map (\<lambda>c. if list_all (\<lambda>b. b = 0) c then ZERO_HASH else le_bytes 16 (xxh3 c)) (chunks n xs)"
    for n xs by (simp only: file_hashes_def)
  then show ?thesis
    using hash_fd_ok [OF assms, of xxh3 r] by (fastforce split: sum.split)
qed

theorem hash_fd_correct_witness:
  "\<exists>res r'. hash_fd (\<lambda>c. of_nat (length c)) (mem_reader 3) [1 :: u8, 0, 0, 0, 0, 0, 0, 5, 6] 4 = Some (res, r') \<and>
     res \<noteq> Inl Panic \<and>
     (case res of Inr hs \<Rightarrow> hs = map (\<lambda>c. if list_all (\<lambda>b. b = 0) c then ZERO_HASH else le_bytes 16 (of_nat (length c) :: u128))
                                 (chunks (unat (4 :: u32)) (id [1 :: u8, 0, 0, 0, 0, 0, 0, 5, 6]))
     | Inl _ \<Rightarrow> \<not> never_fails (mem_reader 3))"
  by (rule hash_fd_correct [OF mem_reader_lawful]) simp_all

text \<open>
  The nanosecond stamps of a stat are exact for every metadata: the \<open>i128\<close> arithmetic
  never overflows; a block size above 32 bits is stored as \<open>u32::MAX\<close>.
\<close>

theorem stat_exact:
  "sint (st_mtime_ns (from_metadata m fsid)) = sint (md_mtime m) * 10 ^ 9 + sint (md_mtime_nsec m) \<and>
   sint (st_ctime_ns (from_metadata m fsid)) = sint (md_ctime m) * 10 ^ 9 + sint (md_ctime_nsec m) \<and>
   unat (st_blksz (from_metadata m fsid)) = min (unat (md_blksize m)) (2 ^ 32 - 1)"
proof -
  have ns: "sint (scast s * 1000000000 + scast n :: i128) = sint s * 10 ^ 9 + sint n" for s n :: i64
  proof -
    have s: "- (2 ^ 63) \<le> sint s" "sint s < 2 ^ 63" and n: "- (2 ^ 63) \<le> sint n" "sint n < 2 ^ 63"
      using sint_greater_eq [of s] sint_less [of s] sint_greater_eq [of n] sint_less [of n] by simp_all
    let ?v = "sint s * 1000000000 + sint n"
    have w: "(scast s * 1000000000 + scast n :: i128) = of_int ?v"
      by simp
    have lo: "- (2 ^ 127) \<le> ?v" using s(1) n(1) by simp
    have hi: "?v < 2 ^ 127" using s(2) n(2) by simp
    have "sint (of_int ?v :: i128) = signed_take_bit 127 ?v"
      by (simp only: signed_of_int) simp
    also have "\<dots> = ?v" by (rule signed_take_bit_int_eq_self [OF lo hi])
    finally have "sint (scast s * 1000000000 + scast n :: i128) = ?v" by (simp only: w)
    moreover have "(10 ^ 9 :: int) = 1000000000" by simp
    ultimately show ?thesis by (simp only:)
  qed
  have "unat (case u32_try_from (unat b) of None \<Rightarrow> - 1 | Some c \<Rightarrow> c) = min (unat b) (2 ^ 32 - 1)" for b :: u64
    using unat_NO_PARENT by (auto simp: u32_try_from_def unat_of_nat min_def NO_PARENT_def unsigned_ucast_eq take_bit_nat_eq_self)
  then show ?thesis by (simp add: from_metadata_def ns)
qed

section \<open>Through the cache\<close>

lemma put_one_entry:
  assumes "redb_lawful R tab ttab" "entry_wf (as_ref e)" "cache_put R db f i (as_ref e) = Inr db'"
  shows "entries_of (tab db') (f, i) = Some e"
proof -
  have "list_all (entry_wf \<circ> put_value) [(f, i, as_ref e)]"
    using assms(2) by (simp add: put_value_def)
  from cache_put_many_table [OF assms(1) this] assms(3)
  have "tab db' (f, i) = Some (entry_layout (as_ref e))"
    by (simp add: cache_put_def put_key_def put_value_def)
  then show ?thesis by (rule entries_of_layout [OF assms(2)])
qed

definition stat_file_entry :: "stat \<Rightarrow> chunk_hash list \<Rightarrow> file_entry" where
  "stat_file_entry s hs = \<lparr>fe_size = st_size s, fe_mtime_ns = st_mtime_ns s,
     fe_ctime_ns = st_ctime_ns s, fe_blksz = st_blksz s, fe_hashes = hs\<rparr>"

lemma stat_entry_ref: "stat_entry s hs = as_ref (stat_file_entry s hs)"
  by (simp add: stat_entry_def stat_file_entry_def as_ref_def)

text \<open>
  C28. The cache answers exactly for unchanged files: once a file's hashes are stored under its
  stat, a later \<open>hash_one\<close> of a regular file with the same dataset and inode returns them
  from the cache if its whole stat is the same, and otherwise hashes the file anew.
\<close>

theorem cached_iff_unchanged:
  assumes "redb_lawful R tab ttab" "list_all hash_wf hs"
    "cache_put R db (st_fsid s) (st_ino s) (stat_entry s hs) = Inr db'"
    "env_lstat E p = Inr m" "md_is_file m" "st_fsid s = fsid" "st_ino s = md_ino m"
    "cache_get R db' fsid (md_ino m) = Inr v"
  shows "hash_one E R xxh3 db' p fsid =
    (if from_metadata m fsid = s then Some (Inr (s, True, hs)) else hash_miss E xxh3 p fsid)"
proof -
  let ?e = "stat_file_entry s hs" and ?s = "from_metadata m fsid"
  have "entry_wf (as_ref ?e)" using assms(2) by (simp add: entry_wf_def as_ref_def stat_file_entry_def)
  then have "entries_of (tab db') (fsid, md_ino m) = Some ?e"
    using put_one_entry [OF assms(1)] assms(3,6,7) by (simp add: stat_entry_ref)
  then have get: "cache_get R db' (st_fsid ?s) (st_ino ?s) = Inr (Some ?e)"
    using cache_get_ok [OF assms(1,8)] assms(8) by (simp add: from_metadata_def)
  have "entry_matches ?e (st_size ?s) (st_mtime_ns ?s) (st_ctime_ns ?s) (st_blksz ?s) \<longleftrightarrow> ?s = s"
    using assms(6,7) by (cases s) (auto simp: entry_matches_def stat_file_entry_def from_metadata_def)
  then have "cached_hashes R db' ?s = Inr (if ?s = s then Some hs else None)"
    using get by (auto simp: cached_hashes_def stat_file_entry_def)
  then show ?thesis
    using assms(4,5) by (auto simp: hash_one_def regular_stat_def)
qed

definition sample_meta :: metadata where
  "sample_meta = \<lparr>md_is_file = True, md_is_dir = False, md_dev = 5, md_ino = 7, md_nlink = 1, md_size = 6,
     md_mtime = 100, md_mtime_nsec = 5, md_ctime = 100, md_ctime_nsec = 6, md_blksize = 4\<rparr>"

definition sample_env :: "u8 list file_env" where
  "sample_env = \<lparr>env_lstat = (\<lambda>p. Inr sample_meta), env_open = (\<lambda>p. Inr [1, 2, 3, 4, 5, 6]),
     env_fstat = (\<lambda>f. Inr sample_meta), env_set_direct = (\<lambda>f. f), env_read = mem_reader 3\<rparr>"

theorem cached_iff_unchanged_witness:
  "\<exists>db. cache_put mem_redb [] 1 7 (stat_entry (from_metadata sample_meta 1) [replicate 16 3]) = Inr db \<and>
     hash_one sample_env mem_redb (\<lambda>_. 0) db usr 1 =
       Some (Inr (from_metadata sample_meta 1, True, [replicate 16 3]))"
proof -
  let ?s = "from_metadata sample_meta 1" and ?hs = "[replicate 16 3] :: chunk_hash list"
  let ?e = "stat_file_entry ?s ?hs"
  let ?db = "[((1, 7), entry_layout (as_ref ?e))] :: mem_db"
  have wf: "list_all hash_wf ?hs" by (simp add: hash_wf_def HASH_LEN_def)
  then have ewf: "entry_wf (as_ref ?e)" by (simp add: entry_wf_def as_ref_def stat_file_entry_def)
  have ino: "md_ino sample_meta = 7" by (simp add: sample_meta_def)
  have keys: "st_fsid ?s = 1" "st_ino ?s = 7" by (simp_all add: from_metadata_def sample_meta_def)
  have "encode_into (replicate (encoded_len (as_ref ?e)) 0) (as_ref ?e) = Inr (entry_layout (as_ref ?e))"
    by (intro encode_into_layout ewf) simp
  then have put: "cache_put mem_redb [] (st_fsid ?s) (st_ino ?s) (stat_entry ?s ?hs) = Inr ?db"
    by (simp add: cache_put_def cache_put_many_def put_one_def mem_redb_def stat_entry_ref keys)
  have get: "cache_get mem_redb ?db 1 (md_ino sample_meta) = Inr (Some ?e)"
    by (simp add: cache_get_def mem_redb_def decode_layout [OF ewf] ino)
  have "hash_one sample_env mem_redb (\<lambda>_. 0) ?db usr 1 = Some (Inr (?s, True, ?hs))"
    by (subst cached_iff_unchanged [OF mem_redb_lawful wf put _ _ keys(1) _ get])
       (simp_all add: sample_env_def sample_meta_def from_metadata_def)
  then show ?thesis using put by (auto simp: keys)
qed

lemma miss_hashes_open:
  assumes "reader_lawful (env_read E) rem" "\<forall>f. rem (env_set_direct E f) = rem f"
    "hash_miss E xxh3 p fsid = Some (Inr (s, c, hs))"
  shows "\<exists>f m. env_open E p = Inr f \<and> env_fstat E f = Inr m \<and> md_is_file m \<and>
    s = from_metadata m fsid \<and> \<not> c \<and> hs = file_hashes xxh3 (unat (st_blksz s)) (rem f)"
proof -
  have "\<exists>f. env_open E p = Inr f"
    using assms(3) by (cases "env_open E p") (simp_all add: hash_miss_def open_nofollow_def)
  then obtain f where f: "env_open E p = Inr f" ..
  have open_ok: "open_nofollow E p = Inr f" by (simp add: open_nofollow_def f)
  have "\<exists>m. env_fstat E f = Inr m \<and> md_is_file m"
    using assms(3) by (cases "env_fstat E f") (auto simp: hash_miss_def open_ok regular_stat_def split: if_splits)
  then obtain m where m: "env_fstat E f = Inr m" "md_is_file m" by blast
  let ?s = "from_metadata m fsid" and ?f = "try_o_direct E f (st_blksz (from_metadata m fsid))"
  have st: "regular_stat (env_fstat E f) fsid = Inr ?s" by (simp add: regular_stat_def m)
  obtain r t where run: "hash_fd xxh3 (env_read E) ?f (st_blksz ?s) = Some (r, t)"
      "rbind r (\<lambda>hashes. Inr (?s, False, hashes)) = Inr (s, c, hs)"
    using assms(3) by (auto simp: hash_miss_def open_ok st)
  then have res: "s = ?s" "\<not> c" "r = Inr hs" by (auto simp: rbind_eq_Inr)
  have "0 < st_blksz ?s"
  proof (rule ccontr)
    assume "\<not> 0 < st_blksz ?s"
    then show False using run(1) res(3) by (simp add: hash_fd_eq)
  qed
  moreover have "rem ?f = rem f" using assms(2) by (simp add: try_o_direct_def)
  ultimately have "hs = file_hashes xxh3 (unat (st_blksz ?s)) (rem f)"
    using hash_fd_ok [OF assms(1), of "st_blksz ?s" xxh3 ?f] run(1) res(3) by auto
  then show ?thesis using f m res(1,2) by blast
qed

text \<open>
  C32. On a miss the hashes and the stat belong together: both come from the opened file, not
  from the path. The result is the stat of the open file and the hashes of its contents in
  chunks of that stat's block size.
\<close>

theorem miss_hashes_open_file:
  assumes "reader_lawful (env_read E) rem" "\<forall>f. rem (env_set_direct E f) = rem f"
    "hash_miss E xxh3 p fsid = Some (Inr (s, c, hs))"
  shows "\<exists>f m. env_open E p = Inr f \<and> env_fstat E f = Inr m \<and> md_is_file m \<and>
    s = from_metadata m fsid \<and> \<not> c \<and> hs = file_hashes xxh3 (unat (st_blksz s)) (rem f)"
  by (rule miss_hashes_open [OF assms])

lemma sample_miss:
  "\<exists>hs. hash_miss sample_env (\<lambda>_. 0) usr 1 = Some (Inr (from_metadata sample_meta 1, False, hs))"
proof -
  have blk: "0 < st_blksz (from_metadata sample_meta 1)"
    by (simp add: from_metadata_def sample_meta_def u32_try_from_def)
  have "reader_lawful (env_read sample_env) id"
    by (simp add: sample_env_def mem_reader_lawful)
  from hash_fd_ok [OF this blk, of "\<lambda>_. 0" "[1, 2, 3, 4, 5, 6]"]
  obtain hs r' where "hash_fd (\<lambda>_. 0) (env_read sample_env) [1, 2, 3, 4, 5, 6] (st_blksz (from_metadata sample_meta 1)) = Some (Inr hs, r')"
    by (auto simp: sample_env_def mem_reader_never_fails)
  then show ?thesis
    by (simp add: hash_miss_def open_nofollow_def regular_stat_def try_o_direct_def sample_env_def)
       (simp add: sample_meta_def)
qed

theorem miss_hashes_open_file_witness:
  "\<exists>hs. hash_miss sample_env (\<lambda>_. 0) usr 1 = Some (Inr (from_metadata sample_meta 1, False, hs)) \<and>
    (\<exists>f m. env_open sample_env usr = Inr f \<and> env_fstat sample_env f = Inr m \<and> md_is_file m \<and>
      from_metadata sample_meta 1 = from_metadata m 1 \<and> \<not> False \<and>
      hs = file_hashes (\<lambda>_. 0) (unat (st_blksz (from_metadata sample_meta 1))) (id f))"
proof -
  obtain hs where run: "hash_miss sample_env (\<lambda>_. 0) usr 1 = Some (Inr (from_metadata sample_meta 1, False, hs))"
    using sample_miss by blast
  have "reader_lawful (env_read sample_env) id" "\<forall>f. id (env_set_direct sample_env f) = id f"
    by (simp_all add: sample_env_def mem_reader_lawful)
  from miss_hashes_open_file [OF this run] run show ?thesis by blast
qed

section \<open>The whole list\<close>

lemma hash_all_list:
  "hash_all f batch = Some (Inr rs) \<Longrightarrow>
   list_all2 (\<lambda>(p, fsid) (p', x). p' = p \<and> f p fsid = Some (Inr x)) batch rs"
proof (induction f batch arbitrary: rs rule: hash_all.induct)
  case (2 f p fsid batch)
  then show ?case by (auto simp: res_simps split: option.splits)
qed simp

definition knows :: "('db \<Rightarrow> cache_key \<rightharpoonup> u8 list) \<Rightarrow> 'db \<Rightarrow> cache_key \<Rightarrow> bool" where
  "knows tab db k \<longleftrightarrow> entries_of (tab db) k \<noteq> None"

definition result_known ::
    "('db \<Rightarrow> cache_key \<rightharpoonup> u8 list) \<Rightarrow> 'db \<Rightarrow> file_path \<times> u64 \<Rightarrow> file_path \<times> (anyhow + hashed) \<Rightarrow> bool" where
  "result_known tab db = (\<lambda>(p, fsid) (p', r). p' = p \<and>
     (case r of Inl _ \<Rightarrow> True | Inr h \<Rightarrow> h_fsid h = fsid \<and> knows tab db (h_fsid h, h_ino h)))"

lemma put_many_knows:
  assumes "redb_lawful R tab ttab" "list_all (entry_wf \<circ> put_value) xs" "cache_put_many R db xs = Inr db'"
  shows "knows tab db k \<Longrightarrow> knows tab db' k" "x \<in> set xs \<Longrightarrow> knows tab db' (put_key x)"
proof -
  let ?m = "map_of (rev (map (\<lambda>x. (put_key x, entry_layout (put_value x))) xs))"
  have tab: "tab db' = tab db ++ ?m" by (rule cache_put_many_table [OF assms])
  have dec: "\<exists>e. decode bs = Inr e" if m: "?m k = Some bs" for k bs
  proof -
    obtain x where x: "x \<in> set xs" "bs = entry_layout (put_value x)"
      using map_of_SomeD [OF m] by auto
    let ?r = "put_value x"
    let ?e = "\<lparr>fe_size = er_size ?r, fe_mtime_ns = er_mtime_ns ?r, fe_ctime_ns = er_ctime_ns ?r,
      fe_blksz = er_blksz ?r, fe_hashes = er_hashes ?r\<rparr>"
    have "?r = as_ref ?e" by (simp add: as_ref_def)
    then show ?thesis using x assms(2) decode_layout [of ?e] by (auto simp: list_all_iff)
  qed
  show "knows tab db k \<Longrightarrow> knows tab db' k"
    using dec [of k] by (auto simp: knows_def entries_of_def tab map_add_def split: option.splits sum.splits)
  assume "x \<in> set xs"
  then have "put_key x \<in> fst ` set (rev (map (\<lambda>x. (put_key x, entry_layout (put_value x))) xs))"
    by (simp add: image_image)
  then have "?m (put_key x) \<noteq> None" by (simp only: map_of_eq_None_iff) simp
  then obtain bs where "?m (put_key x) = Some bs" by blast
  then show "knows tab db' (put_key x)"
    using dec [of "put_key x" bs] by (auto simp: knows_def entries_of_def tab)
qed

text \<open>What \<open>hash_files\<close> needs of the files and the database.\<close>

definition env_lawful :: "'r file_env \<Rightarrow> ('r \<Rightarrow> u8 list) \<Rightarrow> bool" where
  "env_lawful E rem \<longleftrightarrow> reader_lawful (env_read E) rem \<and> (\<forall>f. rem (env_set_direct E f) = rem f)"

lemma hash_one_known:
  assumes "redb_lawful R tab ttab" "env_lawful E rem" "hash_one E R xxh3 db p fsid = Some (Inr (s, c, hs))"
  shows "st_fsid s = fsid \<and> (c \<longrightarrow> knows tab db (st_fsid s, st_ino s)) \<and> (\<not> c \<longrightarrow> list_all hash_wf hs)"
proof -
  obtain m where m: "env_lstat E p = Inr m" "md_is_file m"
    using assms(3) by (cases "env_lstat E p") (auto simp: hash_one_def regular_stat_def split: if_splits)
  let ?s = "from_metadata m fsid"
  have run: "hash_one E R xxh3 db p fsid = (case cached_hashes R db ?s of
        Inl e \<Rightarrow> Some (Inl e) | Inr (Some hashes) \<Rightarrow> Some (Inr (?s, True, hashes))
      | Inr None \<Rightarrow> hash_miss E xxh3 p fsid)"
    by (simp add: hash_one_def regular_stat_def m)
  consider "cached_hashes R db ?s = Inr (Some hs)" "s = ?s" "c" | "hash_miss E xxh3 p fsid = Some (Inr (s, c, hs))"
    using assms(3) by (auto simp: run split: sum.splits option.splits)
  then show ?thesis
  proof cases
    case 1
    then obtain e where "cache_get R db (st_fsid ?s) (st_ino ?s) = Inr (Some e)"
      by (auto simp: cached_hashes_def res_simps split: option.splits)
    from cache_get_ok [OF assms(1) this] have "knows tab db (st_fsid ?s, st_ino ?s)"
      by (metis knows_def option.distinct(1))
    then show ?thesis using 1 by (simp add: from_metadata_def)
  next
    case 2
    have "reader_lawful (env_read E) rem" "\<forall>f. rem (env_set_direct E f) = rem f"
      using assms(2) by (simp_all add: env_lawful_def)
    from miss_hashes_open [OF this 2] show ?thesis
      by (auto simp: from_metadata_def file_hashes_wf)
  qed
qed

lemma split_panic_Inr: "split_panic r = Inr (Inr x) \<longleftrightarrow> r = Inr x"
  by (auto simp: split_panic_def split: sum.splits fault.splits)

lemma hash_batch_known:
  assumes "redb_lawful R tab ttab" "env_lawful E rem"
    "hash_batch E R xxh3 t batch db = Some (Inr ys, db')"
  shows "list_all2 (result_known tab db') batch ys" "knows tab db k \<Longrightarrow> knows tab db' k"
proof -
  obtain z where z: "hash_all (hash_path E R xxh3 db t) batch = Some z"
    using assms(3) by (auto simp: hash_batch_def)
  then have "\<exists>rs. z = Inr rs \<and> cache_put_many R db (List.map_filter miss_entry rs) = Inr db' \<and>
      ys = map hashed_result rs"
    using assms(3) by (simp add: hash_batch_def split: sum.splits)
  then obtain rs where rs: "hash_all (hash_path E R xxh3 db t) batch = Some (Inr rs)"
      "cache_put_many R db (List.map_filter miss_entry rs) = Inr db'" "ys = map hashed_result rs"
    using z by blast
  have one: "list_all2 (\<lambda>(p, fsid) (p', x). p' = p \<and> hash_path E R xxh3 db t p fsid = Some (Inr x)) batch rs"
    by (rule hash_all_list [OF rs(1)])
  have res: "st_fsid s = fsid \<and> (c \<longrightarrow> knows tab db (st_fsid s, st_ino s)) \<and> (\<not> c \<longrightarrow> list_all hash_wf hs)"
    if path: "hash_path E R xxh3 db t p fsid = Some (Inr (Inr (s, c, hs)))" for p fsid s c hs
  proof -
    obtain q where "hash_one E R xxh3 db q fsid = Some (Inr (s, c, hs))"
      using path by (auto simp: hash_path_def split_panic_Inr split: option.splits sum.splits)
    then show ?thesis by (rule hash_one_known [OF assms(1,2)])
  qed
  have "list_all (entry_wf \<circ> put_value) (List.map_filter miss_entry rs)"
    unfolding list_all_iff
  proof
    fix z assume "z \<in> set (List.map_filter miss_entry rs)"
    then obtain p s hs where z: "(p, Inr (s, False, hs)) \<in> set rs" "z = (st_fsid s, st_ino s, stat_entry s hs)"
      by (fastforce simp: map_filter_def elim!: miss_entry.elims)
    then obtain q fsid where "hash_path E R xxh3 db t q fsid = Some (Inr (Inr (s, False, hs)))"
      using one by (fastforce simp: list_all2_conv_all_nth in_set_conv_nth)
    from res [OF this] show "(entry_wf \<circ> put_value) z"
      by (simp add: z put_value_def entry_wf_def stat_entry_def)
  qed
  note put = put_many_knows [OF assms(1) this rs(2)]
  show "knows tab db k \<Longrightarrow> knows tab db' k" by (rule put(1))
  have "result_known tab db' (p, fsid) (hashed_result (p', x))"
    if "(p', x) \<in> set rs" "p' = p" "hash_path E R xxh3 db t p fsid = Some (Inr x)" for p fsid p' x
  proof (cases x)
    case (Inl e)
    then show ?thesis using that by (simp add: result_known_def)
  next
    case (Inr y)
    obtain s c hs where y: "y = (s, c, hs)" by (cases y)
    note r = res [OF that(3) [unfolded Inr y]]
    have "knows tab db' (st_fsid s, st_ino s)"
    proof (cases c)
      case True
      then show ?thesis using r put(1) by blast
    next
      case False
      then have "(st_fsid s, st_ino s, stat_entry s hs) \<in> set (List.map_filter miss_entry rs)"
        using that(1) Inr y by (force simp: map_filter_def image_iff)
      from put(2) [OF this] show ?thesis by (simp add: put_key_def)
    qed
    then show ?thesis using r that(2) by (simp add: result_known_def Inr y hashed_new_def)
  qed
  then show "list_all2 (result_known tab db') batch ys"
    using one by (fastforce simp: rs(3) list_all2_conv_all_nth in_set_conv_nth)
qed

lemma hash_files_known:
  assumes "redb_lawful R tab ttab" "env_lawful E rem" "hash_files E R xxh3 db ps = Some (Inr out, db')"
  shows "ps_table out = ps_table ps" "list_all2 (result_known tab db') (ps_files ps) (ps_files out)"
    "knows tab db k \<Longrightarrow> knows tab db' k"
proof -
  obtain zs where zs: "batch_loop 100000 (hash_batch E R xxh3 (ps_table ps)) (ps_files ps) [] db = Some (Inr zs, db')"
      "out = \<lparr>ps_table = ps_table ps, ps_files = zs\<rparr>"
    using assms(3) by (auto simp: hash_files_def map_batched_def res_simps)
  show "ps_table out = ps_table ps" by (simp add: zs(2))
  let ?le = "\<lambda>s s'. \<forall>k. knows tab s k \<longrightarrow> knows tab s' k"
  have "\<exists>ys. zs = [] @ ys \<and> list_all2 (result_known tab db') (ps_files ps) ys \<and> ?le db db'"
  proof (rule batch_loop_state [where le = ?le, OF _ _ _ _ _ zs(1)])
    show "list_all2 (result_known tab s') chunk ys \<and> ?le s s'"
      if "hash_batch E R xxh3 (ps_table ps) chunk s = Some (Inr ys, s')" for chunk s ys s'
      using hash_batch_known [OF assms(1,2) that] by blast
    show "result_known tab s x y \<Longrightarrow> ?le s s' \<Longrightarrow> result_known tab s' x y" for s s' x y
      by (auto simp: result_known_def split: prod.splits sum.splits)
  qed auto
  then show "list_all2 (result_known tab db') (ps_files ps) (ps_files out)" "knows tab db k \<Longrightarrow> knows tab db' k"
    by (cases k; simp add: zs(2))+
qed

lemma sample_hash_files:
  "\<exists>fp t out db. hash_files sample_env mem_redb (\<lambda>_. 0) [] \<lparr>ps_table = t, ps_files = [(fp, 1)]\<rparr> = Some (Inr out, db)"
proof -
  have "\<exists>ps. paths_push paths_empty usr [98] (1 :: u64) = Inr ps \<and> table_fits (ps_table ps)"
    by (simp add: usr_def paths_push_def paths_empty_def intern.simps table_empty_def path_parent_def
        path_file_name_def push_dir_def add_name_def u32_try_from_def NO_PARENT_def as_os_str_def table_fits_def)
  then obtain ps where ps: "paths_push paths_empty usr [98] (1 :: u64) = Inr ps" "table_fits (ps_table ps)" by blast
  obtain fp where fp: "to_path (ps_table ps) fp = Some (Inr (usr @ [Normal [98]]))"
    using paths_push_ok(3) [OF ps(1) paths_inv_empty ps(2) usr_wf(1,3)] by blast
  let ?s = "from_metadata sample_meta 1"
  obtain hs where hs: "hash_miss sample_env (\<lambda>_. 0) p 1 = Some (Inr (?s, False, hs))" for p
    using sample_miss by (auto simp: hash_miss_def sample_env_def open_nofollow_def)
  have "cached_hashes mem_redb [] ?s = Inr None"
    by (simp add: cached_hashes_def cache_get_def mem_redb_def)
  moreover have "env_lstat sample_env p = Inr sample_meta" "md_is_file sample_meta" for p
    by (simp_all add: sample_env_def sample_meta_def)
  ultimately have "hash_one sample_env mem_redb (\<lambda>_. 0) [] p 1 = Some (Inr (?s, False, hs))" for p
    by (simp add: hash_one_def regular_stat_def hs)
  then have all: "hash_all (hash_path sample_env mem_redb (\<lambda>_. 0) [] (ps_table ps)) [(fp, 1)]
      = Some (Inr [(fp, Inr (?s, False, hs))])"
    by (simp add: hash_path_def fp split_panic_def)
  have law: "reader_lawful (env_read sample_env) id" "\<forall>f. id (env_set_direct sample_env f) = id f"
    by (simp_all add: sample_env_def mem_reader_lawful)
  have "list_all hash_wf hs" using miss_hashes_open [OF law hs] file_hashes_wf by blast
  then have "entry_wf (stat_entry ?s hs)" by (simp add: entry_wf_def stat_entry_def)
  then have "\<exists>db. cache_put_many mem_redb [] [(st_fsid ?s, st_ino ?s, stat_entry ?s hs)] = Inr db"
    by (simp add: cache_put_many_def put_one_def mem_redb_def encode_into_layout)
  then obtain db where "cache_put_many mem_redb [] [(st_fsid ?s, st_ino ?s, stat_entry ?s hs)] = Inr db" ..
  then have batch: "hash_batch sample_env mem_redb (\<lambda>_. 0) (ps_table ps) [(fp, 1)] [] =
      Some (Inr [(fp, Inr (hashed_new ?s False))], db)"
    by (simp add: hash_batch_def all map_filter_simps del: hash_all.simps)
  have "hash_files sample_env mem_redb (\<lambda>_. 0) [] \<lparr>ps_table = ps_table ps, ps_files = [(fp, 1)]\<rparr> =
      Some (Inr \<lparr>ps_table = ps_table ps, ps_files = [(fp, Inr (hashed_new ?s False))]\<rparr>, db)"
    by (simp add: hash_files_def map_batched_def batch_loop.simps batch)
  then show ?thesis by blast
qed

text \<open>
  \<open>hash_files\<close> keeps the files and their order, whatever the batch boundaries, and every
  file it reports as hashed has an entry in the hash cache it leaves behind, under the dataset
  it was given: the index, which reads the hashes back from the cache, finds them.
\<close>

theorem hash_files_aligned:
  assumes "redb_lawful R tab ttab" "env_lawful E rem" "hash_files E R xxh3 db ps = Some (Inr out, db')"
  shows "ps_table out = ps_table ps \<and>
    list_all2 (\<lambda>(fp, fsid) (fp', r). fp' = fp \<and>
      (case r of Inl _ \<Rightarrow> True | Inr h \<Rightarrow> h_fsid h = fsid \<and> entries_of (tab db') (fsid, h_ino h) \<noteq> None))
      (ps_files ps) (ps_files out)"
  using hash_files_known(1,2) [OF assms]
  by (auto simp: result_known_def knows_def elim!: list_all2_mono split: sum.splits)

theorem hash_files_aligned_witness:
  "\<exists>fp t out db. hash_files sample_env mem_redb (\<lambda>_. 0) [] \<lparr>ps_table = t, ps_files = [(fp, 1)]\<rparr> = Some (Inr out, db) \<and>
    (ps_table out = t \<and> list_all2 (\<lambda>(fp, fsid) (fp', r). fp' = fp \<and>
      (case r of Inl _ \<Rightarrow> True | Inr h \<Rightarrow> h_fsid h = fsid \<and> entries_of (map_of db) (fsid, h_ino h) \<noteq> None))
      [(fp, 1)] (ps_files out))"
proof -
  obtain fp t out db where run: "hash_files sample_env mem_redb (\<lambda>_. 0) [] \<lparr>ps_table = t, ps_files = [(fp, 1)]\<rparr> = Some (Inr out, db)"
    using sample_hash_files by blast
  have "env_lawful sample_env id"
    by (simp add: env_lawful_def sample_env_def mem_reader_lawful)
  from hash_files_aligned [OF mem_redb_lawful this run] have
    "ps_table out = t \<and> list_all2 (\<lambda>(fp, fsid) (fp', r). fp' = fp \<and>
      (case r of Inl _ \<Rightarrow> True | Inr h \<Rightarrow> h_fsid h = fsid \<and> entries_of (map_of db) (fsid, h_ino h) \<noteq> None))
      [(fp, 1)] (ps_files out)"
    unfolding paths.simps .
  then show ?thesis using run by blast
qed

end
