(* ===== verification/Samples.thy ===== *)
theory Samples imports Completes HashCorrect begin

text \<open>
  One concrete run for the properties of the clone phase: two files of one equal chunk each in
  a store of paths, a cache that holds their hashes, and a kernel that holds their bytes.
\<close>

definition sample_hash :: chunk_hash where
  "sample_hash = replicate 16 3"

definition sample_hashed :: "u64 \<Rightarrow> hashed" where
  "sample_hashed i = \<lparr>h_fsid = 1, h_ino = i, h_size = 4, h_blksz = 4, h_from_cache = True\<rparr>"

definition sample_pushes :: "hashed paths res" where
  "sample_pushes = fold_res (\<lambda>(d, n, x) ps. paths_push ps d n x)
     [(usr, [98], sample_hashed 7), (usr, [97], sample_hashed 8)] paths_empty"

definition sample_paths :: "hashed paths" where
  "sample_paths = (case sample_pushes of Inl e \<Rightarrow> paths_empty | Inr ps \<Rightarrow> ps)"

definition sample_cached :: file_entry where
  "sample_cached = \<lparr>fe_size = 4, fe_mtime_ns = 0, fe_ctime_ns = 0, fe_blksz = 4, fe_hashes = [sample_hash]\<rparr>"

definition sample_cache :: mem_db where
  "sample_cache = [((1, 7), entry_layout (as_ref sample_cached)), ((1, 8), entry_layout (as_ref sample_cached))]"

definition sample_fs :: mem_fs where
  "sample_fs = [(usr @ [Normal [98]], [1, 2, 3, 4]), (usr @ [Normal [97]], [1, 2, 3, 4])]"

definition sample_locs :: "loc list" where
  "sample_locs = [\<lparr>loc_file = 0, loc_chunk = 0\<rparr>, \<lparr>loc_file = 1, loc_chunk = 0\<rparr>]"

definition sample_index :: "index_key groups" where
  "sample_index = [(4, sample_hash) \<mapsto> sample_locs]"

definition sample_runs :: "pair_key \<rightharpoonup> run list" where
  "sample_runs = [(4, 0, 1) \<mapsto> [\<lparr>run_src = \<lparr>loc_file = 0, loc_chunk = 0\<rparr>, run_dst = \<lparr>loc_file = 1, loc_chunk = 0\<rparr>,
     run_chunks = 1\<rparr>]]"

lemma sample_push: "sample_pushes = Inr sample_paths" "table_fits (ps_table sample_paths)"
proof -
  have "\<exists>ps. sample_pushes = Inr ps \<and> table_fits (ps_table ps)"
    by (simp add: sample_pushes_def usr_def paths_push_def paths_empty_def intern.simps table_empty_def path_parent_def
        path_file_name_def push_dir_def add_name_def u32_try_from_def NO_PARENT_def as_os_str_def table_fits_def)
  then obtain ps where ps: "sample_pushes = Inr ps" "table_fits (ps_table ps)" by blast
  have "sample_paths = ps" unfolding sample_paths_def by (simp only: ps sum.case)
  then show "sample_pushes = Inr sample_paths" "table_fits (ps_table sample_paths)"
    using ps by (simp_all only:)
qed

lemma sample_paths_ok:
  "paths_inv sample_paths"
  "paths_list sample_paths = [(Some (Inr (usr @ [Normal [98]])), sample_hashed 7), (Some (Inr (usr @ [Normal [97]])), sample_hashed 8)]"
proof -
  have wf: "path_wf d \<and> name_ok n" if "(d, n, x) \<in> set [(usr, [98], sample_hashed 7), (usr, [97], sample_hashed 8)]" for d n x
    using that usr_wf by auto
  note all = push_all_list [OF paths_inv_empty wf sample_push(1) [unfolded sample_pushes_def] sample_push(2)]
  show "paths_inv sample_paths" by (rule all(1))
  show "paths_list sample_paths = [(Some (Inr (usr @ [Normal [98]])), sample_hashed 7), (Some (Inr (usr @ [Normal [97]])), sample_hashed 8)]"
    using all(2) by (simp add: paths_list_def paths_empty_def)
qed

lemma sample_files:
  obtains f g where "ps_files sample_paths = [(f, sample_hashed 7), (g, sample_hashed 8)]"
    "paths_path sample_paths f = Some (Inr (usr @ [Normal [98]]))"
    "paths_path sample_paths g = Some (Inr (usr @ [Normal [97]]))"
  using sample_paths_ok(2) by (auto simp: paths_list_def split: prod.splits)

lemma sample_get:
  "i = 7 \<or> i = 8 \<Longrightarrow> cache_get mem_redb sample_cache 1 i = Inr (Some sample_cached)"
proof -
  have "decode (entry_layout (as_ref sample_cached)) = Inr sample_cached"
    by (rule decode_layout) (simp add: entry_wf_def as_ref_def sample_cached_def sample_hash_def hash_wf_def HASH_LEN_def)
  then show "i = 7 \<or> i = 8 \<Longrightarrow> cache_get mem_redb sample_cache 1 i = Inr (Some sample_cached)"
    by (auto simp: cache_get_def mem_redb_def sample_cache_def)
qed

lemma sample_stream:
  "chunk_stream (entries_of (map_of sample_cache)) (ps_files sample_paths) =
    [(0, 0, sample_hashed 7, sample_hash), (1, 0, sample_hashed 8, sample_hash)]"
proof -
  obtain f g where files: "ps_files sample_paths = [(f, sample_hashed 7), (g, sample_hashed 8)]"
    by (rule sample_files)
  have "entries_of (map_of sample_cache) (1, i) = Some sample_cached" if "i = 7 \<or> i = 8" for i
    using cache_get_ok [OF mem_redb_lawful sample_get [OF that]] by simp
  moreover have "sample_hash \<noteq> ZERO_HASH"
    by (simp add: sample_hash_def ZERO_HASH_def HASH_LEN_def)
  ultimately show ?thesis
    by (simp add: chunk_stream_def file_chunks_def files sample_hashed_def sample_cached_def)
qed

lemma sample_groups: "dup_groups [(0, 0, sample_hashed 7, sample_hash), (1, 0, sample_hashed 8, sample_hash)] = sample_index"
  by (rule ext)
     (auto simp: dup_groups_def locs_of_def ref_key_def ref_loc_def sample_index_def sample_locs_def sample_hashed_def)

lemma sample_build_index: "build_index mem_redb sample_cache (ps_files sample_paths) = Inr sample_index"
proof -
  obtain f g where files: "ps_files sample_paths = [(f, sample_hashed 7), (g, sample_hashed 8)]"
    by (rule sample_files)
  have "build_index mem_redb sample_cache (ps_files sample_paths) =
      Inr (dup_groups (chunk_stream (entries_of (map_of sample_cache)) (ps_files sample_paths)))"
  proof (rule build_index_total_aux)
    fix p h assume "(p, h) \<in> set (ps_files sample_paths)"
    then have h: "h = sample_hashed 7 \<or> h = sample_hashed 8" by (auto simp: files)
    then have get: "cache_get mem_redb sample_cache (h_fsid h) (h_ino h) = Inr (Some sample_cached)"
      using sample_get by (auto simp: sample_hashed_def)
    from cache_get_ok [OF mem_redb_lawful this] get
    show "cache_get mem_redb sample_cache (h_fsid h) (h_ino h) = Inr (entries_of (map_of sample_cache) (h_fsid h, h_ino h))"
      by simp
  qed (auto simp: sample_stream [unfolded files] files)
  then show ?thesis by (simp only: sample_stream sample_groups)
qed

lemma sample_index_wf: "index_wf (ps_files sample_paths) sample_index"
  by (rule build_index_wf_aux [OF mem_redb_lawful sample_build_index])

lemma sample_order: "distinct [(4, sample_hash)]" "set [(4, sample_hash)] = dom sample_index"
  by (simp_all add: sample_index_def)

lemma sample_build_runs: "build_runs [(4, sample_hash)] sample_index (ps_files sample_paths) = Inr sample_runs"
proof -
  obtain f g where files: "ps_files sample_paths = [(f, sample_hashed 7), (g, sample_hashed 8)]"
    by (rule sample_files)
  show ?thesis
    by (simp add: build_runs_def sample_index_def push_group_def push_pair_def index_res_def sample_locs_def
        files sample_hashed_def chunk_len_def saturating_sub_def Let_def coalesce_def coalesce_step_def
        sample_runs_def fun_eq_iff)
qed

end
