(* ===== verification/DedupCorrect.thy ===== *)
theory DedupCorrect imports Samples "HOL-Library.Multiset" begin

text \<open>
  The properties of the index, the runs and the clone phase of \<open>src/dedup.rs\<close>.
\<close>

section \<open>A concrete run\<close>

definition force :: opts where
  "force = \<lparr>op_dry_run = False, op_fideduperange = False\<rparr>"

abbreviation sample_dedup :: "opts \<Rightarrow> (stats, mem_fs) io" where
  "sample_dedup opts \<equiv> dedup mem_kernel mem_redb (\<lambda>_. [(4, sample_hash)]) (\<lambda>_. [[(4, 0, 1)]]) sample_paths sample_cache opts"

definition sample_stats :: stats where
  "sample_stats = \<lparr>n_candidates = 1, n_verified = 1, n_cloned = 1, n_bytes = 4, n_mismatches = 0, n_busy = 0, n_errors = 0\<rparr>"

lemma force_flags: "\<not> op_dry_run force" "\<not> op_fideduperange force"
  by (simp_all add: force_def)

lemma sample_read:
  "f = 0 \<or> f = 1 \<Longrightarrow> length buf = 4 \<Longrightarrow> read_exact_at mem_kernel f buf 0 0 sample_fs = (Inr (), [1, 2, 3, 4], sample_fs)"
  by (subst read_exact_at.simps, subst read_exact_at.simps)
    (auto simp: mem_kernel_def mem_read_at_def mem_bytes_def mem_node_def sample_fs_def slice_of_def overwrite_def)

lemma sample_clone: "clone_range (kn_clone mem_kernel) 0 0 1 0 4 sample_fs = (Inr (), sample_fs)"
  by (simp add: Let_def clone_range_def mem_kernel_def mem_clone_def mem_bytes_def sample_fs_def slice_of_def overwrite_def)

lemma sample_verify:
  "ws_kernel s = sample_fs \<Longrightarrow> verify_and_clone mem_kernel force 0 0 1 0 4 True s =
     Some (Inr (Some 4), s\<lparr>ws_buf_a := [1, 2, 3, 4], ws_buf_b := [1, 2, 3, 4]\<rparr>)"
  by (simp add: verify_and_clone_def io_bind_def read_a_def read_b_def sample_read io_gets_def force_def
      io_context_def io_ioctl_def sample_clone io_ret_def)

abbreviation sample_pair :: "'k kernel \<Rightarrow> opts \<Rightarrow> 'k \<Rightarrow> (unit res \<times> 'k wstate) option" where
  "sample_pair K opts k \<equiv> pair_files K opts sample_paths 4 0 1
     [\<lparr>run_src = \<lparr>loc_file = 0, loc_chunk = 0\<rparr>, run_dst = \<lparr>loc_file = 1, loc_chunk = 0\<rparr>, run_chunks = 1\<rparr>]
     (worker_new k)"

lemma sample_dedup_pair:
  assumes "sample_pair K opts k = Some (Inr (), w)"
  shows "dedup K mem_redb (\<lambda>_. [(4, sample_hash)]) (\<lambda>_. [[(4, 0, 1)]]) sample_paths sample_cache opts k =
    Some (Inr (ws_stats w), ws_kernel w)"
proof -
  have "stats_add (ws_stats w) stats_default = ws_stats w" by simp
  then show ?thesis
    using assms
    by (simp add: dedup_def sample_build_index sample_build_runs io_lift_Inr run_task_def io_bind_def io_ret_def sample_runs_def)
qed

lemmas pair_eval = pair_files_def worker_open_def io_lift_Inr io_opt_Some index_res_def io_call_def io_context_def
  io_bind_def io_attempt_def io_ret_def worker_new_def do_run_def run_len_def sample_hashed_def saturating_sub_def
  bump_def io_modify_def loc_off_def count_result_def stats_add_def stats_default_def

lemma sample_dedup_runs: "\<exists>fs. sample_dedup force sample_fs = Some (Inr sample_stats, fs)"
proof -
  obtain f g where files: "ps_files sample_paths = [(f, sample_hashed 7), (g, sample_hashed 8)]"
    "paths_path sample_paths f = Some (Inr (usr @ [Normal [98]]))"
    "paths_path sample_paths g = Some (Inr (usr @ [Normal [97]]))"
    by (rule sample_files)
  have opens: "kn_open mem_kernel (usr @ [Normal [98]]) w sample_fs = (Inr 0, sample_fs)"
    "kn_open mem_kernel (usr @ [Normal [97]]) w sample_fs = (Inr 1, sample_fs)" for w
    by (simp_all add: mem_kernel_def mem_open_def sample_fs_def)
  have "\<exists>w. sample_pair mem_kernel force sample_fs = Some (Inr (), w) \<and> ws_stats w = sample_stats"
    by (simp add: pair_eval files opens sample_verify sample_stats_def force_flags)
  then show ?thesis using sample_dedup_pair by metis
qed

section \<open>The data is safe\<close>

text \<open>
  Deduplication keeps every file's contents. Over any kernel with the documented behaviour of
  its calls (short reads, failures at any point, clones that fail half-way), with any hash cache
  and any hash collisions in it, any order of the hash map and any split into tasks, with and
  without FIDEDUPERANGE: when no other process writes meanwhile, every file has the same bytes
  afterwards, whether \<open>dedup\<close> succeeds or fails.
\<close>

theorem dedup_keeps_contents:
  assumes "kernel_lawful K node content" "dedup K R order split ps db opts k = Some (r, k')"
  shows "content k' = content k"
  by (rule io_keepsD [OF within_dedup [OF assms(1)] assms(2)])

theorem dedup_keeps_contents_witness:
  "\<exists>fs. sample_dedup force sample_fs = Some (Inr sample_stats, fs) \<and> mem_bytes fs = mem_bytes sample_fs"
proof -
  obtain fs where run: "sample_dedup force sample_fs = Some (Inr sample_stats, fs)"
    using sample_dedup_runs by blast
  show ?thesis using dedup_keeps_contents [OF mem_kernel_lawful run] run by blast
qed

text \<open>
  A dry run makes no call that can write: replacing the kernel's FICLONERANGE, FIDEDUPERANGE
  and opening for writing by anything at all changes neither the result nor the final state.
\<close>

theorem dry_run_never_writes:
  assumes "op_dry_run opts"
  shows "dedup (K\<lparr>kn_open := (\<lambda>p w. if w then opn p else kn_open K p False),
             kn_dedupe := dd, kn_clone := cl\<rparr>) R order split ps db opts k =
         dedup K R order split ps db opts k"
  by (simp only: dedup_no_write [OF assms] flip: no_write_def)

theorem dry_run_never_writes_witness:
  "dedup (mem_kernel\<lparr>kn_open := (\<lambda>p w. if w then (\<lambda>p k. (Inr 9, [])) p else kn_open mem_kernel p False),
             kn_dedupe := (\<lambda>f a k. (Inl EPERM, [])), kn_clone := (\<lambda>f a k. (Inr (), []))\<rparr>) mem_redb
      (\<lambda>_. [(4, sample_hash)]) (\<lambda>_. [[(4, 0, 1)]]) sample_paths sample_cache
      \<lparr>op_dry_run = True, op_fideduperange = True\<rparr> sample_fs =
   sample_dedup \<lparr>op_dry_run = True, op_fideduperange = True\<rparr> sample_fs"
  by (rule dry_run_never_writes [where opn = "\<lambda>p k. (Inr 9, [])"]) simp

text \<open>
  C16. What a comparing \<open>verify_and_clone\<close> answers: when it succeeds, both ranges lie in their files to
  their ends, so that none was cut short, and it reports the length exactly if they hold the same bytes
  and a mismatch exactly if they differ, whatever the reused buffers held before.
\<close>

theorem verify_answers:
  assumes "kernel_lawful K node content" "n \<noteq> 0"
    "verify_and_clone K opts sf so df dst_off n True s = Some (Inr v, t)"
  shows "unat so + unat n \<le> length (content (ws_kernel s) (node (ws_kernel s) sf)) \<and>
    unat dst_off + unat n \<le> length (content (ws_kernel s) (node (ws_kernel s) df)) \<and>
    v = (if slice_of (unat so) (unat n) (content (ws_kernel s) (node (ws_kernel s) sf)) =
              slice_of (unat dst_off) (unat n) (content (ws_kernel s) (node (ws_kernel s) df))
           then Some n else None)"
  using verify_in_files [OF assms] verify_compare(2) [OF assms refl] by (simp add: range_of_def)

theorem verify_answers_witness:
  "\<exists>t. verify_and_clone mem_kernel force 0 0 1 0 4 True (worker_new sample_fs) = Some (Inr (Some 4), t) \<and>
     slice_of 0 4 (mem_bytes sample_fs 0) = slice_of 0 4 (mem_bytes sample_fs 1)"
proof -
  obtain t where run: "verify_and_clone mem_kernel force 0 0 1 0 4 True (worker_new sample_fs) = Some (Inr (Some 4), t)"
    using sample_verify [of "worker_new sample_fs"] by simp
  show ?thesis
    using verify_answers [OF mem_kernel_lawful _ run] run by (auto simp: mem_node_def split: if_splits)
qed

text \<open>
  The clone phase completes: once the index is built, over a store of paths that keeps its
  invariant, \<open>dedup\<close> returns statistics, whatever the kernel answers to any call; no loop runs
  forever, no index panics, and every error is counted.
\<close>

theorem dedup_completes:
  assumes "paths_inv ps" "table_fits (ps_table ps)" "redb_lawful R tab ttab"
    "build_index R db (ps_files ps) = Inr idx" "distinct (order idx)" "set (order idx) = dom idx"
  shows "\<exists>st k'. dedup K R order split ps db opts k = Some (Inr st, k')"
  by (rule dedup_completes_aux [where order = order, OF assms])

theorem dedup_completes_witness:
  "\<exists>st k'. dedup (mem_kernel\<lparr>kn_read_at := (\<lambda>f off n k. (Inl (OsError EPERM), k))\<rparr>) mem_redb
     (\<lambda>_. [(4, sample_hash)]) (\<lambda>_. [[(4, 0, 1)], []]) sample_paths sample_cache force sample_fs = Some (Inr st, k')"
  by (rule dedup_completes [OF sample_paths_ok(1) sample_push(2) mem_redb_lawful sample_build_index])
     (simp_all add: sample_index_def)

text \<open>
  The split into rayon tasks does not show: splits that run the pairs in the same order give
  the same statistics and the same final state, although each task has its own worker with its
  own counters and buffers, and tasks of one worker reuse them.
\<close>

theorem split_irrelevant:
  assumes "\<forall>pairs. concat (split pairs) = concat (split' pairs)"
  shows "dedup K R order split ps db opts = dedup K R order split' ps db opts"
  using assms by (simp add: dedup_def run_tasks_concat)

theorem split_irrelevant_witness:
  "dedup mem_kernel mem_redb (\<lambda>_. [(4, sample_hash)]) (\<lambda>_. [[(4, 0, 1)], [], [(4, 0, 2)]]) sample_paths sample_cache force =
   dedup mem_kernel mem_redb (\<lambda>_. [(4, sample_hash)]) (\<lambda>_. [[(4, 0, 1), (4, 0, 2)]]) sample_paths sample_cache force"
  by (rule split_irrelevant) simp

text \<open>
  The counters agree: every verified run is counted as cloned, except in a dry run, which
  clones nothing.
\<close>

theorem cloned_is_verified:
  assumes "dedup K R order split ps db opts k = Some (Inr st, k')"
  shows "n_cloned st = (if op_dry_run opts then 0 else n_verified st)"
  using assms count_tasks by (fastforce simp: dedup_def io_bind_Some io_simps)

theorem cloned_is_verified_witness:
  "\<exists>fs. sample_dedup force sample_fs = Some (Inr sample_stats, fs) \<and>
     n_cloned sample_stats = (if op_dry_run force then 0 else n_verified sample_stats)"
proof -
  obtain fs where run: "sample_dedup force sample_fs = Some (Inr sample_stats, fs)"
    using sample_dedup_runs by blast
  show ?thesis using cloned_is_verified [OF run] run by blast
qed

section \<open>The index\<close>

text \<open>
  C14. The index is exact: over any lawful cache, whatever the Bloom filter claims and however the
  8-byte pre-filter keys collide, \<open>build_index\<close> holds for each (block size, hash) the
  locations of all its non-zero chunks in file and chunk order, if there are two or more, and
  nothing else.
\<close>

theorem index_exact:
  assumes "redb_lawful R tab ttab" "build_index R db files = Inr idx"
  shows "idx = dup_groups (chunk_stream (entries_of (tab db)) files)"
  by (rule build_index_exact_aux(1) [OF assms])

theorem index_exact_witness:
  "build_index mem_redb sample_cache (ps_files sample_paths) = Inr sample_index \<and>
   sample_index = dup_groups (chunk_stream (entries_of (map_of sample_cache)) (ps_files sample_paths))"
  using index_exact [OF mem_redb_lawful sample_build_index] sample_build_index by simp

text \<open>
  Building the index succeeds whenever every entry can be read and the numbers fit 32 bits:
  the Bloom filter neither fails nor panics for any list of files.
\<close>

theorem index_built:
  assumes "\<forall>(p, h) \<in> set files. cache_get R db (h_fsid h) (h_ino h) = Inr (ents (h_fsid h, h_ino h))"
    "\<forall>(fi, ci, h, hash) \<in> set (chunk_stream ents files). ci < 2 ^ 32" "length files < 2 ^ 32"
  shows "\<exists>idx. build_index R db files = Inr idx"
  using build_index_total_aux [of files R db ents] assms by fastforce

theorem index_built_witness:
  "\<exists>idx. build_index mem_redb sample_cache (ps_files sample_paths) = Inr idx"
proof (rule index_built [where ents = "entries_of (map_of sample_cache)"])
  obtain f g where files: "ps_files sample_paths = [(f, sample_hashed 7), (g, sample_hashed 8)]"
    by (rule sample_files)
  have "entries_of (map_of sample_cache) (1, i) = Some sample_cached" if "i = 7 \<or> i = 8" for i
    using cache_get_ok [OF mem_redb_lawful sample_get [OF that]] by simp
  then show "\<forall>(p, h) \<in> set (ps_files sample_paths). cache_get mem_redb sample_cache (h_fsid h) (h_ino h) =
      Inr (entries_of (map_of sample_cache) (h_fsid h, h_ino h))"
    by (simp add: files sample_hashed_def sample_get)
  show "length (ps_files sample_paths) < 2 ^ 32" by (simp add: files)
qed (simp add: sample_stream)

text \<open>
  The index is well formed: each group has two or more locations in strictly increasing (file,
  chunk) order, so its first one is a stable canonical source, all of files with the group's
  block size, and no location is in two groups.
\<close>

theorem index_well_formed:
  assumes "redb_lawful R tab ttab" "build_index R db files = Inr idx"
  shows "index_wf files idx"
  by (rule build_index_wf_aux [OF assms])

theorem index_well_formed_witness:
  "build_index mem_redb sample_cache (ps_files sample_paths) = Inr sample_index \<and>
   index_wf (ps_files sample_paths) sample_index"
  using index_well_formed [OF mem_redb_lawful sample_build_index] sample_build_index by simp

text \<open>
  The hasher of the index's map uses the whole key as intended up to a constant: for a 16-byte
  hash it is the truncated key XOR 16, because hashing an array also writes its length, 16.
\<close>

theorem key_hash_value:
  assumes "hash_wf h"
  shows "index_key_hash (blksz, h) = dup_key blksz h XOR 16"
  by (rule chunk_key_hash [OF assms])

theorem key_hash_value_witness: "index_key_hash (4, sample_hash) = dup_key 4 sample_hash XOR 16"
  by (rule key_hash_value) (simp add: sample_hash_def hash_wf_def HASH_LEN_def)

section \<open>The runs\<close>

text \<open>
  C15. Coalescing loses and invents nothing, and joins whatever it can: for chunk pairs between one source
  and one destination file with different destination chunks, the runs expand to exactly these pairs,
  each as often as it was given, in the order of the destination; each run has at least one chunk and,
  if more than one, at most 16 MiB; and no run starts, in both files, where the one before it ends while
  one more chunk would have fitted into 16 MiB.
\<close>

theorem coalesce_exact:
  assumes "0 < (b :: u32)" "list_all (\<lambda>(src, dst). loc_file src = s \<and> loc_file dst = d) locs"
    "distinct (map dst_chunk locs)"
  shows "mset (concat (map expand (coalesce locs (ucast b)))) = mset locs \<and>
    sorted_wrt (<) (map dst_chunk (concat (map expand (coalesce locs (ucast b))))) \<and>
    list_all (run_ok (ucast b)) (coalesce locs (ucast b)) \<and>
    (\<forall>i. Suc i < length (coalesce locs (ucast b)) \<longrightarrow>
       \<not> joinable (ucast b) (coalesce locs (ucast b) ! i) (coalesce locs (ucast b) ! Suc i))"
proof -
  note c = coalesce_ok [OF assms(1), of s d locs] assms(2)
  have exp: "concat (map expand (coalesce locs (ucast b))) = sort_key dst_chunk locs"
    and ok: "runs_ok (ucast b) (coalesce locs (ucast b))"
    using c by (simp_all add: one_pair_def)
  have "distinct (map dst_chunk (sort_key dst_chunk locs))"
    using assms(3) by (simp add: distinct_map)
  then have "sorted_wrt (<) (map dst_chunk (sort_key dst_chunk locs))"
    by (simp add: strict_sorted_iff)
  then show ?thesis
    using ok unfolding exp by (simp add: runs_ok_def successively_conv_nth)
qed

theorem coalesce_exact_witness:
  "coalesce [(\<lparr>loc_file = 0, loc_chunk = 6\<rparr>, \<lparr>loc_file = 1, loc_chunk = 3\<rparr>),
       (\<lparr>loc_file = 0, loc_chunk = 5\<rparr>, \<lparr>loc_file = 1, loc_chunk = 2\<rparr>)] (ucast (4096 :: u32)) =
     [\<lparr>run_src = \<lparr>loc_file = 0, loc_chunk = 5\<rparr>, run_dst = \<lparr>loc_file = 1, loc_chunk = 2\<rparr>, run_chunks = 2\<rparr>] \<and>
   mset (expand \<lparr>run_src = \<lparr>loc_file = 0, loc_chunk = 5\<rparr>, run_dst = \<lparr>loc_file = 1, loc_chunk = 2\<rparr>, run_chunks = 2\<rparr>) =
     mset [(\<lparr>loc_file = 0, loc_chunk = 6\<rparr>, \<lparr>loc_file = 1, loc_chunk = 3\<rparr>),
       (\<lparr>loc_file = 0, loc_chunk = 5\<rparr>, \<lparr>loc_file = 1, loc_chunk = 2\<rparr>)]"
proof -
  let ?locs = "[(\<lparr>loc_file = 0, loc_chunk = 6\<rparr>, \<lparr>loc_file = 1, loc_chunk = 3\<rparr>),
       (\<lparr>loc_file = 0, loc_chunk = 5\<rparr>, \<lparr>loc_file = 1, loc_chunk = 2\<rparr>)]"
  have "list_all (\<lambda>(src, dst). loc_file src = 0 \<and> loc_file dst = 1) ?locs" "distinct (map dst_chunk ?locs)"
    by (simp_all add: dst_chunk_def)
  note exact = coalesce_exact [OF _ this, of 4096]
  have run: "coalesce ?locs (ucast (4096 :: u32)) =
      [\<lparr>run_src = \<lparr>loc_file = 0, loc_chunk = 5\<rparr>, run_dst = \<lparr>loc_file = 1, loc_chunk = 2\<rparr>, run_chunks = 2\<rparr>]"
    by (simp add: coalesce_def coalesce_step_def extends_def dst_chunk_def MAX_RUN_BYTES_def)
  then show ?thesis using conjunct1 [OF exact] by simp
qed

text \<open>
  C13. \<open>build_runs\<close> refines its specification: on a well-formed index it does not panic, and for
  each (block size, source file, destination file) it has runs exactly if the groups pair a first
  location with another one of equal non-zero length there; the runs stand for exactly these
  pairs, each once, in destination order.
\<close>

theorem runs_exact:
  assumes "index_wf files idx" "distinct order" "set order = dom idx"
  shows "\<exists>pairs. build_runs order idx files = Inr pairs \<and>
    (\<forall>k. case pairs k of None \<Rightarrow> dup_pairs idx files k = {}
       | Some runs \<Rightarrow> runs_ok (ucast (fst k)) runs \<and> distinct (concat (map expand runs)) \<and>
           sorted (map dst_chunk (concat (map expand runs))) \<and>
           set (concat (map expand runs)) = dup_pairs idx files k)"
proof (rule build_runs_spec [OF assms])
  fix pairs
  assume p: "build_runs order idx files = Inr pairs" "\<And>k. pairs k = None \<longleftrightarrow> dup_pairs idx files k = {}"
    "\<And>k runs. pairs k = Some runs \<Longrightarrow> 0 < fst k \<and> runs_ok (ucast (fst k)) runs \<and>
       sorted (map dst_chunk (concat (map expand runs))) \<and>
       distinct (map dst_chunk (concat (map expand runs))) \<and>
       set (concat (map expand runs)) = dup_pairs idx files k"
  show ?thesis
    using p by (intro exI [of _ pairs]) (fastforce simp: distinct_map split: option.split)
qed

theorem runs_exact_witness:
  "\<exists>pairs. build_runs [(4, sample_hash)] sample_index (ps_files sample_paths) = Inr pairs \<and>
    (\<forall>k. case pairs k of None \<Rightarrow> dup_pairs sample_index (ps_files sample_paths) k = {}
       | Some runs \<Rightarrow> runs_ok (ucast (fst k)) runs \<and> distinct (concat (map expand runs)) \<and>
           sorted (map dst_chunk (concat (map expand runs))) \<and>
           set (concat (map expand runs)) = dup_pairs sample_index (ps_files sample_paths) k)"
  by (rule runs_exact [OF sample_index_wf sample_order])

text \<open>
  The unspecified iteration order of the hash map does not matter: any two orders of the
  groups give the same runs.
\<close>

theorem runs_order_irrelevant:
  assumes "index_wf files idx" "distinct order" "set order = dom idx" "distinct order'" "set order' = dom idx"
  shows "build_runs order idx files = build_runs order' idx files"
  by (rule build_runs_order_aux [OF assms])

theorem runs_order_irrelevant_witness:
  "build_runs [(4, sample_hash)] sample_index (ps_files sample_paths) =
   build_runs (rev [(4, sample_hash)]) sample_index (ps_files sample_paths)"
  by (rule runs_order_irrelevant [OF sample_index_wf sample_order]) (simp_all add: sample_index_def)

text \<open>The chunk of an inode that a location stands for.\<close>

definition inode_chunk :: "(file_path \<times> hashed) list \<Rightarrow> loc \<Rightarrow> u64 \<times> u32" where
  "inode_chunk files l = (h_ino (snd (files ! unat (loc_file l))), loc_chunk l)"

lemma inode_chunk_inj:
  assumes "distinct (map (h_ino \<circ> snd) files)" "unat (loc_file l) < length files" "unat (loc_file l') < length files"
    "inode_chunk files l = inode_chunk files l'"
  shows "l = l'"
proof -
  have "map (h_ino \<circ> snd) files ! unat (loc_file l) = map (h_ino \<circ> snd) files ! unat (loc_file l')"
    using assms(2-4) by (simp add: inode_chunk_def)
  then have "unat (loc_file l) = unat (loc_file l')"
    using assms(1-3) by (simp only: nth_eq_iff_index_eq length_map)
  then show ?thesis using assms(4) by (simp add: inode_chunk_def word_unat_eq_iff)
qed

lemma dup_pairs_located:
  assumes "index_wf files idx" "(src, dst) \<in> dup_pairs idx files k"
  shows "unat (loc_file src) < length files" "unat (loc_file dst) < length files"
proof -
  obtain b s d h ls where k: "k = (b, s, d)" "idx (b, h) = Some ls" "src = hd ls" "dst \<in> set (tl ls)"
    using assms(2) by (cases k) (auto simp: dup_pairs_def)
  have "list_all (\<lambda>l. unat (loc_file l) < length files) ls"
    using index_wfD(1) [OF assms(1) k(2)] by (auto simp: group_wf_def list_all_iff)
  then show "unat (loc_file src) < length files" "unat (loc_file dst) < length files"
    using k(3,4) by (cases ls; simp add: list_all_iff)+
qed

text \<open>
  C31. Parallel tasks do not step on each other. When the files of a dataset are different inodes, a
  chunk of an inode into which some run clones is the destination of one chunk pair of one task key
  only, and no run of any key reads it as a source; so no task writes what another one reads or writes.
  (Files found under two overlapping roots are not different inodes.)
\<close>

theorem destinations_disjoint:
  assumes "index_wf files idx" "distinct order" "set order = dom idx" "build_runs order idx files = Inr pairs"
    "distinct (map (h_ino \<circ> snd) files)"
    "pairs k = Some rs" "r \<in> set rs" "(src, dst) \<in> set (expand r)"
    "pairs k' = Some rs'" "r' \<in> set rs'" "(src', dst') \<in> set (expand r')"
  shows "inode_chunk files dst \<noteq> inode_chunk files src' \<and>
    (inode_chunk files dst = inode_chunk files dst' \<longrightarrow> k = k' \<and> src = src' \<and> dst = dst')"
proof -
  have pairs: "(src, dst) \<in> dup_pairs idx files k" "(src', dst') \<in> dup_pairs idx files k'"
    using build_runs_specD(2) [OF assms(1-4)] assms(6-11) by (fastforce simp: set_concat)+
  note files = dup_pairs_located [OF assms(1)] and inj = inode_chunk_inj [OF assms(5)]
  have "dst = src'" if "inode_chunk files dst = inode_chunk files src'"
    using inj files pairs that by blast
  moreover have "dst = dst'" if "inode_chunk files dst = inode_chunk files dst'"
    using inj files pairs that by blast
  ultimately show ?thesis using dup_pairs_unique [OF assms(1) pairs] by blast
qed

text \<open>Three files with one block of the same bytes: two runs, of two keys, with one source.\<close>

definition three_files :: "(file_path \<times> hashed) list" where
  "three_files = map (\<lambda>i. (\<lparr>fp_dir = 0, fp_off = 0, fp_len = 0\<rparr>, sample_hashed i)) [7, 8, 9]"

definition three_index :: "index_key groups" where
  "three_index = [(4, sample_hash) \<mapsto> map (\<lambda>i. \<lparr>loc_file = i, loc_chunk = 0\<rparr>) [0, 1, 2]]"

definition run_into :: "u32 \<Rightarrow> run" where
  "run_into i = \<lparr>run_src = \<lparr>loc_file = 0, loc_chunk = 0\<rparr>, run_dst = \<lparr>loc_file = i, loc_chunk = 0\<rparr>, run_chunks = 1\<rparr>"

lemma three_wf: "index_wf three_files three_index"
  by (auto simp: index_wf_def group_wf_def three_index_def three_files_def sample_hashed_def loc_less_def split: if_splits)

lemma three_runs:
  "build_runs [(4, sample_hash)] three_index three_files = Inr [(4, 0, 1) \<mapsto> [run_into 1], (4, 0, 2) \<mapsto> [run_into 2]]"
  by (simp add: build_runs_def three_index_def three_files_def push_group_def push_pair_def index_res_def
      sample_hashed_def chunk_len_def saturating_sub_def Let_def coalesce_def coalesce_step_def run_into_def fun_eq_iff)

theorem destinations_disjoint_witness:
  "\<exists>pairs. build_runs [(4, sample_hash)] three_index three_files = Inr pairs \<and>
     pairs (4, 0, 1) = Some [run_into 1] \<and> pairs (4, 0, 2) = Some [run_into 2] \<and>
     inode_chunk three_files (run_dst (run_into 1)) \<noteq> inode_chunk three_files (run_src (run_into 2)) \<and>
     inode_chunk three_files (run_dst (run_into 1)) \<noteq> inode_chunk three_files (run_dst (run_into 2))"
proof -
  let ?pairs = "[(4, 0, 1) \<mapsto> [run_into 1], (4, 0, 2) \<mapsto> [run_into 2]] :: pair_key \<rightharpoonup> run list"
  have order: "distinct [(4, sample_hash)]" "set [(4, sample_hash)] = dom three_index"
    by (simp_all add: three_index_def)
  have inodes: "distinct (map (h_ino \<circ> snd) three_files)" by (simp add: three_files_def sample_hashed_def)
  have runs: "?pairs (4, 0, 1) = Some [run_into 1]" "?pairs (4, 0, 2) = Some [run_into 2]" by simp_all
  have exp: "(run_src (run_into i), run_dst (run_into i)) \<in> set (expand (run_into i))" for i
    by (simp add: expand_def run_into_def)
  have "run_into 1 \<in> set [run_into 1]" "run_into 2 \<in> set [run_into 2]" by simp_all
  from destinations_disjoint [OF three_wf order three_runs inodes runs(1) this(1) exp runs(2) this(2) exp]
  show ?thesis using three_runs runs by auto
qed

section \<open>The ioctls and their errors\<close>

text \<open>
  The answer of FIDEDUPERANGE is decoded the same way whether an error comes back from the call
  or in the status field: a status of 0 and 1 and the three errors of a missing implementation
  are values, every other error is that error.
\<close>

theorem dedupe_error_decoded:
  assumes "e \<noteq> 0" "- e \<noteq> 1"
  shows "fst (dedupe_range (\<lambda>f a k. (Inl e, k)) src so dst d n k) =
         fst (dedupe_range (\<lambda>f a k. (Inr (a\<lparr>do_info := (do_info a)\<lparr>di_status := - e\<rparr>\<rparr>), k)) src so dst d n k) \<and>
     fst (dedupe_range (\<lambda>f a k. (Inl e, k)) src so dst d n k) =
       (if e \<in> {ENOTTY, EOPNOTSUPP, ENOSYS} then Inr Unsupported else Inl e)"
  using assms by (simp add: dedupe_range_def output_from_ptr_def FILE_DEDUPE_RANGE_DIFFERS_def Let_def)

theorem dedupe_error_decoded_witness:
  "fst (dedupe_range (\<lambda>f a k. (Inl EINVAL, k)) 3 0 4 0 8 ()) =
         fst (dedupe_range (\<lambda>f a k. (Inr (a\<lparr>do_info := (do_info a)\<lparr>di_status := - EINVAL\<rparr>\<rparr>), k)) 3 0 4 0 8 ()) \<and>
     fst (dedupe_range (\<lambda>f a k. (Inl EINVAL, k)) 3 0 4 0 8 ()) =
       (if EINVAL \<in> {ENOTTY, EOPNOTSUPP, ENOSYS} then Inr Unsupported else Inl EINVAL)"
  by (rule dedupe_error_decoded) (simp_all add: EINVAL_def)

text \<open>
  The probe's data cannot be stored inline: its 16384 words are produced by a generator that
  never yields 0 from a seed other than 0, and the data is exactly 128 KiB.
\<close>

theorem probe_data_nonzero:
  "length probe_data = 128 * 1024 \<and>
   probe_data = concat (map (le_bytes 8) (xorshifts 16384 0x9e3779b97f4a7c15)) \<and>
   0 \<notin> set (xorshifts 16384 0x9e3779b97f4a7c15)"
  using length_probe_data xorshifts_nonzero [of "0x9e3779b97f4a7c15" 16384]
  by (simp only: probe_data_def PROBE_LEN_def) simp

text \<open>
  C39. A busy destination fails the run when only the ioctl notices: when the ranges were read and are
  equal and FICLONERANGE fails, the run counts as an error whatever the error number, also for
  \<open>EAGAIN\<close>, \<open>ETXTBSY\<close> and \<open>EPERM\<close>, because the ioctl's error is not a \<open>std::io::Error\<close>.
\<close>

theorem clone_error_is_failure:
  assumes "read_a K sf so n s = Some (Inr (), s1)" "read_b K df dst_off n s1 = Some (Inr (), s2)"
    "ws_buf_a s2 = ws_buf_b s2" "\<not> op_dry_run opts"
    "clone_range (kn_clone K) sf so df dst_off n (ws_kernel s2) = (Inl e, k')"
  shows "io_bind (io_attempt (verify_and_clone K opts sf so df dst_off n True)) (count_result opts) s =
    Some (Inr (), s2\<lparr>ws_kernel := k', ws_stats := stats_add (ws_stats s2) (stats_default\<lparr>n_errors := 1\<rparr>)\<rparr>)"
  using assms
  by (simp add: io_bind_def io_attempt_def verify_and_clone_def io_gets_def io_context_def io_ioctl_def
      count_result_def count_error_def bump_def io_modify_def)

theorem clone_error_is_failure_witness:
  "\<exists>t. io_bind (io_attempt (verify_and_clone (mem_kernel\<lparr>kn_clone := (\<lambda>f a k. (Inl EAGAIN, k))\<rparr>) force 0 0 1 0 4 True))
      (count_result force) (worker_new sample_fs) = Some (Inr (), t) \<and> n_errors (ws_stats t) = 1 \<and> n_busy (ws_stats t) = 0"
proof -
  let ?K = "mem_kernel\<lparr>kn_clone := (\<lambda>f a k. (Inl EAGAIN, k))\<rparr>"
  have read: "read_exact_at ?K f buf 0 0 sample_fs = (Inr (), [1, 2, 3, 4], sample_fs)"
    if "f = 0 \<or> f = 1" "length buf = 4" for f buf
    using that by (subst read_exact_at.simps, subst read_exact_at.simps)
      (auto simp: mem_kernel_def mem_read_at_def mem_bytes_def mem_node_def sample_fs_def slice_of_def overwrite_def)
  let ?s1 = "(worker_new sample_fs)\<lparr>ws_buf_a := [1, 2, 3, 4]\<rparr>"
  have a: "read_a ?K 0 0 4 (worker_new sample_fs) = Some (Inr (), ?s1)"
    by (simp add: read_a_def read worker_new_def)
  have b: "read_b ?K 1 0 4 ?s1 = Some (Inr (), ?s1\<lparr>ws_buf_b := [1, 2, 3, 4]\<rparr>)"
    by (simp add: read_b_def read worker_new_def)
  show ?thesis
    by (subst clone_error_is_failure [OF a b])
       (simp_all add: force_def clone_range_def worker_new_def stats_add_def stats_default_def)
qed

text \<open>
  Errors of opening a file of a pair are classified as the comments say: a file that has vanished
  is skipped without a trace, one in use (\<open>EAGAIN\<close>, \<open>ETXTBSY\<close>, \<open>EPERM\<close>) is counted as busy, any
  other error as an error; in all cases the pair ends there.
\<close>

theorem open_error_classified:
  assumes "ps_files ps ! unat s = (fp, h)" "unat s < length (ps_files ps)" "paths_path ps fp = Some (Inr p)"
    "kn_open K p False (ws_kernel w) = (Inl (OsError e), k')"
  shows "pair_files K opts ps blksz s d runs w = Some (Inr (), w\<lparr>ws_kernel := k', ws_stats := stats_add (ws_stats w)
    (if e = ENOENT then stats_default
     else if e \<in> {EAGAIN, ETXTBSY, EPERM} then stats_default\<lparr>n_busy := 1\<rparr>
     else stats_default\<lparr>n_errors := 1\<rparr>)\<rparr>)"
proof -
  have "worker_open K opts ps (unat s) False w = Some (Inl (Fail [Message ''open'', IoCause (OsError e)]), w\<lparr>ws_kernel := k'\<rparr>)"
    using assms by (simp add: worker_open_def index_res_def io_lift_Inr io_opt_Some io_context_def io_call_def)
  then have "pair_files K opts ps blksz s d runs w =
      count_error [Message ''open'', IoCause (OsError e)] (w\<lparr>ws_kernel := k'\<rparr>)"
    by (simp add: pair_files_def Let_def io_bind_def io_attempt_def)
  then show ?thesis
    by (simp add: count_error_def classify_os_error io_ret_def bump_def io_modify_def)
qed

theorem open_error_classified_witness:
  "\<exists>t. pair_files (mem_kernel\<lparr>kn_open := (\<lambda>p w k. (Inl (OsError ETXTBSY), k))\<rparr>) force sample_paths 4 0 1 []
     (worker_new sample_fs) = Some (Inr (), t) \<and> n_busy (ws_stats t) = 1"
proof -
  obtain f g where files: "ps_files sample_paths = [(f, sample_hashed 7), (g, sample_hashed 8)]"
    "paths_path sample_paths f = Some (Inr (usr @ [Normal [98]]))"
    by (rule sample_files)
  have "ps_files sample_paths ! unat (0 :: u32) = (f, sample_hashed 7)" "unat (0 :: u32) < length (ps_files sample_paths)"
    by (simp_all add: files(1))
  note run = open_error_classified [OF this files(2), where K = "mem_kernel\<lparr>kn_open := (\<lambda>p w k. (Inl (OsError ETXTBSY), k))\<rparr>"
      and w = "worker_new sample_fs" and e = ETXTBSY and k' = sample_fs and opts = force and blksz = 4 and d = 1 and runs = "[]"]
  have "ETXTBSY \<noteq> ENOENT" by (simp add: errno_defs)
  with run show ?thesis by (simp add: worker_new_def stats_add_def stats_default_def)
qed

end
