(* ===== verification/RunAll.thy ===== *)
theory RunAll imports Cli DedupCorrect begin

text \<open>
  The second half of \<open>src/main.rs\<close>: \<open>run\<close> composes every component, one dataset after the other, and
  \<open>main\<close> turns its result into an exit code. What the run acts on is the record \<open>world\<close>: the system
  calls of each component over one kernel state, the database, the hash function, and the choices
  that the program leaves to others (the order of a hash map, the split into tasks, the arrival of
  directory batches). Messages and the numbers that are only printed are left out.
\<close>

record ('k, 'r, 'db, 'tx) world =
  wd_mount :: "'k mount_env"
  wd_zfs :: "'k zfs_env"
  wd_temp :: "'k temp_env"
  wd_kernel :: "'k kernel"
  wd_files :: "'k \<Rightarrow> 'r file_env"
  wd_batches :: "'k \<Rightarrow> path \<Rightarrow> u64 \<Rightarrow> dir_batch list"
  wd_stat :: "path \<Rightarrow> 'k \<Rightarrow> io_error + metadata"
  wd_create_dir_all :: "path \<Rightarrow> 'k \<Rightarrow> (io_error + unit) \<times> 'k"
  wd_canonicalize :: "path \<Rightarrow> 'k \<Rightarrow> io_error + path"
  wd_redb :: "('db, 'tx) redb"
  wd_xxh3 :: "u8 list \<Rightarrow> u128"
  wd_order :: "index_key groups \<Rightarrow> index_key list"
  wd_split :: "(pair_key \<rightharpoonup> run list) \<Rightarrow> pair_key list list"

text \<open>The state of a run, once the cache is open.\<close>

record ('k, 'db) rstate =
  rn_kernel :: 'k
  rn_db :: 'db
  rn_stats :: stats
  rn_total :: u64
  rn_hash_errors :: u64

definition on_kernel :: "('a, 'k) io \<Rightarrow> ('a, ('k, 'db) rstate) io" where
  "on_kernel m s = map_option (\<lambda>(r, k). (r, s\<lparr>rn_kernel := k\<rparr>)) (m (rn_kernel s))"

definition io_query :: "('s \<Rightarrow> 'a res) \<Rightarrow> ('a, 's) io" where
  "io_query f s = Some (f s, s)"

section \<open>Which directories to scan\<close>

text \<open>A \<open>BTreeSet\<close> is the sorted list of its elements.\<close>

definition btree_extend :: "path list \<Rightarrow> path list \<Rightarrow> path list" where
  "btree_extend ps dirs = fold insort_insert ps dirs"

definition collect_dirs ::
    "('k, 'r, 'db, 'tx) world \<Rightarrow> path list \<Rightarrow> path list \<Rightarrow> 'k \<Rightarrow> path list res" where
  "collect_dirs W mounts ds k =
     (if ds = [] then Inr (btree_extend mounts [])
      else fold_res (\<lambda>d dirs.
        rbind (with_context ''resolve'' (from_io (wd_canonicalize W d k))) (\<lambda>root.
        Inr (insort_insert root (btree_extend (filter (\<lambda>m. starts_with m root) mounts) dirs)))) ds [])"

text \<open>\<open>by_fsid\<close>: a \<open>BTreeMap\<close> as a list sorted by its keys; a directory without an id is left out.\<close>

fun add_dir :: "u64 \<Rightarrow> path \<Rightarrow> (u64 \<times> path list) list \<Rightarrow> (u64 \<times> path list) list" where
  "add_dir fs d [] = [(fs, [d])]"
| "add_dir fs d ((f, ds) # groups) =
     (if fs = f then (f, ds @ [d]) # groups
      else if fs < f then (fs, [d]) # (f, ds) # groups
      else (f, ds) # add_dir fs d groups)"

definition by_fsid :: "(path \<Rightarrow> u64 res) \<Rightarrow> path list \<Rightarrow> (u64 \<times> path list) list" where
  "by_fsid fsid_of dirs = fold (\<lambda>d groups. case fsid_of d of Inl e \<Rightarrow> groups | Inr fs \<Rightarrow> add_dir fs d groups) dirs []"

section \<open>One dataset\<close>

text \<open>The closure of \<open>filter_map\<close>, over the filter, the statistics and the number of errors.\<close>

definition keep_hashed ::
    "file_path \<Rightarrow> anyhow + hashed \<Rightarrow> path_table \<Rightarrow> bloom \<times> stats \<times> u64 \<Rightarrow> (hashed option \<times> bloom \<times> stats \<times> u64) res" where
  "keep_hashed p r arena = (\<lambda>(seen, st, errs).
     case r of
       Inr h \<Rightarrow> rbind (bloom_insert seen (prune_key (h_fsid h) (h_ino h))) (\<lambda>seen. Inr (Some h, seen, st, errs))
     | Inl e \<Rightarrow>
         if is_not_found e then Inr (None, seen, st, errs)
         else if is_busy e then Inr (None, seen, stats_add st (stats_default\<lparr>n_busy := 1\<rparr>), errs)
         else Inr (None, seen, st, errs + 1))"

definition hash_dataset ::
    "('k, 'r, 'db, 'tx) world \<Rightarrow> u64 paths \<Rightarrow> ((anyhow + hashed) paths, ('k, 'db) rstate) io" where
  "hash_dataset W ps s = map_option (\<lambda>(r, db). (r, s\<lparr>rn_db := db\<rparr>))
     (hash_files (wd_files W (rn_kernel s)) (wd_redb W) (wd_xxh3 W) (rn_db s) ps)"

definition keep_dataset :: "bloom \<Rightarrow> (anyhow + hashed) paths \<Rightarrow> (hashed paths \<times> bloom, ('k, 'db) rstate) io" where
  "keep_dataset seen results s =
     (case paths_filter_map results keep_hashed (seen, rn_stats s, rn_hash_errors s) of
        Inl e \<Rightarrow> Some (Inl e, s)
      | Inr (hashed, seen, st, errs) \<Rightarrow> Some (Inr (hashed, seen), s\<lparr>rn_stats := st, rn_hash_errors := errs\<rparr>))"

definition prune_dataset :: "('k, 'r, 'db, 'tx) world \<Rightarrow> bloom \<Rightarrow> u64 \<Rightarrow> (unit, ('k, 'db) rstate) io" where
  "prune_dataset W seen fs s =
     (case cache_prune (wd_redb W) (rn_db s) (\<lambda>f i. bloom_contains seen (prune_key f i)) {fs} of
        Inl e \<Rightarrow> Some (Inl e, s)
      | Inr (n, db) \<Rightarrow> Some (Inr (), s\<lparr>rn_db := db\<rparr>))"

definition scan_dataset ::
    "('k, 'r, 'db, 'tx) world \<Rightarrow> path list \<Rightarrow> inode set \<Rightarrow> u64 \<Rightarrow> path list \<Rightarrow> (hashed paths, ('k, 'db) rstate) io" where
  "scan_dataset W mounts exclude fs ds =
     io_bind (io_query (\<lambda>s. walk_files (\<lambda>p. wd_stat W p (rn_kernel s)) (\<lambda>p. walk_fsid (wd_mount W) p (rn_kernel s))
                (wd_batches W (rn_kernel s)) ds exclude)) (\<lambda>ps.
     io_bind (hash_dataset W ps) (\<lambda>results.
     io_bind (keep_dataset (bloom_new (of_nat (length (ps_files ps)))) results) (\<lambda>(hashed, seen).
     io_bind (io_modify (\<lambda>s. s\<lparr>rn_total := rn_total s + sum_list (map (h_size \<circ> snd) (ps_files hashed))\<rparr>)) (\<lambda>_.
     io_bind (if list_all (\<lambda>d. d \<in> set mounts) ds then prune_dataset W seen fs else io_ret ()) (\<lambda>_.
     io_ret hashed)))))"

definition dedup_dataset ::
    "('k, 'r, 'db, 'tx) world \<Rightarrow> opts \<Rightarrow> hashed paths \<Rightarrow> (unit, ('k, 'db) rstate) io" where
  "dedup_dataset W opts hashed s = map_option (\<lambda>(r, k).
     case r of
       Inl e \<Rightarrow> (Inl e, s\<lparr>rn_kernel := k\<rparr>)
     | Inr st \<Rightarrow> (Inr (), s\<lparr>rn_kernel := k, rn_stats := stats_add (rn_stats s) st\<rparr>))
     (dedup (wd_kernel W) (wd_redb W) (wd_order W) (wd_split W) hashed (rn_db s) opts (rn_kernel s))"

definition do_dataset ::
    "('k, 'r, 'db, 'tx) world \<Rightarrow> path list \<Rightarrow> inode set \<Rightarrow> opts \<Rightarrow> u64 \<times> path list \<Rightarrow> (unit, ('k, 'db) rstate) io" where
  "do_dataset W mounts exclude opts = (\<lambda>(fs, ds).
     io_bind (scan_dataset W mounts exclude fs ds) (dedup_dataset W opts))"

section \<open>The run\<close>

definition excluded :: "io_error + metadata \<Rightarrow> inode set" where
  "excluded m = (case m of Inl e \<Rightarrow> {} | Inr m \<Rightarrow> {(md_dev m, md_ino m)})"

text \<open>Finding the directories, up to the check that there is one.\<close>

definition scan_dirs ::
    "('k, 'r, 'db, 'tx) world \<Rightarrow> args \<Rightarrow> bool \<Rightarrow> path list \<Rightarrow> (path list, ('k, 'db) rstate) io" where
  "scan_dirs W args private_ns mounts =
     io_bind (io_query (\<lambda>s. collect_dirs W mounts (ar_dirs args) (rn_kernel s))) (\<lambda>dirs.
     io_bind (io_gets (\<lambda>s. filter (\<lambda>d. is_zfs (wd_zfs W) d (rn_kernel s)) dirs)) (\<lambda>dirs.
     io_bind (if private_ns then on_kernel (remount_rw_binds (wd_mount W) dirs) else io_ret ()) (\<lambda>_.
     io_bind (io_gets (\<lambda>s. filter (\<lambda>d. \<not> is_ro (wd_mount W) d (rn_kernel s)) dirs)) (\<lambda>dirs.
     if dirs = [] then io_lift (Inl (Fail [Message ''nothing to scan''])) else io_ret dirs))))"

definition probe_dirs :: "('k, 'r, 'db, 'tx) world \<Rightarrow> path list \<Rightarrow> (bool, ('k, 'db) rstate) io" where
  "probe_dirs W dirs = on_kernel (\<lambda>k. case probe_fideduperange (wd_temp W) dirs k of (b, k) \<Rightarrow> Some (Inr b, k))"

definition compact_cache :: "('k, 'r, 'db, 'tx) world \<Rightarrow> args \<Rightarrow> (unit, ('k, 'db) rstate) io" where
  "compact_cache W args s =
     (case compact_if_bloated (wd_redb W) (map_sum id md_size (wd_stat W (ar_cache args) (rn_kernel s))) (rn_db s) of
        Inl e \<Rightarrow> Some (Inl e, s)
      | Inr (b, db) \<Rightarrow> Some (Inr (), s\<lparr>rn_db := db\<rparr>))"

text \<open>After the directories are known: the probe, the gate, and the datasets one by one.\<close>

definition run_datasets ::
    "('k, 'r, 'db, 'tx) world \<Rightarrow> args \<Rightarrow> path list \<Rightarrow> path list \<Rightarrow> (bool, ('k, 'db) rstate) io" where
  "run_datasets W args mounts dirs =
     io_bind (if \<not> ar_dry_run args then probe_dirs W dirs else io_ret False) (\<lambda>fideduperange.
     if \<not> ar_dry_run args \<and> \<not> fideduperange \<and> \<not> ar_force args
     then io_lift (Inl (Fail [Message ''This ZFS does not support FIDEDUPERANGE'']))
     else
       io_bind (io_gets (\<lambda>s. excluded (wd_stat W (ar_cache args) (rn_kernel s)))) (\<lambda>exclude.
       io_bind (io_gets (\<lambda>s. by_fsid (\<lambda>d. walk_fsid (wd_mount W) d (rn_kernel s)) dirs)) (\<lambda>groups.
       io_bind (io_for (do_dataset W mounts exclude
                  \<lparr>op_dry_run = ar_dry_run args, op_fideduperange = fideduperange\<rparr>) groups) (\<lambda>_.
       io_bind (compact_cache W args) (\<lambda>_.
       io_gets (\<lambda>s. rn_hash_errors s = 0 \<and> n_errors (rn_stats s) = 0))))))"

definition run_body ::
    "('k, 'r, 'db, 'tx) world \<Rightarrow> args \<Rightarrow> bool \<Rightarrow> (bool, ('k, 'db) rstate) io" where
  "run_body W args private_ns =
     io_bind (io_query (\<lambda>s. zfs_mounts (wd_mount W) (wd_zfs W) (rn_kernel s))) (\<lambda>mounts.
     io_bind (scan_dirs W args private_ns mounts) (run_datasets W args mounts))"

text \<open>
  \<open>run\<close>: the database is opened first; the result says whether everything could be processed, with the
  kernel's state and, once it is open, the database.
\<close>

definition make_cache_dir :: "('k, 'r, 'db, 'tx) world \<Rightarrow> args \<Rightarrow> (unit, 'k) io" where
  "make_cache_dir W args k = (case path_parent (ar_cache args) of
     None \<Rightarrow> Some (Inr (), k)
   | Some parent \<Rightarrow> (case wd_create_dir_all W parent k of (r, k) \<Rightarrow> Some (from_io r, k)))"

definition run_start :: "'k \<Rightarrow> 'db \<Rightarrow> ('k, 'db) rstate" where
  "run_start k db = \<lparr>rn_kernel = k, rn_db = db, rn_stats = stats_default, rn_total = 0, rn_hash_errors = 0\<rparr>"

definition run_all :: "('k, 'r, 'db, 'tx) world \<Rightarrow> args \<Rightarrow> bool \<Rightarrow> 'k \<Rightarrow> (bool res \<times> 'k \<times> 'db option) option" where
  "run_all W args private_ns k =
     (case make_cache_dir W args k of
        None \<Rightarrow> None
      | Some (Inl e, k) \<Rightarrow> Some (Inl e, k, None)
      | Some (Inr _, k) \<Rightarrow>
          (case with_context ''open cache'' (cache_open (wd_redb W) (as_os_str (ar_cache args))) of
             Inl e \<Rightarrow> Some (Inl e, k, None)
           | Inr db \<Rightarrow> map_option (\<lambda>(r, s). (r, rn_kernel s, Some (rn_db s)))
                         (run_body W args private_ns (run_start k db))))"

section \<open>The exit code\<close>

text \<open>A panic ends a Rust process with code 101. The size of the thread pool is not modelled.\<close>

definition exit_code :: "bool res \<Rightarrow> nat" where
  "exit_code r = (case r of Inr True \<Rightarrow> 0 | Inr False \<Rightarrow> 1 | Inl (Fail e) \<Rightarrow> 1 | Inl Panic \<Rightarrow> 101)"

definition main_program ::
    "('k, 'r, 'db, 'tx) world \<Rightarrow> 'p lexopt \<Rightarrow> (string \<Rightarrow> u8 list option) \<Rightarrow> 'p \<Rightarrow> 'k \<Rightarrow> (nat \<times> 'k) option" where
  "main_program W P env p k =
     (case parse_args P env p of
        None \<Rightarrow> None
      | Some (BadUsage e) \<Rightarrow> Some (2, k)
      | Some ExitSuccess \<Rightarrow> Some (0, k)
      | Some (Parsed args) \<Rightarrow>
          (case enter_private_mount_ns (wd_mount W) k of
             None \<Rightarrow> None
           | Some (r, k) \<Rightarrow>
               map_option (\<lambda>(r, k, db). (exit_code r, k))
                 (run_all W args (case r of Inl e \<Rightarrow> False | Inr _ \<Rightarrow> True) k)))"

end
