(* ===== verification/RunFacts.thy ===== *)
theory RunFacts imports RunAll begin

text \<open>
  What a whole run keeps: the contents of every file, and of the cache every entry that a full scan
  has not found gone.
\<close>

section \<open>What the other calls promise\<close>

text \<open>
  The calls outside the clone phase: creating the directory of the cache and remounting change no
  file's contents, and what the probe does, it does to the unnamed files it has created; \<open>anon\<close> says
  which descriptors are such files.
\<close>

definition temp_lawful :: "'k temp_env \<Rightarrow> ('k \<Rightarrow> 'i \<Rightarrow> u8 list) \<Rightarrow> ('k \<Rightarrow> fd \<Rightarrow> bool) \<Rightarrow> bool" where
  "temp_lawful T content anon \<longleftrightarrow>
     (\<forall>d k r k'. te_tempfile T d k = (r, k') \<longrightarrow> content k' = content k \<and>
        (\<forall>f. anon k f \<longrightarrow> anon k' f) \<and> (\<forall>f. r = Inr f \<longrightarrow> anon k' f)) \<and>
     (\<forall>f bs k r k'. anon k f \<longrightarrow> te_write_all T f bs k = (r, k') \<longrightarrow> content k' = content k \<and> (\<forall>g. anon k g \<longrightarrow> anon k' g)) \<and>
     (\<forall>f k r k'. anon k f \<longrightarrow> te_sync_all T f k = (r, k') \<longrightarrow> content k' = content k \<and> (\<forall>g. anon k g \<longrightarrow> anon k' g)) \<and>
     (\<forall>f a k r k'. te_dedupe T f a k = (r, k') \<longrightarrow> content k' = content k)"

definition world_lawful ::
    "('k, 'r, 'db, 'tx) world \<Rightarrow> ('k \<Rightarrow> fd \<Rightarrow> 'i) \<Rightarrow> ('k \<Rightarrow> 'i \<Rightarrow> u8 list) \<Rightarrow> ('k \<Rightarrow> fd \<Rightarrow> bool) \<Rightarrow> bool" where
  "world_lawful W node content anon \<longleftrightarrow> kernel_lawful (wd_kernel W) node content \<and>
     temp_lawful (wd_temp W) content anon \<and>
     (\<forall>p k r k'. wd_create_dir_all W p k = (r, k') \<longrightarrow> content k' = content k) \<and>
     (\<forall>p fs k r k'. me_remount (wd_mount W) p fs k = (r, k') \<longrightarrow> content k' = content k) \<and>
     (\<forall>k r k'. me_unshare (wd_mount W) k = (r, k') \<longrightarrow> content k' = content k) \<and>
     (\<forall>p ps k r k'. me_change (wd_mount W) p ps k = (r, k') \<longrightarrow> content k' = content k)"

lemma temp_lawfulD:
  assumes "temp_lawful T content anon"
  shows "te_tempfile T d k = (r, k') \<Longrightarrow> content k' = content k \<and> (\<forall>f. anon k f \<longrightarrow> anon k' f) \<and> (\<forall>f. r = Inr f \<longrightarrow> anon k' f)"
    and "te_write_all T f bs k = (r2, k') \<Longrightarrow> anon k f \<Longrightarrow> content k' = content k \<and> (\<forall>g. anon k g \<longrightarrow> anon k' g)"
    and "te_sync_all T f k = (r3, k') \<Longrightarrow> anon k f \<Longrightarrow> content k' = content k \<and> (\<forall>g. anon k g \<longrightarrow> anon k' g)"
    and "te_dedupe T f a k = (r4, k') \<Longrightarrow> content k' = content k"
proof -
  note law = assms [unfolded temp_lawful_def]
  show "te_tempfile T d k = (r, k') \<Longrightarrow> content k' = content k \<and> (\<forall>f. anon k f \<longrightarrow> anon k' f) \<and> (\<forall>f. r = Inr f \<longrightarrow> anon k' f)"
    by (rule conjunct1 [OF law, rule_format])
  note law = conjunct2 [OF law]
  show "te_write_all T f bs k = (r2, k') \<Longrightarrow> anon k f \<Longrightarrow> content k' = content k \<and> (\<forall>g. anon k g \<longrightarrow> anon k' g)"
    by (rule conjunct1 [OF law, rule_format])
  note law = conjunct2 [OF law]
  show "te_sync_all T f k = (r3, k') \<Longrightarrow> anon k f \<Longrightarrow> content k' = content k \<and> (\<forall>g. anon k g \<longrightarrow> anon k' g)"
    by (rule conjunct1 [OF law, rule_format])
  show "te_dedupe T f a k = (r4, k') \<Longrightarrow> content k' = content k"
    by (rule conjunct2 [OF law, rule_format])
qed

text \<open>
  What holds after a call that starts where \<open>P\<close> holds: in any case the contents are \<open>c\<close>, and \<open>Q\<close>
  on success.
\<close>

definition holds :: "('k \<Rightarrow> 'c) \<Rightarrow> 'c \<Rightarrow> ('k \<Rightarrow> bool) \<Rightarrow> ('k \<Rightarrow> (io_error + 'a) \<times> 'k) \<Rightarrow> ('a \<Rightarrow> 'k \<Rightarrow> bool) \<Rightarrow> bool" where
  "holds content c P m Q \<longleftrightarrow> (\<forall>k r k'. P k \<longrightarrow> m k = (r, k') \<longrightarrow> content k' = c \<and> (\<forall>a. r = Inr a \<longrightarrow> Q a k'))"

lemma holds_then:
  "holds content c P m Q \<Longrightarrow> (\<And>a. holds content c (Q a) (f a) S) \<Longrightarrow> holds content c P (\<lambda>k. and_then (m k) f) S"
  unfolding holds_def and_then_def by (fastforce split: prod.splits sum.splits)

lemma probe_keeps:
  assumes T: "temp_lawful T content anon" and run: "probe_dedupe T d k = (r, k')"
  shows "content k' = content k"
proof -
  note law = temp_lawfulD [OF T]
  let ?c = "content k"
  let ?one = "\<lambda>a k. content k = ?c \<and> anon k a" and ?two = "\<lambda>a b k. content k = ?c \<and> anon k a \<and> anon k b"
  have t1: "holds content ?c (\<lambda>k. content k = ?c) (te_tempfile T d) ?one"
    using law(1) unfolding holds_def by metis
  have t2: "holds content ?c (?one a) (te_tempfile T d) (?two a)" for a
    using law(1) unfolding holds_def by metis
  have w: "holds content ?c (?two a b) (te_write_all T f bs) (\<lambda>_. ?two a b)"
    "holds content ?c (?two a b) (te_sync_all T f) (\<lambda>_. ?two a b)" if "f = a \<or> f = b" for a b f bs
    using law(2,3) that unfolding holds_def by metis+
  have d: "holds content ?c (?two a b) (\<lambda>k. case dedupe_range (te_dedupe T) a 0 b 0 (of_nat PROBE_LEN) k of
       (Inr Unsupported, k) \<Rightarrow> (Inr False, k)
     | (Inr _, k) \<Rightarrow> (Inr True, k)
     | (Inl e, k) \<Rightarrow> (Inl (OsError e), k)) (\<lambda>_ _. True)" for a b
    unfolding holds_def using law(4)
    by (auto simp: dedupe_range_def Let_def split: prod.splits sum.splits dedupe.splits if_splits)
  have "holds content ?c (\<lambda>k. content k = ?c) (probe_dedupe T d) (\<lambda>_ _. True)"
    unfolding probe_dedupe_def
    apply (rule holds_then [OF t1])
    apply (rule holds_then [OF t2])
    subgoal for a b
      apply (rule holds_then [where Q = "\<lambda>_. ?two a b", OF w(1)], simp)
      apply (rule holds_then [where Q = "\<lambda>_. ?two a b", OF w(1)], simp)
      apply (rule holds_then [where Q = "\<lambda>_. ?two a b", OF w(2)], simp)
      apply (rule holds_then [where Q = "\<lambda>_. ?two a b", OF w(2)], simp)
      by (rule d)
    done
  then show ?thesis using run unfolding holds_def by blast
qed

lemma probe_dirs_keeps:
  assumes "temp_lawful T content anon"
  shows "probe_fideduperange T dirs k = (b, k') \<Longrightarrow> content k' = content k"
proof (induction dirs arbitrary: k)
  case (Cons d dirs)
  obtain r k1 where p: "probe_dedupe T (as_os_str d) k = (r, k1)" by force
  have "content k1 = content k" by (rule probe_keeps [OF assms p])
  then show ?case using Cons p by (auto split: sum.splits)
qed simp

section \<open>The contents of the files\<close>

text \<open>Over the state of a run, whose kernel is a part of it, this is the frame of \<open>kernel_frame\<close> again.\<close>

abbreviation keeps_files :: "('k \<Rightarrow> 'i \<Rightarrow> u8 list) \<Rightarrow> ('a, ('k, 'db) rstate) io \<Rightarrow> bool" where
  "keeps_files content \<equiv> keeps_kernel (\<lambda>s. content (rn_kernel s))"

lemma world_lawfulD:
  assumes "world_lawful W node content anon"
  shows "kernel_lawful (wd_kernel W) node content" "temp_lawful (wd_temp W) content anon"
    and "wd_create_dir_all W p k = (r, k') \<Longrightarrow> content k' = content k"
    and "me_remount (wd_mount W) p fs k = (r2, k') \<Longrightarrow> content k' = content k"
    and "me_unshare (wd_mount W) k = (r2, k') \<Longrightarrow> content k' = content k"
    and "me_change (wd_mount W) p ps k = (r2, k') \<Longrightarrow> content k' = content k"
  using assms unfolding world_lawful_def by simp_all

lemma within_on_kernel: "keeps_kernel content m \<Longrightarrow> keeps_files content (on_kernel m)"
  by (fastforce simp: io_keeps_def on_kernel_def)

lemma within_query: "keeps_files content (io_query f)"
  by (simp add: io_keeps_def io_query_def)

lemma within_unchanged:
  assumes "\<And>s r t. m s = Some (r, t) \<Longrightarrow> rn_kernel t = rn_kernel s"
  shows "keeps_files content m"
  using assms by (fastforce simp: io_keeps_def)

lemma same_kernel:
  "hash_dataset W ps s = Some (r, t) \<Longrightarrow> rn_kernel t = rn_kernel s"
  "keep_dataset seen results s = Some (r2, t) \<Longrightarrow> rn_kernel t = rn_kernel s"
  "prune_dataset W seen fs s = Some (r3, t) \<Longrightarrow> rn_kernel t = rn_kernel s"
  "compact_cache W args s = Some (r3, t) \<Longrightarrow> rn_kernel t = rn_kernel s"
  "io_modify (\<lambda>s. s\<lparr>rn_total := g s\<rparr>) s = Some (r3, t) \<Longrightarrow> rn_kernel t = rn_kernel s"
  by (auto simp: hash_dataset_def keep_dataset_def prune_dataset_def compact_cache_def io_simps
      split: sum.splits)

lemma within_same:
  "keeps_files content (hash_dataset W ps)" "keeps_files content (keep_dataset seen results)"
  "keeps_files content (prune_dataset W seen fs)" "keeps_files content (compact_cache W args)"
  "keeps_files content (io_modify (\<lambda>s. s\<lparr>rn_total := g s\<rparr>))"
  by (rule within_unchanged, erule same_kernel)+

lemma within_scan: "keeps_files content (scan_dataset W mounts exclude fs ds)"
  unfolding scan_dataset_def
  by (auto intro!: kernel_frame.within_intros within_query within_same split: prod.split)

lemma dedup_dataset_db:
  assumes "dedup_dataset W opts hashed s = Some (r, t)"
  shows "rn_db t = rn_db s"
proof -
  obtain x k where "dedup (wd_kernel W) (wd_redb W) (wd_order W) (wd_split W) hashed (rn_db s) opts (rn_kernel s) = Some (x, k)"
    using assms by (auto simp: dedup_dataset_def)
  then show ?thesis using assms by (cases x) (auto simp: dedup_dataset_def)
qed

lemma within_dedup_dataset:
  assumes "world_lawful W node content anon"
  shows "keeps_files content (dedup_dataset W opts hashed)"
proof (rule io_keepsI)
  fix s r t assume run: "dedup_dataset W opts hashed s = Some (r, t)"
  let ?m = "dedup (wd_kernel W) (wd_redb W) (wd_order W) (wd_split W) hashed (rn_db s) opts (rn_kernel s)"
  obtain x k where x: "?m = Some (x, k)" using run by (auto simp: dedup_dataset_def)
  then have "k = rn_kernel t" using run by (cases x) (auto simp: dedup_dataset_def)
  then have "?m = Some (x, rn_kernel t)" using x by simp
  from io_keepsD [OF within_dedup [OF world_lawfulD(1) [OF assms]] this]
  show "content (rn_kernel t) = content (rn_kernel s)" .
qed

lemma within_do_dataset:
  assumes "world_lawful W node content anon"
  shows "keeps_files content (do_dataset W mounts exclude opts g)"
  unfolding do_dataset_def
  by (auto intro!: kernel_frame.within_intros within_scan within_dedup_dataset [OF assms] split: prod.split)

lemma within_remount:
  assumes "world_lawful W node content anon"
  shows "keeps_kernel content (remount_rw_binds (wd_mount W) roots)"
proof -
  have "keeps_kernel content (io_errno (me_remount (wd_mount W) p fs))" for p fs
    using world_lawfulD(4) [OF assms] by (fastforce simp: io_keeps_def io_errno_def split: prod.splits)
  then have "keeps_kernel content (remount_one (wd_mount W) roots m)" for m
    unfolding remount_one_def by (auto intro!: kernel_frame.within_intros)
  moreover have "keeps_kernel content (io_view f)" for f :: "'a \<Rightarrow> io_error + u8 list"
    by (simp add: io_keeps_def io_view_def)
  ultimately show ?thesis
    unfolding remount_rw_binds_def by (auto intro!: kernel_frame.within_intros)
qed

lemma within_scan_dirs:
  assumes "world_lawful W node content anon"
  shows "keeps_files content (scan_dirs W args ns mounts)"
  unfolding scan_dirs_def
  by (auto intro!: kernel_frame.within_intros within_query within_on_kernel within_remount [OF assms])

lemma within_probe:
  assumes "world_lawful W node content anon"
  shows "keeps_files content (probe_dirs W dirs)"
  unfolding probe_dirs_def
  using probe_dirs_keeps [OF world_lawfulD(2) [OF assms]]
  by (intro within_on_kernel) (fastforce simp: io_keeps_def split: prod.splits)

lemma within_body:
  assumes "world_lawful W node content anon"
  shows "keeps_files content (run_body W args ns)"
proof -
  have "keeps_files content (run_datasets W args mounts dirs)" for mounts dirs
    unfolding run_datasets_def
    by (auto intro!: kernel_frame.within_intros within_probe [OF assms] within_do_dataset [OF assms]
        within_same)
  then show ?thesis
    unfolding run_body_def
    by (auto intro!: kernel_frame.within_intros within_query within_scan_dirs [OF assms])
qed

lemma run_all_keeps:
  assumes "world_lawful W node content anon" "run_all W args ns k = Some (r, k', db)"
  shows "content k' = content k"
proof -
  obtain r1 k1 where dir: "make_cache_dir W args k = Some (r1, k1)"
    using assms(2) by (auto simp: run_all_def split: option.splits)
  then have 1: "content k1 = content k"
    using world_lawfulD(3) [OF assms(1)] by (auto simp: make_cache_dir_def split: option.splits prod.splits)
  have "content (rn_kernel t) = content (rn_kernel s)" if "run_body W args ns s = Some (r, t)" for s t
    using io_keepsD [OF within_body [OF assms(1)] that] .
  then have "content k' = content k1"
    using assms(2) by (fastforce simp: run_all_def dir run_start_def split: sum.splits)
  then show ?thesis using 1 by simp
qed

lemma within_ns:
  assumes "world_lawful W node content anon"
  shows "keeps_kernel content (enter_private_mount_ns (wd_mount W))"
proof -
  have "keeps_kernel content (io_errno (me_unshare (wd_mount W)))" "keeps_kernel content (io_errno (me_change (wd_mount W) q fs))" for q fs
    using world_lawfulD(5,6) [OF assms] by (fastforce simp: io_keeps_def io_errno_def split: prod.splits)+
  then show ?thesis
    unfolding enter_private_mount_ns_def by (intro kernel_frame.within_intros)
qed

lemma main_keeps:
  assumes "world_lawful W node content anon" "main_program W P env p k = Some (code, k')"
  shows "content k' = content k"
proof -
  have ns: "content k1 = content k" if "enter_private_mount_ns (wd_mount W) k = Some (r, k1)" for r k1
    by (rule io_keepsD [OF within_ns [OF assms(1)] that])
  show ?thesis
    using assms(2) ns run_all_keeps [OF assms(1)]
    by (fastforce simp: main_program_def split: option.splits outcome.splits prod.splits)
qed

end
