(* ===== verification/BloomCorrect.thy ===== *)
theory BloomCorrect imports Bloom begin

text \<open>
  The properties of the Bloom filter: it never panics and never forgets a key, it answers
  exactly by the probes that were set, and it has the size its comment promises.
\<close>

lemma insert_all_bits:
  assumes "bloom_inv b"
  shows "\<exists>c. fold_res (\<lambda>k b. bloom_insert b k) ks b = Inr c \<and> bloom_inv c \<and> bl_mask c = bl_mask b \<and>
     (\<forall>n. bloom_bit c n \<longleftrightarrow> bloom_bit b n \<or> n \<in> (\<Union>k\<in>set ks. bloom_probes b k))"
  using assms
proof (induction ks arbitrary: b)
  case Nil
  then show ?case by simp
next
  case (Cons k ks)
  obtain c where c: "bloom_insert b k = Inr c" "bloom_inv c" "bl_mask c = bl_mask b"
      "\<And>n. bloom_bit c n \<longleftrightarrow> bloom_bit b n \<or> n \<in> bloom_probes b k"
    using bloom_insert_ok [OF Cons.prems] by blast
  have "bloom_probes c j = bloom_probes b j" for j
    by (simp add: bloom_probes_def bloom_pos_mask [OF c(3)])
  then show ?case using Cons.IH [OF c(2)] c by auto
qed

text \<open>
  C30. After any sequence of insertions into a new filter of any size, no operation has panicked
  and the filter contains every inserted key: it has no false negatives.
\<close>

theorem bloom_no_false_negatives:
  "\<exists>b. fold_res (\<lambda>k b. bloom_insert b k) ks (bloom_new n) = Inr b \<and>
       list_all (\<lambda>k. bloom_contains b k = Inr True) ks"
  using bf.insert_all [OF bloom_new_inv, of ks n] by (auto simp: list_all_iff)

text \<open>
  The filter's answer is exact in terms of its probes: after inserting the keys \<open>ks\<close> into a
  new filter, it claims to contain \<open>j\<close> exactly when every one of the seven probes of \<open>j\<close> is a
  probe of some inserted key. In particular an empty filter contains nothing.
\<close>

theorem bloom_contains_exact:
  "\<exists>b. fold_res (\<lambda>k b. bloom_insert b k) ks (bloom_new n) = Inr b \<and>
       bloom_contains b j = Inr (bloom_probes (bloom_new n) j \<subseteq> (\<Union>k\<in>set ks. bloom_probes (bloom_new n) k))"
proof -
  let ?new = "bloom_new n"
  obtain b where b: "fold_res (\<lambda>k b. bloom_insert b k) ks ?new = Inr b" "bloom_inv b" "bl_mask b = bl_mask ?new"
      "\<And>i. bloom_bit b i \<longleftrightarrow> bloom_bit ?new i \<or> i \<in> (\<Union>k\<in>set ks. bloom_probes ?new k)"
    using insert_all_bits [OF bloom_new_inv] by blast
  have probes: "bloom_probes b j = bloom_probes ?new j"
    by (simp add: bloom_probes_def bloom_pos_mask [OF b(3)])
  have "\<not> bloom_bit ?new i" if "i \<in> bloom_probes ?new j" for i
    using that bloom_pos_in_range [OF bloom_new_inv]
    by (auto simp: bloom_probes_def intro!: bloom_new_empty)
  then show ?thesis
    using b(1) bloom_contains_ok [OF b(2), of j] by (auto simp: probes b(4))
qed

text \<open>
  The size: for up to \<open>2 ^ 59\<close> keys the filter has at least 10 bits per key and 64 bits,
  its number of bits is a power of two, and it is less than twice what was asked for.
\<close>

theorem bloom_size_ok:
  assumes "unat n \<le> 2 ^ 59"
  shows "10 * unat n \<le> 64 * length (bl_bits (bloom_new n)) \<and>
    64 \<le> 64 * length (bl_bits (bloom_new n)) \<and>
    (\<exists>j. 64 * length (bl_bits (bloom_new n)) = 2 ^ j) \<and>
    64 * length (bl_bits (bloom_new n)) < max 65 (20 * unat n)"
proof -
  let ?m = "10 * unat n" and ?bits = "max (next_power_of_two (n * 10)) 64"
  have m: "unat (n * 10) = ?m" using assms by (simp add: unat_word_ariths)
  have "pow2_from 1 ?m < 2 ^ 64"
  proof (cases "unat n = 0")
    case False
    then have "pow2_from 1 ?m < 2 * ?m" by (intro pow2_from_less_double) auto
    then show ?thesis using assms by simp
  qed (simp add: pow2_from.simps)
  then have np: "unat (next_power_of_two (n * 10)) = pow2_from 1 ?m"
    by (simp add: next_power_of_two_def m unat_of_nat)
  obtain j where j: "unat ?bits = 2 ^ j" "6 \<le> j" using bloom_size [of n] by metis
  have len: "64 * length (bl_bits (bloom_new n)) = unat ?bits"
    using j le_imp_power_dvd [of 6 j "2 :: nat"] by (simp add: bloom_new_def Let_def unat_div)
  have mx: "unat ?bits = max (pow2_from 1 ?m) 64"
    by (simp add: np max_def word_le_nat_alt)
  have "pow2_from 1 ?m < max 65 (20 * unat n)"
  proof (cases "unat n = 0")
    case False
    then have "pow2_from 1 ?m < 2 * ?m" by (intro pow2_from_less_double) auto
    then show ?thesis by simp
  qed (simp add: pow2_from.simps)
  then show ?thesis
    using pow2_from_ge [of 1 ?m] j by (auto simp: len mx)
qed

theorem bloom_size_ok_witness:
  "10 * unat (100 :: u64) \<le> 64 * length (bl_bits (bloom_new 100)) \<and>
    64 \<le> 64 * length (bl_bits (bloom_new 100)) \<and>
    (\<exists>j. 64 * length (bl_bits (bloom_new 100)) = 2 ^ j) \<and>
    64 * length (bl_bits (bloom_new 100)) < max 65 (20 * unat (100 :: u64))"
  by (rule bloom_size_ok [of 100]) simp

end
