(* ===== verification/RunCache.thy ===== *)
theory RunCache imports RunFacts BloomCorrect begin

text \<open>
  The hash cache over the scan of one dataset in \<open>src/main.rs\<close>: what the closure of \<open>filter_map\<close>
  keeps, that the prune filter has seen all of it, and what pruning leaves.
\<close>

section \<open>The cache after a scan\<close>

text \<open>What the closure of \<open>filter_map\<close> keeps, and that the filter has seen all of it.\<close>

fun hashed_file :: "file_path \<times> (anyhow + hashed) \<Rightarrow> (file_path \<times> hashed) option" where
  "hashed_file (p, Inl e) = None"
| "hashed_file (p, Inr h) = Some (p, h)"

lemma bloom_insert_covers:
  assumes "bloom_inv b" "bloom_insert b k = Inr c"
  shows "bloom_inv c" "bl_mask c = bl_mask b" "bloom_bit b n \<Longrightarrow> bloom_bit c n" "bloom_probes b k \<subseteq> {n. bloom_bit c n}"
proof -
  obtain d where d: "bloom_insert b k = Inr d" "bloom_inv d" "bl_mask d = bl_mask b"
      "\<forall>n. bloom_bit d n \<longleftrightarrow> bloom_bit b n \<or> n \<in> bloom_probes b k"
    using bloom_insert_ok [OF assms(1)] by blast
  have "d = c" using d(1) assms(2) by simp
  then show "bloom_inv c" "bl_mask c = bl_mask b" "bloom_bit b n \<Longrightarrow> bloom_bit c n" "bloom_probes b k \<subseteq> {n. bloom_bit c n}"
    using d(2-4) by auto
qed

lemma bloom_probes_mask:
  assumes "bl_mask b = bl_mask c"
  shows "bloom_probes b k = bloom_probes c k"
  by (simp add: bloom_probes_def bloom_pos_mask [OF assms])

lemma filter_keeps:
  assumes "bloom_inv seen" "filter_files (\<lambda>p x. keep_hashed p x arena) files (seen, st, errs) = Inr (out, seen', st', errs')"
  shows "out = List.map_filter hashed_file files" "bloom_inv seen'" "bl_mask seen' = bl_mask seen"
    and "bloom_bit seen n \<Longrightarrow> bloom_bit seen' n"
    and "(p, h) \<in> set out \<Longrightarrow> bloom_probes seen (prune_key (h_fsid h) (h_ino h)) \<subseteq> {n. bloom_bit seen' n}"
proof -
  have "out = List.map_filter hashed_file files \<and> bloom_inv seen' \<and> bl_mask seen' = bl_mask seen \<and>
      {n. bloom_bit seen n} \<subseteq> {n. bloom_bit seen' n} \<and>
      (\<forall>(p, h) \<in> set out. bloom_probes seen (prune_key (h_fsid h) (h_ino h)) \<subseteq> {n. bloom_bit seen' n})"
    using assms
  proof (induction files arbitrary: seen st errs out)
    case Nil
    then show ?case by (simp add: List.map_filter_simps)
  next
    case (Cons x files)
    obtain p r where x: "x = (p, r)" by (cases x)
    show ?case
    proof (cases r)
      case (Inl e)
      then obtain st1 errs1 where "filter_files (\<lambda>p x. keep_hashed p x arena) files (seen, st1, errs1) = Inr (out, seen', st', errs')"
        using Cons.prems(2) by (auto simp: x keep_hashed_def res_simps split: if_splits)
      from Cons.IH [OF Cons.prems(1) this] show ?thesis by (simp add: x Inl List.map_filter_simps)
    next
      case (Inr h)
      let ?k = "prune_key (h_fsid h) (h_ino h)"
      obtain c rest where ins: "bloom_insert seen ?k = Inr c" "out = (p, h) # rest"
          "filter_files (\<lambda>p x. keep_hashed p x arena) files (c, st, errs) = Inr (rest, seen', st', errs')"
        using Cons.prems(2) by (auto simp: x Inr keep_hashed_def res_simps)
      note b = bloom_insert_covers [OF Cons.prems(1) ins(1)]
      note IH = Cons.IH [OF b(1) ins(3)]
      have "bloom_probes c k = bloom_probes seen k" for k by (rule bloom_probes_mask [OF b(2)])
      moreover have "{n. bloom_bit seen n} \<subseteq> {n. bloom_bit c n}" using b(3) by blast
      then have "{n. bloom_bit seen n} \<subseteq> {n. bloom_bit seen' n}" "bloom_probes seen ?k \<subseteq> {n. bloom_bit seen' n}"
        using b(4) IH by blast+
      ultimately show ?thesis
        using IH b(2) ins(2) by (simp add: x Inr List.map_filter_simps)
    qed
  qed
  then show "out = List.map_filter hashed_file files" "bloom_inv seen'" "bl_mask seen' = bl_mask seen"
    "bloom_bit seen n \<Longrightarrow> bloom_bit seen' n"
    "(p, h) \<in> set out \<Longrightarrow> bloom_probes seen (prune_key (h_fsid h) (h_ino h)) \<subseteq> {n. bloom_bit seen' n}"
    by auto
qed

lemma keep_dataset_ok:
  assumes "keep_dataset (bloom_new n) results s = Some (Inr (hashed, seen), t)"
  shows "ps_table hashed = ps_table results" "ps_files hashed = List.map_filter hashed_file (ps_files results)"
    and "bloom_inv seen" "rn_db t = rn_db s" "rn_kernel t = rn_kernel s" "rn_total t = rn_total s"
    and "(p, h) \<in> set (ps_files hashed) \<Longrightarrow> bloom_contains seen (prune_key (h_fsid h) (h_ino h)) = Inr True"
proof -
  obtain st errs out where run: "filter_files (\<lambda>p x. keep_hashed p x (ps_table results)) (ps_files results)
      (bloom_new n, rn_stats s, rn_hash_errors s) = Inr (out, seen, st, errs)"
      "hashed = \<lparr>ps_table = ps_table results, ps_files = out\<rparr>" "t = s\<lparr>rn_stats := st, rn_hash_errors := errs\<rparr>"
    using assms by (auto simp: keep_dataset_def paths_filter_map_def res_simps split: sum.splits)
  note f = filter_keeps [OF bloom_new_inv run(1)]
  show "ps_table hashed = ps_table results" "ps_files hashed = List.map_filter hashed_file (ps_files results)"
    "bloom_inv seen" "rn_db t = rn_db s" "rn_kernel t = rn_kernel s" "rn_total t = rn_total s"
    using f(1,2) run(2,3) by simp_all
  assume "(p, h) \<in> set (ps_files hashed)"
  then show "bloom_contains seen (prune_key (h_fsid h) (h_ino h)) = Inr True"
    using f(5) [of p h] bloom_probes_mask [OF f(3)] run(2) by (auto simp: bloom_contains_ok [OF f(2)])
qed

lemma list_all2_member: "list_all2 P xs ys \<Longrightarrow> y \<in> set ys \<Longrightarrow> \<exists>x \<in> set xs. P x y"
  by (induction rule: list_all2_induct) auto

text \<open>What pruning leaves of one dataset: the entries the filter claims to have seen.\<close>

lemma prune_dataset_ok:
  assumes "redb_lawful (wd_redb W) tab ttab" "bloom_inv seen" "prune_dataset W seen fs s = Some (Inr u, t)"
  shows "tab (rn_db t) = (\<lambda>(f, i). if f = fs \<and> bloom_contains seen (prune_key f i) \<noteq> Inr True then None else tab (rn_db s) (f, i))"
proof -
  obtain n db where run: "cache_prune (wd_redb W) (rn_db s) (\<lambda>f i. bloom_contains seen (prune_key f i)) {fs} = Inr (n, db)" "rn_db t = db"
    using assms(3) by (auto simp: prune_dataset_def split: sum.splits)
  have "bloom_contains seen (prune_key f i) = Inr (bloom_contains seen (prune_key f i) = Inr True)" for f i
    by (simp add: bloom_contains_ok [OF assms(2)])
  from cache_prune_table(1) [OF assms(1) this run(1)] show ?thesis by (simp add: run(2))
qed

lemma scan_dataset_ok:
  assumes "redb_lawful (wd_redb W) tab ttab" "env_lawful (wd_files W (rn_kernel s)) rem"
    "scan_dataset W mounts exclude fs ds s = Some (Inr hashed, t)"
  shows "(p, h) \<in> set (ps_files hashed) \<Longrightarrow> knows tab (rn_db t) (h_fsid h, h_ino h)"
    and "knows tab (rn_db s) k \<Longrightarrow> \<not> knows tab (rn_db t) k \<Longrightarrow> fst k = fs \<and> set ds \<subseteq> set mounts"
proof -
  let ?full = "list_all (\<lambda>d. d \<in> set mounts) ds"
  obtain ps results s1 seen s2 where run:
    "hash_dataset W ps s = Some (Inr results, s1)"
    "keep_dataset (bloom_new (of_nat (length (ps_files ps)))) results s1 = Some (Inr (hashed, seen), s2)"
    "(if ?full then prune_dataset W seen fs else io_ret ())
       (s2\<lparr>rn_total := rn_total s2 + sum_list (map (h_size \<circ> snd) (ps_files hashed))\<rparr>) = Some (Inr (), t)"
    using assms(3) by (auto simp: scan_dataset_def io_bind_Some io_simps io_query_def split: prod.splits)
  have hf: "hash_files (wd_files W (rn_kernel s)) (wd_redb W) (wd_xxh3 W) (rn_db s) ps = Some (Inr results, rn_db s1)"
    using run(1) by (auto simp: hash_dataset_def)
  note known = hash_files_known [OF assms(1,2) hf]
  note keep = keep_dataset_ok [OF run(2)]
  have tab: "tab (rn_db t) k = (if ?full \<and> fst k = fs \<and> bloom_contains seen (prune_key (fst k) (snd k)) \<noteq> Inr True
      then None else tab (rn_db s1) k)" for k
    using run(3) prune_dataset_ok [OF assms(1) keep(3)] keep(4)
    by (cases k) (auto simp: io_ret_def split: if_splits)
  { assume h: "(p, h) \<in> set (ps_files hashed)"
    then have "(p, Inr h) \<in> set (ps_files results)"
      by (auto simp: keep(2) in_map_filter elim!: hashed_file.elims)
    then have "knows tab (rn_db s1) (h_fsid h, h_ino h)"
      using list_all2_member [OF known(2), of "(p, Inr h)"] by (auto simp: result_known_def)
    then show "knows tab (rn_db t) (h_fsid h, h_ino h)"
      using keep(7) [OF h] by (simp add: knows_def entries_of_def tab) }
  assume "knows tab (rn_db s) k" "\<not> knows tab (rn_db t) k"
  then show "fst k = fs \<and> set ds \<subseteq> set mounts"
    using known(3) [of k] by (auto simp: knows_def entries_of_def tab list_all_iff split: if_splits)
qed

section \<open>A scan that finds nothing\<close>

text \<open>A root that cannot be stat'ed is skipped, and of one that cannot be read the walk sends no batch.\<close>

definition root_unread :: "('k, 'r, 'db, 'tx) world \<Rightarrow> read_dir \<Rightarrow> 'k \<Rightarrow> path \<Rightarrow> bool" where
  "root_unread W rd k d \<longleftrightarrow> (\<exists>e. wd_stat W d k = Inl e) \<or>
     (\<exists>e. rd d = Inl e) \<and> (\<forall>dev. walked rd dev d (wd_batches W k d dev))"

lemma unread_walk:
  assumes "walked rd dev d bs" "rd d = Inl e"
  shows "bs = []"
proof -
  have read: "walk_dir rd dev d = ([], None)" using assms(2) by (simp add: walk_dir_def)
  have "t = ({#d#}, {#}, []) \<or> t = ({#}, {#}, [])" if "(walk_step rd dev)\<^sup>*\<^sup>* ({#d#}, {#}, []) t" for t
    using that
  proof (induction rule: rtranclp_induct)
    case (step t u)
    from step.hyps(2) step.IH show ?case
      by cases (auto simp: read batch_of_def)
  qed simp
  then show ?thesis using assms(1) by (fastforce simp: walked_def)
qed

lemma unread_files:
  assumes "\<forall>d \<in> set ds. root_unread W rd k d"
  shows "\<exists>ps. walk_files (\<lambda>p. wd_stat W p k) fsid_of (wd_batches W k) ds exclude = Inr ps \<and> ps_files ps = []"
proof -
  have skip: "(case root_ids (\<lambda>p. wd_stat W p k) fsid_of d of Inl e \<Rightarrow> Inr s
      | Inr (dev, f) \<Rightarrow> walk_root dev f exclude (wd_batches W k d dev) s) = Inr s" if "root_unread W rd k d" for d s
  proof (cases "\<exists>e. wd_stat W d k = Inl e")
    case True
    then show ?thesis by (auto simp: root_ids_def from_io_def)
  next
    case False
    then have "wd_batches W k d dev = []" for dev
      using that unread_walk unfolding root_unread_def by blast
    then show ?thesis by (simp add: walk_root_def split: sum.split)
  qed
  have "fold_res (\<lambda>d s. case root_ids (\<lambda>p. wd_stat W p k) fsid_of d of Inl e \<Rightarrow> Inr s
      | Inr (dev, f) \<Rightarrow> walk_root dev f exclude (wd_batches W k d dev) s) ds s = Inr s" for s
    using assms by (induction ds) (simp_all add: skip)
  then show ?thesis by (simp add: walk_files_def paths_empty_def)
qed

lemma scan_nothing:
  assumes "walk_files (\<lambda>p. wd_stat W p (rn_kernel s)) (\<lambda>p. walk_fsid (wd_mount W) p (rn_kernel s))
      (wd_batches W (rn_kernel s)) ds exclude = Inr ps" "ps_files ps = []"
  shows "scan_dataset W mounts exclude fs ds s =
    io_bind (if set ds \<subseteq> set mounts then prune_dataset W (bloom_new 0) fs else io_ret ())
      (\<lambda>_. io_ret \<lparr>ps_table = ps_table ps, ps_files = []\<rparr>) s"
proof -
  have hash: "hash_dataset W ps s = Some (Inr \<lparr>ps_table = ps_table ps, ps_files = []\<rparr>, s)"
    by (simp add: hash_dataset_def hash_files_def map_batched_def batch_loop.simps assms(2))
  have keep: "keep_dataset b \<lparr>ps_table = ps_table ps, ps_files = []\<rparr> s = Some (Inr (\<lparr>ps_table = ps_table ps, ps_files = []\<rparr>, b), s)" for b
    by (simp add: keep_dataset_def paths_filter_map_def)
  have mounts: "list_all (\<lambda>d. d \<in> set mounts) ds \<longleftrightarrow> set ds \<subseteq> set mounts"
    by (auto simp: list_all_iff)
  show ?thesis
    unfolding scan_dataset_def mounts
    by (simp add: io_bind_def io_query_def assms hash keep io_modify_def)
qed

lemma nothing_seen: "bloom_contains (bloom_new n) k \<noteq> Inr True"
proof -
  let ?p = "unat (bloom_pos (bloom_new n) k 0)"
  have "?p \<in> bloom_probes (bloom_new n) k" by (auto simp: bloom_probes_def bloom_rounds_def)
  moreover have "\<not> bloom_bit (bloom_new n) ?p"
    by (rule bloom_new_empty [OF bloom_pos_in_range [OF bloom_new_inv]])
  ultimately show ?thesis using bloom_contains_ok [OF bloom_new_inv] by auto
qed

lemma unread_scan:
  assumes "redb_lawful (wd_redb W) tab ttab" "set ds \<subseteq> set mounts" "\<forall>d \<in> set ds. root_unread W rd (rn_kernel s) d"
    "scan_dataset W mounts exclude fs ds s = Some (Inr hashed, t)"
  shows "tab (rn_db t) = (\<lambda>(f, i). if f = fs then None else tab (rn_db s) (f, i))" "ps_files hashed = []"
proof -
  obtain ps where ps: "walk_files (\<lambda>p. wd_stat W p (rn_kernel s)) (\<lambda>p. walk_fsid (wd_mount W) p (rn_kernel s))
      (wd_batches W (rn_kernel s)) ds exclude = Inr ps" "ps_files ps = []"
    using unread_files [OF assms(3)] by blast
  have run: "prune_dataset W (bloom_new 0) fs s = Some (Inr (), t)" "hashed = \<lparr>ps_table = ps_table ps, ps_files = []\<rparr>"
    using assms(2,4) unfolding scan_nothing [OF ps] by (auto simp: io_bind_Some io_ret_def)
  from prune_dataset_ok [OF assms(1) bloom_new_inv run(1)]
  show "tab (rn_db t) = (\<lambda>(f, i). if f = fs then None else tab (rn_db s) (f, i))"
    by (simp add: nothing_seen)
  show "ps_files hashed = []" by (simp add: run(2))
qed

end
