(* ===== verification/RunRules.thy ===== *)
theory RunRules imports RunCache begin

text \<open>
  The pure parts of \<open>run\<close> in \<open>src/main.rs\<close>: the key of the prune filter loses nothing, the grouping
  by dataset and the collection of directories are exact, and the probe says no where
  FIDEDUPERANGE is not supported.
\<close>

section \<open>The key of the prune filter\<close>

lemma xor_drop_bit_inj:
  assumes "x XOR drop_bit n x = y XOR drop_bit n (y :: 'a::len word)" "0 < n"
  shows "x = y"
proof -
  have "(x XOR y) XOR drop_bit n (x XOR y) = (x XOR drop_bit n x) XOR (y XOR drop_bit n y)"
    by (simp add: drop_bit_xor xor.assoc xor.left_commute)
  also have "\<dots> = 0" by (simp only: assms(1) xor_self_eq)
  finally have "x XOR y = 0" by (rule xor_drop_bit_zero [OF _ assms(2)])
  then show ?thesis by (metis xor.assoc xor.right_neutral xor_self_eq)
qed

lemma xor_cancel:
  assumes "a XOR b = a XOR (c :: 'a::len word)"
  shows "b = c"
proof -
  have "b = a XOR (a XOR b)" by (simp flip: xor.assoc)
  also have "\<dots> = c" unfolding assms by (simp flip: xor.assoc)
  finally show ?thesis .
qed

lemma mult_inj:
  fixes a b c :: "'a::len word"
  assumes "a * c = b * c" "c * d = 1"
  shows "a = b"
  using assms by (metis mult.assoc mult.right_neutral)

lemma prune_key_inj:
  assumes "prune_key fs i = prune_key fs j"
  shows "i = j"
proof -
  let ?f = "\<lambda>i. word_rotl 32 fs XOR i :: u64"
  let ?g = "\<lambda>i. (?f i XOR drop_bit 30 (?f i)) * 0xbf58476d1ce4e5b9"
  let ?h = "\<lambda>i. (?g i XOR drop_bit 27 (?g i)) * 0x94d049bb133111eb"
  have "?h i XOR drop_bit 31 (?h i) = ?h j XOR drop_bit 31 (?h j)"
    using assms by (simp only: prune_key_def Let_def)
  then have "?h i = ?h j" by (rule xor_drop_bit_inj) simp
  then have "?g i XOR drop_bit 27 (?g i) = ?g j XOR drop_bit 27 (?g j)"
    by (rule mult_inj [where d = "0x319642b2d24d8ec3"]) simp
  then have "?g i = ?g j" by (rule xor_drop_bit_inj) simp
  then have "?f i XOR drop_bit 30 (?f i) = ?f j XOR drop_bit 30 (?f j)"
    by (rule mult_inj [where d = "0x96de1b173f119089"]) simp
  then have "?f i = ?f j" by (rule xor_drop_bit_inj) simp
  then show ?thesis by (rule xor_cancel)
qed

section \<open>Grouping by dataset\<close>

definition some_list :: "'a list \<Rightarrow> 'a list option" where
  "some_list xs = (if xs = [] then None else Some xs)"

lemma add_dir_ok:
  assumes "sorted_wrt (<) (map fst groups)"
  shows "sorted_wrt (<) (map fst (add_dir fs d groups))"
    "map_of (add_dir fs d groups) = (map_of groups)(fs \<mapsto> (case map_of groups fs of None \<Rightarrow> [] | Some ds \<Rightarrow> ds) @ [d])"
proof -
  have "fst ` set (add_dir fs d groups) = insert fs (fst ` set groups)"
    by (induction fs d groups rule: add_dir.induct) auto
  then show "sorted_wrt (<) (map fst (add_dir fs d groups))"
    using assms
  proof (induction fs d groups rule: add_dir.induct)
    case (2 fs d f ds groups)
    have "fst ` set (add_dir fs d groups) = insert fs (fst ` set groups)"
      by (induction fs d groups rule: add_dir.induct) auto
    then show ?case using 2 by auto
  qed simp
  show "map_of (add_dir fs d groups) = (map_of groups)(fs \<mapsto> (case map_of groups fs of None \<Rightarrow> [] | Some ds \<Rightarrow> ds) @ [d])"
    using assms
  proof (induction fs d groups rule: add_dir.induct)
    case (2 fs d f ds groups)
    have "fs < f \<Longrightarrow> map_of groups fs = None" using 2(2) by (fastforce simp: map_of_eq_None_iff)
    then show ?case using 2 by (auto simp: fun_eq_iff)
  qed simp
qed

lemma by_fsid_ok:
  "sorted_wrt (<) (map fst (by_fsid f dirs)) \<and> map_of (by_fsid f dirs) = (\<lambda>fs. some_list (filter (\<lambda>d. f d = Inr fs) dirs))"
proof (induction dirs rule: rev_induct)
  case Nil
  then show ?case by (simp add: by_fsid_def some_list_def fun_eq_iff)
next
  case (snoc d dirs)
  show ?case
  proof (cases "f d")
    case (Inl e)
    then show ?thesis using snoc by (simp add: by_fsid_def)
  next
    case (Inr fs)
    have "by_fsid f (dirs @ [d]) = add_dir fs d (by_fsid f dirs)"
      by (simp add: by_fsid_def Inr)
    then show ?thesis
      using snoc add_dir_ok [of "by_fsid f dirs" fs d] by (auto simp: fun_eq_iff some_list_def Inr)
  qed
qed

section \<open>Collecting the directories\<close>

lemma btree_extend_ok:
  assumes "sorted dirs" "distinct dirs"
  shows "sorted (btree_extend ps dirs)" "distinct (btree_extend ps dirs)" "set (btree_extend ps dirs) = set ps \<union> set dirs"
proof -
  have "sorted (btree_extend ps dirs) \<and> distinct (btree_extend ps dirs) \<and> set (btree_extend ps dirs) = set ps \<union> set dirs"
    using assms unfolding btree_extend_def
    by (induction ps arbitrary: dirs) (auto simp: sorted_insort_insert distinct_insort_insert set_insort_insert)
  then show "sorted (btree_extend ps dirs)" "distinct (btree_extend ps dirs)" "set (btree_extend ps dirs) = set ps \<union> set dirs"
    by simp_all
qed

definition mounts_below :: "path list \<Rightarrow> path list \<Rightarrow> path set" where
  "mounts_below mounts roots = {m \<in> set mounts. \<exists>r \<in> set roots. starts_with m r}"

lemma collect_dirs_ok:
  assumes "collect_dirs W mounts ds k = Inr dirs"
  shows "sorted dirs" "distinct dirs"
    and "ds = [] \<Longrightarrow> set dirs = set mounts"
    and "ds \<noteq> [] \<Longrightarrow> \<exists>roots. map (\<lambda>d. wd_canonicalize W d k) ds = map Inr roots \<and> set dirs = set roots \<union> mounts_below mounts roots"
proof -
  let ?step = "\<lambda>d dirs. rbind (with_context ''resolve'' (from_io (wd_canonicalize W d k))) (\<lambda>root.
        Inr (insort_insert root (btree_extend (filter (\<lambda>m. starts_with m root) mounts) dirs)))"
  have fold: "sorted dirs \<and> distinct dirs \<and> (\<exists>roots. map (\<lambda>d. wd_canonicalize W d k) ds = map Inr roots \<and>
      set dirs = set acc \<union> set roots \<union> mounts_below mounts roots)"
    if "fold_res ?step ds acc = Inr dirs" "sorted acc" "distinct acc" for ds acc
    using that
  proof (induction ds arbitrary: acc)
    case Nil
    then show ?case by (simp add: mounts_below_def)
  next
    case (Cons d ds)
    obtain root where root: "wd_canonicalize W d k = Inr root"
      "fold_res ?step ds (insort_insert root (btree_extend (filter (\<lambda>m. starts_with m root) mounts) acc)) = Inr dirs"
      using Cons.prems(1) by (auto simp: res_simps)
    note ext = btree_extend_ok [OF Cons.prems(2,3), of "filter (\<lambda>m. starts_with m root) mounts"]
    obtain roots where roots: "sorted dirs" "distinct dirs" "map (\<lambda>d. wd_canonicalize W d k) ds = map Inr roots"
      "set dirs = set (insort_insert root (btree_extend (filter (\<lambda>m. starts_with m root) mounts) acc)) \<union> set roots \<union> mounts_below mounts roots"
      using Cons.IH [OF root(2)] ext by (auto simp: sorted_insort_insert distinct_insort_insert)
    have "map (\<lambda>d. wd_canonicalize W d k) (d # ds) = map Inr (root # roots)" by (simp add: root(1) roots(3))
    moreover have "set dirs = set acc \<union> set (root # roots) \<union> mounts_below mounts (root # roots)"
      unfolding roots(4) by (auto simp: set_insort_insert ext(3) mounts_below_def)
    ultimately show ?case using roots(1,2) by blast
  qed
  show "sorted dirs" "distinct dirs"
    "ds = [] \<Longrightarrow> set dirs = set mounts"
    "ds \<noteq> [] \<Longrightarrow> \<exists>roots. map (\<lambda>d. wd_canonicalize W d k) ds = map Inr roots \<and> set dirs = set roots \<union> mounts_below mounts roots"
    using assms fold [of ds "[]"] btree_extend_ok [of "[]" mounts]
    by (auto simp: collect_dirs_def split: if_splits)
qed

section \<open>The gate\<close>

text \<open>
  A system without FIDEDUPERANGE: no call of it succeeds or compares. It may fail as a whole, with any
  error number, or report any error for its one target, which is a negative status.
\<close>

definition unsupported :: "'k temp_env \<Rightarrow> bool" where
  "unsupported T \<longleftrightarrow> (\<forall>f a k. case fst (te_dedupe T f a k) of
     Inl e \<Rightarrow> 0 < sint e
   | Inr out \<Rightarrow> sint (di_status (do_info out)) < 0)"

lemma probe_unsupported:
  assumes "unsupported T"
  shows "\<not> fst (probe_fideduperange T dirs k)"
proof -
  have sign: "- e \<noteq> 0" "- e \<noteq> 1" if "0 < sint e" for e :: i32
  proof -
    show "- e \<noteq> 0" using that by auto
    show "- e \<noteq> 1"
    proof
      assume "- e = 1"
      then have "e = - 1" by (metis minus_equation_iff)
      then show False using that by simp
    qed
  qed
  have answer: "fst (dedupe_range (te_dedupe T) a so b d n k) \<in> {Inr Unsupported} \<union> range Inl" for a so b d n k
  proof (cases "te_dedupe T a (dedupe_arg so b d n) k")
    case (Pair x t)
    show ?thesis
    proof (cases x)
      case (Inl e)
      then have "0 < sint e" using assms [unfolded unsupported_def, rule_format, of a "dedupe_arg so b d n" k] Pair by simp
      then show ?thesis using sign [of e] Pair Inl
        by (auto simp: dedupe_range_def FILE_DEDUPE_RANGE_DIFFERS_def Let_def)
    next
      case (Inr out)
      then have "sint (di_status (do_info out)) < 0"
        using assms [unfolded unsupported_def, rule_format, of a "dedupe_arg so b d n" k] Pair by simp
      then have "di_status (do_info out) \<noteq> 0" "di_status (do_info out) \<noteq> 1" by auto
      then show ?thesis using Pair Inr
        by (auto simp: dedupe_range_def output_from_ptr_def FILE_DEDUPE_RANGE_DIFFERS_def Let_def)
    qed
  qed
  then have "fst (probe_dedupe T d k) \<noteq> Inr True" for d k
    using answer [of _ 0 _ 0 "of_nat PROBE_LEN"]
    by (auto simp: probe_dedupe_def and_then_def split: prod.splits sum.splits dedupe.splits)
      (metis Un_iff fst_conv insert_iff empty_iff rangeE sum.distinct(1) sum.inject(2) dedupe.distinct)+
  then show ?thesis
    by (induction dirs arbitrary: k) (auto split: prod.splits sum.splits, metis fst_conv)
qed

end
