(* ===== verification/RunModes.thy ===== *)
theory RunModes imports RunRules begin

text \<open>
  What a run of \<open>src/main.rs\<close> depends on in its different modes: refused by the gate, in a dry run,
  and without a private mount namespace. Each part of a run uses some fields of \<open>world\<close> only, and
  two worlds that agree on them give the same run.
\<close>

section \<open>What a run depends on\<close>

lemma probe_dirs_unsupported:
  assumes "unsupported (wd_temp W)" "probe_dirs W dirs s = Some (Inr b, t)"
  shows "\<not> b"
  using probe_unsupported [OF assms(1), of dirs "rn_kernel s"] assms(2)
  by (auto simp: probe_dirs_def on_kernel_def split: prod.splits)

lemma refused_datasets:
  assumes "unsupported (wd_temp W)" "\<not> ar_dry_run args" "\<not> ar_force args"
  shows "run_datasets W args mounts dirs =
    io_bind (probe_dirs W dirs) (\<lambda>_. io_lift (Inl (Fail [Message ''This ZFS does not support FIDEDUPERANGE''])))"
  unfolding run_datasets_def
  by (rule ext, simp add: assms(2,3)) (rule io_bind_cong [OF refl], use probe_dirs_unsupported [OF assms(1)] in auto)

text \<open>Each part of a run uses some of the world only.\<close>

lemma part_other:
  assumes "wd_files W' = wd_files W" "wd_redb W' = wd_redb W" "wd_xxh3 W' = wd_xxh3 W" "wd_stat W' = wd_stat W"
  shows "hash_dataset W' = hash_dataset W" "prune_dataset W' = prune_dataset W" "compact_cache W' = compact_cache W"
  by (intro ext; unfold hash_dataset_def prune_dataset_def compact_cache_def assms; rule refl)+

lemma scan_dataset_other:
  assumes "wd_files W' = wd_files W" "wd_redb W' = wd_redb W" "wd_xxh3 W' = wd_xxh3 W" "wd_stat W' = wd_stat W"
    "wd_batches W' = wd_batches W" "walk_fsid (wd_mount W') = walk_fsid (wd_mount W)"
  shows "scan_dataset W' = scan_dataset W"
  by (intro ext, unfold scan_dataset_def part_other [OF assms(1-4)] assms) (rule refl)

lemma scan_dirs_other:
  assumes "wd_canonicalize W' = wd_canonicalize W" "wd_zfs W' = wd_zfs W" "is_ro (wd_mount W') = is_ro (wd_mount W)"
    "ns \<Longrightarrow> wd_mount W' = wd_mount W"
  shows "scan_dirs W' args ns mounts = scan_dirs W args ns mounts"
proof -
  have remount: "(if ns then on_kernel (remount_rw_binds (wd_mount W') dirs) else io_ret ()) =
      (if ns then on_kernel (remount_rw_binds (wd_mount W) dirs) else io_ret ())" for dirs
    using assms(4) by simp
  show ?thesis unfolding scan_dirs_def collect_dirs_def assms(1-3) remount ..
qed

lemma do_dataset_other:
  assumes "scan_dataset W' = scan_dataset W" "dedup_dataset W' opts = dedup_dataset W opts"
  shows "do_dataset W' mounts exclude opts = do_dataset W mounts exclude opts"
  unfolding do_dataset_def assms ..

lemma run_datasets_other:
  assumes "probe_dirs W' = probe_dirs W" "wd_stat W' = wd_stat W" "walk_fsid (wd_mount W') = walk_fsid (wd_mount W)"
    "do_dataset W' = do_dataset W" "compact_cache W' = compact_cache W"
  shows "run_datasets W' args mounts = run_datasets W args mounts"
  by (rule ext) (unfold run_datasets_def assms, rule refl)

lemma make_cache_dir_other:
  "wd_create_dir_all W' = wd_create_dir_all W \<Longrightarrow> make_cache_dir W' = make_cache_dir W"
  by (rule ext)+ (simp add: make_cache_dir_def split: option.split)

lemma run_all_cong:
  assumes "make_cache_dir W' = make_cache_dir W" "wd_redb W' = wd_redb W" "run_body W' args ns = run_body W args ns"
  shows "run_all W' args ns k = run_all W args ns k"
  unfolding run_all_def assms ..

lemma refused_run:
  assumes "unsupported (wd_temp W)" "\<not> ar_dry_run args" "\<not> ar_force args"
  shows "run_all (W\<lparr>wd_kernel := K, wd_files := F, wd_batches := B\<rparr>) args ns k = run_all W args ns k"
proof -
  let ?W = "W\<lparr>wd_kernel := K, wd_files := F, wd_batches := B\<rparr>"
  have "run_datasets ?W args mounts = run_datasets W args mounts" for mounts
    by (rule ext) (use refused_datasets [OF assms] refused_datasets [of ?W args] assms in \<open>simp add: probe_dirs_def\<close>)
  moreover have "scan_dirs ?W args ns mounts = scan_dirs W args ns mounts" for mounts
    by (rule scan_dirs_other) simp_all
  ultimately have "run_body ?W args ns = run_body W args ns" by (simp add: run_body_def)
  then show ?thesis by (intro run_all_cong make_cache_dir_other) simp_all
qed

interpretation cache_frame: io_frame "\<lambda>s t. rn_db t = rn_db s"
  by unfold_locales simp_all

abbreviation keeps_cache :: "('a, ('k, 'db) rstate) io \<Rightarrow> bool" where
  "keeps_cache \<equiv> io_keeps (\<lambda>s t. rn_db t = rn_db s)"

lemma cache_unused: "keeps_cache (on_kernel m)" "keeps_cache (io_query f)"
  by (auto simp: io_keeps_def on_kernel_def io_query_def)

lemma refused_result:
  assumes "unsupported (wd_temp W)" "\<not> ar_dry_run args" "\<not> ar_force args"
    "run_all W args ns k = Some (r, k', db)"
  shows "\<exists>e. r = Inl e" "db = None \<or> cache_open (wd_redb W) (as_os_str (ar_cache args)) = Inr (the db)"
proof -
  have keeps: "keeps_cache (run_body W args ns)"
    unfolding run_body_def refused_datasets [OF assms(1-3)] scan_dirs_def probe_dirs_def
    by (auto intro!: cache_frame.within_intros cache_unused)
  have body: "(\<exists>e. r = Inl e) \<and> rn_db t = rn_db s" if "run_body W args ns s = Some (r, t)" for r s t
    using that io_keepsD [OF keeps that] refused_datasets [OF assms(1-3)]
    by (auto simp: run_body_def io_bind_Some io_lift_def)
  show "\<exists>e. r = Inl e" "db = None \<or> cache_open (wd_redb W) (as_os_str (ar_cache args)) = Inr (the db)"
    using assms(4) body
    by (auto simp: run_all_def run_start_def res_simps split: option.splits sum.splits)
qed

lemma dry_run_same:
  assumes "ar_dry_run args"
  shows "run_all (W\<lparr>wd_kernel := no_write (wd_kernel W) opn dd cl, wd_temp := T\<rparr>) args ns k = run_all W args ns k"
proof -
  let ?W = "W\<lparr>wd_kernel := no_write (wd_kernel W) opn dd cl, wd_temp := T\<rparr>"
  let ?opts = "\<lparr>op_dry_run = ar_dry_run args, op_fideduperange = False\<rparr>"
  have "dedup_dataset ?W ?opts = dedup_dataset W ?opts"
    by (intro ext) (simp add: dedup_dataset_def dedup_no_write assms)
  moreover have "scan_dataset ?W = scan_dataset W" by (rule scan_dataset_other) simp_all
  ultimately have "do_dataset ?W mounts exclude ?opts = do_dataset W mounts exclude ?opts" for mounts exclude
    by (intro do_dataset_other)
  moreover have "compact_cache ?W = compact_cache W" by (rule part_other) simp_all
  ultimately have "run_datasets ?W args mounts = run_datasets W args mounts" for mounts
    using assms by (intro ext) (simp add: run_datasets_def)
  moreover have "scan_dirs ?W args ns mounts = scan_dirs W args ns mounts" for mounts
    by (rule scan_dirs_other) simp_all
  ultimately have "run_body ?W args ns = run_body W args ns" by (simp add: run_body_def)
  then show ?thesis by (intro run_all_cong make_cache_dir_other) simp_all
qed

lemma no_private_mounts:
  assumes "enter_private_mount_ns (wd_mount W) k = Some (Inl e, k1)"
  shows "main_program (W\<lparr>wd_mount := (wd_mount W)\<lparr>me_remount := f\<rparr>\<rparr>) P env p k = main_program W P env p k"
proof -
  let ?W = "W\<lparr>wd_mount := (wd_mount W)\<lparr>me_remount := f\<rparr>\<rparr>"
  have fsid: "walk_fsid (wd_mount ?W) = walk_fsid (wd_mount W)" "is_ro (wd_mount ?W) = is_ro (wd_mount W)"
    "zfs_mounts (wd_mount ?W) = zfs_mounts (wd_mount W)"
    by (intro ext; simp add: walk_fsid_def is_ro_def zfs_mounts_def)+
  have "dedup_dataset ?W = dedup_dataset W" by (intro ext) (simp add: dedup_dataset_def)
  moreover have "scan_dataset ?W = scan_dataset W" by (rule scan_dataset_other) (use fsid(1) in simp_all)
  ultimately have "do_dataset ?W = do_dataset W" by (intro ext do_dataset_other [THEN fun_cong, THEN fun_cong]) simp_all
  moreover have "compact_cache ?W = compact_cache W" by (rule part_other) simp_all
  moreover have "probe_dirs ?W = probe_dirs W" by (rule ext) (simp add: probe_dirs_def)
  ultimately have "run_datasets ?W args mounts = run_datasets W args mounts" for args mounts
    using fsid(1) by (intro run_datasets_other) simp_all
  moreover have "scan_dirs ?W args False mounts = scan_dirs W args False mounts" for args mounts
    by (rule scan_dirs_other) (use fsid(2) in simp_all)
  ultimately have "run_body ?W args False = run_body W args False" for args
    using fsid(3) by (simp add: run_body_def)
  then have "run_all ?W args False k = run_all W args False k" for args k
    by (intro run_all_cong make_cache_dir_other) simp_all
  moreover have "enter_private_mount_ns (wd_mount ?W) = enter_private_mount_ns (wd_mount W)"
    by (simp add: enter_private_mount_ns_def)
  ultimately show ?thesis
    by (simp add: main_program_def assms cong: option.case_cong outcome.case_cong)
qed

end
