(* ===== verification/RunSample.thy ===== *)
theory RunSample imports RunModes begin

text \<open>
  One concrete run of \<open>src/main.rs\<close> from beginning to end, on which the properties of the run are
  instantiated: every stage is evaluated by its own lemma.
\<close>

section \<open>A concrete run\<close>

text \<open>
  The two files of \<open>Samples\<close> in one directory that is asked for with \<open>--force\<close>, their hashes in the
  cache already, on a system without FIDEDUPERANGE.
\<close>

definition sample_stat :: "u64 \<Rightarrow> u64 \<Rightarrow> metadata" where
  "sample_stat dev ino = \<lparr>md_is_file = True, md_is_dir = False, md_dev = dev, md_ino = ino, md_nlink = 1, md_size = 4,
     md_mtime = 0, md_mtime_nsec = 0, md_ctime = 0, md_ctime_nsec = 0, md_blksize = 4\<rparr>"

definition sample_mount_env :: "mem_fs mount_env" where
  "sample_mount_env = \<lparr>me_unshare = (\<lambda>k. (Inr (), k)), me_change = (\<lambda>p fs k. (Inr (), k)),
     me_remount = (\<lambda>p fs k. (Inr (), k)), me_mountinfo = (\<lambda>k. Inr []),
     me_statvfs = (\<lambda>p k. Inr \<lparr>sv_fsid = 1, sv_rdonly = False\<rparr>)\<rparr>"

definition sample_temp :: "mem_fs temp_env" where
  "sample_temp = \<lparr>te_tempfile = (\<lambda>d k. (Inr 9, k)), te_write_all = (\<lambda>f bs k. (Inr (), k)),
     te_sync_all = (\<lambda>f k. (Inr (), k)), te_dedupe = (\<lambda>f a k. (Inl ENOTTY, k))\<rparr>"

definition sample_files_env :: "u8 list file_env" where
  "sample_files_env = \<lparr>env_lstat = (\<lambda>p. Inr (sample_stat 5 (if p = usr @ [Normal [98]] then 7 else 8))),
     env_open = (\<lambda>p. Inr [1, 2, 3, 4]), env_fstat = (\<lambda>f. Inr (sample_stat 5 7)),
     env_set_direct = (\<lambda>f. f), env_read = mem_reader 3\<rparr>"

definition sample_world :: "(mem_fs, u8 list, mem_db, mem_db) world" where
  "sample_world = \<lparr>wd_mount = sample_mount_env,
     wd_zfs = \<lparr>ze_statfs = (\<lambda>p k. Inr ZFS_SUPER_MAGIC),
               ze_command = (\<lambda>c as k. Inr \<lparr>co_success = True, co_stdout = [], co_stderr = []\<rparr>)\<rparr>,
     wd_temp = sample_temp, wd_kernel = mem_kernel, wd_files = (\<lambda>k. sample_files_env),
     wd_batches = (\<lambda>k root dev. [(usr, [([98], 5, 7, 1), ([97], 5, 8, 1)])]),
     wd_stat = (\<lambda>p k. Inr (sample_stat (if p = usr then 5 else 6) 1)),
     wd_create_dir_all = (\<lambda>p k. (Inr (), k)), wd_canonicalize = (\<lambda>p k. Inr p),
     wd_redb = mem_redb\<lparr>rd_create := (\<lambda>p n. Inr sample_cache)\<rparr>, wd_xxh3 = (\<lambda>bs. 0),
     wd_order = (\<lambda>idx. [(4, sample_hash)]), wd_split = (\<lambda>pairs. [[(4, 0, 1)]])\<rparr>"

lemma sample_redb_lawful: "redb_lawful (wd_redb sample_world) map_of map_of"
  using mem_redb_lawful by (simp add: sample_world_def redb_lawful_def)

lemma sample_env_lawful: "env_lawful (wd_files sample_world k) id"
  by (simp add: sample_world_def sample_files_env_def env_lawful_def mem_reader_lawful)

lemma sample_world_lawful: "world_lawful sample_world mem_node mem_bytes (\<lambda>k f. True)"
  unfolding world_lawful_def temp_lawful_def
  using mem_kernel_lawful by (simp add: sample_world_def sample_temp_def sample_mount_env_def)

lemma sample_unsupported: "unsupported (wd_temp sample_world)"
  by (simp add: unsupported_def sample_world_def sample_temp_def ENOTTY_def)

subsection \<open>The walk and the hashes\<close>

definition sample_found :: "u64 paths" where
  "sample_found = \<lparr>ps_table = seal (ps_table sample_paths), ps_files = map (\<lambda>(f, h). (f, 1)) (ps_files sample_paths)\<rparr>"

lemma sample_walk:
  "walk_files (\<lambda>p. wd_stat sample_world p k) (\<lambda>p. walk_fsid (wd_mount sample_world) p k)
     (wd_batches sample_world k) [usr] {(6, 1)} = Inr sample_found"
proof -
  note eval = paths_push_def paths_empty_def usr_def intern.simps table_empty_def path_parent_def path_file_name_def
    push_dir_def add_name_def u32_try_from_def NO_PARENT_def as_os_str_def
  have "\<exists>t f g. sample_pushes = Inr \<lparr>ps_table = t, ps_files = [(f, sample_hashed 7), (g, sample_hashed 8)]\<rparr> \<and>
    fold_res (\<lambda>(d, n, x) ps. paths_push ps d n x) [(usr, [98], 1 :: u64), (usr, [97], 1)] paths_empty =
       Inr \<lparr>ps_table = t, ps_files = [(f, 1), (g, 1)]\<rparr>"
    by (simp add: sample_pushes_def eval)
  then obtain t f g where push: "sample_pushes = Inr \<lparr>ps_table = t, ps_files = [(f, sample_hashed 7), (g, sample_hashed 8)]\<rparr>"
    "fold_res (\<lambda>(d, n, x) ps. paths_push ps d n x) [(usr, [98], 1 :: u64), (usr, [97], 1)] paths_empty =
       Inr \<lparr>ps_table = t, ps_files = [(f, 1), (g, 1)]\<rparr>"
    by blast
  then obtain x where x: "paths_push paths_empty usr [98] (1 :: u64) = Inr x"
      "paths_push x usr [97] 1 = Inr \<lparr>ps_table = t, ps_files = [(f, 1), (g, 1)]\<rparr>"
    by (auto simp: res_simps)
  have "ps_table sample_paths = t" "ps_files sample_paths = [(f, sample_hashed 7), (g, sample_hashed 8)]"
    using sample_push(1) push(1) by (metis sum.inject(2) paths.select_convs)+
  with x show ?thesis
    by (simp add: walk_files_def root_ids_def sample_world_def sample_mount_env_def walk_fsid_def walk_root_def take_file_def
        sample_stat_def sample_found_def res_simps)
qed

definition sample_hashes :: "hashed paths" where
  "sample_hashes = sample_paths\<lparr>ps_table := seal (ps_table sample_paths)\<rparr>"

lemma sample_hit:
  assumes "i = 7 \<or> i = 8"
  shows "cached_hashes (wd_redb sample_world) sample_cache (from_metadata (sample_stat 5 i) 1) = Inr (Some [sample_hash])"
proof -
  have "cache_get (wd_redb sample_world) sample_cache 1 i = Inr (Some sample_cached)"
    using sample_get [OF assms] by (simp add: sample_world_def cache_get_def)
  then show ?thesis
    by (simp add: cached_hashes_def from_metadata_def sample_stat_def entry_matches_def sample_cached_def u32_try_from_def)
qed

lemma sample_hashing:
  "hash_files (wd_files sample_world k) (wd_redb sample_world) (wd_xxh3 sample_world) sample_cache sample_found =
     Some (Inr \<lparr>ps_table = ps_table sample_hashes, ps_files = map (\<lambda>(f, h). (f, Inr h)) (ps_files sample_hashes)\<rparr>, sample_cache)"
proof -
  let ?E = "wd_files sample_world k" and ?R = "wd_redb sample_world" and ?x = "wd_xxh3 sample_world"
  obtain f g where files: "ps_files sample_paths = [(f, sample_hashed 7), (g, sample_hashed 8)]"
    "paths_path sample_paths f = Some (Inr (usr @ [Normal [98]]))"
    "paths_path sample_paths g = Some (Inr (usr @ [Normal [97]]))"
    by (rule sample_files)
  have one: "hash_one ?E ?R ?x sample_cache p 1 = Some (Inr (from_metadata (sample_stat 5 i) 1, True, [sample_hash]))"
    if "p = usr @ [Normal [98]] \<and> i = 7 \<or> p = usr @ [Normal [97]] \<and> i = 8" for p i
  proof -
    have "env_lstat ?E p = Inr (sample_stat 5 i)" using that by (auto simp: sample_world_def sample_files_env_def)
    moreover have "md_is_file (sample_stat 5 i)" by (simp add: sample_stat_def)
    moreover have "i = 7 \<or> i = 8" using that by auto
    ultimately show ?thesis using sample_hit by (simp add: hash_one_def regular_stat_def)
  qed
  have new: "hashed_new (from_metadata (sample_stat 5 i) 1) True = sample_hashed i" for i
    by (simp add: hashed_new_def from_metadata_def sample_stat_def sample_hashed_def u32_try_from_def)
  have "hash_all (hash_path ?E ?R ?x sample_cache (ps_table sample_found)) [(f, 1), (g, 1)] =
      Some (Inr [(f, Inr (from_metadata (sample_stat 5 7) 1, True, [sample_hash])),
                 (g, Inr (from_metadata (sample_stat 5 8) 1, True, [sample_hash]))])"
    using files(2,3) by (simp add: hash_path_def sample_found_def paths_path_def one split_panic_def)
  then have "hash_batch ?E ?R ?x (ps_table sample_found) [(f, 1), (g, 1)] sample_cache =
      Some (Inr [(f, Inr (sample_hashed 7)), (g, Inr (sample_hashed 8))], sample_cache)"
    by (simp add: hash_batch_def List.map_filter_simps cache_put_many_def sample_world_def mem_redb_def new del: hash_all.simps)
  then show ?thesis
    by (simp add: hash_files_def map_batched_def batch_loop.simps sample_found_def sample_hashes_def files(1))
qed

lemma sample_keep:
  "\<exists>seen. bloom_inv seen \<and> keep_dataset (bloom_new n) \<lparr>ps_table = t, ps_files = map (\<lambda>(f, h). (f, Inr h)) fs\<rparr> s =
     Some (Inr (\<lparr>ps_table = t, ps_files = fs\<rparr>, seen), s)"
proof -
  have "\<exists>seen. bloom_inv seen \<and> filter_files (\<lambda>p x. keep_hashed p x t) (map (\<lambda>(f, h). (f, Inr h)) fs) (b, st, errs) =
      Inr (fs, seen, st, errs)" if "bloom_inv b" for b st errs
    using that
  proof (induction fs arbitrary: b)
    case (Cons x fs)
    obtain f h where x: "x = (f, h)" by (cases x)
    obtain c where c: "bloom_insert b (prune_key (h_fsid h) (h_ino h)) = Inr c" "bloom_inv c"
      using bloom_insert_ok [OF Cons.prems] by blast
    obtain seen where "bloom_inv seen" "filter_files (\<lambda>p x. keep_hashed p x t) (map (\<lambda>(f, h). (f, Inr h)) fs) (c, st, errs) =
        Inr (fs, seen, st, errs)"
      using Cons.IH [OF c(2)] by blast
    then show ?case by (simp add: x keep_hashed_def c(1))
  qed simp
  from this [OF bloom_new_inv] obtain seen where "bloom_inv seen" "filter_files (\<lambda>p x. keep_hashed p x t) (map (\<lambda>(f, h). (f, Inr h)) fs)
      (bloom_new n, rn_stats s, rn_hash_errors s) = Inr (fs, seen, rn_stats s, rn_hash_errors s)" by blast
  then show ?thesis by (simp add: keep_dataset_def paths_filter_map_def)
qed

definition sample_start :: "(mem_fs, mem_db) rstate" where
  "sample_start = run_start sample_fs sample_cache"

text \<open>The scan, of the directory as a part of a dataset and as a mount point.\<close>

lemma sample_scan:
  "scan_dataset sample_world [] {(6, 1)} 1 [usr] sample_start = Some (Inr sample_hashes, sample_start\<lparr>rn_total := 8\<rparr>)"
  "\<exists>t. scan_dataset sample_world [usr] {(6, 1)} 1 [usr] sample_start = Some (Inr sample_hashes, t)"
proof -
  let ?found = "\<lparr>ps_table = ps_table sample_hashes, ps_files = map (\<lambda>(f, h). (f, Inr h)) (ps_files sample_hashes)\<rparr>"
  have start: "rn_kernel sample_start = sample_fs" "rn_db sample_start = sample_cache" "rn_total sample_start = 0"
    by (simp_all add: sample_start_def run_start_def)
  obtain f g where files: "ps_files sample_paths = [(f, sample_hashed 7), (g, sample_hashed 8)]" by (rule sample_files)
  have hash: "hash_dataset sample_world sample_found sample_start = Some (Inr ?found, sample_start)"
    using sample_hashing by (simp add: hash_dataset_def start)
  obtain seen where keep: "bloom_inv seen" "keep_dataset (bloom_new 2) ?found sample_start = Some (Inr (sample_hashes, seen), sample_start)"
    using sample_keep [of 2 "ps_table sample_hashes" "ps_files sample_hashes" sample_start] by auto
  have len: "length (ps_files sample_found) = 2" "sum_list (map (h_size \<circ> snd) (ps_files sample_hashes)) = 8"
    by (simp_all add: sample_found_def sample_hashes_def files sample_hashed_def)
  have scan: "scan_dataset sample_world mounts {(6, 1)} 1 [usr] sample_start =
      io_bind (if usr \<in> set mounts then prune_dataset sample_world seen 1 else io_ret ()) (\<lambda>_. io_ret sample_hashes)
        (sample_start\<lparr>rn_total := 8\<rparr>)" for mounts
    by (simp add: scan_dataset_def io_bind_def io_query_def start sample_walk hash len keep(2) io_modify_def)
  show "scan_dataset sample_world [] {(6, 1)} 1 [usr] sample_start = Some (Inr sample_hashes, sample_start\<lparr>rn_total := 8\<rparr>)"
    by (simp add: scan io_ret_def)
  have "\<exists>n db. cache_prune (wd_redb sample_world) sample_cache (\<lambda>f i. bloom_contains seen (prune_key f i)) {1} = Inr (n, db)"
    by (simp add: cache_prune_def sample_world_def mem_redb_def sample_cache_def prune_keep_def bloom_contains_ok [OF keep(1)])
  then obtain n db where "cache_prune (wd_redb sample_world) sample_cache (\<lambda>f i. bloom_contains seen (prune_key f i)) {1} = Inr (n, db)"
    by blast
  then show "\<exists>t. scan_dataset sample_world [usr] {(6, 1)} 1 [usr] sample_start = Some (Inr sample_hashes, t)"
    by (simp add: scan prune_dataset_def start io_bind_def io_ret_def)
qed

subsection \<open>The clone phase\<close>

lemma worker_sealed: "worker_open K opts (ps\<lparr>ps_table := seal (ps_table ps)\<rparr>) = worker_open K opts ps"
  by (intro ext) (simp add: worker_open_def paths_path_def)

lemma dedup_sealed: "dedup K R order split (ps\<lparr>ps_table := seal (ps_table ps)\<rparr>) db opts k = dedup K R order split ps db opts k"
proof -
  let ?ps = "ps\<lparr>ps_table := seal (ps_table ps)\<rparr>"
  have "run_len ?ps = run_len ps" by (intro ext) (simp add: run_len_def)
  then have "do_run K opts ?ps = do_run K opts ps" by (intro ext) (simp only: do_run_def)
  then have "pair_files K opts ?ps = pair_files K opts ps"
    by (intro ext) (simp only: pair_files_def worker_sealed)
  then have "run_task K opts ?ps = run_task K opts ps" by (intro ext) (simp only: run_task_def)
  then have "run_tasks K opts ?ps pairs ts = run_tasks K opts ps pairs ts" for pairs ts
    by (induction ts) simp_all
  then show ?thesis by (simp add: dedup_def)
qed

lemma sample_dedup_dataset:
  "\<exists>t. dedup_dataset sample_world force sample_hashes (sample_start\<lparr>rn_total := 8\<rparr>) = Some (Inr (), t) \<and>
     rn_hash_errors t = 0 \<and> n_errors (rn_stats t) = 0"
proof -
  have "cache_get (wd_redb sample_world) = cache_get mem_redb"
    by (intro ext) (simp add: sample_world_def cache_get_def)
  then have "build_index (wd_redb sample_world) = build_index mem_redb"
    by (intro ext) (simp only: build_index_def each_chunk_def)
  then have "dedup mem_kernel (wd_redb sample_world) order split ps db opts = dedup mem_kernel mem_redb order split ps db opts" for order split ps db opts
    by (simp only: dedup_def)
  moreover obtain fs where "sample_dedup force sample_fs = Some (Inr sample_stats, fs)" using sample_dedup_runs by blast
  moreover have "wd_kernel sample_world = mem_kernel" "wd_order sample_world = (\<lambda>idx. [(4, sample_hash)])"
    "wd_split sample_world = (\<lambda>pairs. [[(4, 0, 1)]])" by (simp_all add: sample_world_def)
  ultimately show ?thesis
    by (simp add: dedup_dataset_def sample_hashes_def dedup_sealed sample_start_def run_start_def sample_stats_def stats_add_def
        stats_default_def)
qed

subsection \<open>The run and the program\<close>

definition sample_args :: args where
  "sample_args = \<lparr>ar_cache = [RootDir, Normal [99]], ar_dry_run = False, ar_jobs = None, ar_force = True, ar_dirs = [usr]\<rparr>"

lemma sample_probe: "probe_dirs sample_world [usr] s = Some (Inr False, s)"
  by (simp add: probe_dirs_def on_kernel_def sample_world_def sample_temp_def probe_dedupe_def and_then_def dedupe_range_def
      errno_defs FILE_DEDUPE_RANGE_DIFFERS_def)

lemma sample_mounted: "zfs_mounts (wd_mount sample_world) (wd_zfs sample_world) k = Inr []"
  by (simp add: zfs_mounts_def cloneable_pools_def zfs_cmd_def sample_world_def sample_mount_env_def utf8_lossy.simps
      pools_of_def zfs_mountpoints_def str_lines_def List.map_filter_simps)

lemma sample_scanned: "scan_dirs sample_world sample_args True [] s = Some (Inr [usr], s)"
  by (simp add: scan_dirs_def collect_dirs_def sample_args_def sample_world_def io_bind_def io_query_def io_gets_def io_ret_def
      is_zfs_def is_ro_def sample_mount_env_def remount_rw_binds_def io_view_def on_kernel_def btree_extend_def insort_insert_key_def str_lines_def
      List.map_filter_simps)

lemma sample_opened:
  "ar_cache args = [RootDir, Normal [99]] \<Longrightarrow> make_cache_dir sample_world args k = Some (Inr (), k)"
  "cache_open (wd_redb sample_world) p = Inr sample_cache"
  by (simp_all add: make_cache_dir_def path_parent_def sample_world_def cache_open_def mem_redb_def)

lemma sample_run_db: "\<exists>k. run_all sample_world sample_args True sample_fs = Some (Inr True, k, Some sample_cache)"
proof -
  obtain t where t: "dedup_dataset sample_world force sample_hashes (sample_start\<lparr>rn_total := 8\<rparr>) = Some (Inr (), t)"
    "rn_hash_errors t = 0" "n_errors (rn_stats t) = 0"
    using sample_dedup_dataset by blast
  have "rn_db t = sample_cache" using dedup_dataset_db [OF t(1)] by (simp add: sample_start_def run_start_def)
  have args: "\<not> ar_dry_run sample_args" "ar_force sample_args" "ar_cache sample_args = [RootDir, Normal [99]]"
    by (simp_all add: sample_args_def)
  have exclude: "excluded (wd_stat sample_world [RootDir, Normal [99]] k) = {(6, 1)}" for k
    by (simp add: excluded_def sample_world_def sample_stat_def usr_def)
  have groups: "by_fsid (\<lambda>d. walk_fsid (wd_mount sample_world) d k) [usr] = [(1, [usr])]" for k
    by (simp add: by_fsid_def walk_fsid_def sample_world_def sample_mount_env_def)
  have "do_dataset sample_world [] {(6, 1)} force (1, [usr]) sample_start = Some (Inr (), t)"
    by (simp add: do_dataset_def io_bind_def sample_scan(1) t(1))
  moreover have "compact_cache sample_world sample_args t = Some (Inr (), t)"
    by (simp add: compact_cache_def compact_if_bloated_def sample_world_def sample_stat_def mem_redb_def sample_args_def
        bloated_def saturating_mul_def saturating_sub_def)
  ultimately have "run_body sample_world sample_args True sample_start = Some (Inr True, t)"
    by (simp add: run_body_def io_bind_def io_query_def sample_mounted sample_scanned run_datasets_def args
        sample_probe io_gets_def io_ret_def exclude groups force_def t(2,3))
  then show ?thesis
    using \<open>rn_db t = sample_cache\<close> by (simp add: run_all_def sample_opened args(3) flip: sample_start_def)
qed

lemma sample_run: "\<exists>k db. run_all sample_world sample_args True sample_fs = Some (Inr True, k, db)"
  using sample_run_db by blast

end
