(* ===== verification/RunCorrect.thy ===== *)
theory RunCorrect imports RunSample begin

text \<open>
  The properties of the command line and of a whole run in \<open>src/main.rs\<close>.
\<close>

section \<open>The command line\<close>

text \<open>A parser over a list of options, which reads a number as its decimal digits.\<close>

definition mem_lexopt :: "opt list lexopt" where
  "mem_lexopt = \<lparr>
     lx_next = (\<lambda>ts. case ts of [] \<Rightarrow> (Inr None, [])
       | t # rest \<Rightarrow> (Inr (Some (opt_arg t)), if opt_value t = None then rest else ts)),
     lx_value = (\<lambda>ts. case ts of [] \<Rightarrow> (Inl ''missing value'', [])
       | t # rest \<Rightarrow> (case opt_value t of None \<Rightarrow> (Inl ''missing value'', rest) | Some v \<Rightarrow> (Inr v, rest))),
     lx_parse = (\<lambda>v. if list_all (\<lambda>b. 48 \<le> b \<and> b \<le> 57) v then Inr (foldl (\<lambda>n b. 10 * n + ucast b - 48) 0 v) else Inl ''invalid digit''),
     lx_unexpected = (\<lambda>a. ''unexpected'')\<rparr>"

lemma mem_lexopt_lawful: "lexopt_lawful mem_lexopt id"
  by (auto simp: lexopt_lawful_def mem_lexopt_def split: list.split option.split)

definition sample_opts :: "opt list" where
  "sample_opts = [CacheOpt True (as_os_str [RootDir, Normal [98]]), Force True, Dir (as_os_str usr),
     CacheOpt False (as_os_str [RootDir, Normal [99]])]"

lemma sample_components:
  "components (as_os_str [RootDir, Normal [98]]) = [RootDir, Normal [98]]"
  "components (as_os_str [RootDir, Normal [99]]) = [RootDir, Normal [99]]" "components (as_os_str usr) = usr"
  by (rule components_as_os_str, simp add: usr_def path_wf_def name_ok_def SLASH_def DOT_def)+

lemma sample_numbers: "numbers_ok mem_lexopt (id (JobsOpt False [56] # sample_opts))"
  by (simp add: numbers_ok_def sample_opts_def mem_lexopt_def)

text \<open>
  C37. A command line of options in their short and long forms, with values \<open>lexopt\<close> can read, is
  understood as it was meant: of several \<open>--cache\<close> or \<open>--jobs\<close> the last one counts and otherwise the
  default, each flag is set exactly if it occurs, and the directories are those given, in order.
\<close>

theorem arguments_exact:
  assumes "lexopt_lawful P view" "numbers_ok P (view p)"
  shows "parse_args P env p = Some (Parsed \<lparr>
    ar_cache = last_some (default_cache env) (map cache_value (view p)),
    ar_dry_run = list_ex is_dry_run (view p),
    ar_jobs = last_some None (map (jobs_value (lx_parse P)) (view p)),
    ar_force = list_ex is_force (view p),
    ar_dirs = List.map_filter dir_value (view p)\<rparr>)"
  by (simp add: parse_args_def parse_loop_opts [OF assms] fold_apply_opt)

theorem arguments_exact_witness:
  "parse_args mem_lexopt (\<lambda>_. None) (JobsOpt False [56] # sample_opts) = Some (Parsed (sample_args\<lparr>ar_jobs := Some 8\<rparr>))"
proof -
  show ?thesis
    using arguments_exact [OF mem_lexopt_lawful sample_numbers, of "\<lambda>_. None"]
    by (simp add: sample_opts_def sample_args_def sample_components List.map_filter_simps, simp add: mem_lexopt_def)
qed

section \<open>Which datasets\<close>

text \<open>
  The directories of a run: without arguments every mounted dataset, otherwise the resolved
  arguments and every dataset mounted at or below one of them, so that no child dataset is skipped;
  each directory once, in order.
\<close>

theorem dirs_exact:
  assumes "collect_dirs W mounts ds k = Inr dirs"
  shows "sorted dirs \<and> distinct dirs \<and>
    (if ds = [] then set dirs = set mounts
     else \<exists>roots. map (\<lambda>d. wd_canonicalize W d k) ds = map Inr roots \<and>
            set dirs = set roots \<union> {m \<in> set mounts. \<exists>r \<in> set roots. starts_with m r})"
  using collect_dirs_ok [OF assms] by (simp add: mounts_below_def)

theorem dirs_exact_witness:
  "collect_dirs sample_world [usr @ [Normal [97]], [RootDir, Normal [98]]] [usr] sample_fs = Inr [usr, usr @ [Normal [97]]] \<and>
   sorted [usr, usr @ [Normal [97]]]"
proof -
  have run: "collect_dirs sample_world [usr @ [Normal [97]], [RootDir, Normal [98]]] [usr] sample_fs = Inr [usr, usr @ [Normal [97]]]"
    by (simp add: collect_dirs_def sample_world_def btree_extend_def insort_insert_key_def starts_with_def usr_def)
  show ?thesis using run dirs_exact [OF run] by simp
qed

text \<open>
  The grouping by dataset: the groups come in increasing order of the dataset's id, each id once,
  and the group of an id holds exactly the directories with that id, in order. Files of different
  datasets, which cannot share blocks, never meet in one index.
\<close>

theorem datasets_grouped:
  "sorted_wrt (<) (map fst (by_fsid f dirs)) \<and>
   map_of (by_fsid f dirs) = (\<lambda>fs. case filter (\<lambda>d. f d = Inr fs) dirs of [] \<Rightarrow> None | d # ds \<Rightarrow> Some (d # ds))"
  using by_fsid_ok [of f dirs] by (auto simp: some_list_def fun_eq_iff split: list.split)

text \<open>
  Within one dataset, different inodes have different keys in the prune filter: the two
  multiplications and the three shifts mix without losing anything, so that a stale entry survives
  only a collision of the filter's probes.
\<close>

theorem prune_key_injective: "prune_key fs i = prune_key fs j \<longleftrightarrow> i = j"
  using prune_key_inj by blast

section \<open>A whole run\<close>

text \<open>
  C3. The program keeps the contents of every file. Whatever its arguments, from the private mount
  namespace and the probe of FIDEDUPERANGE to the last clone, over a kernel with the documented
  behaviour of its calls (any of which may fail at any point), when no other process writes
  meanwhile: whenever the program ends, with any exit code, every file has the bytes it had.
\<close>

theorem program_keeps_contents:
  assumes "world_lawful W node content anon" "main_program W P env p k = Some (code, k')"
  shows "content k' = content k"
  by (rule main_keeps [OF assms])

lemma sample_program: "\<exists>fs. main_program sample_world mem_lexopt env sample_opts sample_fs = Some (0, fs)"
proof -
  have "numbers_ok mem_lexopt (id sample_opts)" by (simp add: numbers_ok_def sample_opts_def)
  note parsed = parse_loop_opts [OF mem_lexopt_lawful this]
  have "parse_args mem_lexopt env sample_opts = Some (Parsed sample_args)"
    using parsed by (simp add: parse_args_def fold_apply_opt sample_opts_def sample_args_def sample_components List.map_filter_simps)
  moreover have "enter_private_mount_ns (wd_mount sample_world) sample_fs = Some (Inr (), sample_fs)"
    by (simp add: enter_private_mount_ns_def sample_world_def sample_mount_env_def io_bind_def io_context_def io_errno_def io_ret_def)
  moreover obtain fs db where "run_all sample_world sample_args True sample_fs = Some (Inr True, fs, db)"
    using sample_run by blast
  ultimately show ?thesis by (simp add: main_program_def exit_code_def)
qed

theorem program_keeps_contents_witness:
  "\<exists>fs. main_program sample_world mem_lexopt (\<lambda>_. None) sample_opts sample_fs = Some (0, fs) \<and> mem_bytes fs = mem_bytes sample_fs"
proof -
  obtain fs where run: "main_program sample_world mem_lexopt (\<lambda>_. None) sample_opts sample_fs = Some (0, fs)"
    using sample_program by blast
  show ?thesis using program_keeps_contents [OF sample_world_lawful run] run by blast
qed

text \<open>
  C10. The hash cache after the scan of one dataset: every file the scan keeps still has its entry,
  so that the index finds its hashes. An entry that the cache had before is gone only if all directories
  of the scan are mount points, and then only if it has this dataset's id and is of a file that the scan
  has not kept; a scan of a part of a dataset removes nothing, nor does any scan of another dataset.
\<close>

theorem scan_keeps_cache:
  assumes "redb_lawful (wd_redb W) tab ttab" "env_lawful (wd_files W (rn_kernel s)) rem"
    "scan_dataset W mounts exclude fs ds s = Some (Inr hashed, t)"
  shows "list_all (\<lambda>(p, h). knows tab (rn_db t) (h_fsid h, h_ino h)) (ps_files hashed) \<and>
    {k. knows tab (rn_db s) k \<and> \<not> knows tab (rn_db t) k} \<subseteq>
      (if set ds \<subseteq> set mounts then {(fs, i) |i. (fs, i) \<notin> (\<lambda>(p, h). (h_fsid h, h_ino h)) ` set (ps_files hashed)} else {})"
  using scan_dataset_ok [OF assms] by (fastforce simp: list_all_iff)

theorem scan_keeps_cache_witness:
  "\<exists>t. scan_dataset sample_world [usr] {(6, 1)} 1 [usr] sample_start = Some (Inr sample_hashes, t) \<and>
     list_all (\<lambda>(p, h). knows map_of (rn_db t) (h_fsid h, h_ino h)) (ps_files sample_hashes)"
proof -
  obtain t where run: "scan_dataset sample_world [usr] {(6, 1)} 1 [usr] sample_start = Some (Inr sample_hashes, t)"
    using sample_scan(2) by blast
  show ?thesis using scan_keeps_cache [OF sample_redb_lawful sample_env_lawful run] run by blast
qed

text \<open>
  C34. What a scan could not read counts as gone: when every directory of the scan is a mount point, and
  each of them could not be stat'ed or its listing could not be read, so that not one file was looked
  for, a scan that succeeds has removed every entry of the dataset from the cache, and no other one.
  The comment says that only datasets that were scanned in full are pruned; the code asks only whether
  the directories are mount points.
\<close>

theorem unread_dataset_evicted:
  assumes "redb_lawful (wd_redb W) tab ttab" "set ds \<subseteq> set mounts" "\<forall>d \<in> set ds. root_unread W rd (rn_kernel s) d"
    "scan_dataset W mounts exclude fs ds s = Some (Inr hashed, t)"
  shows "ps_files hashed = [] \<and> tab (rn_db t) = (\<lambda>(f, i). if f = fs then None else tab (rn_db s) (f, i))"
  using unread_scan [OF assms] by simp

theorem unread_dataset_evicted_witness:
  "\<exists>hashed t. scan_dataset (sample_world\<lparr>wd_stat := (\<lambda>p k. Inl (OsError EACCES))\<rparr>) [usr] {} 1 [usr] sample_start = Some (Inr hashed, t) \<and>
     knows map_of (rn_db sample_start) (1, 7) \<and> map_of (rn_db t) (1, 7) = None"
proof -
  let ?W = "sample_world\<lparr>wd_stat := (\<lambda>p k. Inl (OsError EACCES))\<rparr>"
  have start: "rn_db sample_start = sample_cache" by (simp add: sample_start_def run_start_def)
  have unread: "\<forall>d \<in> set [usr]. root_unread ?W rd (rn_kernel sample_start) d" for rd
    by (simp add: root_unread_def)
  have "\<exists>n db. cache_prune (wd_redb ?W) sample_cache (\<lambda>f i. bloom_contains (bloom_new 0) (prune_key f i)) {1} = Inr (n, db)"
    by (simp add: cache_prune_def sample_world_def mem_redb_def sample_cache_def prune_keep_def bloom_contains_ok [OF bloom_new_inv])
  then obtain n db where "cache_prune (wd_redb ?W) sample_cache (\<lambda>f i. bloom_contains (bloom_new 0) (prune_key f i)) {1} = Inr (n, db)"
    by blast
  then obtain hashed t where run: "scan_dataset ?W [usr] {} 1 [usr] sample_start = Some (Inr hashed, t)"
    using unread_files [OF unread, of "\<lambda>p. walk_fsid (wd_mount ?W) p (rn_kernel sample_start)" "{}"]
      scan_nothing [of ?W sample_start "[usr]" "{}"]
    by (fastforce simp: prune_dataset_def start io_bind_def io_ret_def)
  have "redb_lawful (wd_redb ?W) map_of map_of" using sample_redb_lawful by simp
  from unread_dataset_evicted [OF this _ unread run] have "map_of (rn_db t) (1, 7) = None" by simp
  moreover have "knows map_of (rn_db sample_start) (1, 7)"
    using cache_get_ok [OF mem_redb_lawful sample_get [of 7]] unfolding start knows_def by (metis option.distinct(1))
  ultimately show ?thesis using run by blast
qed

text \<open>
  C12. The gate: on a system where FIDEDUPERANGE never succeeds, whether the call fails or the error
  comes in the status of its target, and whichever error it is, without \<open>--force\<close> and outside a dry run,
  the program stops with an error before any file is walked, hashed or cloned: its result and its effects
  are the same whatever the walks would find, whatever opening and reading files would give and whatever
  the calls of the clone phase would do, and the cache is as it was opened.
\<close>

theorem refuses_without_dedupe:
  assumes "unsupported (wd_temp W)" "\<not> ar_dry_run args" "\<not> ar_force args" "run_all W args ns k = Some (r, k', db)"
  shows "(\<exists>e. r = Inl e) \<and> (db = None \<or> cache_open (wd_redb W) (as_os_str (ar_cache args)) = Inr (the db)) \<and>
    run_all (W\<lparr>wd_kernel := K, wd_files := F, wd_batches := B\<rparr>) args ns k = Some (r, k', db)"
  using refused_result [OF assms] refused_run [OF assms(1-3)] assms(4) by simp

theorem refuses_without_dedupe_witness:
  "\<exists>e k' db. run_all (sample_world\<lparr>wd_kernel := mem_kernel\<lparr>kn_clone := (\<lambda>f a k. (Inr (), []))\<rparr>,
       wd_files := (\<lambda>k. sample_files_env\<lparr>env_open := (\<lambda>p. Inl (OsError ENOENT))\<rparr>), wd_batches := (\<lambda>_ _ _. [])\<rparr>)
     (sample_args\<lparr>ar_force := False\<rparr>) True sample_fs = Some (Inl e, k', db)"
proof -
  let ?args = "sample_args\<lparr>ar_force := False\<rparr>"
  have cache: "ar_cache ?args = [RootDir, Normal [99]]" by (simp add: sample_args_def)
  have "run_datasets sample_world ?args [] [usr] sample_start =
      Some (Inl (Fail [Message ''This ZFS does not support FIDEDUPERANGE'']), sample_start)"
    by (subst refused_datasets [OF sample_unsupported])
       (simp_all add: sample_args_def io_bind_def sample_probe io_lift_def)
  moreover have "scan_dirs sample_world ?args True [] s = Some (Inr [usr], s)" for s
    using sample_scanned [of s] by (simp add: scan_dirs_def)
  ultimately have "run_body sample_world ?args True sample_start =
      Some (Inl (Fail [Message ''This ZFS does not support FIDEDUPERANGE'']), sample_start)"
    by (simp add: run_body_def io_bind_def io_query_def sample_mounted)
  then have "\<exists>e k' db. run_all sample_world ?args True sample_fs = Some (Inl e, k', db)"
    by (simp add: run_all_def sample_opened cache flip: sample_start_def)
  then obtain e k' db where run: "run_all sample_world ?args True sample_fs = Some (Inl e, k', db)" by blast
  show ?thesis
    using refuses_without_dedupe [OF sample_unsupported _ _ run] by (auto simp: sample_args_def)
qed

text \<open>
  C17. A dry run of the whole program makes no probe and no call that can write to a file: replacing
  the calls on temporary files, FICLONERANGE, FIDEDUPERANGE and opening for writing by anything at
  all changes neither the result nor the final state nor the cache.
\<close>

theorem dry_run_of_program:
  assumes "ar_dry_run args"
  shows "run_all (W\<lparr>wd_kernel := (wd_kernel W)\<lparr>kn_open := (\<lambda>p w. if w then opn p else kn_open (wd_kernel W) p False),
             kn_dedupe := dd, kn_clone := cl\<rparr>, wd_temp := T\<rparr>) args ns k = run_all W args ns k"
  by (rule dry_run_same [OF assms, unfolded no_write_def])

theorem dry_run_of_program_witness:
  "run_all (sample_world\<lparr>wd_kernel := mem_kernel\<lparr>kn_open := (\<lambda>p w. if w then (\<lambda>k. (Inr 9, [])) else kn_open mem_kernel p False),
       kn_dedupe := (\<lambda>f a k. (Inl EPERM, [])), kn_clone := (\<lambda>f a k. (Inr (), []))\<rparr>,
     wd_temp := sample_temp\<lparr>te_tempfile := (\<lambda>d k. (Inr 9, []))\<rparr>\<rparr>) (sample_args\<lparr>ar_dry_run := True\<rparr>) True sample_fs =
   run_all sample_world (sample_args\<lparr>ar_dry_run := True\<rparr>) True sample_fs"
proof -
  have K: "wd_kernel sample_world = mem_kernel" by (simp add: sample_world_def)
  show ?thesis
    by (rule dry_run_of_program [where W = sample_world and opn = "\<lambda>p k. (Inr 9, [])", unfolded K]) simp
qed

text \<open>
  C33. Without a private mount namespace nothing is remounted: if entering it fails, the program makes
  no remount call, which would change the mounts of the host; whatever that call would do, the exit
  code and the final state are the same.
\<close>

theorem host_mounts_untouched:
  assumes "enter_private_mount_ns (wd_mount W) k = Some (Inl e, k1)"
  shows "main_program (W\<lparr>wd_mount := (wd_mount W)\<lparr>me_remount := f\<rparr>\<rparr>) P env p k = main_program W P env p k"
  by (rule no_private_mounts [OF assms])

theorem host_mounts_untouched_witness:
  "main_program (sample_world\<lparr>wd_mount := sample_mount_env\<lparr>me_unshare := (\<lambda>k. (Inl EPERM, k)), me_remount := (\<lambda>p fs k. (Inr (), []))\<rparr>\<rparr>)
     mem_lexopt (\<lambda>_. None) sample_opts sample_fs =
   main_program (sample_world\<lparr>wd_mount := sample_mount_env\<lparr>me_unshare := (\<lambda>k. (Inl EPERM, k))\<rparr>\<rparr>)
     mem_lexopt (\<lambda>_. None) sample_opts sample_fs"
proof -
  let ?W = "sample_world\<lparr>wd_mount := sample_mount_env\<lparr>me_unshare := (\<lambda>k. (Inl EPERM, k))\<rparr>\<rparr>"
  have "enter_private_mount_ns (wd_mount ?W) sample_fs =
      Some (Inl (Fail [Message ''unshare(CLONE_NEWNS)'', ErrnoCause EPERM]), sample_fs)"
    by (simp add: enter_private_mount_ns_def io_bind_def io_context_def io_errno_def)
  from host_mounts_untouched [OF this, of "\<lambda>p fs k. (Inr (), [])"] show ?thesis by simp
qed

end
