(* ===== verification/RunTyped.thy ===== *)
theory RunTyped imports RunCorrect begin

text \<open>
  The type of the hash cache: every value in the table is the encoding of an entry with a chunk size
  that is not 0. Every operation of the program keeps it, so the program never reads back a value it
  cannot decode.
\<close>

section \<open>Well-typed tables\<close>

definition value_ok :: "u8 list \<Rightarrow> bool" where
  "value_ok v \<longleftrightarrow> (case decode v of Inl e \<Rightarrow> False | Inr e \<Rightarrow> 0 < fe_blksz e)"

definition table_ok :: "(cache_key \<rightharpoonup> u8 list) \<Rightarrow> bool" where
  "table_ok m \<longleftrightarrow> (\<forall>k v. m k = Some v \<longrightarrow> value_ok v)"

definition put_ok :: "u64 \<times> u64 \<times> entry_ref \<Rightarrow> bool" where
  "put_ok x \<longleftrightarrow> entry_wf (put_value x) \<and> 0 < er_blksz (put_value x)"

interpretation typed_frame: io_frame "\<lambda>s t. table_ok (tab s) \<longrightarrow> table_ok (tab t)" for tab :: "'s \<Rightarrow> cache_key \<rightharpoonup> u8 list"
  by unfold_locales simp_all

abbreviation keeps_typed :: "('s \<Rightarrow> cache_key \<rightharpoonup> u8 list) \<Rightarrow> ('a, 's) io \<Rightarrow> bool" where
  "keeps_typed tab \<equiv> io_keeps (\<lambda>s t. table_ok (tab s) \<longrightarrow> table_ok (tab t))"

lemma layout_ok: "entry_wf r \<Longrightarrow> 0 < er_blksz r \<Longrightarrow> value_ok (entry_layout r)"
proof -
  assume r: "entry_wf r" "0 < er_blksz r"
  let ?e = "\<lparr>fe_size = er_size r, fe_mtime_ns = er_mtime_ns r, fe_ctime_ns = er_ctime_ns r,
      fe_blksz = er_blksz r, fe_hashes = er_hashes r\<rparr>"
  have "r = as_ref ?e" by (simp add: as_ref_def)
  then show ?thesis using r decode_layout [of ?e] by (simp add: value_ok_def)
qed

lemma put_many_typed:
  assumes "redb_lawful R tab ttab" "list_all put_ok xs" "table_ok (tab db)" "cache_put_many R db xs = Inr db'"
  shows "table_ok (tab db')"
proof -
  have "list_all (entry_wf \<circ> put_value) xs" using assms(2) by (simp add: list_all_iff put_ok_def)
  from cache_put_many_table [OF assms(1) this assms(4)]
  have tab: "tab db' = tab db ++ map_of (rev (map (\<lambda>x. (put_key x, entry_layout (put_value x))) xs))" .
  show ?thesis
    unfolding table_ok_def
  proof (intro allI impI)
    fix k v assume "tab db' k = Some v"
    then consider "tab db k = Some v" | x where "x \<in> set xs" "v = entry_layout (put_value x)"
      using map_of_SomeD [of "rev (map (\<lambda>x. (put_key x, entry_layout (put_value x))) xs)" k v]
      by (auto simp: tab map_add_def simp del: split_paired_All split_paired_Ex split: option.splits)
    then show "value_ok v"
    proof cases
      case 1
      then show ?thesis using assms(3) unfolding table_ok_def by blast
    next
      case 2
      then show ?thesis using assms(2) layout_ok by (simp add: list_all_iff put_ok_def)
    qed
  qed
qed

section \<open>What hashing stores\<close>

lemma hash_loop_wf:
  "hash_loop xxh3 rd buf hashes r = Some y \<Longrightarrow> list_all hash_wf hashes \<Longrightarrow> fst y = Inr hs \<Longrightarrow> list_all hash_wf hs"
proof (induction rule: hash_loop.raw_induct [rotated, consumes 1, case_names step])
  case (step loop xxh3 rd buf hashes r y)
  then show ?case
    by (auto simp: hash_wf_def split: prod.splits sum.splits if_splits)
qed

lemma hash_miss_typed:
  assumes "hash_miss E xxh3 p fsid = Some (Inr (s, c, hs))"
  shows "0 < st_blksz s \<and> list_all hash_wf hs"
proof -
  obtain f where f: "open_nofollow E p = Inr f" using assms by (auto simp: hash_miss_def split: sum.splits)
  obtain s' where s': "regular_stat (env_fstat E f) fsid = Inr s'" using assms f by (auto simp: hash_miss_def split: sum.splits)
  obtain x r where x: "hash_fd xxh3 (env_read E) (try_o_direct E f (st_blksz s')) (st_blksz s') = Some (x, r)"
      "rbind x (\<lambda>hashes. Inr (s', False, hashes)) = Inr (s, c, hs)"
    using assms f s' by (auto simp: hash_miss_def)
  then have eq: "x = Inr hs" "s' = s" by (auto simp: res_simps)
  then show ?thesis
    using x(1) hash_loop_wf [of xxh3 "env_read E" _ "[]"] by (auto simp: hash_fd_eq split: if_splits)
qed

lemma hash_one_typed:
  assumes "hash_one E R xxh3 db p fsid = Some (Inr (s, False, hs))"
  shows "put_ok (st_fsid s, st_ino s, stat_entry s hs)"
proof -
  have "hash_miss E xxh3 p fsid = Some (Inr (s, False, hs))"
    using assms by (auto simp: hash_one_def split: sum.splits option.splits)
  from hash_miss_typed [OF this] show ?thesis by (simp add: put_ok_def put_value_def entry_wf_def stat_entry_def)
qed

lemma hash_batch_typed:
  assumes "redb_lawful R tab ttab"
  shows "keeps_typed tab (hash_batch E R xxh3 t batch)"
proof (rule io_keepsI, rule impI)
  fix db r db' assume run: "hash_batch E R xxh3 t batch db = Some (r, db')" and ok: "table_ok (tab db)"
  obtain z where z: "hash_all (hash_path E R xxh3 db t) batch = Some z"
    using run by (auto simp: hash_batch_def)
  show "table_ok (tab db')"
  proof (cases z)
    case (Inl e)
    then show ?thesis using run z ok by (simp add: hash_batch_def)
  next
    case (Inr rs)
    have one: "list_all2 (\<lambda>(p, fsid) (p', x). p' = p \<and> hash_path E R xxh3 db t p fsid = Some (Inr x)) batch rs"
      by (rule hash_all_list [OF z [unfolded Inr]])
    have "list_all put_ok (List.map_filter miss_entry rs)"
      unfolding list_all_iff
    proof
      fix w assume "w \<in> set (List.map_filter miss_entry rs)"
      then obtain p s hs where w: "(p, Inr (s, False, hs)) \<in> set rs" "w = (st_fsid s, st_ino s, stat_entry s hs)"
        by (fastforce simp: map_filter_def elim!: miss_entry.elims)
      then obtain q fsid where "hash_path E R xxh3 db t q fsid = Some (Inr (Inr (s, False, hs)))"
        using one by (fastforce simp: list_all2_conv_all_nth in_set_conv_nth)
      then obtain p' where "hash_one E R xxh3 db p' fsid = Some (Inr (s, False, hs))"
        by (auto simp: hash_path_def split_panic_Inr split: option.splits sum.splits)
      from hash_one_typed [OF this] show "put_ok w" by (simp add: w)
    qed
    from put_many_typed [OF assms this ok]
    show ?thesis using run z Inr ok by (auto simp: hash_batch_def split: sum.splits)
  qed
qed

lemma batch_loop_typed:
  assumes "\<And>chunk. keeps_typed tab (step chunk)"
  shows "keeps_typed tab (batch_loop n step files out)"
proof (rule io_keepsI)
  show "batch_loop n step files out s = Some (r, t) \<Longrightarrow> table_ok (tab s) \<longrightarrow> table_ok (tab t)" for s r t
    using assms
  proof (induction n step files out s rule: batch_loop.induct)
    case (1 n step files out s)
    show ?case
    proof (cases "take n files = []")
      case True
      then show ?thesis using "1.prems" by (simp add: batch_loop.simps)
    next
      case False
      obtain y u where y: "step (take n files) s = Some (y, u)"
        using "1.prems"(1) False by (auto simp: batch_loop.simps [of n step files out s] split: option.splits)
      have u: "table_ok (tab s) \<longrightarrow> table_ok (tab u)" by (rule io_keepsD [OF "1.prems"(2) y])
      show ?thesis
      proof (cases y)
        case (Inl e)
        then show ?thesis using "1.prems"(1) False y u by (simp add: batch_loop.simps [of n step files out s])
      next
        case (Inr ys)
        have "batch_loop n step (drop n files) (out @ ys) u = Some (r, t)"
          using "1.prems"(1) False y Inr by (simp add: batch_loop.simps [of n step files out s])
        from "1.IH" [OF False y [unfolded Inr] refl refl this "1.prems"(2)] u show ?thesis by blast
      qed
    qed
  qed
qed

lemma hash_files_typed:
  assumes "redb_lawful R tab ttab" "hash_files E R xxh3 db ps = Some (r, db')" "table_ok (tab db)"
  shows "table_ok (tab db')"
proof -
  have "keeps_typed tab (batch_loop 100000 (hash_batch E R xxh3 (ps_table ps)) (ps_files ps) [])"
    by (intro batch_loop_typed hash_batch_typed [OF assms(1)])
  moreover obtain x where "batch_loop 100000 (hash_batch E R xxh3 (ps_table ps)) (ps_files ps) [] db = Some (x, db')"
    using assms(2) by (auto simp: hash_files_def map_batched_def)
  ultimately have "table_ok (tab db) \<longrightarrow> table_ok (tab db')" by (rule io_keepsD)
  then show ?thesis using assms(3) by blast
qed

section \<open>The whole run\<close>

text \<open>A new database is empty or one that an earlier run has left, and compacting keeps the table.\<close>

definition store_lawful :: "('db, 'tx) redb \<Rightarrow> ('db \<Rightarrow> cache_key \<rightharpoonup> u8 list) \<Rightarrow> bool" where
  "store_lawful R tab \<longleftrightarrow> (\<forall>p n db. rd_create R p n = Inr db \<longrightarrow> table_ok (tab db)) \<and>
     (\<forall>db b db'. rd_compact R db = Inr (b, db') \<longrightarrow> tab db' = tab db)"

abbreviation keeps_db :: "('db \<Rightarrow> cache_key \<rightharpoonup> u8 list) \<Rightarrow> ('a, ('k, 'db) rstate) io \<Rightarrow> bool" where
  "keeps_db tab \<equiv> keeps_typed (\<lambda>s. tab (rn_db s))"

lemma same_db:
  assumes "\<And>s r t. m s = Some (r, t) \<Longrightarrow> rn_db t = rn_db s"
  shows "keeps_db tab m"
  using assms by (fastforce simp: io_keeps_def)

lemma typed_others:
  "keeps_db tab (on_kernel m)" "keeps_db tab (io_query f)" "keeps_db tab (keep_dataset seen results)"
  "keeps_db tab (dedup_dataset W opts hashed)" "keeps_db tab (io_modify (\<lambda>s. s\<lparr>rn_total := g s\<rparr>))"
  "keeps_db tab (probe_dirs W dirs)"
  by (auto intro!: same_db dest: dedup_dataset_db simp: on_kernel_def io_query_def keep_dataset_def io_simps probe_dirs_def split: sum.splits)

lemma typed_prune:
  assumes "redb_lawful (wd_redb W) tab ttab" "bloom_inv seen"
  shows "keeps_db tab (prune_dataset W seen fs)"
proof (rule io_keepsI, rule impI)
  fix s r t assume run: "prune_dataset W seen fs s = Some (r, t)" and ok: "table_ok (tab (rn_db s))"
  show "table_ok (tab (rn_db t))"
  proof (cases r)
    case (Inl e)
    then show ?thesis using run ok by (auto simp: prune_dataset_def split: sum.splits)
  next
    case (Inr u)
    show ?thesis
      using prune_dataset_ok [OF assms run [unfolded Inr]] ok by (auto simp: table_ok_def split: if_splits)
  qed
qed

lemma typed_scan:
  assumes "redb_lawful (wd_redb W) tab ttab"
  shows "keeps_db tab (scan_dataset W mounts exclude fs ds)"
proof -
  have hash: "keeps_db tab (hash_dataset W ps)" for ps
    using hash_files_typed [OF assms] by (fastforce simp: io_keeps_def hash_dataset_def)
  have keep: "keeps_db tab (io_bind (keep_dataset (bloom_new n) results) (\<lambda>(hashed, seen). f hashed seen))"
    if f: "\<And>hashed seen. bloom_inv seen \<Longrightarrow> keeps_db tab (f hashed seen)" for n results and f :: "_ \<Rightarrow> _ \<Rightarrow> ('x, _) io"
  proof (rule io_keepsI)
    fix s r t assume "io_bind (keep_dataset (bloom_new n) results) (\<lambda>(hashed, seen). f hashed seen) s = Some (r, t)"
    then consider e where "keep_dataset (bloom_new n) results s = Some (Inl e, t)"
      | hashed seen u where "keep_dataset (bloom_new n) results s = Some (Inr (hashed, seen), u)" "f hashed seen u = Some (r, t)"
      by (auto simp: io_bind_Some)
    then show "table_ok (tab (rn_db s)) \<longrightarrow> table_ok (tab (rn_db t))"
    proof cases
      case 1
      from io_keepsD [OF typed_others(3) this] show ?thesis .
    next
      case 2
      note k = keep_dataset_ok [OF 2(1)]
      from io_keepsD [OF f [OF k(3)] 2(2)] show ?thesis by (simp add: k(4))
    qed
  qed
  show ?thesis
    unfolding scan_dataset_def
    by (intro typed_frame.within_bind typed_others hash keep)
      (auto intro!: typed_frame.within_intros typed_others typed_prune [OF assms])
qed

lemma typed_compact:
  assumes "store_lawful (wd_redb W) tab"
  shows "keeps_db tab (compact_cache W args)"
proof (rule io_keepsI, rule impI)
  fix s r t assume run: "compact_cache W args s = Some (r, t)" and ok: "table_ok (tab (rn_db s))"
  have "tab db = tab (rn_db s)" if "compact_if_bloated (wd_redb W) len (rn_db s) = Inr (b, db)" for len b db
    using that assms by (auto simp: compact_if_bloated_def store_lawful_def res_simps split: if_splits)
  then show "table_ok (tab (rn_db t))" using run ok by (auto simp: compact_cache_def split: sum.splits)
qed

lemma typed_body:
  assumes "redb_lawful (wd_redb W) tab ttab" "store_lawful (wd_redb W) tab"
  shows "keeps_db tab (run_body W args ns)"
  unfolding run_body_def run_datasets_def scan_dirs_def do_dataset_def
  by (auto intro!: typed_frame.within_intros typed_others typed_scan [OF assms(1)] typed_compact [OF assms(2)]
      split: prod.split)

lemma cache_open_table:
  assumes "redb_lawful R tab ttab" "store_lawful R tab" "cache_open R p = Inr db"
  shows "table_ok (tab db)"
proof -
  obtain db0 tx tx' where run: "rd_create R p (64 * 2 ^ 20) = Inr db0" "rd_begin_write R db0 = Inr tx"
      "rd_open_table R tx = Inr tx'" "rd_commit R db0 tx' = Inr db"
    using assms(3) by (auto simp: cache_open_def res_simps)
  have "tab db = tab db0"
    using redb_lawfulD(2) [OF assms(1) run(2)] redb_lawfulD(3) [OF assms(1) run(3)] redb_lawfulD(8) [OF assms(1) run(4)] by simp
  moreover have "table_ok (tab db0)" using assms(2) run(1) unfolding store_lawful_def by blast
  ultimately show ?thesis by simp
qed

text \<open>
  C9. The hash cache stays well-typed. When the table the program opens holds encoded entries with a
  chunk size that is not 0, so does the table it leaves, whatever happens during the run: with any
  arguments, any kernel, any files that change while they are read, on success, on an error and on a
  panic. A lookup in it never finds a value that cannot be decoded.
\<close>

theorem cache_stays_typed:
  assumes "redb_lawful (wd_redb W) tab ttab" "store_lawful (wd_redb W) tab" "run_all W args ns k = Some (r, k', Some db)"
    "tab db key = Some v"
  shows "\<exists>e. decode v = Inr e \<and> 0 < fe_blksz e"
proof -
  obtain k1 db0 s where run: "cache_open (wd_redb W) (as_os_str (ar_cache args)) = Inr db0"
      "run_body W args ns (run_start k1 db0) = Some (r, s)" "rn_db s = db"
    using assms(3) by (auto simp: run_all_def with_context_def split: option.splits sum.splits fault.splits)
  have "table_ok (tab db0)" by (rule cache_open_table [OF assms(1,2) run(1)])
  then have "table_ok (tab db)"
    using io_keepsD [OF typed_body [OF assms(1,2)] run(2)] by (simp add: run(3) run_start_def)
  then have "value_ok v" using assms(4) unfolding table_ok_def by blast
  then show ?thesis by (auto simp: value_ok_def split: sum.splits)
qed

lemma sample_store_lawful: "store_lawful (wd_redb sample_world) map_of"
proof -
  have "value_ok (entry_layout (as_ref sample_cached))"
    by (rule layout_ok) (simp_all add: entry_wf_def as_ref_def sample_cached_def sample_hash_def hash_wf_def HASH_LEN_def)
  then have "table_ok (map_of sample_cache)" by (auto simp: table_ok_def sample_cache_def split: if_splits)
  then show ?thesis by (simp add: store_lawful_def sample_world_def mem_redb_def)
qed

theorem cache_stays_typed_witness:
  "\<exists>k db v e. run_all sample_world sample_args True sample_fs = Some (Inr True, k, Some db) \<and>
     map_of db (1, 7) = Some v \<and> decode v = Inr e \<and> 0 < fe_blksz e"
proof -
  obtain k where run: "run_all sample_world sample_args True sample_fs = Some (Inr True, k, Some sample_cache)"
    using sample_run_db by blast
  have "map_of sample_cache (1, 7) = Some (entry_layout (as_ref sample_cached))" by (simp add: sample_cache_def)
  from cache_stays_typed [OF sample_redb_lawful sample_store_lawful run this] this run show ?thesis by blast
qed

end
