(* ===== verification/RunReturns.thy ===== *)
theory RunReturns imports RunCorrect begin

text \<open>
  The program with its tasks one after the other ends, given what its walks found: whatever the arguments,
  the files and the answers of the kernel are, every loop of \<open>src/main.rs\<close> and of the components it
  calls returns. That the walks end, and the parallel clone phases, is added in \<open>RunSchedule\<close>.
\<close>

definition io_returns :: "('a, 's) io \<Rightarrow> bool" where
  "io_returns m \<longleftrightarrow> (\<forall>s. m s \<noteq> None)"

lemma io_returnsI: "(\<And>s. \<exists>r t. m s = Some (r, t)) \<Longrightarrow> io_returns m"
  by (metis io_returns_def option.distinct(1))

lemma io_returnsD: "io_returns m \<Longrightarrow> \<exists>r t. m s = Some (r, t)"
  by (metis io_returns_def not_None_eq surj_pair)

lemma returns_bind:
  assumes "io_returns m" "\<And>s x t. m s = Some (Inr x, t) \<Longrightarrow> io_returns (f x)"
  shows "io_returns (io_bind m f)"
  unfolding io_returns_def
proof
  fix s
  obtain r t where "m s = Some (r, t)" using io_returnsD [OF assms(1)] by blast
  then show "io_bind m f s \<noteq> None"
    using assms(2) [of s] by (cases r) (auto simp: io_simps io_returns_def)
qed

lemma returns_basic:
  "io_returns (io_lift r)" "io_returns (io_ret x)" "io_returns (io_gets f)" "io_returns (io_modify g)"
  "io_returns (io_query h)"
  by (simp_all add: io_returns_def io_simps io_query_def)

lemma returns_attempt: "io_returns m \<Longrightarrow> io_returns (io_attempt m)"
  by (auto simp: io_returns_def io_attempt_def split: option.split sum.split fault.split)

lemma returns_context: "io_returns m \<Longrightarrow> io_returns (io_context msg m)"
  by (simp add: io_returns_def io_context_def)

lemma returns_for: "(\<And>x. x \<in> set xs \<Longrightarrow> io_returns (f x)) \<Longrightarrow> io_returns (io_for f xs)"
  by (induction xs) (auto intro: returns_bind returns_basic)

lemmas returns_intros = returns_basic returns_bind returns_attempt returns_context returns_for

section \<open>Path stores whose parents come first\<close>

text \<open>What following parents needs to end, kept by every operation that succeeds, however large the store.\<close>

definition links_ok :: "path_table \<Rightarrow> bool" where
  "links_ok t \<longleftrightarrow> chain_ok (pt_dirs t) \<and> (\<forall>p i. pt_ids t p = Some i \<longrightarrow> unat i < length (pt_dirs t))"

definition files_ok :: "'a paths \<Rightarrow> bool" where
  "files_ok ps \<longleftrightarrow> links_ok (ps_table ps) \<and> (\<forall>(fp, x) \<in> set (ps_files ps). unat (fp_dir fp) < length (pt_dirs (ps_table ps)))"

lemma add_name_links: "add_name t name = Inr (ol, t') \<Longrightarrow> pt_dirs t' = pt_dirs t \<and> pt_ids t' = pt_ids t"
  by (auto simp: add_name_def res_simps)

lemma push_dir_links:
  assumes "push_dir t p parent name = Inr (i, t')" "links_ok t" "parent = NO_PARENT \<or> unat parent < length (pt_dirs t)"
  shows "links_ok t' \<and> unat i < length (pt_dirs t') \<and> length (pt_dirs t) \<le> length (pt_dirs t')"
proof -
  obtain ol t1 where t1: "add_name t name = Inr (ol, t1)" "u32_try_from (length (pt_dirs t1)) = Some i" "i \<noteq> NO_PARENT"
    "t' = t1\<lparr>pt_dirs := pt_dirs t1 @ [\<lparr>d_parent = parent, d_off = fst ol, d_len = snd ol\<rparr>], pt_ids := (pt_ids t1)(p \<mapsto> i)\<rparr>"
    using assms(1) by (auto simp: push_dir_def res_simps)
  have same: "pt_dirs t1 = pt_dirs t" "pt_ids t1 = pt_ids t" using add_name_links [OF t1(1)] by simp_all
  have i: "length (pt_dirs t) < 2 ^ 32" "unat i = length (pt_dirs t)"
    using t1(2) by (auto simp: same u32_try_from_def unat_of_nat split: if_splits)
  have "unat i \<noteq> unat NO_PARENT" using t1(3) by (simp add: word_unat_eq_iff)
  then have "length (pt_dirs t) \<noteq> 2 ^ 32 - 1" using i(2) by (simp add: unat_NO_PARENT)
  then have "chain_ok (pt_dirs t')"
    using assms(2,3) i by (auto simp: chain_ok_def links_ok_def t1(4) same nth_append less_Suc_eq)
  then show ?thesis using assms(2) i(2) by (auto simp: links_ok_def t1(4) same less_SucI)
qed

lemma intern_links:
  assumes "intern t p = Inr (i, t')" "links_ok t"
  shows "links_ok t' \<and> unat i < length (pt_dirs t') \<and> length (pt_dirs t) \<le> length (pt_dirs t')"
  using assms
proof (induction t p arbitrary: i t' rule: intern.induct)
  case (1 t p)
  show ?case
  proof (cases "pt_ids t p")
    case (Some j)
    then show ?thesis using "1.prems" by (auto simp: intern.simps [of t p] links_ok_def)
  next
    case None
    show ?thesis
    proof (cases "\<exists>par name. path_parent p = Some par \<and> path_file_name p = Some name")
      case True
      then obtain par name where p: "path_parent p = Some par" "path_file_name p = Some name" by blast
      obtain j u where u: "intern t par = Inr (j, u)" "push_dir u p j name = Inr (i, t')"
        using "1.prems"(1) None p by (auto simp: intern.simps [of t p] res_simps)
      have IH: "links_ok u" "unat j < length (pt_dirs u)" "length (pt_dirs t) \<le> length (pt_dirs u)"
        using "1.IH" [OF None _ p(1,2) u(1) "1.prems"(2)] by auto
      show ?thesis using push_dir_links [OF u(2) IH(1)] IH(2,3) by auto
    next
      case False
      then have "push_dir t p NO_PARENT (as_os_str p) = Inr (i, t')"
        using "1.prems"(1) None by (auto simp: intern.simps [of t p] split: option.splits)
      from push_dir_links [OF this "1.prems"(2)] show ?thesis by simp
    qed
  qed
qed

lemma paths_push_links:
  assumes "paths_push ps parent name x = Inr ps'" "files_ok ps"
  shows "files_ok ps'"
proof -
  obtain i t off len t' where run: "intern (ps_table ps) parent = Inr (i, t)" "add_name t name = Inr ((off, len), t')"
    "ps' = \<lparr>ps_table = t', ps_files = ps_files ps @ [(\<lparr>fp_dir = i, fp_off = off, fp_len = len\<rparr>, x)]\<rparr>"
    using assms(1) by (auto simp: paths_push_def res_simps)
  have "links_ok (ps_table ps)" using assms(2) by (simp add: files_ok_def)
  from intern_links [OF run(1) this] add_name_links [OF run(2)]
  show ?thesis using assms(2) by (fastforce simp: files_ok_def links_ok_def run(3))
qed

lemma files_ok_seal: "files_ok ps \<Longrightarrow> files_ok (ps\<lparr>ps_table := seal (ps_table ps)\<rparr>)"
  by (auto simp: files_ok_def links_ok_def seal_def)

lemma fold_res_keeps:
  assumes "fold_res f xs s = Inr t" "P s" "\<And>x s t. f x s = Inr t \<Longrightarrow> P s \<Longrightarrow> P t"
  shows "P t"
  using assms(1,2)
proof (induction xs arbitrary: s)
  case (Cons x xs)
  then show ?case using assms(3) by (auto simp: res_simps)
qed simp

lemma walk_files_ok:
  assumes "walk_files stat fsid_of batches roots exclude = Inr ps"
  shows "files_ok ps"
proof -
  have one: "files_ok (snd t)" if "take_file dev f ex parent x s = Inr t" "files_ok (snd s)" for dev f ex parent x s t
    using that paths_push_links
    by (cases x; cases s) (fastforce simp: take_file_def res_simps split: if_splits)
  have dir: "files_ok (snd t)" if "fold_res (take_file dev f ex parent) fs s = Inr t" "files_ok (snd s)" for dev f ex parent fs s t
    using that(1) by (rule fold_res_keeps [where P = "\<lambda>s. files_ok (snd s)"]) (use that(2) one in auto)
  have root: "files_ok (snd t)" if "walk_root dev f ex bs s = Inr t" "files_ok (snd s)" for dev f ex bs s t
    using that(1) unfolding walk_root_def
    by (rule fold_res_keeps [where P = "\<lambda>s. files_ok (snd s)"]) (use that(2) dir in auto)
  obtain seen out where run: "fold_res (\<lambda>root s. case root_ids stat fsid_of root of
         Inl e \<Rightarrow> Inr s
       | Inr (dev, f) \<Rightarrow> walk_root dev f exclude (batches root dev) s) roots ({}, paths_empty) = Inr (seen, out)"
     "ps = out\<lparr>ps_table := seal (ps_table out)\<rparr>"
    using assms by (auto simp: walk_files_def res_simps)
  have empty: "files_ok paths_empty" by (simp add: files_ok_def links_ok_def chain_ok_def paths_empty_def table_empty_def)
  have "files_ok (snd (seen, out))"
    using run(1) by (rule fold_res_keeps [where P = "\<lambda>s. files_ok (snd s)"])
      (use root empty in \<open>auto split: sum.splits prod.splits\<close>)
  then show ?thesis by (simp add: run(2) files_ok_seal)
qed

lemma to_path_returns:
  assumes "links_ok t" "unat (fp_dir fp) < length (pt_dirs t)"
  shows "\<exists>r. to_path t fp = Some r"
proof -
  have "chain_ok (pt_dirs t)" using assms(1) by (simp add: links_ok_def)
  from dir_parts_ends [OF this, of "fp_dir fp"] assms(2)
  obtain ps where "dir_parts (pt_dirs t @ []) (fp_dir fp) [] = Some (Inr ([] @ ps))" by blast
  then show ?thesis by (simp add: to_path_def dir_path_def)
qed

section \<open>Hashing\<close>

lemma hash_one_returns:
  assumes "env_lawful E rem"
  shows "\<exists>r. hash_one E R xxh3 db p fsid = Some r"
proof -
  have "\<exists>r. hash_fd xxh3 (env_read E) f blksz = Some r" for f blksz
  proof (cases "0 < blksz")
    case True
    have "reader_lawful (env_read E) rem" using assms by (simp add: env_lawful_def)
    from hash_fd_ok [OF this True, of xxh3 f] show ?thesis by blast
  qed (simp add: hash_fd_eq)
  then have miss: "\<exists>r. hash_miss E xxh3 p fsid = Some r"
    by (fastforce simp: hash_miss_def split: sum.split)
  show ?thesis
    unfolding hash_one_def using miss by (auto split: sum.split option.split)
qed

lemma hash_all_returns: "(\<And>p x. (p, x) \<in> set batch \<Longrightarrow> \<exists>r. f p x = Some r) \<Longrightarrow> \<exists>r. hash_all f batch = Some r"
proof (induction f batch rule: hash_all.induct)
  case (2 f p x batch)
  obtain r where "f p x = Some r" using "2.prems" by force
  moreover obtain r' where "hash_all f batch = Some r'" using "2.IH" "2.prems" calculation by fastforce
  ultimately show ?case by simp
qed simp

lemma batch_loop_returns:
  "(\<And>chunk s. set chunk \<subseteq> set files \<Longrightarrow> \<exists>r. step chunk s = Some r) \<Longrightarrow> \<exists>r. batch_loop n step files out s = Some r"
proof (induction n step files out s rule: batch_loop.induct)
  case (1 n step files out s)
  show ?case
  proof (cases "take n files = []")
    case False
    obtain r t where r: "step (take n files) s = Some (r, t)"
      using "1.prems" [of "take n files" s] set_take_subset by (metis surj_pair)
    show ?thesis
    proof (cases r)
      case (Inr ys)
      have "\<exists>r. batch_loop n step (drop n files) (out @ ys) t = Some r"
        by (rule "1.IH" [OF False r [unfolded Inr] refl refl])
          (use "1.prems" set_drop_subset [of n files] in blast)
      then show ?thesis using False r Inr by (simp add: batch_loop.simps [of n step files out s])
    qed (use False r in \<open>simp add: batch_loop.simps [of n step files out s]\<close>)
  qed (simp add: batch_loop.simps)
qed

lemma hash_files_returns:
  assumes "env_lawful E rem" "files_ok ps"
  shows "\<exists>r. hash_files E R xxh3 db ps = Some r"
proof -
  have "\<exists>r. hash_batch E R xxh3 (ps_table ps) chunk s = Some r" if "set chunk \<subseteq> set (ps_files ps)" for chunk s
  proof -
    have "\<exists>r. hash_path E R xxh3 s (ps_table ps) p fsid = Some r" if "(p, fsid) \<in> set chunk" for p fsid
    proof -
      have "\<exists>r. to_path (ps_table ps) p = Some r"
        using that \<open>set chunk \<subseteq> _\<close> assms(2) by (intro to_path_returns) (auto simp: files_ok_def)
      then show ?thesis
        using hash_one_returns [OF assms(1)] by (fastforce simp: hash_path_def split: sum.split)
    qed
    then obtain z where "hash_all (hash_path E R xxh3 s (ps_table ps)) chunk = Some z"
      using hash_all_returns [of chunk "hash_path E R xxh3 s (ps_table ps)"] by blast
    then show ?thesis by (simp add: hash_batch_def)
  qed
  then obtain z where "batch_loop 100000 (hash_batch E R xxh3 (ps_table ps)) (ps_files ps) [] db = Some z"
    using batch_loop_returns [of "ps_files ps" "hash_batch E R xxh3 (ps_table ps)"] by blast
  then show ?thesis by (cases z) (simp add: hash_files_def map_batched_def)
qed

section \<open>The clone phase\<close>

lemma returns_calls: "io_returns (io_call f)" "io_returns (io_ioctl g)" "io_returns (bump d)"
  by (simp_all add: io_returns_def io_call_def io_ioctl_def bump_def io_modify_def case_prod_unfold)

lemma returns_reads: "io_returns (read_a K fl off n)" "io_returns (read_b K fl off n)"
  by (rule io_returnsI, rule read_returns)+

lemma returns_counts: "io_returns (count_error e)" "io_returns (count_result opts r)"
proof -
  show "io_returns (count_error e)" for e
    by (auto simp: count_error_def intro!: returns_basic returns_calls split: verdict.split)
  then show "io_returns (count_result opts r)"
    by (auto simp: count_result_def intro!: returns_intros returns_calls split: sum.split option.split)
qed

lemma returns_verify: "io_returns (verify_and_clone K opts sf so df dst_off n compare)"
  unfolding verify_and_clone_def by (auto intro!: returns_intros returns_calls returns_reads split: dedupe.split)

lemma returns_open:
  assumes "files_ok ps"
  shows "io_returns (worker_open K opts ps i w)"
  unfolding worker_open_def
proof (intro returns_bind)
  fix s x t assume "io_lift (index_res (ps_files ps) i) s = Some (Inr x, t)"
  then have "x \<in> set (ps_files ps)" by (auto simp: io_simps index_res_def split: if_splits)
  then have "unat (fp_dir (fst x)) < length (pt_dirs (ps_table ps))" "links_ok (ps_table ps)"
    using assms by (auto simp: files_ok_def)
  then obtain r where "paths_path ps (fst x) = Some r"
    using to_path_returns [of "ps_table ps" "fst x"] by (auto simp: paths_path_def)
  then show "io_returns (case x of (fp, _) \<Rightarrow> io_bind (io_opt (paths_path ps fp)) (\<lambda>p.
      io_context ''open'' (io_call (kn_open K p (w \<and> \<not> op_dry_run opts)))))"
    by (cases x) (auto simp: io_opt_Some intro!: returns_intros returns_calls)
qed (rule returns_basic)

lemma returns_pair:
  assumes "files_ok ps"
  shows "io_returns (pair_files K opts ps blksz s d runs)"
proof -
  have "io_returns (do_run K opts ps blksz s d b sf df r)" for b sf df r
    unfolding do_run_def by (auto intro!: returns_intros returns_calls returns_counts returns_verify)
  then show ?thesis
    unfolding pair_files_def Let_def
    by (auto intro!: returns_intros returns_open [OF assms] returns_counts split: sum.split prod.split)
qed

lemma returns_task:
  assumes "files_ok ps"
  shows "io_returns (run_task K opts ps pairs keys)"
proof -
  have "io_returns (task_loop K opts ps pairs keys)"
    unfolding task_loop_def
    by (intro returns_for) (auto intro!: returns_basic returns_pair [OF assms] split: option.split)
  then show ?thesis by (simp add: io_returns_def run_task_def task_loop_def)
qed

lemma returns_dedup:
  assumes "files_ok ps"
  shows "io_returns (dedup K R order split ps db opts)"
proof -
  have "io_returns (run_tasks K opts ps pairs ts)" for pairs ts
    by (induction ts) (auto intro!: returns_intros returns_task [OF assms])
  then show ?thesis unfolding dedup_def by (auto intro!: returns_intros)
qed

section \<open>The run\<close>

lemma returns_state:
  "io_returns (keep_dataset seen results)" "io_returns (prune_dataset W seen fs)" "io_returns (compact_cache W args)"
  "io_returns m \<Longrightarrow> io_returns (on_kernel m)"
  by (auto simp: io_returns_def keep_dataset_def prune_dataset_def compact_cache_def on_kernel_def split: sum.split)

lemma keep_files_ok:
  assumes "keep_dataset (bloom_new n) results s = Some (Inr (hashed, seen), t)" "files_ok results"
  shows "files_ok hashed"
proof -
  note k = keep_dataset_ok(1,2) [OF assms(1)]
  have "\<exists>y. (p, y) \<in> set (ps_files results)" if "(p, h) \<in> set (ps_files hashed)" for p h
    using that by (auto simp: k(2) in_map_filter elim!: hashed_file.elims)
  then show ?thesis using assms(2) by (fastforce simp: files_ok_def k(1))
qed

lemma hash_files_files_ok:
  assumes "redb_lawful R tab ttab" "env_lawful E rem" "hash_files E R xxh3 db ps = Some (Inr out, db')" "files_ok ps"
  shows "files_ok out"
proof -
  note known = hash_files_known(1,2) [OF assms(1-3)]
  have "\<exists>x. (p, x) \<in> set (ps_files ps)" if "(p, y) \<in> set (ps_files out)" for p y
    using list_all2_member [OF known(2) that] by (auto simp: result_known_def)
  then show ?thesis using assms(4) by (fastforce simp: files_ok_def known(1))
qed

lemma returns_hash:
  assumes "\<forall>k. \<exists>rem. env_lawful (wd_files W k) rem" "files_ok ps"
  shows "io_returns (hash_dataset W ps)"
proof (rule io_returnsI)
  fix s :: "('a, 'c) rstate"
  obtain rem where "env_lawful (wd_files W (rn_kernel s)) rem" using assms(1) by blast
  then show "\<exists>r t. hash_dataset W ps s = Some (r, t)"
    using hash_files_returns [OF _ assms(2)] by (fastforce simp: hash_dataset_def)
qed

lemma hash_dataset_files_ok:
  assumes "redb_lawful (wd_redb W) tab ttab" "\<forall>k. \<exists>rem. env_lawful (wd_files W k) rem"
    "hash_dataset W ps s = Some (Inr out, t)" "files_ok ps"
  shows "files_ok out"
proof -
  obtain rem where "env_lawful (wd_files W (rn_kernel s)) rem" using assms(2) by blast
  then show ?thesis
    using assms(3) hash_files_files_ok [OF assms(1) _ _ assms(4)] by (auto simp: hash_dataset_def)
qed

lemma walk_query_ok: "io_query (\<lambda>s. walk_files (f s) (g s) (h s) ds ex) s = Some (Inr ps, t) \<Longrightarrow> files_ok ps"
  by (auto simp: io_query_def dest: walk_files_ok)

lemma returns_scan:
  assumes "\<forall>k. \<exists>rem. env_lawful (wd_files W k) rem"
  shows "io_returns (scan_dataset W mounts exclude fs ds)"
  unfolding scan_dataset_def
  by (auto intro!: returns_intros returns_hash [OF assms] returns_state elim!: walk_query_ok)

lemma scan_files_ok:
  assumes "redb_lawful (wd_redb W) tab ttab" "\<forall>k. \<exists>rem. env_lawful (wd_files W k) rem"
    "scan_dataset W mounts exclude fs ds s = Some (Inr hashed, t)"
  shows "files_ok hashed"
proof -
  obtain ps results n seen s1 s2 where run: "files_ok ps" "hash_dataset W ps s = Some (Inr results, s1)"
    "keep_dataset (bloom_new n) results s1 = Some (Inr (hashed, seen), s2)"
    using assms(3) walk_files_ok by (fastforce simp: scan_dataset_def io_bind_Some io_simps io_query_def split: prod.splits)
  show ?thesis by (rule keep_files_ok [OF run(3) hash_dataset_files_ok [OF assms(1,2) run(2,1)]])
qed

lemma returns_dedup_dataset: "files_ok hashed \<Longrightarrow> io_returns (dedup_dataset W opts hashed)"
  using returns_dedup [of hashed "wd_kernel W" "wd_redb W"] by (simp add: io_returns_def dedup_dataset_def)

lemma returns_errno: "io_returns (io_errno f)" "io_returns (io_view g)"
  by (simp_all add: io_returns_def io_errno_def io_view_def case_prod_unfold)

lemma returns_remount: "io_returns (remount_rw_binds E roots)" "io_returns (enter_private_mount_ns E)"
  unfolding remount_rw_binds_def remount_one_def enter_private_mount_ns_def
  by (auto intro!: returns_intros returns_errno)

lemma returns_probe: "io_returns (probe_dirs W dirs)"
  by (simp add: probe_dirs_def io_returns_def on_kernel_def case_prod_unfold)

lemma returns_body:
  assumes "redb_lawful (wd_redb W) tab ttab" "\<forall>k. \<exists>rem. env_lawful (wd_files W k) rem"
  shows "io_returns (run_body W args ns)"
proof -
  have one: "io_returns (do_dataset W mounts exclude opts x)" for mounts exclude opts x
    unfolding do_dataset_def
    by (auto intro!: returns_bind returns_scan [OF assms(2)] returns_dedup_dataset elim!: scan_files_ok [OF assms] split: prod.split)
  have "io_returns (run_datasets W args mounts dirs)" for mounts dirs
    unfolding run_datasets_def by (auto intro!: returns_intros returns_state returns_probe one)
  moreover have "io_returns (scan_dirs W args ns mounts)" for mounts
    unfolding scan_dirs_def by (auto intro!: returns_intros returns_state returns_remount)
  ultimately show ?thesis unfolding run_body_def by (auto intro!: returns_intros)
qed

section \<open>The arguments\<close>

text \<open>
  What the parser promises: every argument it yields has used up some of the command line, and asking
  for a value gives nothing back.
\<close>

definition lexopt_ends :: "'p lexopt \<Rightarrow> ('p \<Rightarrow> nat) \<Rightarrow> bool" where
  "lexopt_ends P left \<longleftrightarrow> (\<forall>p a q. lx_next P p = (Inr (Some a), q) \<longrightarrow> left q < left p \<and> left (snd (lx_value P q)) \<le> left q)"

lemma parse_loop_returns:
  assumes "lexopt_ends P left"
  shows "\<exists>out. parse_loop P p args = Some out"
proof (induction p arbitrary: args rule: measure_induct_rule [where f = left])
  case (less p)
  obtain r q where nx: "lx_next P p = (r, q)" by force
  show ?case
  proof (cases "\<exists>a. r = Inr (Some a)")
    case True
    then obtain a where a: "r = Inr (Some a)" by blast
    obtain h q' where h: "handle_arg P a q args = (h, q')" by force
    have "q' = q \<or> q' = snd (lx_value P q)"
      using h by (auto simp: handle_arg_def split: if_splits sum.splits prod.splits arg.splits)
    then have "left q' < left p"
      using assms nx by (fastforce simp: lexopt_ends_def a)
    then show ?thesis
      using less.IH by (subst parse_loop.simps) (auto simp: nx a h split: sum.split)
  next
    case False
    then show ?thesis by (subst parse_loop.simps) (auto simp: nx split: sum.split option.split)
  qed
qed

section \<open>The whole program\<close>

text \<open>
  With the tasks one after the other, the program returns an exit code, given what its walks found:
  every argument uses up some of the command line, the files that it opens have an end, and the database
  keeps to its contract.
\<close>

lemma main_program_returns:
  assumes "lexopt_ends P left" "redb_lawful (wd_redb W) tab ttab" "\<forall>k. \<exists>rem. env_lawful (wd_files W k) rem"
  shows "\<exists>code k'. main_program W P env p k = Some (code, k') \<and> code \<in> {0, 1, 2, 101}"
proof -
  have all: "\<exists>r k' db. run_all W args ns k = Some (r, k', db)" for args ns k
  proof -
    have "\<exists>r t. run_body W args ns s = Some (r, t)" for s
      using returns_body [OF assms(2,3), of args ns] by (auto simp: io_returns_def)
    moreover have "\<exists>r t. make_cache_dir W args k = Some (r, t)"
      by (auto simp: make_cache_dir_def split: option.split prod.split)
    ultimately show ?thesis
      by (fastforce simp: run_all_def split: sum.split)
  qed
  obtain r k1 where ns: "enter_private_mount_ns (wd_mount W) k = Some (r, k1)"
    using io_returnsD [OF returns_remount(2) [of "wd_mount W"], of k] by blast
  obtain out where out: "parse_args P env p = Some out"
    using parse_loop_returns [OF assms(1)] by (auto simp: parse_args_def)
  show ?thesis
  proof (cases out)
    case (Parsed args)
    obtain r' k' db where "run_all W args (case r of Inl e \<Rightarrow> False | Inr _ \<Rightarrow> True) k1 = Some (r', k', db)"
      using all by blast
    moreover have "exit_code r' \<in> {0, 1, 2, 101}"
      by (simp add: exit_code_def split: sum.split bool.split fault.split)
    ultimately show ?thesis by (simp add: main_program_def out Parsed ns)
  qed (simp_all add: main_program_def out)
qed

text \<open>A parser that keeps the value of the last option until it is asked for.\<close>

definition pending_lexopt :: "(u8 list option \<times> opt list) lexopt" where
  "pending_lexopt = \<lparr>
     lx_next = (\<lambda>(v, ts). case v of
         Some _ \<Rightarrow> (Inl ''unexpected argument'', None, ts)
       | None \<Rightarrow> (case ts of [] \<Rightarrow> (Inr None, None, []) | t # rest \<Rightarrow> (Inr (Some (opt_arg t)), opt_value t, rest))),
     lx_value = (\<lambda>(v, ts). case v of None \<Rightarrow> (Inl ''missing argument'', None, ts) | Some x \<Rightarrow> (Inr x, None, ts)),
     lx_parse = lx_parse mem_lexopt,
     lx_unexpected = lx_unexpected mem_lexopt\<rparr>"

lemma pending_lexopt_ends: "lexopt_ends pending_lexopt (length \<circ> snd)"
  by (auto simp: lexopt_ends_def pending_lexopt_def split: option.splits list.splits)

end
