(* ===== verification/CallsRun.thy ===== *)
theory CallsRun imports Calls Partition begin

text \<open>
  A task's program, run alone over a kernel on which closing a file does not show, is the task of the
  theory \<open>Worker\<close>: the same result, the same calls on the same kernel states.
\<close>

definition with_kernel :: "'j \<Rightarrow> 'k wstate \<Rightarrow> 'j wstate" where
  "with_kernel k s = \<lparr>ws_kernel = k, ws_buf_a = ws_buf_a s, ws_buf_b = ws_buf_b s, ws_stats = ws_stats s\<rparr>"

lemma with_kernel_simps [simp]:
  "ws_kernel (with_kernel k s) = k" "ws_buf_a (with_kernel k s) = ws_buf_a s"
  "ws_buf_b (with_kernel k s) = ws_buf_b s" "ws_stats (with_kernel k s) = ws_stats s"
  "with_kernel k (with_kernel k' s) = with_kernel k s" "with_kernel (ws_kernel s) s = s"
  "with_kernel () (u :: unit wstate) = u"
  by (simp_all add: with_kernel_def)

lemma with_kernel_update [simp]:
  "(with_kernel k s)\<lparr>ws_kernel := k'\<rparr> = with_kernel k' s"
  "(with_kernel k s)\<lparr>ws_buf_a := a\<rparr> = with_kernel k (s\<lparr>ws_buf_a := a\<rparr>)"
  "(with_kernel k s)\<lparr>ws_buf_b := b\<rparr> = with_kernel k (s\<lparr>ws_buf_b := b\<rparr>)"
  "(with_kernel k s)\<lparr>ws_stats := c\<rparr> = with_kernel k (s\<lparr>ws_stats := c\<rparr>)"
  by (simp_all add: with_kernel_def)

abbreviation run_alone :: "'k kernel \<Rightarrow> 'r prog \<Rightarrow> 'k \<Rightarrow> ('r \<times> 'k) option" where
  "run_alone K \<equiv> run_prog K (\<lambda>_ k. k)"

definition performs :: "'k kernel \<Rightarrow> 'a act \<Rightarrow> ('a, 'k wstate) io \<Rightarrow> bool" where
  "performs K a m \<longleftrightarrow> (\<forall>s k. m (with_kernel k s) =
     map_option (\<lambda>((r, s), k). (r, with_kernel k s)) (run_alone K (a s) k))"

lemma performsI:
  "(\<And>s k. m (with_kernel k s) = map_option (\<lambda>((r, s), k). (r, with_kernel k s)) (run_alone K (a s) k)) \<Longrightarrow> performs K a m"
  by (simp add: performs_def)

lemma performsD:
  "performs K a m \<Longrightarrow> m (with_kernel k s) = map_option (\<lambda>((r, s), k). (r, with_kernel k s)) (run_alone K (a s) k)"
  by (simp add: performs_def)

lemma performs_pure:
  "performs K (act_local (io_lift x)) (io_lift x)" "performs K (act_local (io_ret y)) (io_ret y)"
  "performs K (act_local (io_opt z)) (io_opt z)" "performs K (act_local (bump d)) (bump d)"
  by (cases z; simp add: performs_def act_local_def io_simps io_opt_def bump_def io_modify_def)+

lemma performs_bind:
  assumes "performs K a m" "\<And>x. performs K (g x) (f x)"
  shows "performs K (act_bind a g) (io_bind m f)"
proof (rule performsI)
  fix s k
  show "io_bind m f (with_kernel k s) =
      map_option (\<lambda>((r, s), k). (r, with_kernel k s)) (run_alone K (act_bind a g s) k)"
    using performsD [OF assms(1), of k s] performsD [OF assms(2)]
    by (auto simp: act_bind_def run_then io_bind_def split: option.split sum.split)
qed

lemma performs_attempt:
  assumes "performs K a m"
  shows "performs K (act_attempt a) (io_attempt m)"
proof (rule performsI)
  fix s k
  show "io_attempt m (with_kernel k s) =
      map_option (\<lambda>((r, s), k). (r, with_kernel k s)) (run_alone K (act_attempt a s) k)"
    using performsD [OF assms, of k s]
    by (auto simp: act_attempt_def run_then io_attempt_def split: option.split sum.split fault.split)
qed

lemma performs_context:
  assumes "performs K a m"
  shows "performs K (act_context msg a) (io_context msg m)"
proof (rule performsI)
  fix s k
  show "io_context msg m (with_kernel k s) =
      map_option (\<lambda>((r, s), k). (r, with_kernel k s)) (run_alone K (act_context msg a s) k)"
    using performsD [OF assms, of k s]
    by (auto simp: act_context_def run_then io_context_def split: option.split)
qed

lemma performs_for: "(\<And>x. performs K (g x) (f x)) \<Longrightarrow> performs K (act_for g xs) (io_for f xs)"
  by (induction xs) (auto intro: performs_bind performs_pure)

text \<open>Closing does not show.\<close>

lemma performs_closing: "performs K a m \<Longrightarrow> performs K (act_closing fl a) m"
  unfolding performs_def act_closing_def
  by (auto simp: run_then split: option.split)

lemma performs_owning: "performs K a m \<Longrightarrow> performs K (act_owning fl a) m"
  unfolding performs_def act_owning_def
  by (auto simp: run_then split: option.split sum.split)

lemma act_bind_ret [simp]: "act_bind (act_local (io_ret x)) g = g x"
  by (rule ext) (simp add: act_bind_def act_local_def io_simps)

section \<open>The worker\<close>

lemma performs_open: "performs K (call_open p w) (io_call (kn_open K p w))"
  by (rule performsI) (simp add: call_open_def io_call_def split: prod.split)

lemma performs_dedupe: "performs K (call_dedupe src so dst n len) (io_ioctl (dedupe_range (kn_dedupe K) src so dst n len))"
  by (rule performsI) (auto simp: call_dedupe_def io_ioctl_def dedupe_range_def Let_def split: prod.split)

lemma performs_clone: "performs K (call_clone src so dst n len) (io_ioctl (clone_range (kn_clone K) src so dst n len))"
  by (rule performsI) (auto simp: call_clone_def io_ioctl_def clone_range_def split: prod.split)

lemma prog_read_exact_runs:
  "run_alone K (prog_read_exact fl buf n off) k =
     (case read_exact_at K fl buf n off k of (r, buf, k) \<Rightarrow> Some ((r, buf), k))"
proof (induction fl buf n off arbitrary: k rule: prog_read_exact.induct)
  case (1 fl buf n off)
  show ?case
    using "1.IH"
    by (subst prog_read_exact.simps, subst read_exact_at.simps) (auto split: prod.split sum.split)
qed

lemma performs_read_a: "performs K (act_read_a fl off n) (read_a K fl off n)"
  by (rule performsI) (auto simp: act_read_a_def read_a_def run_then prog_read_exact_runs split: prod.split)

lemma performs_read_b: "performs K (act_read_b fl off n) (read_b K fl off n)"
  by (rule performsI) (auto simp: act_read_b_def read_b_def run_then prog_read_exact_runs split: prod.split)

lemma performs_differ:
  "performs K (act_local (io_gets (\<lambda>s. ws_buf_a s \<noteq> ws_buf_b s))) (io_gets (\<lambda>s. ws_buf_a s \<noteq> ws_buf_b s))"
  by (rule performsI) (simp add: act_local_def io_simps)

lemma performs_count: "performs K (act_local (count_error e)) (count_error e)"
  by (cases "classify e") (simp_all add: count_error_def performs_pure)

lemma performs_result: "performs K (act_local (count_result opts r)) (count_result opts r)"
proof (cases "\<exists>n. r = Inr (Some n)")
  case True
  then show ?thesis
    by (auto intro!: performsI simp: act_local_def count_result_def io_bind_def bump_def io_modify_def io_ret_def)
next
  case False
  then consider e where "r = Inl e" | "r = Inr None" by (metis option.exhaust sum.exhaust)
  then show ?thesis by cases (simp_all add: count_result_def performs_count performs_pure)
qed

lemmas performs_intros = performs_pure performs_bind performs_attempt performs_context performs_for performs_closing
  performs_owning performs_open performs_dedupe performs_clone performs_read_a performs_read_b performs_differ
  performs_count performs_result

lemma performs_worker_open: "performs K (act_open opts ps i wr) (worker_open K opts ps i wr)"
  unfolding act_open_def worker_open_def by (auto intro!: performs_intros split: prod.split)

lemma performs_verify: "performs K (act_verify opts sf so df n len compare) (verify_and_clone K opts sf so df n len compare)"
  unfolding act_verify_def verify_and_clone_def by (auto intro!: performs_intros split: dedupe.split)

lemma performs_run: "performs K (act_run opts ps blksz s d compare sf df r) (do_run K opts ps blksz s d compare sf df r)"
  unfolding act_run_def do_run_def by (auto intro!: performs_intros performs_verify)

lemma performs_pair: "performs K (act_pair opts ps blksz s d runs) (pair_files K opts ps blksz s d runs)"
  unfolding act_pair_def pair_files_def Let_def
  by (auto intro!: performs_intros performs_worker_open performs_run split: sum.split prod.split)

lemma performs_loop: "performs K (act_loop opts ps pairs keys) (task_loop K opts ps pairs keys)"
  unfolding act_loop_def task_loop_def
  by (auto intro!: performs_for performs_pair performs_pure split: option.split)

lemma task_prog_runs: "run_alone K (task_prog opts ps pairs keys) k = run_task K opts ps pairs keys k"
proof -
  have new: "with_kernel k (worker_new ()) = worker_new k" by (simp add: with_kernel_def worker_new_def)
  show ?thesis
    using performsD [OF performs_loop, of K opts ps pairs keys k "worker_new ()"]
    by (auto simp: new task_prog_def run_then run_task_def task_loop_def split: option.split)
qed

end
