(* ===== verification/Schedule.thy ===== *)
theory Schedule imports CallsRun Completes "HOL-Library.Multiset" begin

text \<open>
  The rayon tasks of the clone phase running in parallel: \<open>into_par_iter().fold().map().reduce()\<close> at the
  end of \<open>src/dedup.rs\<close>. A state is the list of what each task has left to do, and the kernel. A step
  lets one task make its next call. Every schedule is a path of such steps.
\<close>

section \<open>Steps\<close>

primrec step_prog :: "'k kernel \<Rightarrow> (fd \<Rightarrow> 'k \<Rightarrow> 'k) \<Rightarrow> 'r prog \<Rightarrow> 'k \<Rightarrow> ('r prog \<times> 'k) option" where
  "step_prog K close (Ret r) k = None"
| "step_prog K close Spin k = None"
| "step_prog K close (Open p w f) k = (case kn_open K p w k of (x, k) \<Rightarrow> Some (f x, k))"
| "step_prog K close (Read fl off n f) k = (case kn_read_at K fl off n k of (x, k) \<Rightarrow> Some (f x, k))"
| "step_prog K close (Dedupe fl a f) k = (case kn_dedupe K fl a k of (x, k) \<Rightarrow> Some (f x, k))"
| "step_prog K close (Clone fl a f) k = (case kn_clone K fl a k of (x, k) \<Rightarrow> Some (f x, k))"
| "step_prog K close (Close fl p) k = Some (p, close fl k)"

inductive par_step ::
    "'k kernel \<Rightarrow> (fd \<Rightarrow> 'k \<Rightarrow> 'k) \<Rightarrow> 'r prog list \<times> 'k \<Rightarrow> 'r prog list \<times> 'k \<Rightarrow> bool" for K close where
  par_step: "i < length ts \<Longrightarrow> step_prog K close (ts ! i) k = Some (p, k') \<Longrightarrow>
    par_step K close (ts, k) (ts[i := p], k')"

inductive_cases par_stepE: "par_step K close (ts, k) (ts', k')"

abbreviation schedule :: "'k kernel \<Rightarrow> (fd \<Rightarrow> 'k \<Rightarrow> 'k) \<Rightarrow> 'r prog list \<times> 'k \<Rightarrow> 'r prog list \<times> 'k \<Rightarrow> bool" where
  "schedule K close \<equiv> (par_step K close)\<^sup>*\<^sup>*"

text \<open>No task has a call left to make.\<close>

definition par_done :: "'k kernel \<Rightarrow> (fd \<Rightarrow> 'k \<Rightarrow> 'k) \<Rightarrow> 'r prog list \<times> 'k \<Rightarrow> bool" where
  "par_done K close x \<longleftrightarrow> (\<forall>p \<in> set (fst x). step_prog K close p (snd x) = None)"

lemma par_done_iff: "par_done K close x \<longleftrightarrow> \<not> (\<exists>y. par_step K close x y)"
proof -
  obtain ts k where x: "x = (ts, k)" by (cases x)
  have "(\<exists>y. par_step K close x y) \<longleftrightarrow> (\<exists>i < length ts. step_prog K close (ts ! i) k \<noteq> None)"
    unfolding x par_step.simps [of K close "(ts, k)"] by auto
  then show ?thesis by (auto simp: par_done_def x all_set_conv_all_nth)
qed

section \<open>The clone phase\<close>

text \<open>The tasks \<open>dedup\<close> starts with, and what their results reduce to once all have returned.\<close>

definition dedup_start ::
    "('db, 'tx) redb \<Rightarrow> (index_key groups \<Rightarrow> index_key list) \<Rightarrow> ((pair_key \<rightharpoonup> run list) \<Rightarrow> pair_key list list) \<Rightarrow>
     hashed paths \<Rightarrow> 'db \<Rightarrow> opts \<Rightarrow> stats res prog list res" where
  "dedup_start R order split ps db opts =
     rbind (build_index R db (ps_files ps)) (\<lambda>idx.
     rbind (build_runs (order idx) idx (ps_files ps)) (\<lambda>pairs.
     Inr (map (task_prog opts ps pairs) (split pairs))))"

fun par_result :: "stats res prog list \<Rightarrow> stats res option" where
  "par_result [] = Some (Inr stats_default)"
| "par_result (Ret r # ts) =
     map_option (\<lambda>rs. rbind r (\<lambda>a. rbind rs (\<lambda>b. Inr (stats_add a b)))) (par_result ts)"
| "par_result (t # ts) = None"

section \<open>Every schedule ends\<close>

primrec next_progs :: "'r prog \<Rightarrow> 'r prog set" where
  "next_progs (Ret r) = {}"
| "next_progs Spin = {}"
| "next_progs (Open p w f) = range f"
| "next_progs (Read fl off n f) = range f"
| "next_progs (Dedupe fl a f) = range f"
| "next_progs (Clone fl a f) = range f"
| "next_progs (Close fl p) = {p}"

lemma wf_next_progs: "wf {(q, p). q \<in> next_progs p}"
proof (rule wfUNIVI)
  fix P :: "'r prog \<Rightarrow> bool" and p
  assume "\<forall>p. (\<forall>q. (q, p) \<in> {(q, p). q \<in> next_progs p} \<longrightarrow> P q) \<longrightarrow> P p"
  then have step: "P p" if "\<And>q. q \<in> next_progs p \<Longrightarrow> P q" for p using that by blast
  show "P p" by (induction p) (rule step; auto)+
qed

lemma step_prog_next: "step_prog K close p k = Some (q, k') \<Longrightarrow> q \<in> next_progs p"
  by (cases p) (auto split: prod.splits)

lemma par_step_mult1:
  assumes "par_step K close x y"
  shows "(mset (fst y), mset (fst x)) \<in> mult1 {(q, p). q \<in> next_progs p}"
  using assms
proof cases
  case (par_step i ts k p k')
  have "mset ts = add_mset (ts ! i) (mset ts - {#ts ! i#})" using par_step(3) by simp
  moreover have "mset (ts[i := p]) = (mset ts - {#ts ! i#}) + {#p#}"
    using par_step(3) by (simp add: mset_update)
  ultimately show ?thesis
    using step_prog_next [OF par_step(4)] unfolding par_step(1,2) fst_conv by (intro mult1I) auto
qed

lemma par_terminates: "wfp (\<lambda>y x. par_step K close x y)"
proof -
  have "wf (inv_image (mult1 {(q, p). q \<in> next_progs p}) (\<lambda>x :: 'r prog list \<times> 'k. mset (fst x)))"
    by (intro wf_inv_image wf_mult1 wf_next_progs)
  moreover have "{(y, x). par_step K close x y} \<subseteq> inv_image (mult1 {(q, p). q \<in> next_progs p}) (\<lambda>x. mset (fst x))"
    using par_step_mult1 by (auto simp: inv_image_def)
  ultimately show ?thesis unfolding wfp_def by (rule wf_subset)
qed

text \<open>So every schedule can be continued to one that is done, and none is infinite.\<close>

lemma schedule_ends: "\<exists>y. schedule K close x y \<and> par_done K close y"
proof (induction x rule: wfp_induct_rule [OF par_terminates [of K close]])
  case (1 x)
  show ?case
  proof (cases "par_done K close x")
    case False
    then obtain y where "par_step K close x y" by (auto simp: par_done_iff)
    then show ?thesis using 1 [of y] by (meson converse_rtranclp_into_rtranclp)
  qed blast
qed

lemma no_infinite_schedule: "\<not> (\<forall>n :: nat. par_step K close (f n) (f (Suc n)))"
  using par_terminates [of K close] unfolding wfp_def wf_iff_no_infinite_down_chain by auto

section \<open>What every path returns\<close>

primrec leaves :: "('r \<Rightarrow> bool) \<Rightarrow> 'r prog \<Rightarrow> bool" where
  "leaves P (Ret r) = P r"
| "leaves P Spin = False"
| "leaves P (Open p w f) = (\<forall>x. leaves P (f x))"
| "leaves P (Read fl off n f) = (\<forall>x. leaves P (f x))"
| "leaves P (Dedupe fl a f) = (\<forall>x. leaves P (f x))"
| "leaves P (Clone fl a f) = (\<forall>x. leaves P (f x))"
| "leaves P (Close fl p) = leaves P p"

lemma leaves_step: "leaves P p \<Longrightarrow> step_prog K close p k = Some (q, k') \<Longrightarrow> leaves P q"
  by (cases p) (auto split: prod.splits)

lemma leaves_stuck: "leaves P p \<Longrightarrow> step_prog K close p k = None \<Longrightarrow> \<exists>r. p = Ret r \<and> P r"
  by (cases p) (auto split: prod.splits)

lemma leaves_schedule:
  assumes "schedule K close x y" "list_all (leaves P) (fst x)"
  shows "list_all (leaves P) (fst y)"
  using assms
proof (induction rule: rtranclp_induct)
  case (step y z)
  from step.hyps(2) show ?case
  proof cases
    case (par_step i ts k p k')
    have all: "list_all (leaves P) ts" using step.IH [OF step.prems] par_step(1) by simp
    then have "leaves P (ts ! i)" using par_step(3) by (simp add: list_all_length)
    from leaves_step [OF this par_step(4)] all
    show ?thesis using set_update_subset_insert [of ts i p] by (auto simp: par_step(2) list_all_iff)
  qed
qed

text \<open>A kernel that gives the answers of a script: what holds over all of them holds of every path.\<close>

datatype answer = Opened "io_error + fd" | Data "io_error + u8 list" | Deduped "errno + dedupe_one" | Cloned "errno + unit"

definition script_kernel :: "answer list kernel" where
  "script_kernel = \<lparr>
     kn_open = (\<lambda>p w s. case s of Opened x # s \<Rightarrow> (x, s) | _ \<Rightarrow> (Inl (OsError ENOENT), s)),
     kn_read_at = (\<lambda>fl off n s. case s of Data x # s \<Rightarrow> (x, s) | _ \<Rightarrow> (Inl (OsError EINVAL), s)),
     kn_dedupe = (\<lambda>fl a s. case s of Deduped x # s \<Rightarrow> (x, s) | _ \<Rightarrow> (Inl EINVAL, s)),
     kn_clone = (\<lambda>fl a s. case s of Cloned x # s \<Rightarrow> (x, s) | _ \<Rightarrow> (Inl EINVAL, s))\<rparr>"

lemma script_answers [simp]:
  "kn_open script_kernel p w (Opened a # s) = (a, s)"
  "kn_read_at script_kernel fl off n (Data b # s) = (b, s)"
  "kn_dedupe script_kernel fl d (Deduped c # s) = (c, s)"
  "kn_clone script_kernel fl e (Cloned u # s) = (u, s)"
  by (simp_all add: script_kernel_def)

lemma leaves_of_runs:
  assumes "\<And>s. \<exists>r s'. run_alone script_kernel p s = Some (r, s') \<and> P r"
  shows "leaves P p"
  using assms
proof (induction p)
  case (Open p w f)
  have "leaves P (f x)" for x
  proof (rule Open.IH)
    show "\<exists>r s'. run_alone script_kernel (f x) s = Some (r, s') \<and> P r" for s
      using Open.prems [of "Opened x # s"] by simp
  qed simp
  then show ?case by simp
next
  case (Read fl off n f)
  have "leaves P (f x)" for x
  proof (rule Read.IH)
    show "\<exists>r s'. run_alone script_kernel (f x) s = Some (r, s') \<and> P r" for s
      using Read.prems [of "Data x # s"] by simp
  qed simp
  then show ?case by simp
next
  case (Dedupe fl a f)
  have "leaves P (f x)" for x
  proof (rule Dedupe.IH)
    show "\<exists>r s'. run_alone script_kernel (f x) s = Some (r, s') \<and> P r" for s
      using Dedupe.prems [of "Deduped x # s"] by simp
  qed simp
  then show ?case by simp
next
  case (Clone fl a f)
  have "leaves P (f x)" for x
  proof (rule Clone.IH)
    show "\<exists>r s'. run_alone script_kernel (f x) s = Some (r, s') \<and> P r" for s
      using Clone.prems [of "Cloned x # s"] by simp
  qed simp
  then show ?case by simp
qed auto

lemma results_of_returns:
  "list_all (\<lambda>t. \<exists>st. t = Ret (Inr st)) ts \<Longrightarrow> \<exists>st. par_result ts = Some (Inr st)"
  by (induction ts) auto

section \<open>One task after the other is a schedule\<close>

lemma par_step_cons: "par_step K close (ts, k) (ts', k') \<Longrightarrow> par_step K close (t # ts, k) (t # ts', k')"
proof (erule par_stepE)
  fix i p assume s: "ts' = ts[i := p]" "i < length ts" "step_prog K close (ts ! i) k = Some (p, k')"
  then show "par_step K close (t # ts, k) (t # ts', k')"
    using par_step.intros [of "Suc i" "t # ts" K close k p k'] by simp
qed

lemma schedule_cons:
  assumes "schedule K close x y"
  shows "schedule K close (t # fst x, snd x) (t # fst y, snd y)"
  using assms
proof (induction rule: rtranclp_induct)
  case (step y z)
  have "par_step K close (t # fst y, snd y) (t # fst z, snd z)"
    using par_step_cons [of K close "fst y" "snd y" "fst z" "snd z" t] step.hyps(2) by simp
  with step.IH show ?case by (rule rtranclp.rtrancl_into_rtrancl)
qed simp

lemma run_prog_schedule:
  "run_prog K close p k = Some (r, k') \<Longrightarrow> schedule K close (p # ts, k) (Ret r # ts, k')"
proof (induction p arbitrary: k)
  have first: "schedule K close (p # ts, k) z"
    if "step_prog K close p k = Some (q, k2)" "schedule K close (q # ts, k2) z" for p q k k2 z
    using par_step.intros [of 0 "p # ts" K close k q k2] that by (simp add: converse_rtranclp_into_rtranclp)
  {
    case (Open p w f)
    then show ?case by (auto intro: first split: prod.splits)
  next
    case (Read fl off n f)
    then show ?case by (auto intro: first split: prod.splits)
  next
    case (Dedupe fl a f)
    then show ?case by (auto intro: first split: prod.splits)
  next
    case (Clone fl a f)
    then show ?case by (auto intro: first split: prod.splits)
  next
    case (Close fl p)
    then show ?case by (auto intro: first)
  }
qed auto

end
