(* ===== verification/Descriptors.thy ===== *)
theory Descriptors imports Schedule begin

text \<open>
  What a task's program may rely on, and what it promises to the tasks beside it, as a weakest
  precondition over its calls: as long as the contents of the files stay what they are and the
  descriptors it holds stay its own, it reads and clones through descriptors it holds only, clones
  only equal bytes inside both files, holds at most two files at a time and closes every file it opens.
\<close>

section \<open>Weakest preconditions\<close>

text \<open>A clone of bytes that are the same already, between files the task holds.\<close>

definition clone_same :: "('i \<Rightarrow> u8 list) \<Rightarrow> (fd \<rightharpoonup> 'i) \<Rightarrow> fd \<Rightarrow> file_clone_range \<Rightarrow> bool" where
  "clone_same c h dst a \<longleftrightarrow> (\<exists>src i j.
     fc_src_fd a = scast src \<and> h src = Some i \<and> h dst = Some j \<and> 0 < unat (fc_src_length a) \<and>
     unat (fc_src_offset a) + unat (fc_src_length a) \<le> length (c i) \<and>
     unat (fc_dest_offset a) + unat (fc_src_length a) \<le> length (c j) \<and>
     slice_of (unat (fc_src_offset a)) (unat (fc_src_length a)) (c i) =
       slice_of (unat (fc_dest_offset a)) (unat (fc_src_length a)) (c j))"

definition read_same :: "('i \<Rightarrow> u8 list) \<Rightarrow> 'i \<Rightarrow> u64 \<Rightarrow> nat \<Rightarrow> io_error + u8 list \<Rightarrow> bool" where
  "read_same c i off n x \<longleftrightarrow> (\<forall>bs. x = Inr bs \<longrightarrow> length bs \<le> n \<and> bs = slice_of (unat off) (length bs) (c i))"

text \<open>The map \<open>h\<close> says which file each descriptor refers to that the task holds.\<close>

primrec wp :: "('i \<Rightarrow> u8 list) \<Rightarrow> 'r prog \<Rightarrow> ('r \<Rightarrow> (fd \<rightharpoonup> 'i) \<Rightarrow> bool) \<Rightarrow> (fd \<rightharpoonup> 'i) \<Rightarrow> bool" where
  "wp c (Ret r) Q h = Q r h"
| "wp c Spin Q h = True"
| "wp c (Open p w f) Q h = (card (dom h) < 2 \<and> (\<forall>e. wp c (f (Inl e)) Q h) \<and>
     (\<forall>fl i. h fl = None \<longrightarrow> wp c (f (Inr fl)) Q (h(fl \<mapsto> i))))"
| "wp c (Read fl off n f) Q h = (\<exists>i. h fl = Some i \<and> (\<forall>x. read_same c i off n x \<longrightarrow> wp c (f x) Q h))"
| "wp c (Dedupe fl a f) Q h = (\<forall>x. wp c (f x) Q h)"
| "wp c (Clone fl a f) Q h = (clone_same c h fl a \<and> (\<forall>x. wp c (f x) Q h))"
| "wp c (Close fl p) Q h = (h fl \<noteq> None \<and> wp c p Q (h(fl := None)))"

lemma wp_mono:
  assumes "wp c p Q h" "\<And>r h. Q r h \<Longrightarrow> Q' r h"
  shows "wp c p Q' h"
  using assms(1)
proof (induction p arbitrary: h)
  case (Read fl off n f)
  then show ?case by simp (metis rangeI)
qed (simp_all add: assms(2))

lemma wp_then: "wp c (then_prog p g) Q h = wp c p (\<lambda>r. wp c (g r) Q) h"
  by (induction p arbitrary: h) auto

section \<open>Reading\<close>

text \<open>A kernel with one file that gives what a script says as far as the contents allow it.\<close>

definition read_kernel :: "u8 list \<Rightarrow> (io_error + u8 list) list kernel" where
  "read_kernel bs = \<lparr>
     kn_open = (\<lambda>p w s. (Inl (OsError ENOENT), s)),
     kn_read_at = (\<lambda>fl off n s. case s of
         x # s \<Rightarrow> (if read_same (\<lambda>_. bs) () off n x then x else Inl (OsError EINVAL), s)
       | [] \<Rightarrow> (Inl (OsError EINVAL), [])),
     kn_dedupe = (\<lambda>fl a s. (Inl EINVAL, s)),
     kn_clone = (\<lambda>fl a s. (Inl EINVAL, s))\<rparr>"

lemma read_kernel_lawful: "read_lawful (read_kernel bs) (\<lambda>_ _. ()) (\<lambda>_ _. bs)"
  by (auto simp: read_lawful_def read_kernel_def read_same_def split: list.splits if_splits)

primrec only_reads :: "fd \<Rightarrow> 'r prog \<Rightarrow> bool" where
  "only_reads fl (Ret r) = True"
| "only_reads fl Spin = False"
| "only_reads fl (Open p w f) = False"
| "only_reads fl (Read fl' off n f) = (fl' = fl \<and> (\<forall>x. only_reads fl (f x)))"
| "only_reads fl (Dedupe fl' a f) = False"
| "only_reads fl (Clone fl' a f) = False"
| "only_reads fl (Close fl' p) = False"

lemma wp_of_reads:
  assumes "only_reads fl p" "h fl = Some i"
    "\<And>s r s'. run_alone (read_kernel (c i)) p s = Some (r, s') \<Longrightarrow> Q r"
  shows "wp c p (\<lambda>r h'. Q r \<and> h' = h) h"
  using assms
proof (induction p)
  case (Read fl' off n f)
  have "wp c (f x) (\<lambda>r h'. Q r \<and> h' = h) h" if "read_same c i off n x" for x
  proof (rule Read.IH)
    have "kn_read_at (read_kernel (c i)) fl' off n (x # s) = (x, s)" for s
      using that by (simp add: read_kernel_def read_same_def)
    then show "run_alone (read_kernel (c i)) (f x) s = Some (r, s') \<Longrightarrow> Q r" for s r s'
      using Read.prems(3) [of "x # s"] by simp
  qed (use Read.prems in auto)
  then show ?case using Read.prems by auto
qed auto

lemma prog_read_only: "only_reads fl (prog_read_exact fl buf n off)"
proof (induction fl buf n off rule: prog_read_exact.induct)
  case (1 fl buf n off)
  then show ?case by (subst prog_read_exact.simps) (auto split: sum.split)
qed

lemma wp_read_exact:
  assumes "h fl = Some i" "\<forall>i. length (c i) < 2 ^ 63"
  shows "wp c (prog_read_exact fl (resize (unat n) buf0) 0 off) (\<lambda>(r, buf) h'.
     (r = Inr () \<longrightarrow> buf = slice_of (unat off) (unat n) (c i) \<and> (0 < unat n \<longrightarrow> unat off + unat n \<le> length (c i))) \<and> h' = h) h"
proof -
  let ?p = "prog_read_exact fl (resize (unat n) buf0) 0 off"
  let ?Q = "\<lambda>(r, buf). r = Inr () \<longrightarrow> buf = slice_of (unat off) (unat n) (c i) \<and>
     (0 < unat n \<longrightarrow> unat off + unat n \<le> length (c i))"
  have ok: "?Q x" if run: "run_alone (read_kernel (c i)) ?p s = Some (x, s')" for s x s'
  proof -
  obtain r buf where x: "x = (r, buf)" by (cases x)
  have rd: "read_exact_at (read_kernel (c i)) fl (resize (unat n) buf0) 0 off s = (r, buf, s')"
    using run by (simp add: prog_read_exact_runs x split: prod.splits)
  show ?thesis
  proof (unfold x prod.case, rule impI)
    assume r: "r = Inr ()"
    show "buf = slice_of (unat off) (unat n) (c i) \<and> (0 < unat n \<longrightarrow> unat off + unat n \<le> length (c i))"
      using read_exact_at_fill [OF read_kernel_lawful _ rd [unfolded r]] assms(2) by simp
  qed
  qed
  have "wp c ?p (\<lambda>x h'. ?Q x \<and> h' = h) h"
    by (rule wp_of_reads [OF prog_read_only]) (use assms(1) ok in blast)+
  then show ?thesis by (rule wp_mono) auto
qed

section \<open>The worker\<close>

definition keeps_held :: "('i \<Rightarrow> u8 list) \<Rightarrow> (fd \<rightharpoonup> 'i) \<Rightarrow> 'a act \<Rightarrow> bool" where
  "keeps_held c h a \<longleftrightarrow> (\<forall>s. wp c (a s) (\<lambda>_ h'. h' = h) h)"

lemma held_local: "keeps_held c h (act_local m)"
  by (auto simp: keeps_held_def act_local_def split: option.split)

lemma held_then:
  assumes "keeps_held c h a" "\<And>x. wp c (g x) (\<lambda>_ h'. h' = h) h"
  shows "wp c (then_prog (a s) g) (\<lambda>_ h'. h' = h) h"
proof -
  have "wp c (a s) (\<lambda>_ h'. h' = h) h" using assms(1) by (simp add: keeps_held_def)
  then show ?thesis unfolding wp_then by (rule wp_mono) (simp add: assms(2))
qed

lemma held_bind: "keeps_held c h a \<Longrightarrow> (\<And>x. keeps_held c h (g x)) \<Longrightarrow> keeps_held c h (act_bind a g)"
  unfolding keeps_held_def [of c h "act_bind a g"] act_bind_def
  by (intro allI held_then) (auto simp: keeps_held_def split: sum.split)

lemma held_then_ret:
  assumes "keeps_held c h a" "\<And>x. \<exists>y. g x = Ret y"
  shows "wp c (then_prog (a s) g) (\<lambda>_ h'. h' = h) h"
  using assms(1) by (rule held_then) (use assms(2) in \<open>metis wp.simps(1)\<close>)

lemma held_attempt: "keeps_held c h a \<Longrightarrow> keeps_held c h (act_attempt a)"
  unfolding keeps_held_def [of c h "act_attempt a"] act_attempt_def
  by (auto intro!: held_then_ret split: sum.split fault.split)

lemma held_context: "keeps_held c h a \<Longrightarrow> keeps_held c h (act_context msg a)"
  unfolding keeps_held_def [of c h "act_context msg a"] act_context_def
  by (auto intro!: held_then_ret)

lemma held_for: "(\<And>x. keeps_held c h (f x)) \<Longrightarrow> keeps_held c h (act_for f xs)"
  by (induction xs) (auto intro: held_bind held_local)

lemma held_dedupe: "keeps_held c h (call_dedupe src so dst n len)"
  by (simp add: keeps_held_def call_dedupe_def)

lemmas held_intros = held_local held_bind held_attempt held_context held_for held_dedupe

text \<open>A comparing \<open>verify_and_clone\<close> clones equal ranges only.\<close>

lemma wp_read_a:
  assumes "h fl = Some i" "\<forall>i. length (c i) < 2 ^ 63"
  shows "wp c (act_read_a fl off n s) (\<lambda>(r, t) h'. (r = Inr () \<longrightarrow> ws_buf_a t = slice_of (unat off) (unat n) (c i) \<and>
     ws_buf_b t = ws_buf_b s \<and> (0 < unat n \<longrightarrow> unat off + unat n \<le> length (c i))) \<and> h' = h) h"
  unfolding act_read_a_def wp_then
  by (rule wp_mono [OF wp_read_exact [where c = c and h = h, OF assms]]) (auto simp: res_simps)

lemma wp_read_b:
  assumes "h fl = Some i" "\<forall>i. length (c i) < 2 ^ 63"
  shows "wp c (act_read_b fl off n s) (\<lambda>(r, t) h'. (r = Inr () \<longrightarrow> ws_buf_b t = slice_of (unat off) (unat n) (c i) \<and>
     ws_buf_a t = ws_buf_a s \<and> (0 < unat n \<longrightarrow> unat off + unat n \<le> length (c i))) \<and> h' = h) h"
  unfolding act_read_b_def wp_then
  by (rule wp_mono [OF wp_read_exact [where c = c and h = h, OF assms]]) (auto simp: res_simps)

lemma wp_clone:
  assumes "h sf = Some i" "h df = Some j" "0 < unat n" "unat so + unat n \<le> length (c i)"
    "unat dst_off + unat n \<le> length (c j)" "slice_of (unat so) (unat n) (c i) = slice_of (unat dst_off) (unat n) (c j)"
  shows "keeps_held c h (call_clone sf so df dst_off n)"
  using assms by (auto simp: keeps_held_def call_clone_def clone_same_def)

lemma held_verify:
  assumes "h sf = Some i" "h df = Some j" "\<forall>i. length (c i) < 2 ^ 63" "n \<noteq> 0"
  shows "keeps_held c h (act_verify opts sf so df dst_off n compare)"
proof (cases compare)
  case False
  then show ?thesis unfolding act_verify_def by (auto intro!: held_intros split: dedupe.split)
next
  case True
  have n: "0 < unat n" using assms(4) by (simp add: unat_gt_0)
  let ?xs = "slice_of (unat so) (unat n) (c i)" and ?ys = "slice_of (unat dst_off) (unat n) (c j)"
  let ?rest = "\<lambda>differ. if differ then act_local (io_ret None)
     else act_bind (if \<not> op_dry_run opts then act_context ''FICLONERANGE'' (call_clone sf so df dst_off n)
          else act_local (io_ret ())) (\<lambda>_. act_local (io_ret (Some n)))"
  define fin where "fin = act_bind (act_local (io_gets (\<lambda>s. ws_buf_a s \<noteq> ws_buf_b s))) ?rest"
  have rest: "wp c (fin t) (\<lambda>_ h'. h' = h) h"
    if "ws_buf_a t = ?xs" "ws_buf_b t = ?ys" "unat so + unat n \<le> length (c i)" "unat dst_off + unat n \<le> length (c j)" for t
  proof -
    have "keeps_held c h (?rest (?xs \<noteq> ?ys))"
      using wp_clone [of h sf i df j n so c dst_off] that(3,4) assms(1,2) n by (auto intro!: held_intros)
    then show ?thesis
      using that(1,2) by (simp add: fin_def keeps_held_def act_bind_def act_local_def io_simps)
  qed
  have b: "wp c (act_bind (act_read_b df dst_off n) (\<lambda>_. fin) t) (\<lambda>_ h'. h' = h) h"
    if "ws_buf_a t = ?xs" "unat so + unat n \<le> length (c i)" for t
    unfolding act_bind_def wp_then
    by (rule wp_mono [OF wp_read_b [where c = c and h = h, OF assms(2,3)]]) (use that rest n in \<open>auto split: sum.split\<close>)
  have "wp c (act_bind (act_read_a sf so n) (\<lambda>_. act_bind (act_read_b df dst_off n) (\<lambda>_. fin)) s) (\<lambda>_ h'. h' = h) h" for s
    unfolding act_bind_def [of "act_read_a sf so n"] wp_then
    by (rule wp_mono [OF wp_read_a [where c = c and h = h, OF assms(1,3)]]) (use b n in \<open>auto split: sum.split\<close>)
  then show ?thesis using True by (simp add: keeps_held_def act_verify_def fin_def)
qed

lemma held_run:
  assumes "h sf = Some i" "h df = Some j" "\<forall>i. length (c i) < 2 ^ 63"
  shows "keeps_held c h (act_run opts ps blksz s d compare sf df r)"
  unfolding act_run_def by (auto intro!: held_intros held_verify [OF assms])

section \<open>A pair opens two files and closes them\<close>

lemma wp_open:
  assumes "card (dom h) < 2"
  shows "wp c (act_open opts ps i wr s) (\<lambda>(r, t) h'. case r of Inl e \<Rightarrow> h' = h
     | Inr fl \<Rightarrow> \<exists>x. h fl = None \<and> h' = h(fl \<mapsto> x)) h"
proof -
  have opn: "wp c (act_context ''open'' (call_open p w) t) (\<lambda>(r, t) h'. case r of Inl e \<Rightarrow> h' = h
     | Inr fl \<Rightarrow> \<exists>x. h fl = None \<and> h' = h(fl \<mapsto> x)) h" for p w t
    using assms by (auto simp: act_context_def call_open_def res_simps)
  then show ?thesis
    unfolding act_open_def act_bind_def
    by (auto simp: wp_then act_local_def io_simps io_opt_def split: option.split sum.split prod.split)
qed

lemma wp_closing:
  assumes "wp c (a s) (\<lambda>_ h'. h' = h) h" "h fl \<noteq> None" "h(fl := None) = h0"
  shows "wp c (act_closing fl a s) (\<lambda>_ h'. h' = h0) h"
  unfolding act_closing_def wp_then
  by (rule wp_mono [OF assms(1)]) (use assms(2,3) in auto)

lemma wp_pair:
  fixes c :: "'a \<Rightarrow> u8 list"
  assumes "\<forall>i. length (c i) < 2 ^ 63"
  shows "keeps_held c Map.empty (act_pair opts ps blksz s d runs)"
proof -
  let ?two = "act_bind (act_open opts ps (unat s) False) (\<lambda>sf. act_owning sf
      (act_bind (act_open opts ps (unat d) True) (\<lambda>df. act_local (io_ret (sf, df)))))"
  define both where "both = (\<lambda>(r :: (fd \<times> fd) res, t :: unit wstate) (h' :: fd \<rightharpoonup> 'a). case r of Inl e \<Rightarrow> h' = Map.empty
     | Inr (sf, df) \<Rightarrow> \<exists>x y. sf \<noteq> df \<and> h' = [sf \<mapsto> x, df \<mapsto> y])"
  have second: "wp c (act_owning sf (act_bind (act_open opts ps (unat d) True) (\<lambda>df. act_local (io_ret (sf, df)))) t) both [sf \<mapsto> x]" for sf x t
    unfolding act_owning_def act_bind_def wp_then
  proof (rule wp_mono [OF wp_open], goal_cases)
    case (2 r h)
    obtain a t where r: "r = (a, t)" by (cases r)
    show ?case
    proof (cases a)
      case (Inr df)
      then obtain y where "df \<noteq> sf" "h = [sf \<mapsto> x, df \<mapsto> y]" using 2 by (auto simp: r split: if_splits)
      then show ?thesis by (auto simp: r Inr act_local_def io_simps both_def)
    qed (use 2 in \<open>simp add: r both_def\<close>)
  qed simp
  have two: "wp c (?two t) both Map.empty" for t
    unfolding act_bind_def [of "act_open opts ps (unat s) False"] wp_then
  proof (rule wp_mono [OF wp_open], goal_cases)
    case (2 r h)
    have none: "both (Inl e, u) Map.empty" for e u by (simp add: both_def)
    show ?case using 2 second none by (cases r) (auto split: sum.splits)
  qed simp
  have runs: "wp c (act_closing sf (act_closing df (act_for (act_run opts ps blksz s d b sf df) runs)) t)
      (\<lambda>_ h'. h' = Map.empty) [sf \<mapsto> x, df \<mapsto> y]" if "sf \<noteq> df" for sf df x y b t
  proof -
    have "keeps_held c [sf \<mapsto> x, df \<mapsto> y] (act_for (act_run opts ps blksz s d b sf df) runs)"
      using that by (intro held_for held_run assms) auto
    then have "wp c (act_closing df (act_for (act_run opts ps blksz s d b sf df) runs) t) (\<lambda>_ h'. h' = [sf \<mapsto> x]) [sf \<mapsto> x, df \<mapsto> y]"
      using that by (intro wp_closing) (auto simp: keeps_held_def fun_upd_twist)
    then show ?thesis
      unfolding act_closing_def [of sf] wp_then by (rule wp_mono) auto
  qed
  have "wp c (act_attempt ?two t) (\<lambda>(r, t) h'. case r of Inr (Inr (sf, df)) \<Rightarrow> \<exists>x y. sf \<noteq> df \<and> h' = [sf \<mapsto> x, df \<mapsto> y]
     | _ \<Rightarrow> h' = Map.empty) Map.empty" for t
    unfolding act_attempt_def wp_then
    by (rule wp_mono [OF two]) (auto simp: both_def split: sum.splits fault.splits)
  note att = this
  have err: "wp c (act_local (count_error e) t) (\<lambda>_ h'. h' = Map.empty) Map.empty" for e t
    using held_local [of c "Map.empty" "count_error e"] by (simp add: keeps_held_def)
  show ?thesis
    unfolding keeps_held_def act_pair_def Let_def act_bind_def [of "act_attempt _"] wp_then
  proof (intro allI, rule wp_mono [OF att], goal_cases)
    case (1 t x h')
    then show ?case
      using runs err by (cases x) (auto split: sum.splits)
  qed
qed

lemma wp_loop: "\<forall>i. length (c i) < 2 ^ 63 \<Longrightarrow> keeps_held c Map.empty (act_loop opts ps pairs keys)"
  unfolding act_loop_def
  by (intro held_for) (auto intro!: held_local wp_pair split: option.split)

text \<open>A whole task: it holds nothing before and nothing after.\<close>

lemma wp_task: "\<forall>i. length (c i) < 2 ^ 63 \<Longrightarrow> wp c (task_prog opts ps pairs keys) (\<lambda>_ h. h = Map.empty) Map.empty"
  unfolding task_prog_def
  by (rule held_then_ret [OF wp_loop]) auto

end
