(* ===== verification/Parallel.thy ===== *)
theory Parallel imports Descriptors begin

text \<open>
  Tasks in parallel keep the contents of every file: as long as each task's next call is a call its
  program may make, and descriptors are not shared, no call of any task changes the bytes of any file.
\<close>

section \<open>Descriptors\<close>

text \<open>
  What the kernel promises about descriptors: \<open>open\<close> gives one that is not in use, and the file of a
  descriptor in use stays the same until it is closed, whoever makes which call.
\<close>

definition same_descriptors :: "('k \<Rightarrow> fd \<Rightarrow> 'i) \<Rightarrow> ('k \<Rightarrow> fd set) \<Rightarrow> 'k \<Rightarrow> 'k \<Rightarrow> bool" where
  "same_descriptors node opened k k' \<longleftrightarrow> opened k' = opened k \<and> (\<forall>fl \<in> opened k. node k' fl = node k fl)"

definition descriptors_lawful ::
    "'k kernel \<Rightarrow> (fd \<Rightarrow> 'k \<Rightarrow> 'k) \<Rightarrow> ('k \<Rightarrow> fd \<Rightarrow> 'i) \<Rightarrow> ('k \<Rightarrow> 'i \<Rightarrow> u8 list) \<Rightarrow> ('k \<Rightarrow> fd set) \<Rightarrow> bool" where
  "descriptors_lawful K close node content opened \<longleftrightarrow>
     (\<forall>p w k e k'. kn_open K p w k = (Inl e, k') \<longrightarrow> same_descriptors node opened k k') \<and>
     (\<forall>p w k fl k'. kn_open K p w k = (Inr fl, k') \<longrightarrow> fl \<notin> opened k \<and> opened k' = insert fl (opened k) \<and>
        (\<forall>fl \<in> opened k. node k' fl = node k fl)) \<and>
     (\<forall>fl off n k r k'. kn_read_at K fl off n k = (r, k') \<longrightarrow> same_descriptors node opened k k') \<and>
     (\<forall>fl a k r k'. kn_dedupe K fl a k = (r, k') \<longrightarrow> same_descriptors node opened k k') \<and>
     (\<forall>fl a k r k'. kn_clone K fl a k = (r, k') \<longrightarrow> same_descriptors node opened k k') \<and>
     (\<forall>fl k. content (close fl k) = content k \<and> opened (close fl k) = opened k - {fl} \<and>
        (\<forall>fl' \<in> opened k - {fl}. node (close fl k) fl' = node k fl'))"

lemma descriptors_lawfulD:
  assumes "descriptors_lawful K close node content opened"
  shows "kn_open K p w k = (Inl e, k') \<Longrightarrow> same_descriptors node opened k k'"
    "kn_open K p w k = (Inr fl, k') \<Longrightarrow> fl \<notin> opened k \<and> opened k' = insert fl (opened k) \<and> (\<forall>fl \<in> opened k. node k' fl = node k fl)"
    "kn_read_at K fl off n k = (r, k') \<Longrightarrow> same_descriptors node opened k k'"
    "kn_dedupe K fl d k = (r', k') \<Longrightarrow> same_descriptors node opened k k'"
    "kn_clone K fl a k = (r'', k') \<Longrightarrow> same_descriptors node opened k k'"
    "content (close fl k) = content k" "opened (close fl k) = opened k - {fl}"
    "fl' \<in> opened k \<Longrightarrow> fl' \<noteq> fl \<Longrightarrow> node (close fl k) fl' = node k fl'"
proof -
  note D = assms [unfolded descriptors_lawful_def]
  note D1 = conjunct1 [OF D] and R1 = conjunct2 [OF D]
  note D2 = conjunct1 [OF R1] and R2 = conjunct2 [OF R1]
  note D3 = conjunct1 [OF R2] and R3 = conjunct2 [OF R2]
  note D4 = conjunct1 [OF R3] and R4 = conjunct2 [OF R3]
  note D5 = conjunct1 [OF R4] and D6 = conjunct2 [OF R4]
  show "kn_open K p w k = (Inl e, k') \<Longrightarrow> same_descriptors node opened k k'" using D1 by blast
  show "kn_open K p w k = (Inr fl, k') \<Longrightarrow>
      fl \<notin> opened k \<and> opened k' = insert fl (opened k) \<and> (\<forall>fl \<in> opened k. node k' fl = node k fl)" using D2 by blast
  show "kn_read_at K fl off n k = (r, k') \<Longrightarrow> same_descriptors node opened k k'" using D3 by blast
  show "kn_dedupe K fl d k = (r', k') \<Longrightarrow> same_descriptors node opened k k'" using D4 by blast
  show "kn_clone K fl a k = (r'', k') \<Longrightarrow> same_descriptors node opened k k'" using D5 by blast
  show "content (close fl k) = content k" "opened (close fl k) = opened k - {fl}" using D6 by blast+
  show "fl' \<in> opened k \<Longrightarrow> fl' \<noteq> fl \<Longrightarrow> node (close fl k) fl' = node k fl'" using D6 by blast
qed

section \<open>One call of one task\<close>

text \<open>
  The descriptors a task holds refer to the files it thinks, and those the others hold stay theirs.
\<close>

definition held_ok :: "('k \<Rightarrow> fd \<Rightarrow> 'i) \<Rightarrow> ('k \<Rightarrow> fd set) \<Rightarrow> 'k \<Rightarrow> (fd \<rightharpoonup> 'i) \<Rightarrow> bool" where
  "held_ok node opened k h \<longleftrightarrow> finite (dom h) \<and> card (dom h) \<le> 2 \<and> (\<forall>fl i. h fl = Some i \<longrightarrow> fl \<in> opened k \<and> node k fl = i)"

lemma held_ok_same: "held_ok node opened k h \<Longrightarrow> same_descriptors node opened k k' \<Longrightarrow> held_ok node opened k' h"
  by (auto simp: held_ok_def same_descriptors_def)

lemma clone_same_keeps:
  assumes "kernel_lawful K node content" "held_ok node opened k h" "clone_same (content k) h dst a" "kn_clone K dst a k = (r, k')"
  shows "content k' = content k"
proof -
  obtain src i j where s: "fc_src_fd a = scast src" "h src = Some i" "h dst = Some j" "0 < unat (fc_src_length a)"
    "unat (fc_src_offset a) + unat (fc_src_length a) \<le> length (content k i)"
    "unat (fc_dest_offset a) + unat (fc_src_length a) \<le> length (content k j)"
    "slice_of (unat (fc_src_offset a)) (unat (fc_src_length a)) (content k i) =
       slice_of (unat (fc_dest_offset a)) (unat (fc_src_length a)) (content k j)"
    using assms(3) unfolding clone_same_def by blast
  have nodes: "node k src = i" "node k dst = j" using assms(2) s(2,3) by (auto simp: held_ok_def)
  have "clone_range (kn_clone K) src (fc_src_offset a) dst (fc_dest_offset a) (fc_src_length a) k = (r, k')"
    using assms(4) s(1) by (cases a) (simp add: clone_range_def)
  from clone_lawfulD [OF _ this s(4), of node content]
  obtain m where m: "m \<le> unat (fc_src_length a)" "content k' = (content k)(j :=
       overwrite (unat (fc_dest_offset a)) (slice_of (unat (fc_src_offset a)) m (content k i)) (content k j))"
    using assms(1) s(5,6) unfolding nodes kernel_lawful_def by blast
  have "slice_of (unat (fc_src_offset a)) m (content k i) = slice_of (unat (fc_dest_offset a)) m (content k j)"
    using slice_prefix [OF m(1)] s(7) by metis
  moreover have "unat (fc_dest_offset a) + m \<le> length (content k j)" using s(6) m(1) by simp
  ultimately show ?thesis using m(2) by simp
qed

text \<open>What a call does to the descriptors of the task that makes it, and to those of another.\<close>

definition spares_others ::
    "('k \<Rightarrow> fd \<Rightarrow> 'i) \<Rightarrow> ('k \<Rightarrow> fd set) \<Rightarrow> 'k \<Rightarrow> (fd \<rightharpoonup> 'i) \<Rightarrow> 'k \<Rightarrow> (fd \<rightharpoonup> 'i) \<Rightarrow> bool" where
  "spares_others node opened k h k' h' \<longleftrightarrow> (\<forall>g. held_ok node opened k g \<longrightarrow> dom g \<inter> dom h = {} \<longrightarrow>
     held_ok node opened k' g \<and> dom g \<inter> dom h' = {})"

lemma spares_othersI:
  assumes "\<And>g. held_ok node opened k g \<Longrightarrow> dom g \<inter> dom h = {} \<Longrightarrow> held_ok node opened k' g \<and> dom g \<inter> dom h' = {}"
  shows "spares_others node opened k h k' h'"
  using assms by (simp add: spares_others_def)

lemma step_held:
  assumes lawful: "kernel_lawful K node content" "descriptors_lawful K close node content opened"
    and h: "held_ok node opened k h" and wp: "wp (content k) p Q h"
    and step: "step_prog K close p k = Some (q, k')"
  obtains h' where "content k' = content k" "held_ok node opened k' h'" "wp (content k) q Q h'"
    "spares_others node opened k h k' h'" "opened k' = (opened k - dom h) \<union> dom h'" "dom h' \<inter> (opened k - dom h) = {}"
proof (cases p)
  note D = descriptors_lawfulD [OF lawful(2)]
  have law: "open_lawful K content" "read_lawful K node content" "dedupe_lawful K content"
    using lawful(1) by (simp_all add: kernel_lawful_def)
  note result = that
  have sub: "dom h \<subseteq> opened k" using h by (auto simp: held_ok_def)
  have unchanged: thesis
    if c: "content k' = content k" "same_descriptors node opened k k'" "wp (content k) q Q h"
  proof (rule result [of h])
    show "held_ok node opened k' h" using h c(2) by (rule held_ok_same)
    show "spares_others node opened k h k' h" using held_ok_same [OF _ c(2)] by (intro spares_othersI) blast
    show "opened k' = (opened k - dom h) \<union> dom h" using c(2) sub by (auto simp: same_descriptors_def)
  qed (use c in blast)+
  {
    case (Open nm w f)
    obtain x where x: "kn_open K nm w k = (x, k')" "q = f x" using step by (auto simp: Open split: prod.splits)
    have c: "content k' = content k" using law(1) x(1) unfolding open_lawful_def by blast
    show thesis
    proof (cases x)
      case (Inl e)
      have same: "same_descriptors node opened k k'" using D(1) x(1) Inl by blast
      show ?thesis by (rule unchanged [OF c same]) (use wp x in \<open>simp add: Open Inl\<close>)
    next
      case (Inr fl)
      have o': "fl \<notin> opened k" "opened k' = insert fl (opened k)" "\<forall>fl \<in> opened k. node k' fl = node k fl"
        using D(2) x(1) Inr by blast+
      have fresh: "h fl = None" using o'(1) h by (cases "h fl") (auto simp: held_ok_def)
      have fin: "finite (dom h)" "card (dom h) < 2" using h wp by (simp_all add: held_ok_def Open)
      show ?thesis
      proof (rule that [of "h(fl \<mapsto> node k' fl)"])
        have "card (insert fl (dom h)) \<le> 2" using fin by (simp add: card_insert_if)
        then show "held_ok node opened k' (h(fl \<mapsto> node k' fl))" using h o' by (auto simp: held_ok_def)
        show "wp (content k) q Q (h(fl \<mapsto> node k' fl))" using wp fresh x(2) by (auto simp: Open Inr)
        show "spares_others node opened k h k' (h(fl \<mapsto> node k' fl))"
        proof (rule spares_othersI)
          fix g assume that: "held_ok node opened k g" "dom g \<inter> dom h = {}"
          have "g fl = None" using that(1) o'(1) by (cases "g fl") (auto simp: held_ok_def)
          then show "held_ok node opened k' g \<and> dom g \<inter> dom (h(fl \<mapsto> node k' fl)) = {}" using that o'(2,3) by (auto simp: held_ok_def)
        qed
        show "opened k' = (opened k - dom h) \<union> dom (h(fl \<mapsto> node k' fl))" "dom (h(fl \<mapsto> node k' fl)) \<inter> (opened k - dom h) = {}"
          using o'(1,2) sub by auto
      qed (rule c)
    qed
  next
    case (Read fl off n f)
    obtain x where x: "kn_read_at K fl off n k = (x, k')" "q = f x" using step by (auto simp: Read split: prod.splits)
    have c: "content k' = content k" using read_lawfulD(1) [OF law(2) x(1)] .
    have same: "same_descriptors node opened k k'" by (rule D(3) [OF x(1)])
    obtain i where i: "h fl = Some i" "\<And>x. read_same (content k) i off n x \<Longrightarrow> wp (content k) (f x) Q h"
      using wp by (auto simp: Read)
    have "node k fl = i" using h i(1) by (auto simp: held_ok_def)
    then have "read_same (content k) i off n x"
      using read_lawfulD(3,4) [OF law(2) x(1)] unfolding read_same_def by blast
    from i(2) [OF this] show thesis unfolding x(2) [symmetric] by (rule unchanged [OF c same])
  next
    case (Dedupe fl a f)
    obtain x where x: "kn_dedupe K fl a k = (x, k')" "q = f x" using step by (auto simp: Dedupe split: prod.splits)
    have c: "content k' = content k" using law(3) x(1) unfolding dedupe_lawful_def by blast
    have same: "same_descriptors node opened k k'" by (rule D(4) [OF x(1)])
    show thesis by (rule unchanged [OF c same]) (use wp x(2) in \<open>simp add: Dedupe\<close>)
  next
    case (Clone fl a f)
    obtain x where x: "kn_clone K fl a k = (x, k')" "q = f x" using step by (auto simp: Clone split: prod.splits)
    have c: "content k' = content k" using clone_same_keeps [OF lawful(1) h _ x(1)] wp by (simp add: Clone)
    have same: "same_descriptors node opened k k'" by (rule D(5) [OF x(1)])
    show thesis by (rule unchanged [OF c same]) (use wp x(2) in \<open>simp add: Clone\<close>)
  next
    case (Close fl p')
    have x: "k' = close fl k" "q = p'" using step by (simp_all add: Close)
    show thesis
    proof (rule that [of "h(fl := None)"])
      have "card (dom h - {fl}) \<le> card (dom h)" using h by (intro card_mono) (auto simp: held_ok_def)
      then show "held_ok node opened k' (h(fl := None))" using h D(7) [of fl k] D(8) [of _ k fl] by (auto simp: x held_ok_def)
      show "spares_others node opened k h k' (h(fl := None))"
      proof (rule spares_othersI)
        fix g assume that: "held_ok node opened k g" "dom g \<inter> dom h = {}"
        have "g fl = None" using that(2) wp by (fastforce simp: Close)
        then have "fl' \<noteq> fl" if "g fl' = Some i" for fl' i using that by auto
        then show "held_ok node opened k' g \<and> dom g \<inter> dom (h(fl := None)) = {}" using that D(7) [of fl k] D(8) [of _ k fl] by (fastforce simp: x held_ok_def)
      qed
      have "fl \<in> dom h" using wp by (auto simp: Close)
      then show "opened k' = (opened k - dom h) \<union> dom (h(fl := None))" "dom (h(fl := None)) \<inter> (opened k - dom h) = {}"
        using D(7) [of fl k] sub by (auto simp: x)
    qed (use wp D(6) x in \<open>simp_all add: Close\<close>)
  }
qed (use step in auto)

section \<open>All tasks\<close>

text \<open>
  Each task may go on, no two tasks hold the same descriptor, and the descriptors in use are those of
  the tasks and those \<open>O0\<close> that were in use before.
\<close>

definition par_inv ::
    "('k \<Rightarrow> fd \<Rightarrow> 'i) \<Rightarrow> ('k \<Rightarrow> fd set) \<Rightarrow> ('i \<Rightarrow> u8 list) \<Rightarrow> fd set \<Rightarrow> 'r prog list \<times> 'k \<Rightarrow> (fd \<rightharpoonup> 'i) list \<Rightarrow> bool" where
  "par_inv node opened c O0 x hs \<longleftrightarrow> length hs = length (fst x) \<and>
     (\<forall>i < length hs. wp c (fst x ! i) (\<lambda>_ h. h = Map.empty) (hs ! i) \<and> held_ok node opened (snd x) (hs ! i)) \<and>
     (\<forall>i < length hs. \<forall>j < length hs. i \<noteq> j \<longrightarrow> dom (hs ! i) \<inter> dom (hs ! j) = {}) \<and>
     opened (snd x) = O0 \<union> (\<Union>i < length hs. dom (hs ! i)) \<and> (\<forall>i < length hs. O0 \<inter> dom (hs ! i) = {})"

lemma par_step_inv:
  assumes lawful: "kernel_lawful K node content" "descriptors_lawful K close node content opened"
    and inv: "content (snd x) = c" "par_inv node opened c O0 x hs" and step: "par_step K close x y"
  shows "content (snd y) = c \<and> (\<exists>hs'. par_inv node opened c O0 y hs')"
  using step
proof cases
  case (par_step i ts k p k')
  have len: "length hs = length ts" using inv(2) by (simp add: par_inv_def par_step(1))
  have i: "i < length hs" using len par_step(3) by simp
  have I: "wp (content k) (ts ! j) (\<lambda>_ h. h = Map.empty) (hs ! j)" "held_ok node opened k (hs ! j)"
    if "j < length hs" for j
    using inv that by (simp_all add: par_inv_def par_step(1))
  have J: "dom (hs ! a) \<inter> dom (hs ! b) = {}" if "a < length hs" "b < length hs" "a \<noteq> b" for a b
    using inv(2) that by (simp add: par_inv_def)
  obtain h' where h': "content k' = content k" "held_ok node opened k' h'" "wp (content k) p (\<lambda>_ h. h = Map.empty) h'"
      "spares_others node opened k (hs ! i) k' h'"
      "opened k' = (opened k - dom (hs ! i)) \<union> dom h'" "dom h' \<inter> (opened k - dom (hs ! i)) = {}"
    by (rule step_held [OF lawful I(2) [OF i] I(1) [OF i] par_step(4)])
  have c: "content k = c" using inv(1) by (simp add: par_step(1))
  have O: "opened k = O0 \<union> (\<Union>j < length hs. dom (hs ! j))" "\<And>j. j < length hs \<Longrightarrow> O0 \<inter> dom (hs ! j) = {}"
    using inv(2) by (simp_all add: par_inv_def par_step(1))
  have others: "held_ok node opened k' (hs ! j) \<and> dom (hs ! j) \<inter> dom h' = {}" if "j < length hs" "j \<noteq> i" for j
    using h'(4) [unfolded spares_others_def] I(2) [OF that(1)] J [OF that(1) i that(2)] by blast
  have "par_inv node opened c O0 y (hs[i := h'])"
    unfolding par_inv_def par_step(2) fst_conv snd_conv
  proof (intro conjI allI impI)
    show "length (hs[i := h']) = length (ts[i := p])" using len by simp
    fix j assume j: "j < length (hs[i := h'])"
    show "wp c (ts[i := p] ! j) (\<lambda>_ h. h = Map.empty) (hs[i := h'] ! j)" "held_ok node opened k' (hs[i := h'] ! j)"
      using j len h'(2,3) I [of j] others [of j] par_step(3) by (cases "j = i"; simp add: c)+
    fix l assume l: "l < length (hs[i := h'])" "j \<noteq> l"
    show "dom (hs[i := h'] ! j) \<inter> dom (hs[i := h'] ! l) = {}"
      using j l len par_step(3) J [of j l] others [of j] others [of l] by (cases "j = i"; cases "l = i") (simp_all add: Int_commute)
  next
    have "O0 \<inter> dom h' = {}" using h'(6) O(2) [OF i] unfolding O(1) by blast
    then show "O0 \<inter> dom (hs[i := h'] ! j) = {}" if "j < length (hs[i := h'])" for j
      using that i O(2) by (cases "j = i") simp_all
    have "(\<Union>j < length hs. dom (hs[i := h'] ! j)) = dom h' \<union> (\<Union>j \<in> {j. j < length hs \<and> j \<noteq> i}. dom (hs ! j))"
      using i by (auto simp: nth_list_update split: if_splits)
    moreover have "opened k - dom (hs ! i) = O0 \<union> (\<Union>j \<in> {j. j < length hs \<and> j \<noteq> i}. dom (hs ! j))"
      using i O J [OF _ i] by (auto, blast+)
    ultimately show "opened k' = O0 \<union> (\<Union>j < length (hs[i := h']). dom (hs[i := h'] ! j))"
      using h'(5) by auto
  qed
  then show ?thesis using h'(1) c by (auto simp: par_step(2))
qed

lemma schedule_inv:
  assumes "kernel_lawful K node content" "descriptors_lawful K close node content opened"
    "schedule K close x y" "content (snd x) = c" "par_inv node opened c O0 x hs"
  shows "content (snd y) = c \<and> (\<exists>hs'. par_inv node opened c O0 y hs')"
  using assms(3)
proof (induction rule: rtranclp_induct)
  case base
  then show ?case using assms(4,5) by blast
next
  case (step y z)
  then show ?case using par_step_inv [OF assms(1,2)] by blast
qed

lemma dedup_start_tasks:
  assumes "dedup_start R order split ps db opts = Inr ts"
  obtains pairs keys where "ts = map (task_prog opts ps pairs) keys"
  using assms by (auto simp: dedup_start_def res_simps)

lemma dedup_start_inv:
  assumes "kernel_lawful K node content" "dedup_start R order split ps db opts = Inr ts"
  shows "par_inv node opened (content k) (opened k) (ts, k) (replicate (length ts) Map.empty)"
proof -
  obtain pairs keys where ts: "ts = map (task_prog opts ps pairs) keys" by (rule dedup_start_tasks [OF assms(2)])
  have "\<forall>i. length (content k i) < 2 ^ 63" using assms(1) by (simp add: kernel_lawful_def)
  then show ?thesis by (auto simp: par_inv_def held_ok_def ts intro: wp_task)
qed

end
