(* ===== verification/TableKernel.thy ===== *)
theory TableKernel imports Parallel DedupCorrect begin

text \<open>
  A kernel with a table of descriptors: \<open>open\<close> appends a new one, as long as there are fewer than
  1024, and \<open>close\<close> clears it; a call through a descriptor that is not open fails with EBADF. It shows
  that what the theorems on parallel tasks assume of a kernel can hold.
\<close>

type_synonym table_fs = "mem_fs \<times> nat option list"

definition table_file :: "table_fs \<Rightarrow> fd \<Rightarrow> nat option" where
  "table_file k fl = (if unat fl < length (snd k) then snd k ! unat fl else None)"

definition table_node :: "table_fs \<Rightarrow> fd \<Rightarrow> nat" where
  "table_node k fl = (case table_file k fl of None \<Rightarrow> 0 | Some i \<Rightarrow> i)"

definition table_bytes :: "table_fs \<Rightarrow> nat \<Rightarrow> u8 list" where
  "table_bytes k = mem_bytes (fst k)"

definition table_opened :: "table_fs \<Rightarrow> fd set" where
  "table_opened k = {fl. table_file k fl \<noteq> None}"

definition table_close :: "fd \<Rightarrow> table_fs \<Rightarrow> table_fs" where
  "table_close fl k = (fst k, (snd k)[unat fl := None])"

definition EBADF :: errno where "EBADF = 9"
definition EMFILE :: errno where "EMFILE = 24"

definition table_kernel :: "table_fs kernel" where
  "table_kernel = \<lparr>
     kn_open = (\<lambda>p w k. case mem_find (fst k) p 0 of
         None \<Rightarrow> (Inl (OsError ENOENT), k)
       | Some i \<Rightarrow> if length (snd k) < 1024 then (Inr (of_nat (length (snd k))), (fst k, snd k @ [Some i]))
           else (Inl (OsError EMFILE), k)),
     kn_read_at = (\<lambda>fl off n k. case table_file k fl of
         None \<Rightarrow> (Inl (OsError EBADF), k)
       | Some i \<Rightarrow> (Inr (slice_of (unat off) n (table_bytes k i)), k)),
     kn_dedupe = (\<lambda>fl a k. case (table_file k fl, table_file k (ucast (di_dest_fd (do_info a)))) of
         (Some i, Some j) \<Rightarrow>
           (Inr (a\<lparr>do_info := (if slice_of (unat (dr_src_offset (do_range a))) (unat (dr_src_length (do_range a))) (table_bytes k i) =
                slice_of (unat (di_dest_offset (do_info a))) (unat (dr_src_length (do_range a))) (table_bytes k j)
              then (do_info a)\<lparr>di_status := 0, di_bytes_deduped := dr_src_length (do_range a)\<rparr>
              else (do_info a)\<lparr>di_status := 1\<rparr>)\<rparr>), k)
       | _ \<Rightarrow> (Inl EBADF, k)),
     kn_clone = (\<lambda>fl a k. case (table_file k (ucast (fc_src_fd a)), table_file k fl) of
         (Some i, Some j) \<Rightarrow>
           if 0 < unat (fc_src_length a) \<and> unat (fc_src_offset a) + unat (fc_src_length a) \<le> length (table_bytes k i) \<and>
              unat (fc_dest_offset a) + unat (fc_src_length a) \<le> length (table_bytes k j)
           then (Inr (), ((fst k)[j := (fst (fst k ! j), overwrite (unat (fc_dest_offset a))
                  (slice_of (unat (fc_src_offset a)) (unat (fc_src_length a)) (table_bytes k i)) (table_bytes k j))], snd k))
           else (Inl EINVAL, k)
       | _ \<Rightarrow> (Inl EBADF, k))\<rparr>"

lemma table_file_append:
  "length (snd k) < 1024 \<Longrightarrow> table_file (fst k, snd k @ [Some i]) fl =
     (if fl = of_nat (length (snd k)) then Some i else table_file k fl)"
  by (auto simp: table_file_def nth_append unat_of_nat word_unat_eq_iff)

lemma table_file_same: "table_file (fs, snd k) = table_file k"
  by (simp add: table_file_def fun_eq_iff)

lemma table_overwrite:
  assumes "length ys = length (table_bytes k j)" "0 < length ys"
  shows "table_bytes ((fst k)[j := (q, ys)], t) = (table_bytes k)(j := ys)"
proof -
  have "j < length (fst k)" using assms by (auto simp: table_bytes_def mem_bytes_def split: if_splits)
  moreover have "length ys \<le> 2 ^ 63 - 1" unfolding assms(1) by (simp add: table_bytes_def mem_bytes_def)
  ultimately show ?thesis by (auto simp: table_bytes_def mem_bytes_def fun_eq_iff nth_list_update)
qed

lemma table_clone_ok:
  assumes "clone_range (kn_clone table_kernel) src so dst dest n k = (r, k')" "0 < unat n"
    "unat so + unat n \<le> length (table_bytes k (table_node k src))"
    "unat dest + unat n \<le> length (table_bytes k (table_node k dst))"
  shows "\<exists>m \<le> unat n. (r = Inr () \<longrightarrow> m = unat n) \<and> table_bytes k' = (table_bytes k)(table_node k dst :=
     overwrite (unat dest) (slice_of (unat so) m (table_bytes k (table_node k src))) (table_bytes k (table_node k dst)))"
proof -
  have fd: "ucast (scast src :: i64) = src" for src :: fd
    by (rule bit_word_eqI) (simp add: bit_simps)
  show ?thesis
  proof (cases "table_file k src = None \<or> table_file k dst = None")
    case True
    then have "r = Inl EBADF" "k' = k"
      using assms(1) by (auto simp: clone_range_def table_kernel_def fd split: option.splits)
    then show ?thesis by (intro exI [of _ 0]) (simp add: slice_of_def overwrite_def)
  next
    case False
    then obtain i j where ij: "table_file k src = Some i" "table_file k dst = Some j" by auto
    let ?ys = "overwrite (unat dest) (slice_of (unat so) (unat n) (table_bytes k i)) (table_bytes k j)"
    have len: "length ?ys = length (table_bytes k j)" "0 < length ?ys"
      using assms(2-4) by (auto simp add: table_node_def ij)
    have "r = Inr ()" "k' = ((fst k)[j := (fst (fst k ! j), ?ys)], snd k)"
      using assms by (auto simp: clone_range_def table_kernel_def fd ij table_node_def)
    then show ?thesis
      by (intro exI [of _ "unat n"]) (simp add: table_node_def ij table_overwrite [OF len])
  qed
qed

lemma table_kernel_lawful: "kernel_lawful table_kernel table_node table_bytes"
proof -
  have "open_lawful table_kernel table_bytes"
    by (auto simp: open_lawful_def table_kernel_def table_bytes_def split: option.splits if_splits)
  moreover have "read_lawful table_kernel table_node table_bytes"
    by (auto simp: read_lawful_def table_kernel_def table_node_def slice_of_def min_def split: option.splits)
  moreover have "dedupe_lawful table_kernel table_bytes"
    by (auto simp: dedupe_lawful_def table_kernel_def split: option.splits)
  moreover have "clone_lawful table_kernel table_node table_bytes"
    unfolding clone_lawful_def using table_clone_ok by blast
  moreover have "length (table_bytes k i) < 2 ^ 63" for k i
    by (simp add: table_bytes_def mem_bytes_def min_less_iff_disj)
  ultimately show ?thesis by (simp add: kernel_lawful_def)
qed

lemma table_descriptors_lawful: "descriptors_lawful table_kernel table_close table_node table_bytes table_opened"
  unfolding descriptors_lawful_def
proof (intro conjI allI impI)
  fix p w k
  show "same_descriptors table_node table_opened k k'" if "kn_open table_kernel p w k = (Inl e, k')" for e k'
    using that by (auto simp: same_descriptors_def table_kernel_def split: option.splits if_splits)
  fix fl k' assume "kn_open table_kernel p w k = (Inr fl, k')"
  then obtain i where i: "length (snd k) < 1024" "fl = of_nat (length (snd k))" "k' = (fst k, snd k @ [Some i])"
    by (auto simp: table_kernel_def split: option.splits if_splits)
  show "fl \<notin> table_opened k" using i by (simp add: table_opened_def table_file_def unat_of_nat)
  then show "\<forall>fl \<in> table_opened k. table_node k' fl = table_node k fl"
    unfolding i(3) using i(1,2) by (auto simp: table_node_def table_file_append)
  show "table_opened k' = insert fl (table_opened k)"
    unfolding i(3) using i(1,2) by (auto simp: table_opened_def table_file_append)
next
  show "same_descriptors table_node table_opened k k'" if "kn_read_at table_kernel fl off n k = (r, k')" for fl off n k r k'
    using that by (auto simp: same_descriptors_def table_kernel_def split: option.splits)
  show "same_descriptors table_node table_opened k k'" if "kn_dedupe table_kernel fl a k = (r, k')" for fl a k r k'
    using that by (auto simp: same_descriptors_def table_kernel_def split: option.splits)
  show "same_descriptors table_node table_opened k k'" if "kn_clone table_kernel fl a k = (r, k')" for fl a k r k'
    using that by (auto simp: same_descriptors_def table_kernel_def table_opened_def table_node_def table_file_same
        split: option.splits if_splits)
  fix fl k
  have closed: "table_file (table_close fl k) fl' = (if fl' = fl then None else table_file k fl')" for fl'
    by (auto simp: table_file_def table_close_def word_unat_eq_iff)
  show "table_bytes (table_close fl k) = table_bytes k" by (simp add: table_bytes_def table_close_def)
  show "table_opened (table_close fl k) = table_opened k - {fl}" by (auto simp: table_opened_def closed)
  show "\<forall>fl' \<in> table_opened k - {fl}. table_node (table_close fl k) fl' = table_node k fl'"
    by (auto simp: table_node_def closed)
qed

end
