(* ===== verification/Race.thy ===== *)
theory Race imports DedupCorrect begin

text \<open>
  The clone phase of \<open>src/dedup.rs\<close> while other processes write. \<open>race_kernel K\<close> is the kernel \<open>K\<close>
  whose state also holds what the others are going to do before each of the calls to come; a
  schedule of their writes is a list. FIDEDUPERANGE compares and clones in one call, under the locks
  of the two inodes, so it is one step here too; a comparison in user space and FICLONERANGE are
  several.
\<close>

type_synonym 'k racing = "'k \<times> ('k \<Rightarrow> 'k) list"

definition raced :: "('k \<Rightarrow> 'r \<times> 'k) \<Rightarrow> 'k racing \<Rightarrow> 'r \<times> 'k racing" where
  "raced f = (\<lambda>(k, es).
     case es of
       [] \<Rightarrow> (case f k of (r, k) \<Rightarrow> (r, (k, [])))
     | e # es \<Rightarrow> (case f (e k) of (r, k) \<Rightarrow> (r, (k, es))))"

definition race_kernel :: "'k kernel \<Rightarrow> 'k racing kernel" where
  "race_kernel K = \<lparr>
     kn_open = (\<lambda>p w. raced (kn_open K p w)),
     kn_read_at = (\<lambda>f off n. raced (kn_read_at K f off n)),
     kn_dedupe = (\<lambda>f a. raced (kn_dedupe K f a)),
     kn_clone = (\<lambda>f a. raced (kn_clone K f a))\<rparr>"

text \<open>What another process does to the contents depends on the contents alone.\<close>

definition writes_only :: "('k \<Rightarrow> 'c) \<Rightarrow> ('k \<Rightarrow> 'k) \<Rightarrow> bool" where
  "writes_only content e \<longleftrightarrow> (\<forall>k k'. content k = content k' \<longrightarrow> content (e k) = content (e k'))"

text \<open>Between two moments, the contents have changed by the writes of the others only.\<close>

definition race_kept :: "('k \<Rightarrow> 'c) \<Rightarrow> 'k racing \<Rightarrow> 'k racing \<Rightarrow> bool" where
  "race_kept content s t \<longleftrightarrow> (list_all (writes_only content) (snd s) \<longrightarrow>
     (\<exists>n. snd t = drop n (snd s) \<and> content (fst t) = content (fold id (take n (snd s)) (fst s))))"

lemma fold_writes:
  "list_all (writes_only content) es \<Longrightarrow> content k = content k' \<Longrightarrow> content (fold id es k) = content (fold id es k')"
proof (induction es arbitrary: k k')
  case (Cons e es)
  have e: "writes_only content e" "list_all (writes_only content) es" using Cons.prems(1) by simp_all
  have "content (e k) = content (e k')"
    using e(1) Cons.prems(2) unfolding writes_only_def by blast
  from Cons.IH [OF e(2) this] show ?case by simp
qed simp

lemma race_kept_trans:
  assumes "race_kept content s t" "race_kept content t u"
  shows "race_kept content s u"
  unfolding race_kept_def
proof
  assume es: "list_all (writes_only content) (snd s)"
  obtain n where n: "snd t = drop n (snd s)" "content (fst t) = content (fold id (take n (snd s)) (fst s))"
    using assms(1) es unfolding race_kept_def by blast
  have "list_all (writes_only content) (snd t)"
    using es unfolding n(1) list_all_iff by (meson in_set_dropD)
  then obtain m where m: "snd u = drop m (snd t)" "content (fst u) = content (fold id (take m (snd t)) (fst t))"
    using assms(2) unfolding race_kept_def by blast
  have "list_all (writes_only content) (take m (snd t))"
    using \<open>list_all (writes_only content) (snd t)\<close> unfolding list_all_iff by (meson in_set_takeD)
  from fold_writes [OF this n(2)]
  have "content (fst u) = content (fold id (take (n + m) (snd s)) (fst s))"
    by (simp add: m(2) n(1) take_add)
  moreover have "snd u = drop (n + m) (snd s)" by (simp add: m(1) n(1) add.commute)
  ultimately show "\<exists>n. snd u = drop n (snd s) \<and> content (fst u) = content (fold id (take n (snd s)) (fst s))"
    by blast
qed

interpretation race_frame: io_frame "\<lambda>s t. race_kept content (part s) (part t)"
  for content :: "'k \<Rightarrow> 'c" and part :: "'s \<Rightarrow> 'k racing"
proof unfold_locales
  show "race_kept content (part s) (part s)" for s
    unfolding race_kept_def by (metis drop0 fold_simps(1) take0)
qed (rule race_kept_trans)

abbreviation keeps_race :: "('k \<Rightarrow> 'c) \<Rightarrow> ('a, 'k racing wstate) io \<Rightarrow> bool" where
  "keeps_race content \<equiv> io_keeps (\<lambda>s t. race_kept content (ws_kernel s) (ws_kernel t))"

text \<open>One call that keeps the contents.\<close>

lemma raced_kept:
  assumes "\<And>k r k'. f k = (r, k') \<Longrightarrow> content k' = content k" "raced f s = (r, t)"
  shows "race_kept content s t"
proof -
  obtain k es where s: "s = (k, es)" by (cases s)
  show ?thesis
  proof (cases es)
    case Nil
    then have "snd t = []" "content (fst t) = content k"
      using assms by (auto simp: s raced_def split: prod.splits)
    then show ?thesis by (simp add: race_kept_def s Nil)
  next
    case (Cons e rest)
    then have "snd t = rest" "content (fst t) = content (e k)"
      using assms by (auto simp: s raced_def split: prod.splits)
    then show ?thesis unfolding race_kept_def s Cons
      by (intro impI exI [of _ 1]) simp
  qed
qed

section \<open>FIDEDUPERANGE\<close>

lemma race_calls:
  assumes "open_lawful K content" "dedupe_lawful K content"
  shows "keeps_race content (io_call (kn_open (race_kernel K) p w))"
    and "keeps_race content (io_ioctl (dedupe_range (kn_dedupe (race_kernel K)) sf so df dst_off n))"
proof -
  have "race_kept content s t" if "kn_open (race_kernel K) p w s = (r, t)" for s r t
    using raced_kept [of "kn_open K p w" content] that assms(1) by (auto simp: race_kernel_def open_lawful_def)
  then show "keeps_race content (io_call (kn_open (race_kernel K) p w))"
    by (intro io_keepsI) (auto simp: io_call_def split: prod.splits)
  have "race_kept content s t" if "kn_dedupe (race_kernel K) f a s = (r, t)" for f a s r t
    using raced_kept [of "kn_dedupe K f a" content] that assms(2) by (auto simp: race_kernel_def dedupe_lawful_def)
  then show "keeps_race content (io_ioctl (dedupe_range (kn_dedupe (race_kernel K)) sf so df dst_off n))"
    by (intro io_keepsI) (auto simp: io_ioctl_def dedupe_range_def Let_def split: prod.splits)
qed

lemma race_counts:
  "keeps_race content (bump d)" "keeps_race content (count_error e)" "keeps_race content (count_result opts r)"
proof -
  show b: "keeps_race content (bump d)" for d
    using race_frame.kept_refl by (auto simp: io_keeps_def bump_def io_modify_def)
  show e: "keeps_race content (count_error e)" for e
    by (auto simp: count_error_def intro!: race_frame.within_intros b split: verdict.split)
  show "keeps_race content (count_result opts r)"
    by (auto simp: count_result_def intro!: race_frame.within_intros b e split: sum.split option.split)
qed

lemma race_pair:
  assumes "open_lawful K content" "dedupe_lawful K content" "op_fideduperange opts" "\<not> op_dry_run opts"
  shows "keeps_race content (pair_files (race_kernel K) opts ps blksz s d runs)"
proof -
  have "keeps_race content (verify_and_clone (race_kernel K) opts sf so df dst_off n False)" for sf so df dst_off n
    unfolding verify_and_clone_def
    by (auto intro!: race_frame.within_intros race_calls [OF assms(1,2)] split: dedupe.split)
  then have "keeps_race content (do_run (race_kernel K) opts ps blksz s d False sf df r)" for sf df r
    unfolding do_run_def by (auto intro!: race_frame.within_intros race_counts)
  moreover have "keeps_race content (worker_open (race_kernel K) opts ps i w)" for i w
    unfolding worker_open_def
    by (auto intro!: race_frame.within_intros race_calls [OF assms(1,2)] split: prod.split)
  ultimately show ?thesis
    using assms(3,4) unfolding pair_files_def Let_def
    by (auto intro!: race_frame.within_intros race_counts split: sum.split prod.split)
qed

lemma race_task:
  assumes "open_lawful K content" "dedupe_lawful K content" "op_fideduperange opts" "\<not> op_dry_run opts"
  shows "io_keeps (race_kept content) (run_task (race_kernel K) opts ps pairs keys)"
proof (rule io_keepsI)
  fix k r k' assume "run_task (race_kernel K) opts ps pairs keys k = Some (r, k')"
  then obtain x w where w: "ws_kernel w = k'"
    "io_for (\<lambda>(blksz, s, d). case pairs (blksz, s, d) of None \<Rightarrow> io_ret ()
        | Some runs \<Rightarrow> pair_files (race_kernel K) opts ps (ucast blksz) s d runs) keys (worker_new k) = Some (x, w)"
    by (auto simp: run_task_def)
  have "keeps_race content (io_for (\<lambda>(blksz, s, d). case pairs (blksz, s, d) of None \<Rightarrow> io_ret ()
        | Some runs \<Rightarrow> pair_files (race_kernel K) opts ps (ucast blksz) s d runs) keys)"
    by (intro race_frame.within_for)
       (auto intro!: race_frame.within_intros race_pair [OF assms] split: prod.split option.split)
  from io_keepsD [OF this w(2)] show "race_kept content k k'"
    by (simp add: w(1) worker_new_def)
qed

lemma race_dedup:
  assumes "open_lawful K content" "dedupe_lawful K content" "op_fideduperange opts" "\<not> op_dry_run opts"
  shows "io_keeps (race_kept content) (dedup (race_kernel K) R order split ps db opts)"
proof -
  note frame = race_frame.within_intros [where content = content and part = "\<lambda>s. s"]
  have "io_keeps (race_kept content) (run_tasks (race_kernel K) opts ps pairs ts)" for pairs ts
    by (induction ts) (auto intro!: frame race_task [OF assms])
  then show ?thesis
    unfolding dedup_def by (intro frame)
qed

section \<open>A concrete race\<close>

text \<open>Another process rewrites the second of the two sample files.\<close>

definition rewrite :: "mem_fs \<Rightarrow> mem_fs" where
  "rewrite k = (if mem_bytes k 1 = [] then k else k[1 := (fst (k ! 1), [9, 9, 9, 9])])"

lemma rewrite_only: "writes_only mem_bytes rewrite"
  unfolding writes_only_def
proof (intro allI impI)
  fix k k' :: mem_fs assume eq: "mem_bytes k = mem_bytes k'"
  have bytes: "mem_bytes (rewrite k) = (if mem_bytes k 1 = [] then mem_bytes k else (mem_bytes k)(1 := [9, 9, 9, 9]))" for k
    by (auto simp: rewrite_def mem_bytes_def fun_eq_iff nth_list_update)
  show "mem_bytes (rewrite k) = mem_bytes (rewrite k')" by (simp only: bytes eq)
qed

definition rewritten_fs :: mem_fs where
  "rewritten_fs = [(usr @ [Normal [98]], [1, 2, 3, 4]), (usr @ [Normal [97]], [9, 9, 9, 9])]"

lemma rewrite_sample: "rewrite sample_fs = rewritten_fs"
  by (simp add: rewrite_def sample_fs_def mem_bytes_def rewritten_fs_def)

lemma race_read:
  "f = 0 \<or> f = 1 \<Longrightarrow> length buf = 4 \<Longrightarrow>
   read_exact_at (race_kernel mem_kernel) f buf 0 0 (sample_fs, id # es) = (Inr (), [1, 2, 3, 4], (sample_fs, es))"
  by (subst read_exact_at.simps, subst read_exact_at.simps)
    (auto simp: race_kernel_def raced_def mem_kernel_def mem_read_at_def mem_bytes_def mem_node_def sample_fs_def slice_of_def overwrite_def)

lemma race_clone: "clone_range (kn_clone (race_kernel mem_kernel)) 0 0 1 0 4 (sample_fs, [rewrite]) = (Inr (), (sample_fs, []))"
  by (simp add: clone_range_def race_kernel_def raced_def rewrite_sample)
    (simp add: Let_def mem_kernel_def mem_clone_def mem_bytes_def rewritten_fs_def sample_fs_def slice_of_def overwrite_def)

lemma race_verify:
  "ws_kernel s = (sample_fs, [id, id, rewrite]) \<Longrightarrow> verify_and_clone (race_kernel mem_kernel) force 0 0 1 0 4 True s =
     Some (Inr (Some 4), s\<lparr>ws_kernel := (sample_fs, []), ws_buf_a := [1, 2, 3, 4], ws_buf_b := [1, 2, 3, 4]\<rparr>)"
  by (simp add: verify_and_clone_def io_bind_def read_a_def read_b_def race_read io_gets_def force_def
      io_context_def io_ioctl_def race_clone io_ret_def)

lemma race_writes: "list_all (writes_only mem_bytes) [id, rewrite]"
  using rewrite_only by (simp add: writes_only_def [of mem_bytes id])

lemma race_opens:
  "kn_open (race_kernel mem_kernel) (usr @ [Normal [98]]) w (sample_fs, id # es) = (Inr 0, (sample_fs, es))"
  "kn_open (race_kernel mem_kernel) (usr @ [Normal [97]]) w (sample_fs, id # es) = (Inr 1, (sample_fs, es))"
  by (simp_all add: race_kernel_def raced_def mem_kernel_def mem_open_def sample_fs_def)

lemma race_dedupe:
  "dedupe_range (kn_dedupe (race_kernel mem_kernel)) 0 0 1 0 4 (sample_fs, [rewrite]) = (Inr Differs, (rewritten_fs, []))"
  by (simp add: dedupe_range_def race_kernel_def raced_def rewrite_sample)
    (simp add: mem_kernel_def mem_dedupe_def dedupe_arg_def mem_bytes_def rewritten_fs_def slice_of_def output_from_ptr_def
      FILE_DEDUPE_RANGE_DIFFERS_def)

section \<open>What can be lost\<close>

text \<open>
  With FIDEDUPERANGE no write of another process is lost. Whatever other processes write before
  any of the calls, over a kernel whose FIDEDUPERANGE keeps the bytes as it documents: the contents
  after the clone phase, on success and on failure, are exactly those that the writes so far make by
  themselves.
\<close>

theorem dedupe_loses_no_write:
  assumes "open_lawful K content" "dedupe_lawful K content" "op_fideduperange opts" "\<not> op_dry_run opts"
    "list_all (writes_only content) es"
    "dedup (race_kernel K) R order split ps db opts (k, es) = Some (r, (k', es'))"
  shows "\<exists>n. es' = drop n es \<and> content k' = content (fold id (take n es) k)"
  using io_keepsD [OF race_dedup [OF assms(1-4)] assms(6)] assms(5) by (simp add: race_kept_def)

theorem dedupe_loses_no_write_witness:
  "\<exists>st. dedup (race_kernel mem_kernel) mem_redb (\<lambda>_. [(4, sample_hash)]) (\<lambda>_. [[(4, 0, 1)]]) sample_paths sample_cache
     \<lparr>op_dry_run = False, op_fideduperange = True\<rparr> (sample_fs, [id, id, rewrite]) = Some (Inr st, (rewritten_fs, [])) \<and>
   n_mismatches st = 1 \<and> mem_bytes rewritten_fs = mem_bytes (fold id [id, id, rewrite] sample_fs)"
proof -
  let ?opts = "\<lparr>op_dry_run = False, op_fideduperange = True\<rparr>" and ?es = "[id, id, rewrite]"
  have "\<exists>w. sample_pair (race_kernel mem_kernel) ?opts (sample_fs, ?es) = Some (Inr (), w) \<and>
      n_mismatches (ws_stats w) = 1 \<and> ws_kernel w = (rewritten_fs, [])"
    by (rule sample_files) (simp add: pair_eval race_opens verify_and_clone_def io_ioctl_def race_dedupe)
  then obtain st where run: "dedup (race_kernel mem_kernel) mem_redb (\<lambda>_. [(4, sample_hash)]) (\<lambda>_. [[(4, 0, 1)]]) sample_paths
      sample_cache ?opts (sample_fs, ?es) = Some (Inr st, (rewritten_fs, []))" "n_mismatches st = 1"
    using sample_dedup_pair by metis
  have law: "open_lawful mem_kernel mem_bytes" "dedupe_lawful mem_kernel mem_bytes"
    using mem_kernel_lawful by (simp_all add: kernel_lawful_def)
  obtain n where "[] = drop n ?es" "mem_bytes rewritten_fs = mem_bytes (fold id (take n ?es) sample_fs)"
    using dedupe_loses_no_write [OF law _ _ _ run(1)] race_writes by auto
  then show ?thesis using run by simp
qed

section \<open>What the comparison in user space cannot see\<close>

text \<open>A worker's state, with what the others are going to do.\<close>

definition racing :: "'k wstate \<Rightarrow> ('k \<Rightarrow> 'k) list \<Rightarrow> 'k racing wstate" where
  "racing s es = \<lparr>ws_kernel = (ws_kernel s, es), ws_buf_a = ws_buf_a s, ws_buf_b = ws_buf_b s, ws_stats = ws_stats s\<rparr>"

lemma racing_simps [simp]:
  "ws_kernel (racing s es) = (ws_kernel s, es)" "ws_buf_a (racing s es) = ws_buf_a s" "ws_buf_b (racing s es) = ws_buf_b s"
  by (simp_all add: racing_def)

text \<open>As long as the others do nothing, reading is as it is without them.\<close>

lemma read_quietly:
  "read_exact_at K f buf n off k = (r, buf', k') \<Longrightarrow>
   \<exists>j. \<forall>es. read_exact_at (race_kernel K) f buf n off (k, replicate j id @ es) = (r, buf', (k', es))"
proof (induction K f buf n off k arbitrary: r buf' k' rule: read_exact_at.induct)
  case (1 K f buf n off k)
  note step = read_exact_at.simps [of K f buf n off k] read_exact_at.simps [of "race_kernel K" f buf n off]
  show ?case
  proof (cases "n < length buf")
    case False
    then have "r = Inr ()" "buf' = buf" "k' = k" using "1.prems" by (simp_all add: step(1))
    then show ?thesis using False by (intro exI [of _ 0] allI, subst step(2)) simp
  next
    case True
    obtain x t where rd: "kn_read_at K f off (length buf - n) k = (x, t)" by fastforce
    have call: "kn_read_at (race_kernel K) f off (length buf - n) (k, id # es) = (x, (t, es))" for es
      by (simp add: race_kernel_def raced_def rd)
    show ?thesis
    proof (cases "\<exists>bs. x = Inr bs \<and> bs \<noteq> []")
      case False
      then have "read_exact_at (race_kernel K) f buf n off (k, replicate 1 id @ es) = (r, buf', (k', es))" for es
        using "1.prems" True by (auto simp: step rd call split: sum.splits if_splits)
      then show ?thesis by blast
    next
      case bs: True
      then obtain bs where bs: "x = Inr bs" "bs \<noteq> []" by blast
      let ?rest = "\<lambda>K k. read_exact_at K f (overwrite n (take (length buf - n) bs) buf) (n + length bs) (off + of_nat (length bs)) k"
      have "?rest K t = (r, buf', k')" using "1.prems" True by (simp add: step rd bs)
      from "1.IH" [OF True rd [unfolded bs(1), symmetric] refl bs(2) this]
      obtain j where j: "\<And>es. ?rest (race_kernel K) (t, replicate j id @ es) = (r, buf', (k', es))" by blast
      have "read_exact_at (race_kernel K) f buf n off (k, replicate (Suc j) id @ es) = (r, buf', (k', es))" for es
        using True j [of es] by (simp add: step(2) call bs)
      then show ?thesis by blast
    qed
  qed
qed

lemma reads_racing:
  "read_a K f off n s = Some (r, t) \<Longrightarrow> \<exists>j. \<forall>es. read_a (race_kernel K) f off n (racing s (replicate j id @ es)) = Some (r, racing t es)"
  "read_b K f off n s = Some (r, t) \<Longrightarrow> \<exists>j. \<forall>es. read_b (race_kernel K) f off n (racing s (replicate j id @ es)) = Some (r, racing t es)"
proof -
  assume "read_a K f off n s = Some (r, t)"
  then obtain x buf k where rd: "read_exact_at K f (resize (unat n) (ws_buf_a s)) 0 off (ws_kernel s) = (x, buf, k)"
      "r = from_io x" "t = s\<lparr>ws_kernel := k, ws_buf_a := buf\<rparr>"
    by (auto simp: read_a_def split: prod.splits)
  from read_quietly [OF rd(1)] obtain j where
    "\<And>es. read_exact_at (race_kernel K) f (resize (unat n) (ws_buf_a s)) 0 off (ws_kernel s, replicate j id @ es) = (x, buf, (k, es))"
    by blast
  then have "read_a (race_kernel K) f off n (racing s (replicate j id @ es)) = Some (r, racing t es)" for es
    by (simp add: read_a_def rd(2,3)) (simp add: racing_def)
  then show "\<exists>j. \<forall>es. read_a (race_kernel K) f off n (racing s (replicate j id @ es)) = Some (r, racing t es)" by blast
next
  assume "read_b K f off n s = Some (r, t)"
  then obtain x buf k where rd: "read_exact_at K f (resize (unat n) (ws_buf_b s)) 0 off (ws_kernel s) = (x, buf, k)"
      "r = from_io x" "t = s\<lparr>ws_kernel := k, ws_buf_b := buf\<rparr>"
    by (auto simp: read_b_def split: prod.splits)
  from read_quietly [OF rd(1)] obtain j where
    "\<And>es. read_exact_at (race_kernel K) f (resize (unat n) (ws_buf_b s)) 0 off (ws_kernel s, replicate j id @ es) = (x, buf, (k, es))"
    by blast
  then have "read_b (race_kernel K) f off n (racing s (replicate j id @ es)) = Some (r, racing t es)" for es
    by (simp add: read_b_def rd(2,3)) (simp add: racing_def)
  then show "\<exists>j. \<forall>es. read_b (race_kernel K) f off n (racing s (replicate j id @ es)) = Some (r, racing t es)" by blast
qed

text \<open>A write of another process into the range that is about to be cloned over, after which the clone still succeeds.\<close>

definition hits_range ::
    "'k kernel \<Rightarrow> ('k \<Rightarrow> fd \<Rightarrow> 'i) \<Rightarrow> ('k \<Rightarrow> 'i \<Rightarrow> u8 list) \<Rightarrow> fd \<Rightarrow> u64 \<Rightarrow> fd \<Rightarrow> u64 \<Rightarrow> u64 \<Rightarrow> ('k \<Rightarrow> 'k) \<Rightarrow> 'k \<Rightarrow> bool" where
  "hits_range K node content sf so df dst_off n e k \<longleftrightarrow>
     fst (clone_range (kn_clone K) sf so df dst_off n (e k)) = Inr () \<and> node (e k) = node k \<and>
     (\<exists>bs. length bs = unat n \<and>
        content (e k) = (content k)(node k df := overwrite (unat dst_off) bs (content k (node k df))))"

lemma clone_undoes_write:
  assumes "kernel_lawful K node content" "n \<noteq> 0" "hits_range K node content sf so df dst_off n e k"
    "clone_range (kn_clone K) sf so df dst_off n (e k) = (r, k')" "node k sf \<noteq> node k df"
    "unat so + unat n \<le> length (content k (node k sf))" "unat dst_off + unat n \<le> length (content k (node k df))"
    "range_of node content k sf so n = range_of node content k df dst_off n"
  shows "r = Inr () \<and> content k' = content k"
proof -
  obtain bs where e: "r = Inr ()" "node (e k) = node k" "length bs = unat n"
      "content (e k) = (content k)(node k df := overwrite (unat dst_off) bs (content k (node k df)))"
    using assms(3,4) by (auto simp: hits_range_def)
  let ?src = "slice_of (unat so) (unat n) (content k (node k sf))" and ?old = "content k (node k df)"
  have law: "clone_lawful K node content" using assms(1) by (simp add: kernel_lawful_def)
  have n: "0 < unat n" using assms(2) by (simp add: unat_gt_0)
  have "unat so + unat n \<le> length (content (e k) (node (e k) sf))"
      "unat dst_off + unat n \<le> length (content (e k) (node (e k) df))"
    using assms(5-7) e(2-4) by simp_all
  from clone_lawfulD [OF law assms(4) n this] obtain m where "r = Inr () \<Longrightarrow> m = unat n"
      "content k' = (content (e k))(node (e k) df :=
         overwrite (unat dst_off) (slice_of (unat so) m (content (e k) (node (e k) sf))) (content (e k) (node (e k) df)))"
    by metis
  then have "content k' = (content k)(node k df := overwrite (unat dst_off) ?src (overwrite (unat dst_off) bs ?old))"
    using e assms(5) by simp
  also have "overwrite (unat dst_off) ?src (overwrite (unat dst_off) bs ?old) = overwrite (unat dst_off) ?src ?old"
    using e(3) assms(6,7) by (simp add: overwrite_def slice_of_def min_absorb1)
  also have "?src = slice_of (unat dst_off) (unat n) ?old" using assms(8) by (simp add: range_of_def)
  finally show ?thesis using e(1) assms(7) by simp
qed


lemma rewrite_hits:
  assumes "mem_bytes k = mem_bytes sample_fs"
  shows "hits_range mem_kernel mem_node mem_bytes 0 0 1 0 4 rewrite k"
proof -
  have k: "mem_bytes k 0 = [1, 2, 3, 4]" "mem_bytes k 1 = [1, 2, 3, 4]"
    unfolding assms by (simp_all add: mem_bytes_def sample_fs_def)
  then have len: "1 < length k" by (auto simp: mem_bytes_def split: if_splits)
  have size: "length (mem_bytes k 1) = 4" by (simp only: k) simp
  have e: "mem_bytes (rewrite k) = (mem_bytes k)(1 := [9, 9, 9, 9])"
    using k(2) len by (auto simp: rewrite_def mem_bytes_def fun_eq_iff nth_list_update)
  have "fst (clone_range (kn_clone mem_kernel) 0 0 1 0 4 (rewrite k)) = Inr ()"
    using k e by (simp add: clone_range_def mem_kernel_def mem_clone_def)
  moreover have "overwrite (unat (0 :: u64)) [9, 9, 9, 9] (mem_bytes k 1) = [9, 9, 9, 9]"
    using size by (simp add: overwrite_def)
  ultimately show ?thesis
    unfolding hits_range_def e by (intro conjI exI [of _ "[9, 9, 9, 9]"]) (simp_all add: mem_node_def fun_eq_iff)
qed


text \<open>In a whole clone phase, such a loss is counted as a success and no error.\<close>

theorem force_can_lose_write:
  "\<exists>es k st. list_all (writes_only mem_bytes) es \<and>
     dedup (race_kernel mem_kernel) mem_redb (\<lambda>_. [(4, sample_hash)]) (\<lambda>_. [[(4, 0, 1)]]) sample_paths sample_cache force
       (sample_fs, es) = Some (Inr st, (k, [])) \<and> n_cloned st = 1 \<and> n_errors st = 0 \<and>
     mem_bytes (fold id es sample_fs) 1 = [9, 9, 9, 9] \<and> mem_bytes k 1 = [1, 2, 3, 4]"
proof -
  let ?es = "[id, id, id, id, rewrite]"
  have "\<exists>w. sample_pair (race_kernel mem_kernel) force (sample_fs, ?es) = Some (Inr (), w) \<and>
      ws_stats w = sample_stats \<and> ws_kernel w = (sample_fs, [])"
    by (rule sample_files) (simp add: pair_eval race_opens race_verify sample_stats_def force_flags)
  then have run: "dedup (race_kernel mem_kernel) mem_redb (\<lambda>_. [(4, sample_hash)]) (\<lambda>_. [[(4, 0, 1)]]) sample_paths sample_cache force
      (sample_fs, ?es) = Some (Inr sample_stats, (sample_fs, []))"
    using sample_dedup_pair by metis
  have "fold id ?es sample_fs = rewritten_fs" by (simp add: rewrite_sample)
  then have "mem_bytes (fold id ?es sample_fs) 1 = [9, 9, 9, 9]" by (simp only:) (simp add: rewritten_fs_def mem_bytes_def)
  moreover have "mem_bytes sample_fs 1 = [1, 2, 3, 4]" by (simp add: mem_bytes_def sample_fs_def)
  moreover have "n_cloned sample_stats = 1" "n_errors sample_stats = 0" by (simp_all add: sample_stats_def)
  moreover have "list_all (writes_only mem_bytes) ?es" using race_writes by simp
  ultimately show ?thesis using run by blast
qed

end
