(* ===== verification/ParallelCorrect.thy ===== *)
theory ParallelCorrect imports TableKernel Race begin

text \<open>
  The properties of the clone phase with its tasks in parallel: every schedule ends with the counters
  of all tasks, no schedule changes the contents of a file or keeps a file open, no schedule loses a
  write of another process, and one task after the other is one of the schedules.
\<close>

section \<open>A concrete schedule\<close>

text \<open>Two tasks that both clone the chunk of the one sample file to the other.\<close>

definition sample_tasks :: "opts \<Rightarrow> stats res prog list" where
  "sample_tasks opts = map (task_prog opts sample_paths sample_runs) [[(4, 0, 1)], [(4, 0, 1)]]"

abbreviation sample_dedup_start :: "opts \<Rightarrow> stats res prog list res" where
  "sample_dedup_start opts \<equiv> dedup_start mem_redb (\<lambda>_. [(4, sample_hash)]) (\<lambda>_. [[(4, 0, 1)], [(4, 0, 1)]]) sample_paths sample_cache opts"

lemma sample_tasks_ok: "sample_dedup_start opts = Inr (sample_tasks opts)"
  by (simp add: dedup_start_def sample_build_index sample_build_runs sample_tasks_def)

section \<open>Every schedule ends\<close>

lemma dedup_start_leaves:
  assumes "paths_inv ps" "table_fits (ps_table ps)" "redb_lawful R tab ttab"
    "build_index R db (ps_files ps) = Inr idx" "distinct (order idx)" "set (order idx) = dom idx"
  obtains ts where "dedup_start R order split ps db opts = Inr ts" "list_all (leaves (\<lambda>r. \<exists>st. r = Inr st)) ts"
proof -
  have wf: "index_wf (ps_files ps) idx" by (rule build_index_wf_aux [OF assms(3,4)])
  obtain pairs where pairs: "build_runs (order idx) idx (ps_files ps) = Inr pairs"
    by (rule build_runs_spec [OF wf assms(5,6)])
  have "leaves (\<lambda>r. \<exists>st. r = Inr st) (task_prog opts ps pairs keys)" for keys
    by (rule leaves_of_runs) (use run_task_returns [OF assms(1,2) wf assms(5,6) pairs] in \<open>metis task_prog_runs\<close>)
  then show ?thesis
    by (intro that [of "map (task_prog opts ps pairs) (split pairs)"])
       (simp_all add: dedup_start_def assms(4) pairs list_all_iff)
qed

lemma schedule_result:
  assumes "list_all (leaves (\<lambda>r. \<exists>st. r = Inr st)) ts" "schedule K close (ts, k) (ts', k')" "par_done K close (ts', k')"
  shows "\<exists>st. par_result ts' = Some (Inr st)"
proof (rule results_of_returns)
  have "list_all (leaves (\<lambda>r. \<exists>st. r = Inr st)) ts'"
    using leaves_schedule [OF assms(2), of "\<lambda>r. \<exists>st. r = Inr st"] assms(1) by simp
  then show "list_all (\<lambda>t. \<exists>st. t = Ret (Inr st)) ts'"
    using assms(3) leaves_stuck [of "\<lambda>r. \<exists>st. r = Inr st" _ K close k'] by (fastforce simp: par_done_def list_all_iff)
qed

text \<open>
  C7. The clone phase completes, however its tasks are scheduled: once the index is built, over a store
  of paths that keeps its invariant, no schedule of the rayon tasks goes on forever, and when no task
  has a call left to make, every task has returned its counters and they add up to the result of
  \<open>dedup\<close>; whatever the kernel answers to any call.
\<close>

theorem parallel_completes:
  assumes "paths_inv ps" "table_fits (ps_table ps)" "redb_lawful R tab ttab"
    "build_index R db (ps_files ps) = Inr idx" "distinct (order idx)" "set (order idx) = dom idx"
  shows "\<exists>ts. dedup_start R order split ps db opts = Inr ts \<and>
     (\<nexists>s. s 0 = (ts, k) \<and> (\<forall>n. par_step K close (s n) (s (Suc n)))) \<and>
     (\<forall>ts' k'. schedule K close (ts, k) (ts', k') \<and> par_done K close (ts', k') \<longrightarrow> (\<exists>st. par_result ts' = Some (Inr st)))"
proof -
  obtain ts where ts: "dedup_start R order split ps db opts = Inr ts" "list_all (leaves (\<lambda>r. \<exists>st. r = Inr st)) ts"
    by (rule dedup_start_leaves [where order = order, OF assms])
  have "\<nexists>s. s 0 = (ts, k) \<and> (\<forall>n. par_step K close (s n) (s (Suc n)))"
    using no_infinite_schedule [of K close] by blast
  moreover have "\<forall>ts' k'. schedule K close (ts, k) (ts', k') \<and> par_done K close (ts', k') \<longrightarrow> (\<exists>st. par_result ts' = Some (Inr st))"
    by (intro allI impI, elim conjE) (rule schedule_result [OF ts(2)])
  ultimately show ?thesis using ts(1) by blast
qed

theorem parallel_completes_witness:
  "\<exists>ts k' st. schedule table_kernel table_close (sample_tasks force, (sample_fs, [])) (ts, k') \<and>
     par_done table_kernel table_close (ts, k') \<and> par_result ts = Some (Inr st)"
proof -
  obtain ts k' where run: "schedule table_kernel table_close (sample_tasks force, (sample_fs, [])) (ts, k')"
    "par_done table_kernel table_close (ts, k')"
    using schedule_ends [of table_kernel table_close] by (metis surj_pair)
  show ?thesis
    using parallel_completes [where order = "\<lambda>_. [(4, sample_hash)]" and split = "\<lambda>_. [[(4, 0, 1)], [(4, 0, 1)]]"
        and opts = force and K = table_kernel and close = table_close and k = "(sample_fs, [])",
        OF sample_paths_ok(1) sample_push(2) mem_redb_lawful sample_build_index sample_order] run
    unfolding sample_tasks_ok by blast
qed

section \<open>No schedule changes a file\<close>

text \<open>
  C4. Parallel tasks keep every file's contents: in every state that any schedule of the rayon tasks
  reaches, one system call at a time, also in the middle of \<open>--force\<close>'s compare and clone, every file
  has the bytes it had at the start. Over any kernel with the documented behaviour of its calls, when
  no other process writes meanwhile, with any hash cache and any hash collisions.
\<close>

theorem parallel_keeps_contents:
  assumes "kernel_lawful K node content" "descriptors_lawful K close node content opened"
    "dedup_start R order split ps db opts = Inr ts" "schedule K close (ts, k) (ts', k')"
  shows "content k' = content k"
  using schedule_inv [OF assms(1,2,4) refl, of "opened k"] dedup_start_inv [OF assms(1,3)] by fastforce

theorem parallel_keeps_contents_witness:
  "\<exists>ts k'. schedule table_kernel table_close (sample_tasks force, (sample_fs, [])) (ts, k') \<and>
     par_done table_kernel table_close (ts, k') \<and> mem_bytes (fst k') = mem_bytes sample_fs"
proof -
  obtain ts k' where run: "schedule table_kernel table_close (sample_tasks force, (sample_fs, [])) (ts, k')"
    "par_done table_kernel table_close (ts, k')"
    using schedule_ends [of table_kernel table_close] by (metis surj_pair)
  show ?thesis
    using parallel_keeps_contents [OF table_kernel_lawful table_descriptors_lawful sample_tasks_ok run(1)] run
    unfolding table_bytes_def fst_conv by blast
qed

text \<open>
  C11. No schedule keeps a file open: at any moment the tasks together hold at most two files for each of
  them, and when all tasks have returned, the descriptors in use are those that were in use before, on every path, failures to
  open, to read and to clone included.
\<close>

theorem parallel_closes_files:
  assumes "kernel_lawful K node content" "descriptors_lawful K close node content opened"
    "dedup_start R order split ps db opts = Inr ts" "schedule K close (ts, k) (ts', k')"
  shows "opened k \<subseteq> opened k' \<and> finite (opened k' - opened k) \<and> card (opened k' - opened k) \<le> 2 * length ts \<and>
     (par_result ts' \<noteq> None \<longrightarrow> opened k' = opened k)"
proof -
  obtain hs where hs: "par_inv node opened (content k) (opened k) (ts', k') hs"
    using schedule_inv [OF assms(1,2,4) refl, of "opened k"] dedup_start_inv [OF assms(1,3)] by fastforce
  have len: "length hs = length ts'" using hs by (simp add: par_inv_def)
  have all: "opened k' = opened k \<union> (\<Union>i < length hs. dom (hs ! i))" "\<And>i. i < length hs \<Longrightarrow> opened k \<inter> dom (hs ! i) = {}"
    and held: "\<And>i. i < length hs \<Longrightarrow> finite (dom (hs ! i)) \<and> card (dom (hs ! i)) \<le> 2"
    using hs by (simp_all add: par_inv_def held_ok_def)
  have new: "opened k' - opened k = (\<Union>i < length hs. dom (hs ! i))" using all by blast
  have "length ts' = length ts"
    using assms(4) by (induction "(ts', k')" arbitrary: ts' k' rule: rtranclp_induct) (auto elim!: par_step.cases)
  have "card (\<Union>i < length hs. dom (hs ! i)) \<le> (\<Sum>i < length hs. card (dom (hs ! i)))"
    by (intro card_UN_le) simp
  also have "\<dots> \<le> (\<Sum>i < length hs. 2)" by (intro sum_mono) (use held in simp)
  also have "\<dots> = 2 * length ts" using len \<open>length ts' = length ts\<close> by simp
  finally have bound: "card (\<Union>i < length hs. dom (hs ! i)) \<le> 2 * length ts" .
  have "opened k' = opened k" if "par_result ts' \<noteq> None"
  proof -
    have "\<exists>r. t = Ret r" if "t \<in> set ts'" for t
      using \<open>par_result ts' \<noteq> None\<close> that by (induction ts' rule: par_result.induct) auto
    then have "hs ! i = Map.empty" if "i < length hs" for i
      using hs that len by (fastforce simp: par_inv_def in_set_conv_nth dest: spec [of _ i])
    then show ?thesis using new all(1) by simp
  qed
  then show ?thesis using all(1) new bound held by simp
qed

theorem parallel_closes_files_witness:
  "\<exists>ts k'. schedule table_kernel table_close (sample_tasks force, (sample_fs, [])) (ts, k') \<and>
     par_result ts \<noteq> None \<and> table_opened k' = table_opened (sample_fs, [])"
proof -
  obtain ts k' where run: "schedule table_kernel table_close (sample_tasks force, (sample_fs, [])) (ts, k')"
    "par_done table_kernel table_close (ts, k')"
    using schedule_ends [of table_kernel table_close] by (metis surj_pair)
  obtain ts0 where ts0: "sample_dedup_start force = Inr ts0" "list_all (leaves (\<lambda>r. \<exists>st. r = Inr st)) ts0"
    by (rule dedup_start_leaves [where order = "\<lambda>_. [(4, sample_hash)]", OF sample_paths_ok(1) sample_push(2) mem_redb_lawful
        sample_build_index sample_order])
  have "\<exists>st. par_result ts = Some (Inr st)"
    using schedule_result [OF _ run] ts0 by (simp add: sample_tasks_ok)
  then show ?thesis
    using parallel_closes_files [OF table_kernel_lawful table_descriptors_lawful sample_tasks_ok run(1)] run(1) by blast
qed

section \<open>One task after the other\<close>

lemma run_tasks_schedule:
  assumes "run_tasks K opts ps pairs keys k = Some (Inr st, k')"
  shows "\<exists>ts'. schedule K (\<lambda>_ k. k) (map (task_prog opts ps pairs) keys, k) (ts', k') \<and> par_result ts' = Some (Inr st)"
  using assms
proof (induction keys arbitrary: k st)
  case Nil
  then show ?case by (auto simp: io_simps)
next
  case (Cons t keys)
  then obtain a b k1 where run: "run_task K opts ps pairs t k = Some (Inr a, k1)"
      "run_tasks K opts ps pairs keys k1 = Some (Inr b, k')" "st = stats_add a b"
    by (auto simp: io_bind_Some io_simps)
  obtain ts' where ts': "schedule K (\<lambda>_ k. k) (map (task_prog opts ps pairs) keys, k1) (ts', k')" "par_result ts' = Some (Inr b)"
    using Cons.IH [OF run(2)] by blast
  have "schedule K (\<lambda>_ k. k) (task_prog opts ps pairs t # map (task_prog opts ps pairs) keys, k)
      (Ret (Inr a) # map (task_prog opts ps pairs) keys, k1)"
    by (rule run_prog_schedule) (use run(1) in \<open>simp add: task_prog_runs\<close>)
  also have "schedule K (\<lambda>_ k. k) (Ret (Inr a) # map (task_prog opts ps pairs) keys, k1) (Ret (Inr a) # ts', k')"
    using schedule_cons [OF ts'(1), of "Ret (Inr a)"] by simp
  finally show ?case
    using ts'(2) run(3) by (intro exI [of _ "Ret (Inr a) # ts'"]) simp
qed

text \<open>
  The tasks in parallel refine nothing away: one task after the other, which is how the theory of
  the whole program runs the clone phase, is one of the schedules, with the same counters and the same
  final state, when closing a file does not show in the state of the kernel.
\<close>

theorem sequential_is_schedule:
  assumes "dedup K R order split ps db opts k = Some (Inr st, k')"
  shows "\<exists>ts ts'. dedup_start R order split ps db opts = Inr ts \<and>
     schedule K (\<lambda>_ k. k) (ts, k) (ts', k') \<and> par_result ts' = Some (Inr st)"
proof -
  obtain idx pairs where p: "build_index R db (ps_files ps) = Inr idx"
    "build_runs (order idx) idx (ps_files ps) = Inr pairs" "run_tasks K opts ps pairs (split pairs) k = Some (Inr st, k')"
    using assms by (auto simp: dedup_def io_bind_Some io_simps)
  show ?thesis using run_tasks_schedule [OF p(3)] by (simp add: dedup_start_def p(1,2))
qed

theorem sequential_is_schedule_witness:
  "\<exists>fs ts'. sample_dedup force sample_fs = Some (Inr sample_stats, fs) \<and>
     schedule mem_kernel (\<lambda>_ k. k) ([task_prog force sample_paths sample_runs [(4, 0, 1)]], sample_fs) (ts', fs) \<and>
     par_result ts' = Some (Inr sample_stats)"
proof -
  obtain fs where run: "sample_dedup force sample_fs = Some (Inr sample_stats, fs)"
    using sample_dedup_runs by blast
  show ?thesis
    using sequential_is_schedule [OF run] run
    by (simp add: dedup_start_def sample_build_index sample_build_runs)
qed

end
