(* ===== verification/RunSchedule.thy ===== *)
theory RunSchedule imports RunReturns ParallelCorrect begin

text \<open>
  The whole program of \<open>src/main.rs\<close> with the clone phase of each dataset under any schedule of its tasks:
  \<open>run\<close> and \<open>main\<close> once more, as relations between a state and the outcomes it may have. The theory
  \<open>RunAll\<close>, which runs the tasks one after the other, gives one of these outcomes.
\<close>

section \<open>The clone phase\<close>

text \<open>
  A panic of a task ends the phase at once or after calls of other tasks: rayon lets tasks that have
  begun go on, and may leave out the others.
\<close>

inductive clone_phase ::
    "'k kernel \<Rightarrow> (fd \<Rightarrow> 'k \<Rightarrow> 'k) \<Rightarrow> stats res prog list res \<Rightarrow> 'k \<Rightarrow> stats res \<Rightarrow> 'k \<Rightarrow> bool" for K close where
  not_started: "clone_phase K close (Inl e) k (Inl e) k"
| finished: "schedule K close (ts, k) (ts', k') \<Longrightarrow> par_result ts' = Some r \<Longrightarrow> clone_phase K close (Inr ts) k r k'"
| panicked: "schedule K close (ts, k) (ts', k') \<Longrightarrow> Ret (Inl e) \<in> set ts' \<Longrightarrow> clone_phase K close (Inr ts) k (Inl e) k'"

inductive_cases clone_phaseE: "clone_phase K close start k r k'"

definition dataset_tasks ::
    "('k, 'r, 'db, 'tx) world \<Rightarrow> opts \<Rightarrow> hashed paths \<Rightarrow> 'db \<Rightarrow> stats res prog list res" where
  "dataset_tasks W opts hashed db = dedup_start (wd_redb W) (wd_order W) (wd_split W) hashed db opts"

section \<open>The datasets, one by one\<close>

inductive par_datasets ::
    "('k, 'r, 'db, 'tx) world \<Rightarrow> (fd \<Rightarrow> 'k \<Rightarrow> 'k) \<Rightarrow> path list \<Rightarrow> inode set \<Rightarrow> opts \<Rightarrow>
     (u64 \<times> path list) list \<Rightarrow> ('k, 'db) rstate \<Rightarrow> unit res \<Rightarrow> ('k, 'db) rstate \<Rightarrow> bool" for W close mounts exclude opts where
  no_dataset: "par_datasets W close mounts exclude opts [] s (Inr ()) s"
| scan_fails: "scan_dataset W mounts exclude fs ds s = Some (Inl e, t) \<Longrightarrow>
    par_datasets W close mounts exclude opts ((fs, ds) # gs) s (Inl e) t"
| dedup_fails: "scan_dataset W mounts exclude fs ds s = Some (Inr hashed, t) \<Longrightarrow>
    clone_phase (wd_kernel W) close (dataset_tasks W opts hashed (rn_db t)) (rn_kernel t) (Inl e) k \<Longrightarrow>
    par_datasets W close mounts exclude opts ((fs, ds) # gs) s (Inl e) (t\<lparr>rn_kernel := k\<rparr>)"
| dataset: "scan_dataset W mounts exclude fs ds s = Some (Inr hashed, t) \<Longrightarrow>
    clone_phase (wd_kernel W) close (dataset_tasks W opts hashed (rn_db t)) (rn_kernel t) (Inr st) k \<Longrightarrow>
    par_datasets W close mounts exclude opts gs (t\<lparr>rn_kernel := k, rn_stats := stats_add (rn_stats t) st\<rparr>) r u \<Longrightarrow>
    par_datasets W close mounts exclude opts ((fs, ds) # gs) s r u"

section \<open>Before and after the datasets\<close>

definition run_before ::
    "('k, 'r, 'db, 'tx) world \<Rightarrow> args \<Rightarrow> bool \<Rightarrow>
     (path list \<times> inode set \<times> opts \<times> (u64 \<times> path list) list, ('k, 'db) rstate) io" where
  "run_before W args private_ns =
     io_bind (io_query (\<lambda>s. zfs_mounts (wd_mount W) (wd_zfs W) (rn_kernel s))) (\<lambda>mounts.
     io_bind (scan_dirs W args private_ns mounts) (\<lambda>dirs.
     io_bind (if \<not> ar_dry_run args then probe_dirs W dirs else io_ret False) (\<lambda>fideduperange.
     if \<not> ar_dry_run args \<and> \<not> fideduperange \<and> \<not> ar_force args
     then io_lift (Inl (Fail [Message ''This ZFS does not support FIDEDUPERANGE'']))
     else
       io_bind (io_gets (\<lambda>s. excluded (wd_stat W (ar_cache args) (rn_kernel s)))) (\<lambda>exclude.
       io_bind (io_gets (\<lambda>s. by_fsid (\<lambda>d. walk_fsid (wd_mount W) d (rn_kernel s)) dirs)) (\<lambda>groups.
       io_ret (mounts, exclude, \<lparr>op_dry_run = ar_dry_run args, op_fideduperange = fideduperange\<rparr>, groups))))))"

definition run_after :: "('k, 'r, 'db, 'tx) world \<Rightarrow> args \<Rightarrow> (bool, ('k, 'db) rstate) io" where
  "run_after W args =
     io_bind (compact_cache W args) (\<lambda>_. io_gets (\<lambda>s. rn_hash_errors s = 0 \<and> n_errors (rn_stats s) = 0))"

inductive par_body ::
    "('k, 'r, 'db, 'tx) world \<Rightarrow> (fd \<Rightarrow> 'k \<Rightarrow> 'k) \<Rightarrow> args \<Rightarrow> bool \<Rightarrow> ('k, 'db) rstate \<Rightarrow> bool res \<Rightarrow> ('k, 'db) rstate \<Rightarrow> bool"
    for W close args ns where
  stopped: "run_before W args ns s = Some (Inl e, t) \<Longrightarrow> par_body W close args ns s (Inl e) t"
| dataset_fails: "run_before W args ns s = Some (Inr (mounts, exclude, opts, groups), t) \<Longrightarrow>
    par_datasets W close mounts exclude opts groups t (Inl e) u \<Longrightarrow> par_body W close args ns s (Inl e) u"
| datasets: "run_before W args ns s = Some (Inr (mounts, exclude, opts, groups), t) \<Longrightarrow>
    par_datasets W close mounts exclude opts groups t (Inr ()) u \<Longrightarrow> run_after W args u = Some (r, v) \<Longrightarrow>
    par_body W close args ns s r v"

section \<open>The program\<close>

inductive par_run ::
    "('k, 'r, 'db, 'tx) world \<Rightarrow> (fd \<Rightarrow> 'k \<Rightarrow> 'k) \<Rightarrow> args \<Rightarrow> bool \<Rightarrow> 'k \<Rightarrow> bool res \<Rightarrow> 'k \<Rightarrow> bool"
    for W close args ns where
  no_cache_dir: "make_cache_dir W args k = Some (Inl e, k1) \<Longrightarrow> par_run W close args ns k (Inl e) k1"
| no_cache: "make_cache_dir W args k = Some (Inr (), k1) \<Longrightarrow>
    with_context ''open cache'' (cache_open (wd_redb W) (as_os_str (ar_cache args))) = Inl e \<Longrightarrow>
    par_run W close args ns k (Inl e) k1"
| opened: "make_cache_dir W args k = Some (Inr (), k1) \<Longrightarrow>
    with_context ''open cache'' (cache_open (wd_redb W) (as_os_str (ar_cache args))) = Inr db \<Longrightarrow>
    par_body W close args ns (run_start k1 db) r s \<Longrightarrow> par_run W close args ns k r (rn_kernel s)"

inductive par_program ::
    "('k, 'r, 'db, 'tx) world \<Rightarrow> (fd \<Rightarrow> 'k \<Rightarrow> 'k) \<Rightarrow> 'p lexopt \<Rightarrow> (string \<Rightarrow> u8 list option) \<Rightarrow> 'p \<Rightarrow> 'k \<Rightarrow> nat \<Rightarrow> 'k \<Rightarrow> bool"
    for W close P env p where
  usage: "parse_args P env p = Some (BadUsage e) \<Longrightarrow> par_program W close P env p k 2 k"
| version: "parse_args P env p = Some ExitSuccess \<Longrightarrow> par_program W close P env p k 0 k"
| runs: "parse_args P env p = Some (Parsed args) \<Longrightarrow> enter_private_mount_ns (wd_mount W) k = Some (ns, k1) \<Longrightarrow>
    par_run W close args (case ns of Inl e \<Rightarrow> False | Inr _ \<Rightarrow> True) k1 r k' \<Longrightarrow>
    par_program W close P env p k (exit_code r) k'"

section \<open>One task after the other\<close>

lemma run_tasks_fail:
  assumes "run_tasks K opts ps pairs keys k = Some (Inl e, k')"
  shows "\<exists>ts'. schedule K (\<lambda>_ k. k) (map (task_prog opts ps pairs) keys, k) (ts', k') \<and> Ret (Inl e) \<in> set ts'"
  using assms
proof (induction keys arbitrary: k)
  case Nil
  then show ?case by (simp add: io_simps)
next
  case (Cons t keys)
  let ?ts = "map (task_prog opts ps pairs) keys"
  have first: "schedule K (\<lambda>_ k. k) (task_prog opts ps pairs t # ?ts, k) (Ret r # ?ts, k1)"
    if "run_task K opts ps pairs t k = Some (r, k1)" for r k1
    by (rule run_prog_schedule) (use that in \<open>simp add: task_prog_runs\<close>)
  from Cons.prems consider "run_task K opts ps pairs t k = Some (Inl e, k')"
    | a k1 where "run_task K opts ps pairs t k = Some (Inr a, k1)" "run_tasks K opts ps pairs keys k1 = Some (Inl e, k')"
    by (auto simp: io_bind_Some io_simps)
  then show ?case
  proof cases
    case 1
    then show ?thesis using first by (intro exI [of _ "Ret (Inl e) # ?ts"]) simp
  next
    case 2
    obtain ts' where ts': "schedule K (\<lambda>_ k. k) (?ts, k1) (ts', k')" "Ret (Inl e) \<in> set ts'"
      using Cons.IH [OF 2(2)] by blast
    have "schedule K (\<lambda>_ k. k) (Ret (Inr a) # ?ts, k1) (Ret (Inr a) # ts', k')"
      using schedule_cons [OF ts'(1), of "Ret (Inr a)"] by simp
    with first [OF 2(1)] show ?thesis
      using ts'(2) by (intro exI [of _ "Ret (Inr a) # ts'"]) (auto intro: rtranclp_trans)
  qed
qed

lemma dedup_is_phase:
  assumes "dedup K R order split ps db opts k = Some (r, k')"
  shows "clone_phase K (\<lambda>_ k. k) (dedup_start R order split ps db opts) k r k'"
proof (cases "dedup_start R order split ps db opts")
  case (Inl e)
  then have "r = Inl e" "k' = k"
    using assms by (auto simp: dedup_start_def dedup_def io_bind_Some io_simps rbind_def split: sum.splits)
  then show ?thesis using Inl by (simp add: clone_phase.not_started)
next
  case (Inr ts)
  then obtain idx pairs where p: "build_index R db (ps_files ps) = Inr idx"
    "build_runs (order idx) idx (ps_files ps) = Inr pairs" "ts = map (task_prog opts ps pairs) (split pairs)"
    by (auto simp: dedup_start_def res_simps)
  then have run: "run_tasks K opts ps pairs (split pairs) k = Some (r, k')"
    using assms by (auto simp: dedup_def io_bind_Some io_simps)
  show ?thesis
  proof (cases r)
    case (Inl e)
    then show ?thesis
      using run_tasks_fail [of K opts ps pairs "split pairs" k e k'] run unfolding Inr p(3) by (auto intro: clone_phase.panicked)
  next
    case (Inr st)
    then show ?thesis
      using run_tasks_schedule [of K opts ps pairs "split pairs" k st k'] run \<open>dedup_start _ _ _ _ _ _ = _\<close>
      unfolding p(3) by (auto intro: clone_phase.finished)
  qed
qed

lemma dedup_dataset_cases:
  assumes "dedup_dataset W opts hashed s = Some (r, t)"
  obtains e k where "r = Inl e" "t = s\<lparr>rn_kernel := k\<rparr>"
      "dedup (wd_kernel W) (wd_redb W) (wd_order W) (wd_split W) hashed (rn_db s) opts (rn_kernel s) = Some (Inl e, k)"
    | st k where "r = Inr ()" "t = s\<lparr>rn_kernel := k, rn_stats := stats_add (rn_stats s) st\<rparr>"
      "dedup (wd_kernel W) (wd_redb W) (wd_order W) (wd_split W) hashed (rn_db s) opts (rn_kernel s) = Some (Inr st, k)"
proof -
  obtain x k where x: "dedup (wd_kernel W) (wd_redb W) (wd_order W) (wd_split W) hashed (rn_db s) opts (rn_kernel s) = Some (x, k)"
    using assms by (auto simp: dedup_dataset_def)
  show ?thesis by (cases x) (use assms x that in \<open>auto simp: dedup_dataset_def\<close>)
qed

lemma do_datasets_par:
  assumes "io_for (do_dataset W mounts exclude opts) gs s = Some (r, t)"
  shows "par_datasets W (\<lambda>_ k. k) mounts exclude opts gs s r t"
  using assms
proof (induction gs arbitrary: s)
  case Nil
  then show ?case using par_datasets.no_dataset by (auto simp: io_simps)
next
  case (Cons g gs)
  obtain fs ds where g: "g = (fs, ds)" by (cases g)
  let ?scan = "scan_dataset W mounts exclude fs ds" and ?one = "do_dataset W mounts exclude opts g"
  have phase: "clone_phase (wd_kernel W) (\<lambda>_ k. k) (dataset_tasks W opts hashed (rn_db s1)) (rn_kernel s1) x k"
    if "dedup (wd_kernel W) (wd_redb W) (wd_order W) (wd_split W) hashed (rn_db s1) opts (rn_kernel s1) = Some (x, k)"
    for hashed x k and s1 :: "('a, 'b) rstate"
    unfolding dataset_tasks_def by (rule dedup_is_phase [OF that])
  from Cons.prems consider e where "?one s = Some (Inl e, t)" "r = Inl e"
    | s2 where "?one s = Some (Inr (), s2)" "io_for (do_dataset W mounts exclude opts) gs s2 = Some (r, t)"
    by (auto simp: io_bind_Some)
  then show ?case
  proof cases
    case 1
    then consider "?scan s = Some (Inl e, t)"
      | hashed s1 where "?scan s = Some (Inr hashed, s1)" "dedup_dataset W opts hashed s1 = Some (Inl e, t)"
      by (auto simp: do_dataset_def g io_bind_Some)
    then show ?thesis
    proof cases
      case 1
      then show ?thesis using \<open>r = Inl e\<close> by (simp add: g par_datasets.scan_fails)
    next
      case 2
      from 2(2) obtain k where x: "dedup (wd_kernel W) (wd_redb W) (wd_order W) (wd_split W) hashed (rn_db s1) opts (rn_kernel s1) = Some (Inl e, k)"
          "t = s1\<lparr>rn_kernel := k\<rparr>"
        by (cases rule: dedup_dataset_cases) auto
      then show ?thesis
        unfolding g \<open>r = Inl e\<close> using par_datasets.dedup_fails [OF 2(1)] phase x by metis
    qed
  next
    case 2
    then obtain hashed s1 where run: "?scan s = Some (Inr hashed, s1)" "dedup_dataset W opts hashed s1 = Some (Inr (), s2)"
      by (auto simp: do_dataset_def g io_bind_Some)
    then obtain st k where "dedup (wd_kernel W) (wd_redb W) (wd_order W) (wd_split W) hashed (rn_db s1) opts (rn_kernel s1) = Some (Inr st, k)"
        "s2 = s1\<lparr>rn_kernel := k, rn_stats := stats_add (rn_stats s1) st\<rparr>"
      by (cases rule: dedup_dataset_cases [OF run(2)]) auto
    then show ?thesis
      unfolding g using par_datasets.dataset [OF run(1) phase] Cons.IH [OF 2(2)] by blast
  qed
qed

lemma lift_error_bind: "io_bind (io_lift (Inl e)) f = io_lift (Inl e)"
  by (simp add: fun_eq_iff io_bind_def io_lift_def)

lemma run_body_split:
  "run_body W args ns = io_bind (run_before W args ns) (\<lambda>(mounts, exclude, opts, groups).
     io_bind (io_for (do_dataset W mounts exclude opts) groups) (\<lambda>_. run_after W args))"
  unfolding run_body_def run_datasets_def run_before_def run_after_def io_bind_assoc
  by (intro arg_cong2 [where f = io_bind] refl ext) (simp add: io_bind_assoc lift_error_bind)

lemma run_body_par:
  assumes "run_body W args ns s = Some (r, t)"
  shows "par_body W (\<lambda>_ k. k) args ns s r t"
proof -
  from assms consider e where "run_before W args ns s = Some (Inl e, t)" "r = Inl e"
    | mounts exclude opts groups s1 where "run_before W args ns s = Some (Inr (mounts, exclude, opts, groups), s1)"
        "io_bind (io_for (do_dataset W mounts exclude opts) groups) (\<lambda>_. run_after W args) s1 = Some (r, t)"
    by (auto simp: run_body_split io_bind_Some)
  then show ?thesis
  proof cases
    case 1
    then show ?thesis by (simp add: par_body.stopped)
  next
    case 2
    then show ?thesis
      using do_datasets_par [of W mounts exclude opts groups s1]
      by (auto simp: io_bind_Some intro: par_body.dataset_fails par_body.datasets)
  qed
qed

lemma run_all_par:
  assumes "run_all W args ns k = Some (r, k', db)"
  shows "par_run W (\<lambda>_ k. k) args ns k r k'"
proof -
  obtain r0 k1 where dir: "make_cache_dir W args k = Some (r0, k1)"
    using assms by (auto simp: run_all_def split: option.splits)
  show ?thesis
  proof (cases r0)
    case (Inl e)
    then show ?thesis using assms dir par_run.no_cache_dir by (auto simp: run_all_def)
  next
    case (Inr u)
    then have dir: "make_cache_dir W args k = Some (Inr (), k1)" using dir by simp
    show ?thesis
    proof (cases "with_context ''open cache'' (cache_open (wd_redb W) (as_os_str (ar_cache args)))")
      case (Inl e)
      then show ?thesis using assms dir par_run.no_cache by (auto simp: run_all_def)
    next
      case (Inr db)
      then obtain s where "run_body W args ns (run_start k1 db) = Some (r, s)" "k' = rn_kernel s"
        using assms dir by (auto simp: run_all_def)
      then show ?thesis using par_run.opened [OF dir Inr] run_body_par by blast
    qed
  qed
qed

text \<open>
  The sequential program is one of the scheduled ones: whatever \<open>main\<close> does with the tasks of each
  clone phase one after the other, in any mode and with any outcome, errors and panics included, is one
  of the outcomes with the tasks in parallel, when closing a file does not show in the kernel's state.
  So what holds of every schedule holds of it.
\<close>

theorem program_is_scheduled:
  assumes "main_program W P env p k = Some (code, k')"
  shows "par_program W (\<lambda>_ k. k) P env p k code k'"
proof -
  obtain out where out: "parse_args P env p = Some out"
    using assms by (auto simp: main_program_def split: option.splits)
  show ?thesis
  proof (cases out)
    case (Parsed args)
    obtain ns k1 where ns: "enter_private_mount_ns (wd_mount W) k = Some (ns, k1)"
      using assms by (auto simp: main_program_def out Parsed split: option.splits)
    let ?private = "case ns of Inl e \<Rightarrow> False | Inr _ \<Rightarrow> True"
    obtain r db where run: "run_all W args ?private k1 = Some (r, k', db)" "code = exit_code r"
      using assms by (auto simp: main_program_def out Parsed ns)
    show ?thesis
      unfolding run(2) by (rule par_program.runs [OF out [unfolded Parsed] ns run_all_par [OF run(1)]])
  qed (use assms out in \<open>auto simp: main_program_def intro: par_program.usage par_program.version\<close>)
qed

theorem program_is_scheduled_witness:
  "\<exists>fs. main_program sample_world mem_lexopt (\<lambda>_. None) sample_opts sample_fs = Some (0, fs) \<and>
     par_program sample_world (\<lambda>_ k. k) mem_lexopt (\<lambda>_. None) sample_opts sample_fs 0 fs"
proof -
  obtain fs where run: "main_program sample_world mem_lexopt (\<lambda>_. None) sample_opts sample_fs = Some (0, fs)"
    using sample_program by blast
  show ?thesis using run program_is_scheduled [OF run] by blast
qed

section \<open>No schedule changes a file\<close>

lemma within_before:
  assumes "world_lawful W node content anon"
  shows "keeps_files content (run_before W args ns)" "keeps_files content (run_after W args)"
proof -
  show "keeps_files content (run_before W args ns)"
    unfolding run_before_def
    by (auto intro!: kernel_frame.within_intros within_query within_scan_dirs [OF assms] within_probe [OF assms])
  show "keeps_files content (run_after W args)"
    unfolding run_after_def by (auto intro!: kernel_frame.within_intros within_same)
qed

lemma clone_phase_keeps:
  assumes "kernel_lawful K node content" "descriptors_lawful K close node content opened"
    "clone_phase K close (dedup_start R order split ps db opts) k r k'"
  shows "content k' = content k"
proof -
  have "content k' = content k"
    if "dedup_start R order split ps db opts = Inr ts" "schedule K close (ts, k) (ts', k')" for ts ts'
    using schedule_inv [OF assms(1,2) that(2) refl, of "opened k"] dedup_start_inv [OF assms(1) that(1)] by fastforce
  then show ?thesis using assms(3) by (auto elim: clone_phaseE)
qed

lemma par_datasets_keep:
  assumes "world_lawful W node content anon" "descriptors_lawful (wd_kernel W) close node content opened"
    "par_datasets W close mounts exclude opts gs s r t"
  shows "content (rn_kernel t) = content (rn_kernel s)"
proof -
  note phase = clone_phase_keeps [OF world_lawfulD(1) [OF assms(1)] assms(2)]
  show ?thesis
    using assms(3)
  proof (induction rule: par_datasets.induct)
    case (scan_fails fs ds s e t gs)
    then show ?case using io_keepsD [OF within_scan] by blast
  next
    case (dedup_fails fs ds s hashed t e k gs)
    then have "content (rn_kernel t) = content (rn_kernel s)" using io_keepsD [OF within_scan] by blast
    then show ?case using phase [OF dedup_fails(2) [unfolded dataset_tasks_def]] by simp
  next
    case (dataset fs ds s hashed t st k gs r u)
    then have "content (rn_kernel t) = content (rn_kernel s)" using io_keepsD [OF within_scan] by blast
    then show ?case using phase [OF dataset(2) [unfolded dataset_tasks_def]] dataset.IH by simp
  qed simp
qed

lemma par_body_keeps:
  assumes "world_lawful W node content anon" "descriptors_lawful (wd_kernel W) close node content opened"
    "par_body W close args ns s r t"
  shows "content (rn_kernel t) = content (rn_kernel s)"
  using assms(3)
proof cases
  case (stopped e)
  show ?thesis by (rule io_keepsD [OF within_before(1) [OF assms(1)] stopped(2)])
next
  case (dataset_fails mounts exclude opts groups s1 e)
  show ?thesis
    using io_keepsD [OF within_before(1) [OF assms(1)] dataset_fails(2)] par_datasets_keep [OF assms(1,2) dataset_fails(3)]
    by simp
next
  case (datasets mounts exclude opts groups s1 s2)
  show ?thesis
    using io_keepsD [OF within_before(1) [OF assms(1)] datasets(1)] par_datasets_keep [OF assms(1,2) datasets(2)]
      io_keepsD [OF within_before(2) [OF assms(1)] datasets(3)] by simp
qed

lemma cache_dir_keeps:
  assumes "world_lawful W node content anon" "make_cache_dir W args k = Some (r, k')"
  shows "content k' = content k"
  using assms(2) world_lawfulD(3) [OF assms(1)] by (auto simp: make_cache_dir_def split: option.splits prod.splits)

lemma par_run_keeps:
  assumes "world_lawful W node content anon" "descriptors_lawful (wd_kernel W) close node content opened"
    "par_run W close args ns k r k'"
  shows "content k' = content k"
  using assms(3)
proof cases
  case (opened k1 db s)
  show ?thesis
    using par_body_keeps [OF assms(1,2) opened(4)] cache_dir_keeps [OF assms(1) opened(2)] opened(1) by (simp add: run_start_def)
qed (use cache_dir_keeps [OF assms(1)] in blast)+

text \<open>
  C1. The whole program with its clone phases in parallel keeps the contents of every file: from the
  private mount namespace and the probe to the last clone of the last dataset, under any schedule of
  the tasks of each dataset, whatever the arguments, whichever calls fail and however the
  program ends, a panic of a task in the middle of the others included. Over a kernel with the
  documented behaviour of its calls, when no other process writes meanwhile.
\<close>

theorem scheduled_program_keeps_contents:
  assumes "world_lawful W node content anon" "descriptors_lawful (wd_kernel W) close node content opened"
    "par_program W close P env p k code k'"
  shows "content k' = content k"
  using assms(3)
proof cases
  case (runs args ns k1 r)
  then show ?thesis
    using par_run_keeps [OF assms(1,2) runs(4)] io_keepsD [OF within_ns [OF assms(1)] runs(3)] by simp
qed simp_all

section \<open>Some schedule ends\<close>

lemma task_leaves:
  assumes "files_ok ps"
  shows "leaves (\<lambda>r. True) (task_prog opts ps pairs keys)"
proof (rule leaves_of_runs)
  fix s
  obtain r t where "run_task script_kernel opts ps pairs keys s = Some (r, t)"
    using io_returnsD [OF returns_task [OF assms, of script_kernel opts pairs keys], of s] by blast
  then show "\<exists>r s'. run_alone script_kernel (task_prog opts ps pairs keys) s = Some (r, s') \<and> True"
    by (metis task_prog_runs)
qed

lemma results_of_done:
  assumes "list_all (\<lambda>t. \<exists>r. t = Ret r) ts"
  shows "\<exists>r. par_result ts = Some r"
  using assms by (induction ts rule: par_result.induct) auto

lemma clone_phase_ends:
  assumes "files_ok hashed"
  shows "\<exists>r k'. clone_phase K close (dedup_start R order split hashed db opts) k r k'"
proof (cases "dedup_start R order split hashed db opts")
  case (Inl e)
  then show ?thesis using clone_phase.not_started by metis
next
  case (Inr ts)
  obtain pairs keys where ts: "ts = map (task_prog opts hashed pairs) keys" by (rule dedup_start_tasks [OF Inr])
  obtain ts' k' where fin: "schedule K close (ts, k) (ts', k')" "par_done K close (ts', k')"
    using schedule_ends [of K close] by (metis surj_pair)
  have "list_all (leaves (\<lambda>r. True)) ts'"
    using leaves_schedule [OF fin(1), of "\<lambda>r. True"] task_leaves [OF assms] by (simp add: ts list_all_iff)
  then have "list_all (\<lambda>t. \<exists>r. t = Ret r) ts'"
    using fin(2) leaves_stuck [of "\<lambda>r. True" _ K close k'] by (fastforce simp: par_done_def list_all_iff)
  then obtain r where "par_result ts' = Some r" using results_of_done by blast
  then show ?thesis unfolding Inr using clone_phase.finished [OF fin(1)] by blast
qed

lemma par_datasets_end:
  assumes "redb_lawful (wd_redb W) tab ttab" "\<forall>k. \<exists>rem. env_lawful (wd_files W k) rem"
  shows "\<exists>r t. par_datasets W close mounts exclude opts gs s r t"
proof (induction gs arbitrary: s)
  case Nil
  then show ?case using par_datasets.no_dataset by metis
next
  case (Cons g gs)
  obtain fs ds where g: "g = (fs, ds)" by (cases g)
  obtain x t where scan: "scan_dataset W mounts exclude fs ds s = Some (x, t)"
    using io_returnsD [OF returns_scan [OF assms(2)]] by blast
  show ?case
  proof (cases x)
    case (Inl e)
    then show ?thesis using par_datasets.scan_fails scan unfolding g by metis
  next
    case (Inr hashed)
    then have scan: "scan_dataset W mounts exclude fs ds s = Some (Inr hashed, t)" using scan by simp
    obtain y k where phase: "clone_phase (wd_kernel W) close (dataset_tasks W opts hashed (rn_db t)) (rn_kernel t) y k"
      unfolding dataset_tasks_def
      using clone_phase_ends [OF scan_files_ok [OF assms scan], of "wd_kernel W" close "wd_redb W" "wd_order W" "wd_split W" "rn_db t" opts "rn_kernel t"]
      by blast
    show ?thesis
    proof (cases y)
      case (Inl e)
      then show ?thesis using par_datasets.dedup_fails [OF scan] phase unfolding g by metis
    next
      case (Inr st)
      then show ?thesis using par_datasets.dataset [OF scan] phase Cons.IH unfolding g by metis
    qed
  qed
qed

lemma par_body_ends:
  assumes "redb_lawful (wd_redb W) tab ttab" "\<forall>k. \<exists>rem. env_lawful (wd_files W k) rem"
  shows "\<exists>r t. par_body W close args ns s r t"
proof -
  have scan: "io_returns (scan_dirs W args ns mounts)" for mounts
    unfolding scan_dirs_def by (auto intro!: returns_intros returns_state returns_remount)
  have "io_returns (run_before W args ns)"
    unfolding run_before_def by (auto intro!: returns_intros returns_probe scan)
  from io_returnsD [OF this, of s] obtain x t where before: "run_before W args ns s = Some (x, t)" by blast
  have after: "\<exists>r v. run_after W args u = Some (r, v)" for u
    by (rule io_returnsD) (auto simp: run_after_def intro!: returns_intros returns_state)
  show ?thesis
  proof (cases x)
    case (Inl e)
    then show ?thesis using par_body.stopped before by metis
  next
    case (Inr y)
    obtain mounts exclude opts groups where y: "y = (mounts, exclude, opts, groups)" by (cases y)
    obtain r u where ds: "par_datasets W close mounts exclude opts groups t r u"
      using par_datasets_end [OF assms] by blast
    show ?thesis
    proof (cases r)
      case (Inl e)
      then show ?thesis using par_body.dataset_fails [OF before [unfolded Inr y]] ds by metis
    next
      case (Inr un)
      then show ?thesis using par_body.datasets [OF before [unfolded \<open>x = Inr y\<close> y]] ds after by (metis old.unit.exhaust)
    qed
  qed
qed

lemma par_run_ends:
  assumes "redb_lawful (wd_redb W) tab ttab" "\<forall>k. \<exists>rem. env_lawful (wd_files W k) rem"
  shows "\<exists>r k'. par_run W close args ns k r k'"
proof -
  have "\<exists>x k1. make_cache_dir W args k = Some (x, k1)"
    by (simp add: make_cache_dir_def split: option.split prod.split)
  then obtain x k1 where dir: "make_cache_dir W args k = Some (x, k1)" by blast
  show ?thesis
  proof (cases x)
    case (Inl e)
    then show ?thesis using par_run.no_cache_dir dir by metis
  next
    case (Inr u)
    then have dir: "make_cache_dir W args k = Some (Inr (), k1)" using dir by simp
    show ?thesis
    proof (cases "with_context ''open cache'' (cache_open (wd_redb W) (as_os_str (ar_cache args)))")
      case (Inl e)
      then show ?thesis using par_run.no_cache [OF dir] by metis
    next
      case (Inr db)
      then show ?thesis using par_run.opened [OF dir Inr] par_body_ends [OF assms] by metis
    qed
  qed
qed

lemma par_program_ends:
  assumes "lexopt_ends P left" "redb_lawful (wd_redb W) tab ttab" "\<forall>k. \<exists>rem. env_lawful (wd_files W k) rem"
  shows "\<exists>code k'. par_program W close P env p k code k' \<and> code \<in> {0, 1, 2, 101}"
proof -
  obtain out where out: "parse_args P env p = Some out"
    using parse_loop_returns [OF assms(1)] by (auto simp: parse_args_def)
  show ?thesis
  proof (cases out)
    case (Parsed args)
    obtain ns k1 where ns: "enter_private_mount_ns (wd_mount W) k = Some (ns, k1)"
      using io_returnsD [OF returns_remount(2) [of "wd_mount W"], of k] by blast
    obtain r k' where "par_run W close args (case ns of Inl e \<Rightarrow> False | Inr _ \<Rightarrow> True) k1 r k'"
      using par_run_ends [OF assms(2,3)] by blast
    from par_program.runs [OF out [unfolded Parsed] ns this]
    have "par_program W close P env p k (exit_code r) k'" .
    moreover have "exit_code r \<in> {0, 1, 2, 101}"
      by (simp add: exit_code_def split: sum.split bool.split fault.split)
    ultimately show ?thesis by blast
  next
    case (BadUsage e)
    then show ?thesis using par_program.usage out by fastforce
  next
    case ExitSuccess
    then show ?thesis using par_program.version out by fastforce
  qed
qed

text \<open>What the walks of a run deliver, each of them complete, over the listings that the kernel's state gives.\<close>

definition walks :: "('k \<Rightarrow> read_dir) \<Rightarrow> ('k \<Rightarrow> path \<Rightarrow> u64 \<Rightarrow> dir_batch list) \<Rightarrow> bool" where
  "walks rd batches \<longleftrightarrow> (\<forall>k root dev. walked (rd k) dev root (batches k root dev))"

text \<open>
  C6. The program ends, with an exit code: whatever its arguments are, whatever the system calls answer,
  whatever the datasets, the files and the cache hold, through errors and panics alike. No schedule of a
  walk runs forever, and a walk that cannot go on is complete; with what any complete walks deliver, the
  program returns with its tasks one after the other, and with the clone phases under schedules; and no
  schedule of a clone phase runs forever either. What it needs for that: every argument uses up some of
  the command line, there are finitely many directories below a root, the files that it opens have an
  end, and the database keeps to its contract.
\<close>

theorem program_returns:
  assumes "lexopt_ends P left" "redb_lawful (wd_redb W) tab ttab" "\<forall>k. \<exists>rem. env_lawful (wd_files W k) rem"
    "\<forall>k. listing_ok (rd k)" "\<forall>k root dev. finite {d. under (rd k) dev root d}"
  shows "(\<forall>k root dev. \<nexists>s. s 0 = ({#root#}, {#}, []) \<and> (\<forall>n. walk_step (rd k) dev (s n) (s (Suc n)))) \<and>
    (\<forall>k root dev t. (walk_step (rd k) dev)\<^sup>*\<^sup>* ({#root#}, {#}, []) t \<and> (\<nexists>u. walk_step (rd k) dev t u) \<longrightarrow>
       (\<exists>batches. t = ({#}, {#}, batches) \<and> walked (rd k) dev root batches)) \<and>
    (\<exists>batches. walks rd batches) \<and>
    (\<forall>batches. walks rd batches \<longrightarrow>
       (\<exists>code k'. main_program (W\<lparr>wd_batches := batches\<rparr>) P env p k = Some (code, k') \<and> code \<in> {0, 1, 2, 101}) \<and>
       (\<exists>code k'. par_program (W\<lparr>wd_batches := batches\<rparr>) close P env p k code k' \<and> code \<in> {0, 1, 2, 101})) \<and>
    (\<nexists>s :: nat \<Rightarrow> stats res prog list \<times> _. \<forall>n. par_step (wd_kernel W) close (s n) (s (Suc n)))"
proof (intro conjI allI impI)
  show "\<nexists>s. s 0 = ({#root#}, {#}, []) \<and> (\<forall>n. walk_step (rd k) dev (s n) (s (Suc n)))" for k root dev
    using walk_forever [of "rd k" dev root] assms(4,5) by blast
  show "\<exists>batches. t = ({#}, {#}, batches) \<and> walked (rd k) dev root batches"
    if "(walk_step (rd k) dev)\<^sup>*\<^sup>* ({#root#}, {#}, []) t \<and> (\<nexists>u. walk_step (rd k) dev t u)" for k root dev t
    using that by (rule stuck_walked)
  have "\<exists>bs. walked (rd k) dev root bs" for k root dev
    using walk_finishes assms(4,5) by blast
  then have "walked (rd k) dev root (SOME bs. walked (rd k) dev root bs)" for k root dev
    by (rule someI_ex)
  then have "walks rd (\<lambda>k root dev. SOME bs. walked (rd k) dev root bs)"
    by (simp add: walks_def)
  then show "\<exists>batches. walks rd batches" by blast
  show "\<exists>code k'. main_program (W\<lparr>wd_batches := batches\<rparr>) P env p k = Some (code, k') \<and> code \<in> {0, 1, 2, 101}" for batches
    using main_program_returns [OF assms(1), of "W\<lparr>wd_batches := batches\<rparr>"] assms(2,3) by simp
  show "\<exists>code k'. par_program (W\<lparr>wd_batches := batches\<rparr>) close P env p k code k' \<and> code \<in> {0, 1, 2, 101}" for batches
    using par_program_ends [OF assms(1), of "W\<lparr>wd_batches := batches\<rparr>"] assms(2,3) by simp
qed (use no_infinite_schedule [of "wd_kernel W" close] in blast)

section \<open>On a kernel with a table of descriptors\<close>

text \<open>The sample world over this kernel, with two tasks for the one run.\<close>

definition table_mount :: "table_fs mount_env" where
  "table_mount = \<lparr>me_unshare = (\<lambda>k. (Inr (), k)), me_change = (\<lambda>p fs k. (Inr (), k)),
     me_remount = (\<lambda>p fs k. (Inr (), k)), me_mountinfo = (\<lambda>k. Inr []),
     me_statvfs = (\<lambda>p k. Inr \<lparr>sv_fsid = 1, sv_rdonly = False\<rparr>)\<rparr>"

definition table_temp :: "table_fs temp_env" where
  "table_temp = \<lparr>te_tempfile = (\<lambda>d k. (Inr 9, k)), te_write_all = (\<lambda>f bs k. (Inr (), k)),
     te_sync_all = (\<lambda>f k. (Inr (), k)), te_dedupe = (\<lambda>f a k. (Inl ENOTTY, k))\<rparr>"

definition table_world :: "(table_fs, u8 list, mem_db, mem_db) world" where
  "table_world = \<lparr>wd_mount = table_mount,
     wd_zfs = \<lparr>ze_statfs = (\<lambda>p k. Inr ZFS_SUPER_MAGIC),
               ze_command = (\<lambda>c as k. Inr \<lparr>co_success = True, co_stdout = [], co_stderr = []\<rparr>)\<rparr>,
     wd_temp = table_temp, wd_kernel = table_kernel, wd_files = (\<lambda>k. sample_files_env),
     wd_batches = (\<lambda>k root dev. [(usr, [([98], 5, 7, 1), ([97], 5, 8, 1)])]),
     wd_stat = (\<lambda>p k. Inr (sample_stat (if p = usr then 5 else 6) 1)),
     wd_create_dir_all = (\<lambda>p k. (Inr (), k)), wd_canonicalize = (\<lambda>p k. Inr p),
     wd_redb = mem_redb\<lparr>rd_create := (\<lambda>p n. Inr sample_cache)\<rparr>, wd_xxh3 = (\<lambda>bs. 0),
     wd_order = (\<lambda>idx. [(4, sample_hash)]), wd_split = (\<lambda>pairs. [[(4, 0, 1)], [(4, 0, 1)]])\<rparr>"

lemma table_world_lawful: "world_lawful table_world table_node table_bytes (\<lambda>k f. True)"
  unfolding world_lawful_def temp_lawful_def
  using table_kernel_lawful by (simp add: table_world_def table_temp_def table_mount_def)

lemma table_world_ends:
  "redb_lawful (wd_redb table_world) map_of map_of" "\<forall>k. \<exists>rem. env_lawful (wd_files table_world k) rem"
  "descriptors_lawful (wd_kernel table_world) table_close table_node table_bytes table_opened"
proof -
  show "redb_lawful (wd_redb table_world) map_of map_of"
    using mem_redb_lawful by (simp add: table_world_def redb_lawful_def)
  have "env_lawful (wd_files table_world k) id" for k
    by (simp add: table_world_def sample_files_env_def env_lawful_def mem_reader_lawful)
  then show "\<forall>k. \<exists>rem. env_lawful (wd_files table_world k) rem" by blast
  show "descriptors_lawful (wd_kernel table_world) table_close table_node table_bytes table_opened"
    using table_descriptors_lawful by (simp add: table_world_def)
qed

theorem program_returns_witness:
  "\<exists>batches. walks (\<lambda>_. sample_rd) batches \<and>
    (\<exists>code k'. main_program (table_world\<lparr>wd_batches := batches\<rparr>) pending_lexopt (\<lambda>_. None) (None, sample_opts) (sample_fs, []) = Some (code, k')) \<and>
    (\<exists>code k'. par_program (table_world\<lparr>wd_batches := batches\<rparr>) table_close pending_lexopt (\<lambda>_. None) (None, sample_opts) (sample_fs, []) code k')"
proof -
  have "\<forall>k :: table_fs. listing_ok sample_rd" "\<forall>(k :: table_fs) root dev. finite {d. under sample_rd dev root d}"
    using sample_listing sample_finite by simp_all
  from program_returns [OF pending_lexopt_ends table_world_ends(1,2) this] show ?thesis by blast
qed

theorem scheduled_program_keeps_contents_witness:
  "\<exists>code k'. par_program table_world table_close pending_lexopt (\<lambda>_. None) (None, sample_opts) (sample_fs, []) code k' \<and>
     table_bytes k' = table_bytes (sample_fs, [])"
proof -
  obtain code k' where run: "par_program table_world table_close pending_lexopt (\<lambda>_. None) (None, sample_opts) (sample_fs, []) code k'"
    using par_program_ends [OF pending_lexopt_ends table_world_ends(1,2)] by blast
  show ?thesis using run scheduled_program_keeps_contents [OF table_world_lawful table_world_ends(3) run] by blast
qed

end
