(* ===== verification/ParallelRace.thy ===== *)
theory ParallelRace imports ParallelCorrect begin

text \<open>
  Parallel tasks and other processes at once: with FIDEDUPERANGE no task makes a call that reads or
  clones, so between the writes of the others no schedule of the tasks changes a byte.
\<close>

definition race_close :: "(fd \<Rightarrow> 'k \<Rightarrow> 'k) \<Rightarrow> fd \<Rightarrow> 'k racing \<Rightarrow> 'k racing" where
  "race_close close fl s = snd (raced (\<lambda>k. ((), close fl k)) s)"

section \<open>A task that lets the kernel compare\<close>

primrec atomic_calls :: "'r prog \<Rightarrow> bool" where
  "atomic_calls (Ret r) = True"
| "atomic_calls Spin = True"
| "atomic_calls (Open p w f) = (\<forall>x. atomic_calls (f x))"
| "atomic_calls (Read fl off n f) = False"
| "atomic_calls (Dedupe fl a f) = (\<forall>x. atomic_calls (f x))"
| "atomic_calls (Clone fl a f) = False"
| "atomic_calls (Close fl p) = atomic_calls p"

definition atomic_act :: "'a act \<Rightarrow> bool" where
  "atomic_act a \<longleftrightarrow> (\<forall>s. atomic_calls (a s))"

lemma atomic_then: "atomic_calls p \<Longrightarrow> (\<And>x. atomic_calls (g x)) \<Longrightarrow> atomic_calls (then_prog p g)"
  by (induction p) auto

lemma atomic_acts:
  "atomic_act (act_local m)"
  "atomic_act a \<Longrightarrow> (\<And>x. atomic_act (g x)) \<Longrightarrow> atomic_act (act_bind a g)"
  "atomic_act a \<Longrightarrow> atomic_act (act_attempt a)"
  "atomic_act a \<Longrightarrow> atomic_act (act_context msg a)"
  "atomic_act a \<Longrightarrow> atomic_act (act_closing fl a)"
  "atomic_act a \<Longrightarrow> atomic_act (act_owning fl a)"
  "atomic_act (call_open p w)"
  "atomic_act (call_dedupe src so dst n len)"
  unfolding atomic_act_def act_local_def act_bind_def act_attempt_def act_context_def act_closing_def act_owning_def
    call_open_def call_dedupe_def
  by (auto intro!: atomic_then split: option.split sum.split fault.split)

lemma atomic_for: "(\<And>x. atomic_act (f x)) \<Longrightarrow> atomic_act (act_for f xs)"
  by (induction xs) (auto intro: atomic_acts)

lemma atomic_task:
  assumes "op_fideduperange opts" "\<not> op_dry_run opts"
  shows "atomic_calls (task_prog opts ps pairs keys)"
proof -
  have "atomic_act (act_verify opts sf so df n len False)" for sf so df n len
    unfolding act_verify_def by (auto intro!: atomic_acts split: dedupe.split)
  then have "atomic_act (act_run opts ps blksz s d False sf df r)" for blksz s d sf df r
    unfolding act_run_def by (auto intro!: atomic_acts)
  moreover have "atomic_act (act_open opts ps i w)" for i w
    unfolding act_open_def by (auto intro!: atomic_acts split: prod.split)
  ultimately have "atomic_act (act_pair opts ps blksz s d runs)" for blksz s d runs
    using assms unfolding act_pair_def Let_def
    by (auto intro!: atomic_acts atomic_for split: sum.split prod.split)
  then have "atomic_act (act_loop opts ps pairs keys)"
    unfolding act_loop_def by (intro atomic_for) (auto intro!: atomic_acts split: option.split)
  then show ?thesis unfolding task_prog_def atomic_act_def by (auto intro!: atomic_then)
qed

section \<open>Steps among the writes of others\<close>

lemma atomic_step:
  assumes "open_lawful K content" "dedupe_lawful K content" "\<And>fl k. content (close fl k) = content k"
    "atomic_calls p" "step_prog (race_kernel K) (race_close close) p s = Some (q, t)"
  shows "race_kept content s t \<and> atomic_calls q"
proof -
  have opn: "race_kept content s t" if "kn_open (race_kernel K) n w s = (r, t)" for n w r
    using raced_kept [of "kn_open K n w" content] that assms(1) by (auto simp: race_kernel_def open_lawful_def)
  have ded: "race_kept content s t" if "kn_dedupe (race_kernel K) fl a s = (r, t)" for fl a r
    using raced_kept [of "kn_dedupe K fl a" content] that assms(2) by (auto simp: race_kernel_def dedupe_lawful_def)
  have cls: "race_kept content s (race_close close fl s)" for fl
  proof (rule raced_kept [of "\<lambda>k. ((), close fl k)"])
    show "raced (\<lambda>k. ((), close fl k)) s = ((), race_close close fl s)" by (simp add: race_close_def prod_eq_iff)
  qed (use assms(3) in auto)
  show ?thesis
    using assms(4,5) opn ded cls by (cases p) (auto split: prod.splits)
qed

lemma atomic_schedule:
  assumes lawful: "open_lawful K content" "dedupe_lawful K content" "\<And>fl k. content (close fl k) = content k"
    and run: "schedule (race_kernel K) (race_close close) x y" "list_all atomic_calls (fst x)"
  shows "race_kept content (snd x) (snd y) \<and> list_all atomic_calls (fst y)"
  using run
proof (induction rule: rtranclp_induct)
  case base
  then show ?case using race_frame.kept_refl [where part = "\<lambda>s. s"] by simp
next
  case (step y z)
  from step.hyps(2) show ?case
  proof cases
    case (par_step i ts s p t)
    have y: "race_kept content (snd x) s" "list_all atomic_calls ts" using step.IH [OF step.prems] par_step(1) by simp_all
    then have "atomic_calls (ts ! i)" using par_step(3) by (simp add: list_all_length)
    from atomic_step [OF lawful this par_step(4)]
    have "race_kept content s t" "atomic_calls p" by simp_all
    then show ?thesis
      using race_kept_trans [OF y(1)] y(2) set_update_subset_insert [of ts i p]
      by (auto simp: par_step(2) list_all_iff)
  qed
qed

section \<open>No write is lost\<close>

text \<open>
  C5. With FIDEDUPERANGE no write of another process is lost, however the parallel tasks and the other
  processes interleave. Whatever other processes write before any of the system calls of any task, over
  a kernel whose FIDEDUPERANGE keeps the bytes as it documents: in every state that a schedule of the
  rayon tasks reaches, the contents are exactly those that the writes so far make by themselves.
\<close>

theorem parallel_loses_no_write:
  assumes "open_lawful K content" "dedupe_lawful K content" "\<forall>fl k. content (close fl k) = content k"
    "op_fideduperange opts" "\<not> op_dry_run opts" "dedup_start R order split ps db opts = Inr ts"
    "list_all (writes_only content) es"
    "schedule (race_kernel K) (race_close close) (ts, (k, es)) (ts', (k', es'))"
  shows "\<exists>n. es' = drop n es \<and> content k' = content (fold id (take n es) k)"
proof -
  have close: "content (close fl k) = content k" for fl k using assms(3) by blast
  obtain pairs keys where ts: "ts = map (task_prog opts ps pairs) keys" by (rule dedup_start_tasks [OF assms(6)])
  have "list_all atomic_calls ts"
    unfolding ts by (simp add: list_all_iff atomic_task [OF assms(4,5)])
  then have "race_kept content (k, es) (k', es')"
    using atomic_schedule [OF assms(1,2) close assms(8)] by simp
  then show ?thesis using assms(7) by (simp add: race_kept_def)
qed

text \<open>Another process rewrites the second file, for a kernel with a table of descriptors.\<close>

definition table_rewrite :: "table_fs \<Rightarrow> table_fs" where
  "table_rewrite k = (rewrite (fst k), snd k)"

lemma table_rewrite_only: "writes_only table_bytes table_rewrite"
  unfolding writes_only_def
proof (intro allI impI)
  fix k k' assume "table_bytes k = table_bytes k'"
  then have "mem_bytes (rewrite (fst k)) = mem_bytes (rewrite (fst k'))"
    using rewrite_only unfolding writes_only_def table_bytes_def by blast
  then show "table_bytes (table_rewrite k) = table_bytes (table_rewrite k')"
    by (simp only: table_bytes_def table_rewrite_def fst_conv)
qed

theorem parallel_loses_no_write_witness:
  "\<exists>ts k' es' n. schedule (race_kernel table_kernel) (race_close table_close)
      (sample_tasks \<lparr>op_dry_run = False, op_fideduperange = True\<rparr>, ((sample_fs, []), [id, table_rewrite, id])) (ts, (k', es')) \<and>
     par_done (race_kernel table_kernel) (race_close table_close) (ts, (k', es')) \<and>
     es' = drop n [id, table_rewrite, id] \<and>
     table_bytes k' = table_bytes (fold id (take n [id, table_rewrite, id]) (sample_fs, []))"
proof -
  let ?opts = "\<lparr>op_dry_run = False, op_fideduperange = True\<rparr>" and ?es = "[id, table_rewrite, id]"
  obtain y where "schedule (race_kernel table_kernel) (race_close table_close) (sample_tasks ?opts, ((sample_fs, []), ?es)) y"
    "par_done (race_kernel table_kernel) (race_close table_close) y"
    using schedule_ends [of "race_kernel table_kernel" "race_close table_close"] by blast
  then obtain ts k' es' where run: "schedule (race_kernel table_kernel) (race_close table_close)
      (sample_tasks ?opts, ((sample_fs, []), ?es)) (ts, (k', es'))"
    "par_done (race_kernel table_kernel) (race_close table_close) (ts, (k', es'))"
    by (cases y) auto
  have law: "open_lawful table_kernel table_bytes" "dedupe_lawful table_kernel table_bytes"
    "\<forall>fl k. table_bytes (table_close fl k) = table_bytes k"
    using table_kernel_lawful by (simp_all add: kernel_lawful_def table_bytes_def table_close_def)
  have "writes_only table_bytes id" by (simp add: writes_only_def)
  then have es: "list_all (writes_only table_bytes) ?es" using table_rewrite_only by simp
  have "\<exists>n. es' = drop n ?es \<and> table_bytes k' = table_bytes (fold id (take n ?es) (sample_fs, []))"
    by (rule parallel_loses_no_write [OF law _ _ sample_tasks_ok es run(1)]) simp_all
  then show ?thesis using run by blast
qed

end
