(* ===== verification/Sharing.thy ===== *)
theory Sharing imports DedupFacts Completes begin

text \<open>
  What the clone phase achieves, on a kernel that grants what the program asks for: which blocks on
  disk the files' blocks are after each call, after a run, after a pair of files and after \<open>dedup\<close>.
\<close>

section \<open>Total triples\<close>

text \<open>From any state with \<open>P\<close>, the computation returns a value, and \<open>Q\<close> holds of it and the state.\<close>

definition io_gives :: "('s \<Rightarrow> bool) \<Rightarrow> ('a, 's) io \<Rightarrow> ('a \<Rightarrow> 's \<Rightarrow> bool) \<Rightarrow> bool" where
  "io_gives P m Q \<longleftrightarrow> (\<forall>s. P s \<longrightarrow> (\<exists>x t. m s = Some (Inr x, t) \<and> Q x t))"

lemma gives_ret: "(\<And>s. P s \<Longrightarrow> Q x s) \<Longrightarrow> io_gives P (io_ret x) Q"
  by (simp add: io_gives_def io_simps)

lemma gives_bind:
  "io_gives P m R \<Longrightarrow> (\<And>x. io_gives (R x) (f x) Q) \<Longrightarrow> io_gives P (io_bind m f) Q"
  unfolding io_gives_def by (metis io_bind_eq(3))

lemma gives_attempt: "io_gives P m Q \<Longrightarrow> io_gives P (io_attempt m) (\<lambda>r t. \<exists>x. r = Inr x \<and> Q x t)"
  by (fastforce simp: io_gives_def io_attempt_def)

lemma gives_pre: "io_gives P m Q \<Longrightarrow> (\<And>s. P' s \<Longrightarrow> P s) \<Longrightarrow> io_gives P' m Q"
  by (simp add: io_gives_def)

lemma gives_post: "io_gives P m Q \<Longrightarrow> (\<And>x s. Q x s \<Longrightarrow> Q' x s) \<Longrightarrow> io_gives P m Q'"
  unfolding io_gives_def by blast

lemma gives_assume: "(P \<Longrightarrow> io_gives R m Q) \<Longrightarrow> io_gives (\<lambda>s. P \<and> R s) m Q"
  by (simp add: io_gives_def)

text \<open>A loop whose rounds each add their part to what has been done.\<close>

lemma gives_for:
  assumes "\<And>D x. x \<in> set xs \<Longrightarrow> io_gives (I D) (f x) (\<lambda>_. I (D \<union> g x))"
  shows "io_gives (I D) (io_for f xs) (\<lambda>_. I (D \<union> (\<Union>x \<in> set xs. g x)))"
  using assms
proof (induction xs arbitrary: D)
  case Nil
  then show ?case by (simp add: gives_ret)
next
  case (Cons x xs)
  have "io_gives (I (D \<union> g x)) (io_for f xs) (\<lambda>_. I (D \<union> g x \<union> (\<Union>x \<in> set xs. g x)))"
    using Cons by simp
  then have "io_gives (I D) (io_for f (x # xs)) (\<lambda>_. I (D \<union> g x \<union> (\<Union>x \<in> set xs. g x)))"
    using Cons.prems [of x D] by (auto intro: gives_bind)
  then show ?case by (simp add: Un_assoc)
qed

section \<open>A kernel that grants sharing\<close>

text \<open>
  The kernel's state holds which file each descriptor refers to, each file's bytes, and the block on
  disk that each block of a file is. A file has one block size, as in ZFS.
\<close>

record ('k, 'i, 'b) disk =
  dk_refers :: "'k \<Rightarrow> fd \<rightharpoonup> 'i"
  dk_content :: "'k \<Rightarrow> 'i \<Rightarrow> u8 list"
  dk_block :: "'k \<Rightarrow> 'i \<Rightarrow> nat \<Rightarrow> 'b"
  dk_bsize :: "'i \<Rightarrow> nat"

text \<open>Nothing changes but that more descriptors may be open.\<close>

definition dk_same :: "('k, 'i, 'b) disk \<Rightarrow> 'k \<Rightarrow> 'k \<Rightarrow> bool" where
  "dk_same D k k' \<longleftrightarrow> dk_content D k' = dk_content D k \<and> dk_refers D k \<subseteq>\<^sub>m dk_refers D k'"

text \<open>
  The ranges the documentation of the ioctls asks for: inside the files, aligned to their common block
  size or ending with both files, and apart if in one file. FIDEDUPERANGE takes up to 16 MiB.
\<close>

definition shareable :: "('k, 'i, 'b) disk \<Rightarrow> 'k \<Rightarrow> 'i \<Rightarrow> nat \<Rightarrow> 'i \<Rightarrow> nat \<Rightarrow> nat \<Rightarrow> bool" where
  "shareable D k i so j d n \<longleftrightarrow> 0 < n \<and> dk_bsize D i = dk_bsize D j \<and> 0 < dk_bsize D i \<and>
     so + n \<le> length (dk_content D k i) \<and> d + n \<le> length (dk_content D k j) \<and>
     dk_bsize D i dvd so \<and> dk_bsize D i dvd d \<and>
     (dk_bsize D i dvd n \<or> so + n = length (dk_content D k i) \<and> d + n = length (dk_content D k j)) \<and>
     (i = j \<longrightarrow> so + n \<le> d \<or> d + n \<le> so) \<and>
     slice_of so n (dk_content D k i) = slice_of d n (dk_content D k j)"

text \<open>The blocks of the destination's range are those of the source's, all others as before.\<close>

definition shared :: "('k, 'i, 'b) disk \<Rightarrow> 'k \<Rightarrow> 'i \<Rightarrow> nat \<Rightarrow> 'i \<Rightarrow> nat \<Rightarrow> nat \<Rightarrow> 'k \<Rightarrow> bool" where
  "shared D k i so j d n k' \<longleftrightarrow> (\<forall>x b. dk_block D k' x b =
     (if x = j \<and> d div dk_bsize D j \<le> b \<and> b * dk_bsize D j < d + n
      then dk_block D k i (b - d div dk_bsize D j + so div dk_bsize D j) else dk_block D k x b))"

definition grants_open :: "'k kernel \<Rightarrow> (path \<rightharpoonup> 'i) \<Rightarrow> ('k, 'i, 'b) disk \<Rightarrow> bool" where
  "grants_open K file D \<longleftrightarrow> (\<forall>p i w k. file p = Some i \<longrightarrow> (\<exists>f k'. kn_open K p w k = (Inr f, k') \<and>
     dk_refers D k' f = Some i \<and> dk_same D k k' \<and> dk_block D k' = dk_block D k))"

definition grants_read :: "'k kernel \<Rightarrow> ('k, 'i, 'b) disk \<Rightarrow> bool" where
  "grants_read K D \<longleftrightarrow> (\<forall>f i off n k. dk_refers D k f = Some i \<longrightarrow>
     (\<exists>bs k'. kn_read_at K f off n k = (Inr bs, k') \<and> length bs \<le> n \<and>
        bs = slice_of (unat off) (length bs) (dk_content D k i) \<and>
        (0 < n \<and> unat off < length (dk_content D k i) \<longrightarrow> bs \<noteq> []) \<and>
        dk_same D k k' \<and> dk_block D k' = dk_block D k))"

definition grants_dedupe :: "'k kernel \<Rightarrow> ('k, 'i, 'b) disk \<Rightarrow> bool" where
  "grants_dedupe K D \<longleftrightarrow> (\<forall>f g i j a k. dk_refers D k f = Some i \<longrightarrow> dk_refers D k g = Some j \<longrightarrow>
     dr_dest_count (do_range a) = 1 \<longrightarrow> di_dest_fd (do_info a) = scast g \<longrightarrow>
     unat (dr_src_length (do_range a)) \<le> 16 * 2 ^ 20 \<longrightarrow>
     shareable D k i (unat (dr_src_offset (do_range a))) j (unat (di_dest_offset (do_info a))) (unat (dr_src_length (do_range a))) \<longrightarrow>
     (\<exists>a' k'. kn_dedupe K f a k = (Inr a', k') \<and> di_status (do_info a') = 0 \<and>
        di_bytes_deduped (do_info a') = dr_src_length (do_range a) \<and> dk_same D k k' \<and>
        shared D k i (unat (dr_src_offset (do_range a))) j (unat (di_dest_offset (do_info a))) (unat (dr_src_length (do_range a))) k'))"

definition grants_clone :: "'k kernel \<Rightarrow> ('k, 'i, 'b) disk \<Rightarrow> bool" where
  "grants_clone K D \<longleftrightarrow> (\<forall>f g i j a k. dk_refers D k f = Some i \<longrightarrow> dk_refers D k g = Some j \<longrightarrow>
     fc_src_fd a = scast f \<longrightarrow>
     shareable D k i (unat (fc_src_offset a)) j (unat (fc_dest_offset a)) (unat (fc_src_length a)) \<longrightarrow>
     (\<exists>k'. kn_clone K g a k = (Inr (), k') \<and> dk_same D k k' \<and>
        shared D k i (unat (fc_src_offset a)) j (unat (fc_dest_offset a)) (unat (fc_src_length a)) k'))"

definition grants :: "'k kernel \<Rightarrow> (path \<rightharpoonup> 'i) \<Rightarrow> ('k, 'i, 'b) disk \<Rightarrow> bool" where
  "grants K file D \<longleftrightarrow> grants_open K file D \<and> grants_read K D \<and> grants_dedupe K D \<and> grants_clone K D \<and>
     (\<forall>k i. length (dk_content D k i) < 2 ^ 63)"

lemma same_refl: "dk_same D k k"
  by (simp add: dk_same_def)

lemma same_trans: "dk_same D k k' \<Longrightarrow> dk_same D k' k'' \<Longrightarrow> dk_same D k k''"
  unfolding dk_same_def by (metis map_le_trans)

lemma same_refers: "dk_same D k k' \<Longrightarrow> dk_refers D k f = Some i \<Longrightarrow> dk_refers D k' f = Some i"
  unfolding dk_same_def map_le_def by (metis domI)

lemma grants_readD:
  assumes "grants K file D" "dk_refers D k f = Some i"
  obtains bs k' where "kn_read_at K f off n k = (Inr bs, k')" "length bs \<le> n"
    "bs = slice_of (unat off) (length bs) (dk_content D k i)"
    "0 < n \<and> unat off < length (dk_content D k i) \<longrightarrow> bs \<noteq> []" "dk_same D k k'" "dk_block D k' = dk_block D k"
  using assms unfolding grants_def grants_read_def by meson

section \<open>One run\<close>

lemma read_exact_granted:
  assumes "grants K file D" "dk_refers D k f = Some i" "n \<le> length buf"
    "unat off + (length buf - n) \<le> length (dk_content D k i)"
  shows "\<exists>k'. read_exact_at K f buf n off k =
      (Inr (), take n buf @ slice_of (unat off) (length buf - n) (dk_content D k i), k') \<and>
    dk_same D k k' \<and> dk_block D k' = dk_block D k"
  using assms
proof (induction K f buf n off k rule: read_exact_at.induct)
  case (1 K f buf n off k)
  let ?c = "dk_content D k i" and ?w = "length buf - n"
  show ?case
  proof (cases "n < length buf")
    case False
    then show ?thesis using "1.prems"(3) by (subst read_exact_at.simps) (simp add: same_refl slice_of_def)
  next
    case True
    obtain bs k1 where rd: "kn_read_at K f off ?w k = (Inr bs, k1)" and len: "length bs \<le> ?w"
        and eq: "bs = slice_of (unat off) (length bs) ?c" and ne: "bs \<noteq> []"
        and k1: "dk_same D k k1" "dk_block D k1 = dk_block D k"
      by (rule grants_readD [OF "1.prems"(1,2), of off ?w]) (use "1.prems"(4) True in auto)
    let ?l = "length bs" and ?buf = "overwrite n bs buf"
    have tk: "take ?w bs = bs" using len by simp
    have lb: "length ?buf = length buf" using len True by simp
    have "length ?c < 2 ^ 63" using "1.prems"(1) by (simp add: grants_def)
    then have off: "unat (off + of_nat ?l) = unat off + ?l"
      using "1.prems"(4) len by (simp add: unat_word_ariths unat_of_nat)
    have c1: "dk_content D k1 i = ?c" "dk_refers D k1 f = Some i"
      using k1(1) same_refers [OF k1(1) "1.prems"(2)] by (simp_all add: dk_same_def)
    obtain k' where rec: "read_exact_at K f ?buf (n + ?l) (off + of_nat ?l) k1 =
        (Inr (), take (n + ?l) ?buf @ slice_of (unat off + ?l) (length ?buf - (n + ?l)) ?c, k')"
        "dk_same D k1 k'" "dk_block D k' = dk_block D k1"
    proof -
      have "n + ?l \<le> length ?buf" "unat (off + of_nat ?l) + (length ?buf - (n + ?l)) \<le> length (dk_content D k1 i)"
        using "1.prems"(4) len True by (simp_all add: lb off c1(1))
      from "1.IH" [OF True rd [symmetric] refl ne, unfolded tk, OF "1.prems"(1) c1(2) this]
      show thesis using that by (auto simp only: off c1(1))
    qed
    have "take (n + ?l) ?buf = take n buf @ bs" using True by (simp add: overwrite_def)
    then have "take (n + ?l) ?buf @ slice_of (unat off + ?l) (length ?buf - (n + ?l)) ?c =
        take n buf @ slice_of (unat off) ?l ?c @ slice_of (unat off + ?l) (?w - ?l) ?c"
      using eq lb by simp
    also have "\<dots> = take n buf @ slice_of (unat off) ?w ?c"
      using le_add_diff_inverse [OF len] by (simp only: slice_of_append)
    finally have "read_exact_at K f buf n off k = (Inr (), take n buf @ slice_of (unat off) ?w ?c, k')"
      using True rd ne rec(1) by (subst read_exact_at.simps) (simp add: tk)
    then show ?thesis using same_trans [OF k1(1) rec(2)] rec(3) k1(2) by simp
  qed
qed

lemma resize_read:
  assumes "grants K file D" "dk_refers D k f = Some i" "unat off + unat n \<le> length (dk_content D k i)"
  obtains k' where "read_exact_at K f (resize (unat n) buf) 0 off k = (Inr (), slice_of (unat off) (unat n) (dk_content D k i), k')"
    "dk_same D k k'" "dk_block D k' = dk_block D k"
  using read_exact_granted [OF assms(1,2), of 0 "resize (unat n) buf" off] assms(3) by auto

lemma dedupe_granted:
  assumes "grants K file D" "dk_refers D k sf = Some i" "dk_refers D k df = Some j" "unat n \<le> 16 * 2 ^ 20"
    "shareable D k i (unat so) j (unat d) (unat n)"
  obtains k' where "dedupe_range (kn_dedupe K) sf so df d n k = (Inr (Same n), k')" "dk_same D k k'"
    "shared D k i (unat so) j (unat d) (unat n) k'"
proof -
  have "grants_dedupe K D" using assms(1) by (simp add: grants_def)
  from this [unfolded grants_dedupe_def, rule_format, of k sf i df j "dedupe_arg so df d n"] assms(2-5)
  show thesis by (auto simp: dedupe_range_def dedupe_arg_def output_from_ptr_def intro: that)
qed

lemma clone_granted:
  assumes "grants K file D" "dk_refers D k sf = Some i" "dk_refers D k df = Some j"
    "shareable D k i (unat so) j (unat d) (unat n)"
  obtains k' where "clone_range (kn_clone K) sf so df d n k = (Inr (), k')" "dk_same D k k'"
    "shared D k i (unat so) j (unat d) (unat n) k'"
proof -
  let ?a = "\<lparr>fc_src_fd = scast sf, fc_src_offset = so, fc_src_length = n, fc_dest_offset = d\<rparr>"
  have "grants_clone K D" using assms(1) by (simp add: grants_def)
  from this [unfolded grants_clone_def, rule_format, of k sf i df j ?a] assms(2-4)
  show thesis by (auto simp: clone_range_def intro: that)
qed

text \<open>Both ways of sharing succeed on equal bytes.\<close>

lemma verify_granted:
  assumes "grants K file D" "\<not> op_dry_run opts" "dk_refers D (ws_kernel s) sf = Some i"
    "dk_refers D (ws_kernel s) df = Some j" "compare \<or> unat n \<le> 16 * 2 ^ 20"
    "shareable D (ws_kernel s) i (unat so) j (unat d) (unat n)"
  shows "\<exists>t. verify_and_clone K opts sf so df d n compare s = Some (Inr (Some n), t) \<and> ws_stats t = ws_stats s \<and>
    dk_same D (ws_kernel s) (ws_kernel t) \<and> shared D (ws_kernel s) i (unat so) j (unat d) (unat n) (ws_kernel t)"
proof (cases compare)
  case False
  then obtain k' where "dedupe_range (kn_dedupe K) sf so df d n (ws_kernel s) = (Inr (Same n), k')"
      "dk_same D (ws_kernel s) k'" "shared D (ws_kernel s) i (unat so) j (unat d) (unat n) k'"
    using dedupe_granted [OF assms(1,3,4) _ assms(6)] assms(5) by blast
  then show ?thesis
    using False by (simp add: verify_and_clone_def io_bind_def io_context_def io_ioctl_def io_ret_def)
next
  case True
  let ?k = "ws_kernel s"
  have fit: "unat so + unat n \<le> length (dk_content D ?k i)" "unat d + unat n \<le> length (dk_content D ?k j)"
    and eq: "slice_of (unat so) (unat n) (dk_content D ?k i) = slice_of (unat d) (unat n) (dk_content D ?k j)"
    using assms(6) by (simp_all add: shareable_def)
  obtain k1 where a: "read_exact_at K sf (resize (unat n) (ws_buf_a s)) 0 so ?k =
      (Inr (), slice_of (unat so) (unat n) (dk_content D ?k i), k1)" "dk_same D ?k k1" "dk_block D k1 = dk_block D ?k"
    by (rule resize_read [OF assms(1,3) fit(1)])
  have c1: "dk_content D k1 = dk_content D ?k" "dk_refers D k1 sf = Some i" "dk_refers D k1 df = Some j"
    using a(2) same_refers [OF a(2)] assms(3,4) by (simp_all add: dk_same_def)
  obtain k2 where b: "read_exact_at K df (resize (unat n) (ws_buf_b s)) 0 d k1 =
      (Inr (), slice_of (unat d) (unat n) (dk_content D ?k j), k2)" "dk_same D k1 k2" "dk_block D k2 = dk_block D ?k"
    using resize_read [OF assms(1) c1(3), of d n] fit(2) a(3) by (metis c1(1))
  have c2: "dk_content D k2 = dk_content D ?k" "dk_refers D k2 sf = Some i" "dk_refers D k2 df = Some j"
    using b(2) same_refers [OF b(2)] c1 by (simp_all add: dk_same_def)
  have "shareable D k2 i (unat so) j (unat d) (unat n)" using assms(6) unfolding shareable_def c2 .
  then obtain k3 where c: "clone_range (kn_clone K) sf so df d n k2 = (Inr (), k3)" "dk_same D k2 k3"
      "shared D k2 i (unat so) j (unat d) (unat n) k3"
    by (rule clone_granted [OF assms(1) c2(2,3)])
  have "dk_same D ?k k3" using a(2) b(2) c(2) same_trans by metis
  moreover have "shared D ?k i (unat so) j (unat d) (unat n) k3" using c(3) by (simp add: shared_def b(3))
  ultimately show ?thesis
    using True assms(2) a(1) b(1) c(1) eq
    by (simp add: verify_and_clone_def io_bind_def io_context_def io_ioctl_def io_ret_def io_gets_def read_a_def read_b_def)
qed

section \<open>The range of a run\<close>

lemma run_range:
  fixes B c e m S T :: nat
  assumes "0 < m" "min (S - (c + (m - 1)) * B) B = min (T - (e + (m - 1)) * B) B" "0 < min (S - (c + (m - 1)) * B) B"
  defines "N \<equiv> min (S - c * B) (m * B)"
  shows "min (T - e * B) (m * B) = N" "c * B + N \<le> S" "e * B + N \<le> T"
    "B dvd N \<or> c * B + N = S \<and> e * B + N = T" "(m - 1) * B < N" "N \<le> m * B"
proof -
  obtain M where m: "m = Suc M" using assms(1) by (cases m) auto
  have st: "(c + M) * B < S" "(e + M) * B < T" and L: "min (S - (c + M) * B) B = min (T - (e + M) * B) B"
    using assms(2,3) by (auto simp: m min_def split: if_splits)
  have tail: "S - c * B = M * B + (S - (c + M) * B)" "T - e * B = M * B + (T - (e + M) * B)" "m * B = M * B + B"
    using st by (simp_all add: add_mult_distrib m)
  have N: "N = M * B + min (S - (c + M) * B) B" unfolding N_def tail by (simp add: min_def)
  have N': "min (T - e * B) (m * B) = M * B + min (T - (e + M) * B) B" unfolding tail by (simp add: min_def)
  show "min (T - e * B) (m * B) = N" by (simp only: N N' L)
  have le: "min (S - (c + M) * B) B \<le> S - (c + M) * B" "min (T - (e + M) * B) B \<le> T - (e + M) * B" by simp_all
  show "c * B + N \<le> S" using st le unfolding N by (simp add: add_mult_distrib)
  show "e * B + N \<le> T" using st le unfolding N L by (simp add: add_mult_distrib)
  show "(m - 1) * B < N" using assms(3) by (simp add: N m)
  show "N \<le> m * B" by (simp add: N_def)
  show "B dvd N \<or> c * B + N = S \<and> e * B + N = T"
  proof (cases "(c + M) * B + B \<le> S")
    case True
    then have "min (S - (c + M) * B) B = B" by simp
    then have "N = M * B + B" using N by simp
    then show ?thesis by simp
  next
    case False
    then have "S - (c + M) * B < B" using st by linarith
    then have X: "min (S - (c + M) * B) B = S - (c + M) * B" "S - (c + M) * B = T - (e + M) * B" using L by simp_all
    have "c * B + N = S" using st unfolding N X(1) by (simp add: add_mult_distrib)
    moreover have "N = M * B + (T - (e + M) * B)" using N X by simp
    then have "e * B + N = T" using st by (simp add: add_mult_distrib)
    ultimately show ?thesis by simp
  qed
qed

lemma unat_chunk_off: "unat (ucast (c :: u32) * ucast (b :: u32) :: u64) = unat c * unat b"
proof -
  have "unat c < 2 ^ 32" "unat b < 2 ^ 32"
    using unsigned_less [of c, where ?'a = nat] unsigned_less [of b, where ?'a = nat] by simp_all
  then have "unat c * unat b \<le> (2 ^ 32 - 1) * (2 ^ 32 - 1)" by (intro mult_le_mono) auto
  then show ?thesis by (simp add: unat_word_ariths unat_ucast_up)
qed

lemma unat_min: "unat (min a b :: 'a :: len word) = min (unat a) (unat b)"
  by (simp add: min_def word_le_nat_alt)

lemma unat_loc_len:
  "unat (loc_len files b l) = min (unat (h_size (snd (files ! unat (loc_file l)))) - unat (loc_chunk l) * unat b) (unat b)"
  by (simp add: loc_len_def chunk_len_def unat_saturating_sub unat_chunk_off unat_ucast_up unat_min)

lemma unat_loc_off: "unat (loc_off l (ucast (b :: u32))) = unat (loc_chunk l) * unat b"
  by (simp add: loc_off_def unat_chunk_off)

lemma run_len_value:
  assumes "i < length (ps_files ps)"
  obtains n where "run_len ps i c m (ucast (b :: u32)) = Inr n"
    "unat n = min (unat (h_size (snd (ps_files ps ! i))) - unat c * unat b) (unat m * unat b)"
  using assms
  by (simp add: run_len_def index_res_def case_prod_unfold unat_saturating_sub unat_chunk_off unat_min)

lemma chunks_no_wrap:
  fixes c :: u32
  assumes "\<And>t. t < m \<Longrightarrow> 0 < S - unat (c + of_nat t) * B" "S \<le> (2 ^ 32 - 1) * B" "t < m"
  shows "unat (c + of_nat t) = unat c + t"
  using assms(3)
proof (induction t)
  case (Suc t)
  have IH: "unat (c + of_nat t) = unat c + t" using Suc by simp
  have "0 < S - unat (c + of_nat t) * B" using assms(1) Suc.prems by simp
  then have "unat (c + of_nat t) * B < (2 ^ 32 - 1) * B" using assms(2) by linarith
  then have "unat c + t < 2 ^ 32 - 1" unfolding IH by (metis mult_less_cancel2)
  then have "unat (c + of_nat t + 1) = unat c + Suc t" using unat_word_ariths(1) [of "c + of_nat t" 1] by (simp add: IH)
  moreover have "c + of_nat (Suc t) = c + of_nat t + 1" by (simp add: add_ac)
  ultimately show ?case by (simp only:)
qed simp

section \<open>What has been shared\<close>

definition place :: "(nat \<Rightarrow> 'i) \<Rightarrow> loc \<Rightarrow> 'i \<times> nat" where
  "place nd l = (nd (unat (loc_file l)), unat (loc_chunk l))"

abbreviation block_at :: "('k, 'i, 'b) disk \<Rightarrow> (nat \<Rightarrow> 'i) \<Rightarrow> 'k \<Rightarrow> loc \<Rightarrow> 'b" where
  "block_at D nd k l \<equiv> dk_block D k (nd (unat (loc_file l))) (unat (loc_chunk l))"

text \<open>Each pair's destination has become its source's block, nothing else has changed.\<close>

definition reached :: "('k, 'i, 'b) disk \<Rightarrow> (nat \<Rightarrow> 'i) \<Rightarrow> (loc \<times> loc) set \<Rightarrow> 'k \<Rightarrow> 'k \<Rightarrow> bool" where
  "reached D nd P k k' \<longleftrightarrow> (\<forall>(src, dst) \<in> P. block_at D nd k' dst = block_at D nd k src) \<and>
     (\<forall>x b. (x, b) \<notin> place nd ` snd ` P \<longrightarrow> dk_block D k' x b = dk_block D k x b)"

text \<open>No destination is a source, and each destination has one source.\<close>

definition apart :: "(nat \<Rightarrow> 'i) \<Rightarrow> (loc \<times> loc) set \<Rightarrow> bool" where
  "apart nd P \<longleftrightarrow> (\<forall>(src, dst) \<in> P. \<forall>(src', dst') \<in> P. place nd dst \<noteq> place nd src' \<and>
     (place nd dst = place nd dst' \<longrightarrow> place nd src = place nd src'))"

lemma apart_mono: "apart nd P \<Longrightarrow> Q \<subseteq> P \<Longrightarrow> apart nd Q"
  unfolding apart_def by blast

lemma reached_refl: "reached D nd {} k k"
  by (simp add: reached_def)

lemma reached_trans:
  assumes "reached D nd P k k1" "reached D nd Q k1 k2" "apart nd (P \<union> Q)"
  shows "reached D nd (P \<union> Q) k k2"
proof -
  have src: "block_at D nd k1 src = block_at D nd k src" if "(src, dst) \<in> P \<union> Q" for src dst
  proof -
    have "place nd src \<notin> place nd ` snd ` P"
    proof
      assume "place nd src \<in> place nd ` snd ` P"
      then obtain src' dst' where "(src', dst') \<in> P" "place nd dst' = place nd src" by auto
      then show False using assms(3) that unfolding apart_def by blast
    qed
    then show ?thesis using assms(1) by (simp add: reached_def place_def)
  qed
  have dst: "block_at D nd k2 dst = block_at D nd k src" if pq: "(src, dst) \<in> P \<union> Q" for src dst
  proof (cases "place nd dst \<in> place nd ` snd ` Q")
    case True
    then obtain src' dst' where q: "(src', dst') \<in> Q" "place nd dst = place nd dst'" by auto
    then have "place nd src = place nd src'" using assms(3) pq unfolding apart_def by blast
    then have "block_at D nd k2 dst' = block_at D nd k1 src" using assms(2) q(1) by (auto simp: reached_def place_def)
    then show ?thesis using src [OF pq] q(2) by (simp add: place_def)
  next
    case False
    then have "(src, dst) \<in> P" using pq by force
    then show ?thesis using assms(1,2) False by (auto simp: reached_def place_def)
  qed
  have "dk_block D k2 x b = dk_block D k x b" if "(x, b) \<notin> place nd ` snd ` (P \<union> Q)" for x b
    using assms(1,2) that by (simp add: reached_def image_Un)
  then show ?thesis using dst unfolding reached_def by blast
qed

text \<open>Sharing a run's range is sharing its pairs.\<close>

lemma in_expand: "(src, dst) \<in> set (expand r) \<longleftrightarrow> (\<exists>t < unat (run_chunks r).
    src = (run_src r)\<lparr>loc_chunk := loc_chunk (run_src r) + of_nat t\<rparr> \<and>
    dst = (run_dst r)\<lparr>loc_chunk := loc_chunk (run_dst r) + of_nat t\<rparr>)"
  by (auto simp: expand_def)

lemma shared_run:
  assumes "shared D k i (c * B) j (e * B) N k'" "dk_bsize D j = B" "0 < B"
    "i = nd (unat (loc_file (run_src r)))" "j = nd (unat (loc_file (run_dst r)))"
    "c = unat (loc_chunk (run_src r))" "e = unat (loc_chunk (run_dst r))"
    "(unat (run_chunks r) - 1) * B < N" "N \<le> unat (run_chunks r) * B"
    "\<And>t. t < unat (run_chunks r) \<Longrightarrow> unat (loc_chunk (run_src r) + of_nat t) = c + t"
    "\<And>t. t < unat (run_chunks r) \<Longrightarrow> unat (loc_chunk (run_dst r) + of_nat t) = e + t"
  shows "reached D nd (set (expand r)) k k'"
proof -
  let ?m = "unat (run_chunks r)"
  have range: "e \<le> b \<and> b * B < e * B + N \<longleftrightarrow> (\<exists>t < ?m. b = e + t)" for b
  proof
    assume b: "e \<le> b \<and> b * B < e * B + N"
    then obtain t where t: "b = e + t" using le_Suc_ex by blast
    then have "t * B < N" using b by (simp add: add_mult_distrib)
    then have "t * B < ?m * B" using assms(9) by (rule less_le_trans)
    then have "t < ?m" by (metis mult_less_cancel2)
    then show "\<exists>t < ?m. b = e + t" using t by blast
  next
    assume "\<exists>t < ?m. b = e + t"
    then obtain t where t: "t < ?m" "b = e + t" by blast
    then have "t * B \<le> (?m - 1) * B" by (intro mult_le_mono1) simp
    then have "t * B < N" using assms(8) by (rule le_less_trans)
    then show "e \<le> b \<and> b * B < e * B + N" using t by (simp add: add_mult_distrib)
  qed
  have eq: "dk_block D k' x b = (if x = j \<and> (\<exists>t < ?m. b = e + t) then dk_block D k i (b - e + c) else dk_block D k x b)" for x b
    using assms(1-3) by (simp add: shared_def flip: range)
  have "place nd ` snd ` set (expand r) = {(j, e + t) |t. t < ?m}"
    using assms(5,11) by (auto simp: expand_def place_def image_iff)
  then have "dk_block D k' x b = dk_block D k x b" if "(x, b) \<notin> place nd ` snd ` set (expand r)" for x b
    using that by (auto simp: eq)
  moreover have "block_at D nd k' dst = block_at D nd k src" if "(src, dst) \<in> set (expand r)" for src dst
    using that assms(4,5,10,11) by (auto simp: in_expand eq add.commute)
  ultimately show ?thesis unfolding reached_def by blast
qed

section \<open>Files as the table says\<close>

text \<open>
  Every path of the table opens a file of its own, of the size and the block size it was hashed with.
  Chunk numbers fit: the last number of 32 bits is past the end.
\<close>

definition files_on :: "('k, 'i, 'b) disk \<Rightarrow> (path \<rightharpoonup> 'i) \<Rightarrow> hashed paths \<Rightarrow> (nat \<Rightarrow> 'i) \<Rightarrow> 'k \<Rightarrow> bool" where
  "files_on D file ps nd k \<longleftrightarrow> inj_on nd {..<length (ps_files ps)} \<and>
     (\<forall>n < length (ps_files ps). (\<exists>p. paths_path ps (fst (ps_files ps ! n)) = Some (Inr p) \<and> file p = Some (nd n)) \<and>
        (let h = snd (ps_files ps ! n) in
         length (dk_content D k (nd n)) = unat (h_size h) \<and> dk_bsize D (nd n) = unat (h_blksz h) \<and>
         0 < unat (h_blksz h) \<and> unat (h_blksz h) \<le> 16 * 2 ^ 20 \<and> unat (h_size h) \<le> (2 ^ 32 - 1) * unat (h_blksz h)))"

lemma files_onD:
  assumes "files_on D file ps nd k" "n < length (ps_files ps)"
  shows "\<exists>p. paths_path ps (fst (ps_files ps ! n)) = Some (Inr p) \<and> file p = Some (nd n)"
    "length (dk_content D k (nd n)) = unat (h_size (snd (ps_files ps ! n)))"
    "dk_bsize D (nd n) = unat (h_blksz (snd (ps_files ps ! n)))" "0 < unat (h_blksz (snd (ps_files ps ! n)))"
    "unat (h_blksz (snd (ps_files ps ! n))) \<le> 16 * 2 ^ 20"
    "unat (h_size (snd (ps_files ps ! n))) \<le> (2 ^ 32 - 1) * unat (h_blksz (snd (ps_files ps ! n)))"
  using assms unfolding files_on_def Let_def by blast+

text \<open>The bytes of a chunk.\<close>

definition chunk_bytes :: "('k, 'i, 'b) disk \<Rightarrow> (nat \<Rightarrow> 'i) \<Rightarrow> 'k \<Rightarrow> loc \<Rightarrow> u8 list" where
  "chunk_bytes D nd k l = (let i = nd (unat (loc_file l)) in
     slice_of (unat (loc_chunk l) * dk_bsize D i) (dk_bsize D i) (dk_content D k i))"

lemma dup_pairs_files:
  assumes "index_wf files idx" "(src, dst) \<in> dup_pairs idx files (b, s, d)"
  shows "loc_file src = s" "loc_file dst = d" "unat s < length files" "unat d < length files"
    "h_blksz (snd (files ! unat s)) = b" "h_blksz (snd (files ! unat d)) = b"
    "loc_len files b dst = loc_len files b src" "loc_len files b src \<noteq> 0"
proof -
  obtain h ls where g: "idx (b, h) = Some ls" "src = hd ls" "dst \<in> set (tl ls)"
    and rest: "loc_file src = s" "loc_file dst = d" "loc_len files b dst = loc_len files b src" "loc_len files b src \<noteq> 0"
    using assms(2) by (auto simp: dup_pairs_def)
  have "src \<in> set ls" "dst \<in> set ls" using g(2,3) by (cases ls; simp)+
  then show "unat s < length files" "unat d < length files"
    "h_blksz (snd (files ! unat s)) = b" "h_blksz (snd (files ! unat d)) = b"
    using index_wfD(1) [OF assms(1) g(1)] rest(1,2) by (auto simp: group_wf_def list_all_iff)
qed (use assms(2) in \<open>auto simp: dup_pairs_def\<close>)

definition all_dups :: "index_key groups \<Rightarrow> (file_path \<times> hashed) list \<Rightarrow> (loc \<times> loc) set" where
  "all_dups idx files = (\<Union>k. dup_pairs idx files k)"

lemma in_all_dups: "(src, dst) \<in> all_dups idx files \<longleftrightarrow> (\<exists>b s d. (src, dst) \<in> dup_pairs idx files (b, s, d))"
  by (auto simp: all_dups_def)

lemma place_inj:
  assumes "inj_on nd {..<n}" "unat (loc_file l) < n" "unat (loc_file m) < n" "place nd l = place nd m"
  shows "l = m"
proof -
  have "unat (loc_file l) = unat (loc_file m)" "unat (loc_chunk l) = unat (loc_chunk m)"
    using assms by (auto simp: place_def dest: inj_onD)
  then have "loc_file l = loc_file m" "loc_chunk l = loc_chunk m" by (simp_all add: word_unat_eq_iff)
  then show ?thesis by (cases l; cases m) simp
qed

lemma dups_apart:
  assumes "index_wf files idx" "inj_on nd {..<length files}"
  shows "apart nd (all_dups idx files)"
proof -
  have "place nd dst \<noteq> place nd src' \<and> (place nd dst = place nd dst' \<longrightarrow> place nd src = place nd src')"
    if p: "(src, dst) \<in> dup_pairs idx files (b, s, d)" "(src', dst') \<in> dup_pairs idx files (b', s', d')"
    for src dst src' dst' b s d b' s' d'
  proof -
    note f = dup_pairs_files(1-4) [OF assms(1) p(1)] dup_pairs_files(1-4) [OF assms(1) p(2)]
    have "place nd dst \<noteq> place nd src'"
      using place_inj [OF assms(2), of dst src'] dup_pairs_unique(1) [OF assms(1) p] f by auto
    moreover have "place nd src = place nd src'" if "place nd dst = place nd dst'"
      using place_inj [OF assms(2), of dst dst'] that dup_pairs_unique(2) [OF assms(1) p] f by auto
    ultimately show ?thesis by blast
  qed
  then show ?thesis unfolding apart_def by (blast dest: in_all_dups [THEN iffD1])
qed

section \<open>A run is shared\<close>

lemma slices_equal:
  assumes "\<And>t. t < m \<Longrightarrow> slice_of ((c + t) * B) B xs = slice_of ((e + t) * B) B ys"
  shows "slice_of (c * B) (m * B) xs = slice_of (e * B) (m * B) ys"
  using assms
proof (induction m)
  case (Suc m)
  have split: "slice_of (c * B) (Suc m * B) zs = slice_of (c * B) (m * B) zs @ slice_of ((c + m) * B) B zs" for c zs
    by (simp only: add_mult_distrib slice_of_append mult_Suc add.commute [of B])
  have "slice_of ((c + m) * B) B xs = slice_of ((e + m) * B) B ys" by (rule Suc.prems) simp
  then show ?case using Suc by (simp only: split)
qed (simp add: slice_of_def)

lemma slice_clip: "slice_of off (min (length xs - off) n) xs = slice_of off n xs"
  by (simp add: slice_of_def min_def)

text \<open>The state of the loop: what has been shared, and counters that tell of no trouble.\<close>

definition untroubled :: "stats \<Rightarrow> bool" where
  "untroubled st \<longleftrightarrow> n_mismatches st = 0 \<and> n_errors st = 0 \<and> n_busy st = 0 \<and>
     n_verified st = n_candidates st \<and> n_cloned st = n_candidates st"

definition shared_so_far ::
    "('k, 'i, 'b) disk \<Rightarrow> (nat \<Rightarrow> 'i) \<Rightarrow> (loc \<times> loc) set \<Rightarrow> 'k \<Rightarrow> (loc \<times> loc) set \<Rightarrow> 'k wstate \<Rightarrow> bool" where
  "shared_so_far D nd A k P w \<longleftrightarrow> P \<subseteq> A \<and> dk_content D (ws_kernel w) = dk_content D k \<and>
     reached D nd P k (ws_kernel w) \<and> untroubled (ws_stats w)"

text \<open>The range that a run asks for.\<close>

lemma run_shareable:
  assumes "index_wf (ps_files ps) idx" "files_on D file ps nd k" "set (expand r) \<subseteq> dup_pairs idx (ps_files ps) (b, s, d)"
    "\<forall>(src, dst) \<in> all_dups idx (ps_files ps). chunk_bytes D nd k src = chunk_bytes D nd k dst"
    "0 < unat (run_chunks r)"
  obtains n n' where
    "run_len ps (unat s) (loc_chunk (run_src r)) (run_chunks r) (ucast b) = Inr n"
    "run_len ps (unat d) (loc_chunk (run_dst r)) (run_chunks r) (ucast b) = Inr n'" "n' = n" "n \<noteq> 0"
    "shareable D k (nd (unat s)) (unat (loc_off (run_src r) (ucast b))) (nd (unat d)) (unat (loc_off (run_dst r) (ucast b))) (unat n)"
    "unat n \<le> unat (run_chunks r) * unat b"
    "\<And>k1 k2. shared D k1 (nd (unat s)) (unat (loc_off (run_src r) (ucast b))) (nd (unat d)) (unat (loc_off (run_dst r) (ucast b))) (unat n) k2 \<Longrightarrow>
       reached D nd (set (expand r)) k1 k2"
proof -
  let ?m = "unat (run_chunks r)" and ?B = "unat b"
  let ?src = "\<lambda>t. (run_src r)\<lparr>loc_chunk := loc_chunk (run_src r) + of_nat t\<rparr>"
  let ?dst = "\<lambda>t. (run_dst r)\<lparr>loc_chunk := loc_chunk (run_dst r) + of_nat t\<rparr>"
  let ?c = "unat (loc_chunk (run_src r))" and ?e = "unat (loc_chunk (run_dst r))"
  let ?S = "unat (h_size (snd (ps_files ps ! unat s)))" and ?T = "unat (h_size (snd (ps_files ps ! unat d)))"
  have pair: "(?src t, ?dst t) \<in> dup_pairs idx (ps_files ps) (b, s, d)" if "t < ?m" for t
    using assms(3) that in_expand by blast
  note facts = dup_pairs_files [OF assms(1) pair]
  note at0 = facts(1-6) [OF assms(5)]
  have fs: "loc_file (run_src r) = s" "loc_file (run_dst r) = d" using at0(1,2) by simp_all
  note on_s = files_onD [OF assms(2) at0(3), unfolded at0(5)] and on_d = files_onD [OF assms(2) at0(4), unfolded at0(6)]
  have lens: "min (?S - unat (loc_chunk (?src t)) * ?B) ?B = min (?T - unat (loc_chunk (?dst t)) * ?B) ?B"
    "0 < ?S - unat (loc_chunk (?src t)) * ?B" "0 < ?T - unat (loc_chunk (?dst t)) * ?B" if "t < ?m" for t
  proof -
    have len: "unat (loc_len (ps_files ps) b (?src t)) = min (?S - unat (loc_chunk (?src t)) * ?B) ?B"
      "unat (loc_len (ps_files ps) b (?dst t)) = min (?T - unat (loc_chunk (?dst t)) * ?B) ?B"
      by (simp_all add: unat_loc_len fs)
    show "min (?S - unat (loc_chunk (?src t)) * ?B) ?B = min (?T - unat (loc_chunk (?dst t)) * ?B) ?B"
      unfolding len [symmetric] by (simp only: facts(7) [OF that])
    have "0 < unat (loc_len (ps_files ps) b (?src t))" "0 < unat (loc_len (ps_files ps) b (?dst t))"
      using facts(7,8) [OF that] by (simp_all add: unat_gt_0)
    then show "0 < ?S - unat (loc_chunk (?src t)) * ?B" "0 < ?T - unat (loc_chunk (?dst t)) * ?B"
      unfolding len min_less_iff_conj by blast+
  qed
  have nums: "unat (loc_chunk (run_src r) + of_nat t) = ?c + t" "unat (loc_chunk (run_dst r) + of_nat t) = ?e + t" if "t < ?m" for t
  proof -
    show "unat (loc_chunk (run_src r) + of_nat t) = ?c + t"
      by (rule chunks_no_wrap [OF _ on_s(6) that]) (use lens(2) in simp)
    show "unat (loc_chunk (run_dst r) + of_nat t) = ?e + t"
      by (rule chunks_no_wrap [OF _ on_d(6) that]) (use lens(3) in simp)
  qed
  have last: "?m - 1 < ?m" using assms(5) by simp
  have eq: "min (?S - (?c + (?m - 1)) * ?B) ?B = min (?T - (?e + (?m - 1)) * ?B) ?B" "0 < min (?S - (?c + (?m - 1)) * ?B) ?B"
    using lens [OF last] nums [OF last] on_s(4) by simp_all
  note range = run_range [OF assms(5) eq]
  obtain n where n: "run_len ps (unat s) (loc_chunk (run_src r)) (run_chunks r) (ucast b) = Inr n"
      "unat n = min (?S - ?c * ?B) (?m * ?B)"
    by (rule run_len_value [OF at0(3)])
  obtain n' where n': "run_len ps (unat d) (loc_chunk (run_dst r)) (run_chunks r) (ucast b) = Inr n'"
      "unat n' = min (?T - ?e * ?B) (?m * ?B)"
    by (rule run_len_value [OF at0(4)])
  have same: "n' = n" using range(1) n(2) n'(2) by (simp add: word_unat_eq_iff)
  have "0 < unat n" using range(5) n(2) by linarith
  then have pos: "n \<noteq> 0" by (simp add: unat_gt_0)
  have apart: "apart nd (all_dups idx (ps_files ps))"
    using dups_apart [OF assms(1)] assms(2) unfolding files_on_def by blast
  have dups: "(?src t, ?dst t) \<in> all_dups idx (ps_files ps)" if "t < ?m" for t
    using pair [OF that] in_all_dups by blast
  have "slice_of ((?c + t) * ?B) ?B (dk_content D k (nd (unat s))) = slice_of ((?e + t) * ?B) ?B (dk_content D k (nd (unat d)))" if "t < ?m" for t
    using assms(4) dups [OF that] by (auto simp: chunk_bytes_def Let_def fs nums that on_s(3) on_d(3))
  from slices_equal [OF this]
  have "slice_of (?c * ?B) (unat n) (dk_content D k (nd (unat s))) = slice_of (?e * ?B) (unat n') (dk_content D k (nd (unat d)))"
    unfolding n(2) n'(2) on_s(2) [symmetric] on_d(2) [symmetric] slice_clip .
  moreover have "?c * ?B + unat n \<le> ?e * ?B \<or> ?e * ?B + unat n \<le> ?c * ?B" if ij: "nd (unat s) = nd (unat d)"
  proof -
    have ne: "?e + t \<noteq> ?c + t'" if "t < ?m" "t' < ?m" for t t'
    proof -
      have "place nd (?dst t) \<noteq> place nd (?src t')" using apart dups that unfolding apart_def by blast
      then show ?thesis using nums that by (simp add: place_def fs ij)
    qed
    have "?c + ?m \<le> ?e \<or> ?e + ?m \<le> ?c"
      using ne [of 0 "?e - ?c"] ne [of "?c - ?e" 0] assms(5) by linarith
    then have "(?c + ?m) * ?B \<le> ?e * ?B \<or> (?e + ?m) * ?B \<le> ?c * ?B" by auto
    then show ?thesis using range(6) n(2) by (auto simp: add_mult_distrib)
  qed
  ultimately have "shareable D k (nd (unat s)) (?c * ?B) (nd (unat d)) (?e * ?B) (unat n)"
    using range \<open>0 < unat n\<close> same n(2) on_s(2-4) on_d(2,3) unfolding shareable_def by simp
  moreover have "reached D nd (set (expand r)) k1 k2"
    if "shared D k1 (nd (unat s)) (?c * ?B) (nd (unat d)) (?e * ?B) (unat n) k2" for k1 k2
    by (rule shared_run [OF that on_d(3) on_d(4) _ _ refl refl])
       (use range(5,6) n(2) nums fs in simp_all)
  ultimately show thesis
    using that [OF n(1) n'(1) same pos] range(6) n(2) by (simp add: unat_loc_off)
qed

lemma files_on_cong: "dk_content D k' = dk_content D k \<Longrightarrow> files_on D file ps nd k' = files_on D file ps nd k"
  by (simp add: files_on_def)

lemma chunk_bytes_cong: "dk_content D k' = dk_content D k \<Longrightarrow> chunk_bytes D nd k' = chunk_bytes D nd k"
  by (simp add: chunk_bytes_def fun_eq_iff)

lemma run_ok_small:
  assumes "run_ok (ucast (b :: u32)) r" "unat b \<le> 16 * 2 ^ 20"
  shows "unat (run_chunks r) * unat b \<le> 16 * 2 ^ 20"
  using assms by (auto simp: run_ok_def unat_ucast_up)

section \<open>All runs\<close>

text \<open>What every run, pair and task may rely on.\<close>

definition dups_ready ::
    "'k kernel \<Rightarrow> opts \<Rightarrow> (path \<rightharpoonup> 'i) \<Rightarrow> ('k, 'i, 'b) disk \<Rightarrow> hashed paths \<Rightarrow> (nat \<Rightarrow> 'i) \<Rightarrow> index_key groups \<Rightarrow> 'k \<Rightarrow> bool" where
  "dups_ready K opts file D ps nd idx k \<longleftrightarrow> grants K file D \<and> \<not> op_dry_run opts \<and> index_wf (ps_files ps) idx \<and>
     files_on D file ps nd k \<and>
     (\<forall>(src, dst) \<in> all_dups idx (ps_files ps). chunk_bytes D nd k src = chunk_bytes D nd k dst)"

abbreviation dups_done where
  "dups_done D ps nd idx k P \<equiv> shared_so_far D nd (all_dups idx (ps_files ps)) k P"

lemma run_gives:
  assumes "dups_ready K opts file D ps nd idx k" "set (expand r) \<subseteq> dup_pairs idx (ps_files ps) (b, s, d)"
    "run_ok (ucast b) r"
  shows "io_gives (\<lambda>w. dups_done D ps nd idx k P w \<and> dk_refers D (ws_kernel w) sf = Some (nd (unat s)) \<and>
      dk_refers D (ws_kernel w) df = Some (nd (unat d)))
    (do_run K opts ps (ucast b) s d compare sf df r)
    (\<lambda>_ w. dups_done D ps nd idx k (P \<union> set (expand r)) w \<and> dk_refers D (ws_kernel w) sf = Some (nd (unat s)) \<and>
      dk_refers D (ws_kernel w) df = Some (nd (unat d)))"
  unfolding io_gives_def
proof (intro allI impI, elim conjE)
  fix w
  assume inv: "dups_done D ps nd idx k P w" and refs: "dk_refers D (ws_kernel w) sf = Some (nd (unat s))"
    "dk_refers D (ws_kernel w) df = Some (nd (unat d))"
  let ?k = "ws_kernel w" and ?A = "all_dups idx (ps_files ps)"
  have content: "dk_content D ?k = dk_content D k" using inv by (simp add: shared_so_far_def)
  have ready: "grants K file D" "\<not> op_dry_run opts" "index_wf (ps_files ps) idx" "files_on D file ps nd ?k"
    "\<forall>(src, dst) \<in> ?A. chunk_bytes D nd ?k src = chunk_bytes D nd ?k dst"
    using assms(1) unfolding dups_ready_def files_on_cong [OF content] chunk_bytes_cong [OF content] by blast+
  have m: "0 < unat (run_chunks r)" using assms(3) by (simp add: run_ok_def)
  obtain n n' where n: "run_len ps (unat s) (loc_chunk (run_src r)) (run_chunks r) (ucast b) = Inr n"
    "run_len ps (unat d) (loc_chunk (run_dst r)) (run_chunks r) (ucast b) = Inr n'" "n' = n" "n \<noteq> 0"
    and range: "shareable D ?k (nd (unat s)) (unat (loc_off (run_src r) (ucast b))) (nd (unat d)) (unat (loc_off (run_dst r) (ucast b))) (unat n)"
    "unat n \<le> unat (run_chunks r) * unat b"
    and step: "\<And>k1 k2. shared D k1 (nd (unat s)) (unat (loc_off (run_src r) (ucast b))) (nd (unat d)) (unat (loc_off (run_dst r) (ucast b))) (unat n) k2 \<Longrightarrow>
       reached D nd (set (expand r)) k1 k2"
    by (rule run_shareable [OF ready(3,4) assms(2) ready(5) m]) blast
  obtain src dst where "(src, dst) \<in> set (expand r)" using m in_expand by blast
  then have "(src, dst) \<in> dup_pairs idx (ps_files ps) (b, s, d)" using assms(2) by blast
  from dup_pairs_files(3,5) [OF ready(3) this] files_onD(5) [OF ready(4)]
  have "unat b \<le> 16 * 2 ^ 20" by metis
  then have small: "unat n \<le> 16 * 2 ^ 20" using run_ok_small [OF assms(3)] range(2) by linarith
  let ?w = "w\<lparr>ws_stats := stats_add (ws_stats w) (stats_default\<lparr>n_candidates := 1\<rparr>)\<rparr>"
  obtain t where t: "verify_and_clone K opts sf (loc_off (run_src r) (ucast b)) df (loc_off (run_dst r) (ucast b)) n compare ?w =
      Some (Inr (Some n), t)" "ws_stats t = ws_stats ?w" "dk_same D ?k (ws_kernel t)"
    "shared D ?k (nd (unat s)) (unat (loc_off (run_src r) (ucast b))) (nd (unat d)) (unat (loc_off (run_dst r) (ucast b))) (unat n) (ws_kernel t)"
    using verify_granted [OF ready(1,2), where s = ?w and sf = sf and i = "nd (unat s)" and df = df and j = "nd (unat d)"
        and compare = compare and n = n] refs small range(1) by force
  let ?t = "t\<lparr>ws_stats := stats_add (stats_add (stats_add (ws_stats t) (stats_default\<lparr>n_verified := 1\<rparr>)) (stats_default\<lparr>n_cloned := 1\<rparr>)) (stats_default\<lparr>n_bytes := n\<rparr>)\<rparr>"
  have "do_run K opts ps (ucast b) s d compare sf df r w = Some (Inr (), ?t)"
    using n t(1) ready(2)
    by (simp add: do_run_def io_lift_Inr io_bind_def io_attempt_def bump_def io_modify_def count_result_def io_ret_def)
  moreover have "dups_done D ps nd idx k (P \<union> set (expand r)) ?t"
  proof -
    have sub: "P \<union> set (expand r) \<subseteq> ?A" using inv assms(2) by (auto simp: shared_so_far_def all_dups_def)
    have "apart nd ?A" using dups_apart [OF ready(3)] ready(4) unfolding files_on_def by blast
    then have "reached D nd (P \<union> set (expand r)) k (ws_kernel t)"
      using reached_trans [OF _ step [OF t(4)] apart_mono [OF _ sub]] inv by (simp add: shared_so_far_def)
    then show ?thesis
      using inv sub t(2,3) content
      by (simp add: shared_so_far_def untroubled_def stats_add_def stats_default_def dk_same_def)
  qed
  ultimately show "\<exists>x t. do_run K opts ps (ucast b) s d compare sf df r w = Some (Inr x, t) \<and>
      dups_done D ps nd idx k (P \<union> set (expand r)) t \<and> dk_refers D (ws_kernel t) sf = Some (nd (unat s)) \<and>
      dk_refers D (ws_kernel t) df = Some (nd (unat d))"
    using refs same_refers [OF t(3)] by auto
qed

lemma open_granted:
  assumes "dups_ready K opts file D ps nd idx k" "n < length (ps_files ps)" "dups_done D ps nd idx k P w"
  obtains f t where "worker_open K opts ps n wr w = Some (Inr f, t)" "dk_refers D (ws_kernel t) f = Some (nd n)"
    "dk_same D (ws_kernel w) (ws_kernel t)" "dups_done D ps nd idx k P t"
proof -
  have ready: "grants_open K file D" "files_on D file ps nd k" using assms(1) by (simp_all add: dups_ready_def grants_def)
  obtain p where p: "paths_path ps (fst (ps_files ps ! n)) = Some (Inr p)" "file p = Some (nd n)"
    using files_onD(1) [OF ready(2) assms(2)] by blast
  obtain f k' where o': "kn_open K p (wr \<and> \<not> op_dry_run opts) (ws_kernel w) = (Inr f, k')"
      "dk_refers D k' f = Some (nd n)" "dk_same D (ws_kernel w) k'" "dk_block D k' = dk_block D (ws_kernel w)"
    using ready(1) p(2) unfolding grants_open_def by meson
  have "worker_open K opts ps n wr w = Some (Inr f, w\<lparr>ws_kernel := k'\<rparr>)"
    using assms(2) p(1) o'(1)
    by (simp add: worker_open_def index_res_def io_lift_Inr io_opt_Some io_context_def io_call_def case_prod_unfold)
  then show thesis
    using that o'(2-4) assms(3) by (simp add: shared_so_far_def reached_def dk_same_def)
qed

lemma pair_gives:
  assumes "dups_ready K opts file D ps nd idx k" "unat s < length (ps_files ps)" "unat d < length (ps_files ps)"
    "list_all (run_ok (ucast b)) runs" "set (concat (map expand runs)) \<subseteq> dup_pairs idx (ps_files ps) (b, s, d)"
  shows "io_gives (dups_done D ps nd idx k P) (pair_files K opts ps (ucast b) s d runs)
    (\<lambda>_. dups_done D ps nd idx k (P \<union> set (concat (map expand runs))))"
  unfolding io_gives_def
proof (intro allI impI)
  fix w assume inv: "dups_done D ps nd idx k P w"
  let ?compare = "op_dry_run opts \<or> \<not> op_fideduperange opts"
  obtain sf w1 where s: "worker_open K opts ps (unat s) False w = Some (Inr sf, w1)"
    "dk_refers D (ws_kernel w1) sf = Some (nd (unat s))" "dups_done D ps nd idx k P w1"
    by (rule open_granted [OF assms(1,2) inv])
  obtain df w2 where d: "worker_open K opts ps (unat d) True w1 = Some (Inr df, w2)"
    "dk_refers D (ws_kernel w2) df = Some (nd (unat d))" "dk_same D (ws_kernel w1) (ws_kernel w2)" "dups_done D ps nd idx k P w2"
    by (rule open_granted [OF assms(1,3) s(3)])
  have "io_gives (\<lambda>w. dups_done D ps nd idx k P w \<and> dk_refers D (ws_kernel w) sf = Some (nd (unat s)) \<and>
      dk_refers D (ws_kernel w) df = Some (nd (unat d)))
    (io_for (do_run K opts ps (ucast b) s d ?compare sf df) runs)
    (\<lambda>_ w. dups_done D ps nd idx k (P \<union> (\<Union>r \<in> set runs. set (expand r))) w \<and> dk_refers D (ws_kernel w) sf = Some (nd (unat s)) \<and>
      dk_refers D (ws_kernel w) df = Some (nd (unat d)))"
    by (rule gives_for, rule run_gives [OF assms(1)]) (use assms(4,5) in \<open>auto simp: list_all_iff\<close>)
  then obtain w3 where "io_for (do_run K opts ps (ucast b) s d ?compare sf df) runs w2 = Some (Inr (), w3)"
      "dups_done D ps nd idx k (P \<union> (\<Union>r \<in> set runs. set (expand r))) w3"
    using d(2,4) same_refers [OF d(3) s(2)] unfolding io_gives_def by fastforce
  moreover have "pair_files K opts ps (ucast b) s d runs w = io_for (do_run K opts ps (ucast b) s d ?compare sf df) runs w2"
    using s(1) d(1) by (simp add: pair_files_def Let_def io_bind_def io_attempt_def io_ret_def)
  ultimately show "\<exists>x t. pair_files K opts ps (ucast b) s d runs w = Some (Inr x, t) \<and>
      dups_done D ps nd idx k (P \<union> set (concat (map expand runs))) t"
    by (simp add: set_concat)
qed

lemma finite_pairs:
  assumes "index_wf files idx" "build_runs order idx files = Inr pairs"
  shows "finite (dom pairs)"
proof -
  have "pairs = (\<lambda>k. map_option (\<lambda>locs. coalesce locs (ucast (fst k))) (multimap (all_pairs order idx files) k))"
    using build_runs_list [OF assms(1), of order] assms(2) by simp
  then have "at_key (all_pairs order idx files) key \<noteq> []" if "key \<in> dom pairs" for key
    using that by (auto simp: multimap_def split: if_splits)
  then have "dom pairs \<subseteq> {key. at_key (all_pairs order idx files) key \<noteq> []}" by blast
  also have "\<dots> \<subseteq> fst ` set (all_pairs order idx files)"
    by (force simp: at_key_def filter_empty_conv)
  finally have "dom pairs \<subseteq> fst ` set (all_pairs order idx files)" .
  then show ?thesis by (rule finite_subset) simp
qed

lemma UN_support: "(\<And>x. x \<notin> S \<Longrightarrow> g x = {}) \<Longrightarrow> (\<Union>x \<in> S. g x) = (\<Union>x. g x)"
  by blast

text \<open>After \<open>dedup\<close>, each pair of equal chunks in the index is one block on disk.\<close>

lemma dedup_shares:
  assumes "dups_ready K opts file D ps nd idx k" "build_index R db (ps_files ps) = Inr idx"
    "distinct (order idx)" "set (order idx) = dom idx"
    "\<And>m. finite (dom m) \<Longrightarrow> set (concat (split m)) = dom m"
  shows "\<exists>st k'. dedup K R order split ps db opts k = Some (Inr st, k') \<and> untroubled st \<and>
    dk_content D k' = dk_content D k \<and> reached D nd (all_dups idx (ps_files ps)) k k'"
proof -
  let ?files = "ps_files ps"
  have wf: "index_wf ?files idx" using assms(1) by (simp add: dups_ready_def)
  obtain pairs where pairs: "build_runs (order idx) idx ?files = Inr pairs"
    by (rule build_runs_spec [OF wf assms(3,4)])
  note spec = build_runs_specD [OF wf assms(3,4) pairs]
  let ?g = "\<lambda>key. case pairs key of None \<Rightarrow> {} | Some runs \<Rightarrow> set (concat (map expand runs))"
  let ?keys = "concat (split pairs)"
  have g: "?g key = dup_pairs idx ?files key" for key
    using spec [of key] by (cases "pairs key") auto
  have body: "io_gives (dups_done D ps nd idx k P) ((\<lambda>(blksz, s, d). case pairs (blksz, s, d) of None \<Rightarrow> io_ret ()
      | Some runs \<Rightarrow> pair_files K opts ps (ucast blksz) s d runs) key) (\<lambda>_. dups_done D ps nd idx k (P \<union> ?g key))" for P key
  proof (cases "pairs key")
    case None
    then show ?thesis by (auto intro: gives_ret split: prod.split)
  next
    case (Some runs)
    obtain b s d where key: "key = (b, s, d)" by (cases key)
    have "unat s < length ?files" "unat d < length ?files"
      using pairs_in_range [OF wf assms(3,4) pairs] Some key by blast+
    then show ?thesis
      using pair_gives [OF assms(1), of s d b runs P] spec(2) [OF Some] Some
      by (simp add: key runs_ok_def)
  qed
  have "io_gives (dups_done D ps nd idx k {}) (task_loop K opts ps pairs ?keys)
      (\<lambda>_. dups_done D ps nd idx k ({} \<union> (\<Union>key \<in> set ?keys. ?g key)))"
    unfolding task_loop_def by (rule gives_for, rule body)
  moreover have "dups_done D ps nd idx k {} (worker_new k)"
    by (simp add: shared_so_far_def reached_refl untroubled_def stats_default_def)
  ultimately obtain w where w: "task_loop K opts ps pairs ?keys (worker_new k) = Some (Inr (), w)"
      "dups_done D ps nd idx k (\<Union>key \<in> set ?keys. ?g key) w"
    unfolding io_gives_def by fastforce
  have "set ?keys = dom pairs" by (rule assms(5) [OF finite_pairs [OF wf pairs]])
  then have "?g key = {}" if "key \<notin> set ?keys" for key using that by (simp add: domIff)
  then have "(\<Union>key \<in> set ?keys. ?g key) = (\<Union>key. ?g key)" by (rule UN_support)
  then have all: "(\<Union>key \<in> set ?keys. ?g key) = all_dups idx ?files" by (simp only: g all_dups_def)
  have "dedup K R order split ps db opts k = Some (Inr (ws_stats w), ws_kernel w)"
    using w(1) by (simp add: dedup_def io_lift_Inr assms(2) pairs run_tasks_concat run_task_outcome)
  then show ?thesis using w(2) unfolding all by (simp add: shared_so_far_def)
qed

end
