(* ===== verification/BlockKernel.thy ===== *)
theory BlockKernel imports Sharing Instances begin

text \<open>
  A kernel in memory that shares blocks: beside the files' bytes it holds, for each block of a file, the
  block on disk it is stored in. It grants what the clone phase asks for.
\<close>

type_synonym blk_fs = "mem_fs \<times> (nat \<Rightarrow> nat \<Rightarrow> nat \<times> nat)"

definition blk_copy :: "nat \<Rightarrow> nat \<Rightarrow> nat \<Rightarrow> nat \<Rightarrow> nat \<Rightarrow> nat \<Rightarrow> (nat \<Rightarrow> nat \<Rightarrow> 'b) \<Rightarrow> nat \<Rightarrow> nat \<Rightarrow> 'b" where
  "blk_copy B i so j d n m x b = (if x = j \<and> d div B \<le> b \<and> b * B < d + n then m i (b - d div B + so div B) else m x b)"

text \<open>The names are those of a first list of files; the calls on bytes are those of \<open>Instances\<close>.\<close>

definition blk_open :: "mem_fs \<Rightarrow> path \<Rightarrow> bool \<Rightarrow> blk_fs \<Rightarrow> (io_error + fd) \<times> blk_fs" where
  "blk_open names p w k = (fst (mem_open p w names), k)"

definition blk_read_at :: "fd \<Rightarrow> u64 \<Rightarrow> nat \<Rightarrow> blk_fs \<Rightarrow> (io_error + u8 list) \<times> blk_fs" where
  "blk_read_at f off n k = (fst (mem_read_at f off n (fst k)), k)"

definition blk_dedupe :: "nat \<Rightarrow> blk_fs dedupe_ioctl" where
  "blk_dedupe B f a = (\<lambda>(fs, m). case mem_dedupe f a fs of
     (Inr out, fs) \<Rightarrow> (Inr out, fs, if di_status (do_info out) = 0
        then blk_copy B (unat f) (unat (dr_src_offset (do_range a))) (unat (ucast (di_dest_fd (do_info a)) :: fd))
               (unat (di_dest_offset (do_info a))) (unat (dr_src_length (do_range a))) m
        else m)
   | (Inl e, fs) \<Rightarrow> (Inl e, fs, m))"

definition blk_clone :: "nat \<Rightarrow> blk_fs clone_ioctl" where
  "blk_clone B f a = (\<lambda>(fs, m). case mem_clone f a fs of
     (Inr _, fs) \<Rightarrow> (Inr (), fs, blk_copy B (unat (ucast (fc_src_fd a) :: fd)) (unat (fc_src_offset a)) (unat f)
        (unat (fc_dest_offset a)) (unat (fc_src_length a)) m)
   | (Inl e, fs) \<Rightarrow> (Inl e, fs, m))"

definition blk_kernel :: "mem_fs \<Rightarrow> nat \<Rightarrow> blk_fs kernel" where
  "blk_kernel names B = \<lparr>kn_open = blk_open names, kn_read_at = blk_read_at, kn_dedupe = blk_dedupe B, kn_clone = blk_clone B\<rparr>"

definition blk_disk :: "nat \<Rightarrow> (blk_fs, nat, nat \<times> nat) disk" where
  "blk_disk B = \<lparr>dk_refers = (\<lambda>k f. Some (unat f)), dk_content = (\<lambda>k. mem_bytes (fst k)), dk_block = snd, dk_bsize = (\<lambda>i. B)\<rparr>"

text \<open>At first every block is stored by itself.\<close>

definition own_blocks :: "nat \<Rightarrow> nat \<Rightarrow> nat \<times> nat" where
  "own_blocks i b = (i, b)"

lemma blk_same: "dk_same (blk_disk B) k k' \<longleftrightarrow> mem_bytes (fst k') = mem_bytes (fst k)"
  by (simp add: dk_same_def blk_disk_def)

lemma blk_shared: "shared (blk_disk B) k i so j d n k' \<longleftrightarrow> snd k' = blk_copy B i so j d n (snd k)"
  by (simp add: shared_def blk_disk_def blk_copy_def fun_eq_iff)

lemma fd_of_scast: "ucast (scast f :: i64) = (f :: fd)"
  by (rule bit_word_eqI) (simp add: bit_simps)

lemma mem_find_bound: "mem_find fs p n = Some i \<Longrightarrow> i < n + length fs"
  by (induction fs p n rule: mem_find.induct) (auto split: if_splits)

lemma blk_grants:
  assumes "length names < 2 ^ 32"
  shows "grants (blk_kernel names B) (\<lambda>p. mem_find names p 0) (blk_disk B)"
proof -
  let ?K = "blk_kernel names B" and ?D = "blk_disk B"
  have "unat (of_nat i :: fd) = i" if "mem_find names p 0 = Some i" for p i
    using mem_find_bound [OF that] assms by (simp add: unat_of_nat)
  then have "grants_open ?K (\<lambda>p. mem_find names p 0) ?D"
    by (simp add: grants_open_def blk_kernel_def blk_open_def mem_open_def blk_same) (simp add: blk_disk_def)
  moreover have "grants_read ?K ?D"
    by (auto simp: grants_read_def blk_kernel_def blk_read_at_def mem_read_at_def mem_node_def blk_same)
      (auto simp: blk_disk_def slice_of_def min_def)
  moreover have "grants_dedupe ?K ?D"
    unfolding grants_dedupe_def
  proof (intro allI impI)
    fix f g i j and a :: dedupe_one and k :: blk_fs
    assume fg: "dk_refers ?D k f = Some i" "dk_refers ?D k g = Some j" and g: "di_dest_fd (do_info a) = scast g"
      and ok: "shareable ?D k i (unat (dr_src_offset (do_range a))) j (unat (di_dest_offset (do_info a))) (unat (dr_src_length (do_range a)))"
    have "slice_of (unat (dr_src_offset (do_range a))) (unat (dr_src_length (do_range a))) (mem_bytes (fst k) (unat f)) =
        slice_of (unat (di_dest_offset (do_info a))) (unat (dr_src_length (do_range a))) (mem_bytes (fst k) (unat g))"
      using ok fg by (simp add: shareable_def blk_disk_def)
    then show "\<exists>a' k'. kn_dedupe ?K f a k = (Inr a', k') \<and> di_status (do_info a') = 0 \<and>
        di_bytes_deduped (do_info a') = dr_src_length (do_range a) \<and> dk_same ?D k k' \<and>
        shared ?D k i (unat (dr_src_offset (do_range a))) j (unat (di_dest_offset (do_info a))) (unat (dr_src_length (do_range a))) k'"
      using fg g by (simp add: blk_kernel_def blk_dedupe_def mem_dedupe_def Let_def blk_same blk_shared fd_of_scast case_prod_unfold)
        (simp add: blk_disk_def)
  qed
  moreover have "grants_clone ?K ?D"
    unfolding grants_clone_def
  proof (intro allI impI)
    fix f g i j and a :: file_clone_range and k :: blk_fs
    assume fg: "dk_refers ?D k f = Some i" "dk_refers ?D k g = Some j" and f: "fc_src_fd a = scast f"
      and ok: "shareable ?D k i (unat (fc_src_offset a)) j (unat (fc_dest_offset a)) (unat (fc_src_length a))"
    let ?so = "unat (fc_src_offset a)" and ?d = "unat (fc_dest_offset a)" and ?n = "unat (fc_src_length a)"
    let ?src = "mem_bytes (fst k) (unat f)" and ?dst = "mem_bytes (fst k) (unat g)"
    have range: "0 < ?n" "?so + ?n \<le> length ?src" "?d + ?n \<le> length ?dst" and eq: "slice_of ?so ?n ?src = slice_of ?d ?n ?dst"
      using ok fg by (simp_all add: shareable_def blk_disk_def)
    obtain r fs where run: "mem_clone g a (fst k) = (r, fs)" by (cases "mem_clone g a (fst k)")
    then have "mem_clone g \<lparr>fc_src_fd = scast f, fc_src_offset = fc_src_offset a, fc_src_length = fc_src_length a,
        fc_dest_offset = fc_dest_offset a\<rparr> (fst k) = (r, fs)"
      using f by (cases a) simp
    from mem_clone_ok [OF this range]
    have "r = Inr ()" "mem_bytes fs = (mem_bytes (fst k))(unat g := overwrite ?d (slice_of ?so ?n ?src) ?dst)" by blast+
    moreover have "overwrite ?d (slice_of ?so ?n ?src) ?dst = ?dst"
      unfolding eq by (rule overwrite_same) (use range in simp)
    ultimately show "\<exists>k'. kn_clone ?K g a k = (Inr (), k') \<and> dk_same ?D k k' \<and> shared ?D k i ?so j ?d ?n k'"
      using fg f run by (simp add: blk_kernel_def blk_clone_def blk_same blk_shared fd_of_scast case_prod_unfold)
        (simp add: blk_disk_def)
  qed
  moreover have "length (dk_content ?D k i) < 2 ^ 63" for k i
    by (simp add: blk_disk_def mem_bytes_def min_less_iff_disj)
  ultimately show ?thesis by (simp add: grants_def)
qed

end
