(* ===== verification/UnitTests.thy ===== *)
theory UnitTests imports BloomCorrect Errors DatasetsCorrect RemountCorrect begin

text \<open>
  The repository's own unit tests, as programs over the model: an \<open>assert!\<close> that fails and an
  \<open>unwrap\<close> of an error panic, so a test passes when it returns. Here the tests of \<open>src/bloom.rs\<close>, of the
  errors in \<open>src/dedup.rs\<close>, of \<open>src/remount.rs\<close> and of the mount points in \<open>src/walk.rs\<close>. The rate of
  false positives is left out: it is a count over 100000 keys.
\<close>

section \<open>Running a test\<close>

definition unwrap :: "'a res \<Rightarrow> 'a res" where
  "unwrap r = (case r of Inl e \<Rightarrow> Inl Panic | Inr x \<Rightarrow> Inr x)"

definition is_err :: "'a res \<Rightarrow> bool res" where
  "is_err r = (case r of Inl Panic \<Rightarrow> Inl Panic | Inl (Fail e) \<Rightarrow> Inr True | Inr x \<Rightarrow> Inr False)"

definition passes :: "unit res \<Rightarrow> bool" where
  "passes t \<longleftrightarrow> t = Inr ()"

lemma unwrap_simps [simp]: "unwrap (Inr x) = Inr x" "unwrap (Inl e) = Inl Panic"
  by (simp_all add: unwrap_def)

lemma is_err_simps [simp]: "is_err (Inr x) = Inr False" "is_err (Inl (Fail e)) = Inr True"
  by (simp_all add: is_err_def)

text \<open>Several assertions in turn.\<close>

definition assert_all :: "bool list \<Rightarrow> unit res" where
  "assert_all bs = fold_res (\<lambda>b _. assert_that b) bs ()"

lemma passes_assert_all: "passes (assert_all bs) \<longleftrightarrow> list_all (\<lambda>b. b) bs"
proof -
  have "fold_res (\<lambda>b _. assert_that b) bs u = Inr () \<longleftrightarrow> list_all (\<lambda>b. b) bs" for u
    by (induction bs arbitrary: u) (auto simp: res_simps)
  then show ?thesis by (simp add: passes_def assert_all_def)
qed

section \<open>The Bloom filter\<close>

definition test_key :: "nat \<Rightarrow> u64" where
  "test_key k = of_nat k * 0x9e3779b97f4a7c15"

definition test_no_false_negatives :: "unit res" where
  "test_no_false_negatives =
     rbind (fold_res (\<lambda>k b. bloom_insert b (test_key k)) [0..<1000] (bloom_new 1000)) (\<lambda>b.
     rbind (fold_res (\<lambda>k b.
       rbind (bloom_contains b (test_key k)) (\<lambda>x.
       rbind (assert_that x) (\<lambda>_.
       rbind (bloom_check_insert b (test_key k)) (\<lambda>(x, b).
       rbind (assert_that x) (\<lambda>_. Inr b))))) [0..<1000] b) (\<lambda>_. Inr ()))"

lemma passes_no_false_negatives: "passes test_no_false_negatives"
proof -
  let ?ks = "map test_key [0..<1000]"
  obtain b where b: "fold_res (\<lambda>k b. bloom_insert b k) ?ks (bloom_new 1000) = Inr b" "bloom_inv b"
      "\<And>k. k \<in> set ?ks \<Longrightarrow> bloom_contains b k = Inr True"
    using bf.insert_all [OF bloom_new_inv, of ?ks 1000] by blast
  let ?step = "\<lambda>k b. rbind (bloom_contains b (test_key k)) (\<lambda>x. rbind (assert_that x) (\<lambda>_.
       rbind (bloom_check_insert b (test_key k)) (\<lambda>(x, b). rbind (assert_that x) (\<lambda>_. Inr b))))"
  have "\<exists>c. fold_res ?step ks c' = Inr c"
    if "bloom_inv c'" "\<And>k. k \<in> set ks \<Longrightarrow> bloom_contains c' (test_key k) = Inr True" for ks c'
    using that
  proof (induction ks arbitrary: c')
    case (Cons k ks)
    obtain p g where g: "bloom_check_insert c' (test_key k) = Inr (p, g)" "bloom_insert c' (test_key k) = Inr g"
        "bloom_contains c' (test_key k) = Inr p" "bloom_inv g"
      by (rule bf.chk_total [OF Cons.prems(1)])
    have "p" using g(3) Cons.prems(2) [of k] by simp
    moreover have "bloom_contains g (test_key j) = Inr True" if "j \<in> set ks" for j
      using bf.ins_mono [OF Cons.prems(1) Cons.prems(2) g(2), of j] that by simp
    then have "\<exists>c. fold_res ?step ks g = Inr c" by (rule Cons.IH [OF g(4)])
    ultimately show ?case using g Cons.prems(2) [of k] by simp
  qed simp
  then obtain c where "fold_res ?step [0..<1000] b = Inr c" using b(2,3) by fastforce
  moreover have "fold_res (\<lambda>k b. bloom_insert b (test_key k)) [0..<1000] (bloom_new 1000) = Inr b"
    using b(1) by (simp only: fold_res_map)
  ultimately show ?thesis by (simp only: passes_def test_no_false_negatives_def rbind_simps)
qed

section \<open>Errors\<close>

definition test_not_found_chain :: "unit res" where
  "test_not_found_chain = assert_all
     [is_not_found (Message ''open foo'' # [IoCause (SimpleIo NotFound)]), \<not> is_not_found [Message ''unrelated'']]"

definition EIO :: errno where "EIO = 5"

definition test_busy_errors_are_benign :: "unit res" where
  "test_busy_errors_are_benign =
     rbind (fold_res (\<lambda>errno _. let wrapped = Message ''open foo'' # [IoCause (OsError errno)] in
       assert_all [is_busy wrapped, \<not> is_not_found wrapped]) [EAGAIN, ETXTBSY, EPERM] ()) (\<lambda>_.
     assert_all [\<not> is_busy [IoCause (OsError EACCES)], \<not> is_busy [IoCause (OsError EIO)]])"

lemma passes_errors: "passes test_not_found_chain" "passes test_busy_errors_are_benign"
  by (simp_all add: test_not_found_chain_def test_busy_errors_are_benign_def passes_def assert_all_def errno_defs EIO_def Let_def)

section \<open>Mountinfo\<close>

definition test_parse_ro_bind :: "unit res" where
  "test_parse_ro_bind =
     rbind (expect (parse_mountinfo (bytes ''54 39 0:33 /nix/store /nix/store ro,nosuid,nodev,relatime shared:17 - zfs zroot/root/nixos rw,xattr,posixacl,casesensitive''))) (\<lambda>m.
     assert_all [mn_point m = components (bytes ''/nix/store''), mn_root m = components (bytes ''/nix/store''),
       mn_source m = bytes ''zroot/root/nixos'', mn_ro m, mn_super_rw m, mn_fstype m = bytes ''zfs'',
       {NOSUID, NODEV, RELATIME} \<subseteq> mn_flags m, NOEXEC \<notin> mn_flags m])"

definition test_parse_rw :: "unit res" where
  "test_parse_rw =
     rbind (expect (parse_mountinfo (bytes ''39 1 0:33 / / rw,relatime shared:1 - zfs zroot/root/nixos rw,xattr,posixacl''))) (\<lambda>m.
     assert_all [\<not> mn_ro m, mn_super_rw m])"

definition test_parse_truly_ro :: "unit res" where
  "test_parse_truly_ro =
     rbind (expect (parse_mountinfo (bytes ''60 1 0:40 / /backup ro,relatime - zfs backup/data ro,xattr''))) (\<lambda>m.
     assert_all [mn_ro m, \<not> mn_super_rw m])"

definition test_parse_garbage :: "unit res" where
  "test_parse_garbage =
     assert_all [parse_mountinfo (bytes '''') = None, parse_mountinfo (bytes ''not a mountinfo line'') = None]"

definition test_unescape_octal :: "unit res" where
  "test_unescape_octal = assert_all
     [unescape (bytes ''/a'' @ [BACKSLASH] @ bytes ''040b'') = components (bytes ''/a b''),
      unescape (bytes ''/x'' @ [BACKSLASH] @ bytes ''011y'' @ [BACKSLASH] @ bytes ''134z'') =
        components (bytes ''/x'' @ [TAB] @ bytes ''y'' @ [BACKSLASH] @ bytes ''z''),
      unescape (bytes ''/plain'') = components (bytes ''/plain'')]"

lemma passes_parse: "passes test_parse_rw" "passes test_parse_garbage" "passes test_parse_truly_ro"
  by code_simp+

lemma passes_unescape: "passes test_unescape_octal"
  by code_simp

lemma passes_ro_bind: "passes test_parse_ro_bind"
  by code_simp

section \<open>Mount points\<close>

definition test_mountinfo :: "u8 list" where
  "test_mountinfo = join_with NL
     [bytes ''39 1 0:33 / / rw,noatime shared:1 - zfs zroot/root/nixos rw,xattr,posixacl'',
      bytes ''54 39 0:33 /nix/store /nix/store ro,nosuid,nodev shared:17 - zfs zroot/root/nixos rw,xattr'',
      bytes ''60 39 0:40 / /var/lib/docker/zfs/graph/abc rw,relatime - zfs zroot/docker/abc rw,xattr'',
      bytes ''61 39 0:41 / /zroot rw,noatime - zfs zroot rw,xattr'',
      bytes ''62 39 0:50 / /old ro,relatime - zfs oldpool/data ro,xattr'',
      bytes ''63 39 259:1 / /boot rw,relatime - vfat /dev/nvme0n1p1 rw'']"

definition test_mounts :: "unit res" where
  "test_mounts = assert_that (zfs_mountpoints test_mountinfo {bytes ''zroot''} =
     map (components \<circ> bytes) [''/'', ''/var/lib/docker/zfs/graph/abc'', ''/zroot''])"

lemma passes_mounts: "passes test_mounts"
  by code_simp

section \<open>All of them\<close>

text \<open>
  The repository's tests that need no file or database pass on the model: the Bloom filter forgets
  none of 1000 keys, vanished and busy files are told from failures through contexts, five lines of
  mountinfo are read (a read-only bind mount, a writable one, a read-only pool, two that are garbage),
  octal escapes are undone, and of six mounts exactly the three datasets of the pool are found.
\<close>

theorem unit_tests_pass:
  "list_all passes [test_no_false_negatives, test_not_found_chain, test_busy_errors_are_benign, test_parse_ro_bind,
     test_parse_rw, test_parse_truly_ro, test_parse_garbage, test_unescape_octal, test_mounts]"
  using passes_no_false_negatives passes_errors passes_parse passes_unescape passes_ro_bind passes_mounts by simp

end
