(* ===== verification/CacheTests.thy ===== *)
theory CacheTests imports UnitTests CacheCorrect Instances begin

text \<open>
  The unit tests of \<open>src/cache.rs\<close>. They pass on every database whose calls succeed and follow the
  documented behaviour. \<open>compact_if_bloated\<close>, which looks at the size of a file of the \<open>redb\<close> crate on
  disk, is the one test left out.
\<close>

section \<open>The tests\<close>

definition test_entry :: "nat \<Rightarrow> file_entry" where
  "test_entry n = \<lparr>fe_size = 131072 * of_nat n, fe_mtime_ns = 1, fe_ctime_ns = 2, fe_blksz = 131072,
     fe_hashes = map (\<lambda>i. replicate HASH_LEN (of_nat i)) [0..<n]\<rparr>"

definition encode :: "entry_ref \<Rightarrow> u8 list res" where
  "encode e = encode_into (replicate (encoded_len e) 0) e"

definition test_roundtrip :: "('db, 'tx) redb \<Rightarrow> u8 list \<Rightarrow> unit res" where
  "test_roundtrip R path =
     rbind (unwrap (cache_open R path)) (\<lambda>cache.
     rbind (unwrap (cache_put R cache 1 42 (as_ref (test_entry 3)))) (\<lambda>cache.
     rbind (unwrap (cache_get R cache 1 42)) (\<lambda>v.
     rbind (expect v) (\<lambda>e.
     rbind (assert_that (e = test_entry 3)) (\<lambda>_.
     rbind (unwrap (cache_get R cache 1 43)) (\<lambda>v. assert_that (v = None)))))))"

definition test_encode_empty :: "unit res" where
  "test_encode_empty =
     rbind (encode (as_ref (test_entry 0))) (\<lambda>b.
     rbind (unwrap (decode b)) (\<lambda>e. assert_that (e = test_entry 0)))"

definition test_decode_garbage :: "unit res" where
  "test_decode_garbage =
     rbind (is_err (decode (replicate 5 0))) (\<lambda>b.
     rbind (assert_that b) (\<lambda>_.
     rbind (is_err (decode (replicate (HEADER + 1) 0))) assert_that))"

definition test_matches :: "unit res" where
  "test_matches =
     (let e = test_entry 2 in
     rbind (assert_that (entry_matches e (fe_size e) (fe_mtime_ns e) (fe_ctime_ns e) (fe_blksz e))) (\<lambda>_.
     rbind (assert_that (\<not> entry_matches e (fe_size e + 1) (fe_mtime_ns e) (fe_ctime_ns e) (fe_blksz e))) (\<lambda>_.
     rbind (assert_that (\<not> entry_matches e (fe_size e) (fe_mtime_ns e + 1) (fe_ctime_ns e) (fe_blksz e))) (\<lambda>_.
     assert_that (\<not> entry_matches e (fe_size e) (fe_mtime_ns e) (fe_ctime_ns e) (fe_blksz e + 1))))))"

definition test_batch :: "('db, 'tx) redb \<Rightarrow> u8 list \<Rightarrow> unit res" where
  "test_batch R path =
     rbind (unwrap (cache_open R path)) (\<lambda>cache.
     rbind (unwrap (cache_put_many R cache (map (\<lambda>i. (0, of_nat i, as_ref (test_entry i))) [0..<10]))) (\<lambda>cache.
     fold_res (\<lambda>i _. rbind (unwrap (cache_get R cache 0 (of_nat i))) (\<lambda>v.
       assert_that (v = Some (test_entry i)))) [0..<10] ()))"

definition test_prune_unseen :: "('db, 'tx) redb \<Rightarrow> u8 list \<Rightarrow> unit res" where
  "test_prune_unseen R path =
     rbind (unwrap (cache_open R path)) (\<lambda>cache.
     rbind (fold_res (\<lambda>i cache. unwrap (cache_put R cache 0 i (as_ref (test_entry 1)))) [0, 1, 2, 3, 4] cache) (\<lambda>cache.
     rbind (unwrap (cache_prune R cache (\<lambda>f i. Inr ((f, i) \<in> {(0, 1), (0, 3)})) {0})) (\<lambda>(n, cache).
     rbind (assert_that (n = 3)) (\<lambda>_.
     fold_res (\<lambda>(i, kept) _. rbind (unwrap (cache_get R cache 0 i)) (\<lambda>v. assert_that ((v \<noteq> None) = kept)))
       [(0, False), (1, True), (2, False), (3, True), (4, False)] ()))))"

definition test_prune_scoped :: "('db, 'tx) redb \<Rightarrow> u8 list \<Rightarrow> unit res" where
  "test_prune_scoped R path =
     rbind (unwrap (cache_open R path)) (\<lambda>cache.
     rbind (unwrap (cache_put R cache 1 0 (as_ref (test_entry 1)))) (\<lambda>cache.
     rbind (unwrap (cache_put R cache 2 0 (as_ref (test_entry 1)))) (\<lambda>cache.
     rbind (unwrap (cache_prune R cache (\<lambda>_ _. Inr False) {1})) (\<lambda>(n, cache).
     rbind (assert_that (n = 1)) (\<lambda>_.
     rbind (unwrap (cache_get R cache 1 0)) (\<lambda>v.
     rbind (assert_that (v = None)) (\<lambda>_.
     rbind (unwrap (cache_get R cache 2 0)) (\<lambda>v. assert_that (v \<noteq> None)))))))))"

section \<open>Operations that succeed\<close>

text \<open>A database whose calls all succeed, and which is new when it is created.\<close>

definition redb_reliable ::
    "('db, 'tx) redb \<Rightarrow> ('db \<Rightarrow> cache_key \<rightharpoonup> u8 list) \<Rightarrow> ('tx \<Rightarrow> cache_key \<rightharpoonup> u8 list) \<Rightarrow> bool" where
  "redb_reliable R tab ttab \<longleftrightarrow> redb_lawful R tab ttab \<and>
     (\<forall>p n. \<exists>db. rd_create R p n = Inr db \<and> tab db = Map.empty) \<and>
     (\<forall>db. \<exists>tx. rd_begin_read R db = Inr tx) \<and> (\<forall>db. \<exists>tx. rd_begin_write R db = Inr tx) \<and>
     (\<forall>tx. \<exists>tx'. rd_open_table R tx = Inr tx') \<and> (\<forall>tx k. \<exists>v. rd_get R tx k = Inr v) \<and>
     (\<forall>tx k n. \<exists>g tx'. rd_insert_reserve R tx k n = Inr (g, tx')) \<and>
     (\<forall>tx f s. \<exists>s' tx'. rd_retain R tx f s = Inr (s', tx')) \<and>
     (\<forall>db tx. \<exists>db'. rd_commit R db tx = Inr db')"

lemma redb_reliableD:
  assumes "redb_reliable R tab ttab"
  shows "redb_lawful R tab ttab" "\<exists>db. rd_create R p n = Inr db \<and> tab db = Map.empty"
    "\<exists>tx. rd_begin_read R db = Inr tx" "\<exists>tx. rd_begin_write R db = Inr tx"
    "\<exists>tx'. rd_open_table R tx = Inr tx'" "\<exists>v. rd_get R tx k = Inr v"
    "\<exists>g tx'. rd_insert_reserve R tx k m = Inr (g, tx')" "\<exists>s' tx'. rd_retain R tx f s = Inr (s', tx')"
    "\<exists>db'. rd_commit R db tx = Inr db'"
  using assms by (simp_all add: redb_reliable_def del: split_paired_All)

text \<open>A table of entries, each at its key.\<close>

definition holds_entries :: "(cache_key \<rightharpoonup> u8 list) \<Rightarrow> (cache_key \<rightharpoonup> file_entry) \<Rightarrow> bool" where
  "holds_entries m es \<longleftrightarrow> (\<forall>k e. es k = Some e \<longrightarrow> entry_wf (as_ref e)) \<and> m = map_option (entry_layout \<circ> as_ref) \<circ> es"

lemma open_works:
  assumes "redb_reliable R tab ttab"
  obtains db where "cache_open R path = Inr db" "holds_entries (tab db) Map.empty"
proof -
  note rel = redb_reliableD [OF assms]
  obtain db tx tx' db' where run: "rd_create R path (64 * 2 ^ 20) = Inr db" "tab db = Map.empty" "rd_begin_write R db = Inr tx"
    "rd_open_table R tx = Inr tx'" "rd_commit R db tx' = Inr db'"
    using rel(2,4,5,9) by metis
  have "tab db' = Map.empty"
    using redb_lawfulD(2) [OF rel(1) run(3)] redb_lawfulD(3) [OF rel(1) run(4)] redb_lawfulD(8) [OF rel(1) run(5)] run(2) by simp
  then show ?thesis
    using that [of db'] run by (simp add: cache_open_def holds_entries_def fun_eq_iff)
qed

lemma get_works:
  assumes "redb_reliable R tab ttab" "holds_entries (tab db) es"
  shows "cache_get R db f i = Inr (es (f, i))"
proof -
  note rel = redb_reliableD [OF assms(1)]
  obtain tx tx' v where run: "rd_begin_read R db = Inr tx" "rd_open_table R tx = Inr tx'" "rd_get R tx' (f, i) = Inr v"
    using rel(3,5,6) by metis
  have "v = map_option (entry_layout \<circ> as_ref) (es (f, i))"
    using redb_lawfulD(1) [OF rel(1) run(1)] redb_lawfulD(3) [OF rel(1) run(2)] redb_lawfulD(4) [OF rel(1) run(3)] assms(2)
    by (simp add: holds_entries_def)
  then show ?thesis
    using assms(2) by (cases "es (f, i)") (auto simp: cache_get_def run holds_entries_def decode_layout)
qed

lemma put_many_works:
  assumes "redb_reliable R tab ttab" "holds_entries (tab db) es" "\<And>f i e. (f, i, e) \<in> set xs \<Longrightarrow> entry_wf (as_ref e)"
  obtains db' where "cache_put_many R db (map (\<lambda>(f, i, e). (f, i, as_ref e)) xs) = Inr db'"
    "holds_entries (tab db') (es ++ map_of (rev (map (\<lambda>(f, i, e). ((f, i), e)) xs)))"
proof -
  note rel = redb_reliableD [OF assms(1)]
  let ?xs = "map (\<lambda>(f, i, e). (f, i, as_ref e)) xs"
  have one: "\<exists>tx'. put_one R x tx = Inr tx'" if "entry_wf (put_value x)" for x tx
  proof -
    obtain f i e where x: "x = (f, i, e)" by (cases x)
    obtain g tx' where g: "rd_insert_reserve R tx (f, i) (encoded_len e) = Inr (g, tx')" using rel(7) by blast
    have "encode_into g e = Inr (entry_layout e)"
      by (rule encode_into_layout) (use that redb_lawfulD(5) [OF rel(1) g] in \<open>simp_all add: x put_value_def\<close>)
    then show ?thesis by (simp add: put_one_def x g)
  qed
  have wf: "list_all (entry_wf \<circ> put_value) ?xs"
    using assms(3) by (auto simp: list_all_iff put_value_def)
  have "\<exists>tx'. fold_res (put_one R) ys tx = Inr tx'" if "list_all (entry_wf \<circ> put_value) ys" for ys tx
    using that
  proof (induction ys arbitrary: tx)
    case (Cons y ys)
    obtain t where "put_one R y tx = Inr t" using one [of y tx] Cons.prems by auto
    then show ?case using Cons by simp
  qed simp
  then obtain tx tx1 tx2 db' where run: "rd_begin_write R db = Inr tx" "rd_open_table R tx = Inr tx1"
      "fold_res (put_one R) ?xs tx1 = Inr tx2" "rd_commit R db tx2 = Inr db'"
    using rel(4,5,9) wf by metis
  then have put: "cache_put_many R db ?xs = Inr db'" by (simp add: cache_put_many_def)
  let ?new = "map_of (rev (map (\<lambda>(f, i, e). ((f, i), e)) xs))"
  have "map_of (rev (map (\<lambda>x. (put_key x, entry_layout (put_value x))) ?xs)) = map_option (entry_layout \<circ> as_ref) \<circ> ?new"
  proof -
    have "rev (map (\<lambda>x. (put_key x, entry_layout (put_value x))) ?xs) =
        map (\<lambda>(k, e). (k, (entry_layout \<circ> as_ref) e)) (rev (map (\<lambda>(f, i, e). ((f, i), e)) xs))"
      by (simp add: rev_map put_key_def put_value_def case_prod_unfold)
    then show ?thesis by (simp only: map_of_map)
  qed
  then have "tab db' = map_option (entry_layout \<circ> as_ref) \<circ> (es ++ ?new)"
    using cache_put_many_table [OF rel(1) wf put] assms(2)
    by (auto simp: holds_entries_def fun_eq_iff map_add_def split: option.split)
  moreover have "entry_wf (as_ref e)" if "(es ++ ?new) k = Some e" for k e
    using that assms(2,3) by (cases k) (auto simp: holds_entries_def map_add_def split: option.splits dest!: map_of_SomeD)
  ultimately show ?thesis using that [OF put] by (simp add: holds_entries_def)
qed

lemma put_works:
  assumes "redb_reliable R tab ttab" "holds_entries (tab db) es" "entry_wf (as_ref e)"
  obtains db' where "cache_put R db f i (as_ref e) = Inr db'" "holds_entries (tab db') (es((f, i) \<mapsto> e))"
  by (rule put_many_works [OF assms(1,2), of "[(f, i, e)]"]) (use assms(3) in \<open>auto simp: cache_put_def\<close>)

lemma prune_works:
  assumes "redb_reliable R tab ttab" "holds_entries (tab db) es"
  obtains db' where
    "cache_prune R db (\<lambda>f i. Inr (keep f i)) fsids = Inr (card {(f, i). (f, i) \<in> dom es \<and> f \<in> fsids \<and> \<not> keep f i}, db')"
    "holds_entries (tab db') (\<lambda>(f, i). if f \<in> fsids \<and> \<not> keep f i then None else es (f, i))"
proof -
  note rel = redb_reliableD [OF assms(1)]
  obtain tx tx1 where open': "rd_begin_write R db = Inr tx" "rd_open_table R tx = Inr tx1"
    using rel(4,5) by metis
  obtain s tx2 where retain: "rd_retain R tx1 (prune_keep (\<lambda>f i. Inr (keep f i)) fsids) (Inr 0) = Inr (s, tx2)"
    using rel(8) by blast
  obtain db' where commit: "rd_commit R db tx2 = Inr db'" using rel(9) by blast
  obtain ks where ks: "distinct ks" "retain_run (prune_keep (\<lambda>f i. Inr (keep f i)) fsids) (ttab tx1) ks (Inr 0) = (s, ttab tx2)"
    using redb_lawfulD(7) [OF rel(1) retain] by blast
  obtain n where s: "s = Inr n"
    using ks(2) retain_run_prune [of fsids "\<lambda>f i. Inr (keep f i)" keep, OF refl ks(1)] by auto
  have run: "cache_prune R db (\<lambda>f i. Inr (keep f i)) fsids = Inr (n, db')"
    by (simp add: cache_prune_def open' retain s commit)
  note tab = cache_prune_table [of R tab ttab fsids "\<lambda>f i. Inr (keep f i)" keep, OF rel(1) refl run]
  have "dom (tab db) = dom es" using assms(2) by (auto simp: holds_entries_def)
  then have "n = card {(f, i). (f, i) \<in> dom es \<and> f \<in> fsids \<and> \<not> keep f i}" by (simp add: tab(2))
  moreover have "holds_entries (tab db') (\<lambda>(f, i). if f \<in> fsids \<and> \<not> keep f i then None else es (f, i))"
    using assms(2) by (auto simp: holds_entries_def tab(1) fun_eq_iff split: if_splits)
  ultimately show ?thesis using that run by simp
qed

section \<open>The tests pass\<close>

lemma test_entry_wf: "entry_wf (as_ref (test_entry n))"
  by (simp add: entry_wf_def as_ref_def test_entry_def hash_wf_def list_all_iff)

lemma passes_codec: "passes test_encode_empty" "passes test_decode_garbage" "passes test_matches"
proof -
  have "encode (as_ref (test_entry 0)) = Inr (entry_layout (as_ref (test_entry 0)))"
    unfolding encode_def by (rule encode_into_layout) (simp_all add: test_entry_wf)
  then show "passes test_encode_empty"
    using decode_layout [OF test_entry_wf [of 0]] by (simp add: test_encode_empty_def passes_def)
  have "\<exists>e. decode (replicate 5 0) = Inl (Fail e)" "\<exists>e. decode (replicate (HEADER + 1) 0) = Inl (Fail e)"
    using decode_error by (simp_all add: HEADER_def HASH_LEN_def)
  then show "passes test_decode_garbage" by (auto simp: test_decode_garbage_def passes_def)
  show "passes test_matches" by (simp add: test_matches_def passes_def entry_matches_def Let_def)
qed

lemma passes_roundtrip:
  assumes "redb_reliable R tab ttab"
  shows "passes (test_roundtrip R path)"
proof -
  obtain db where db: "cache_open R path = Inr db" "holds_entries (tab db) Map.empty" by (rule open_works [OF assms])
  obtain db' where db': "cache_put R db 1 42 (as_ref (test_entry 3)) = Inr db'" "holds_entries (tab db') [(1, 42) \<mapsto> test_entry 3]"
    by (rule put_works [OF assms db(2) test_entry_wf])
  show ?thesis by (simp add: test_roundtrip_def passes_def db db' get_works [OF assms db'(2)])
qed

lemma passes_batch:
  assumes "redb_reliable R tab ttab"
  shows "passes (test_batch R path)"
proof -
  let ?xs = "map (\<lambda>i. (0 :: u64, of_nat i :: u64, test_entry i)) [0..<10]" let ?es = "map_of (rev (map (\<lambda>(f, i, e). ((f, i), e)) ?xs))"
  obtain db where db: "cache_open R path = Inr db" "holds_entries (tab db) Map.empty" by (rule open_works [OF assms])
  obtain db' where db': "cache_put_many R db (map (\<lambda>(f, i, e). (f, i, as_ref e)) ?xs) = Inr db'"
      "holds_entries (tab db') (Map.empty ++ ?es)"
    by (rule put_many_works [OF assms db(2), of ?xs]) (auto simp: test_entry_wf)
  have put: "cache_put_many R db (map (\<lambda>i. (0, of_nat i, as_ref (test_entry i))) [0..<10]) = Inr db'"
    using db'(1) by (simp add: comp_def)
  have small: "i = j" if "(of_nat i :: u64) = of_nat j" "i < 10" "j < 10" for i j
    using arg_cong [OF that(1), of unat] that(2,3) by (simp add: unat_of_nat)
  have get: "cache_get R db' 0 (of_nat i) = Inr (Some (test_entry i))" if "i < 10" for i
  proof -
    have "distinct (map fst (rev (map (\<lambda>(f, i, e). ((f, i), e)) ?xs)))"
      using small by (simp add: rev_map comp_def distinct_map inj_on_def)
    moreover have "((0, of_nat i), test_entry i) \<in> set (rev (map (\<lambda>(f, i, e). ((f, i), e)) ?xs))"
      using that by (auto simp: image_iff)
    ultimately have "?es (0, of_nat i) = Some (test_entry i)" by (rule map_of_is_SomeI)
    then show ?thesis by (simp add: get_works [OF assms db'(2)])
  qed
  have "fold_res (\<lambda>i _. rbind (unwrap (cache_get R db' 0 (of_nat i))) (\<lambda>v. assert_that (v = Some (test_entry i)))) is () = Inr ()"
    if "set is \<subseteq> {0..<10}" for "is"
    using that by (induction "is") (auto simp: get)
  then show ?thesis by (simp add: test_batch_def passes_def db put)
qed

lemma passes_prune:
  assumes "redb_reliable R tab ttab"
  shows "passes (test_prune_unseen R path)" "passes (test_prune_scoped R path)"
proof -
  let ?e = "test_entry 1"
  obtain db where db: "cache_open R path = Inr db" "holds_entries (tab db) Map.empty" by (rule open_works [OF assms])
  obtain d0 where d0: "cache_put R db 0 0 (as_ref ?e) = Inr d0" "holds_entries (tab d0) [(0, 0) \<mapsto> ?e]"
    by (rule put_works [OF assms db(2) test_entry_wf])
  obtain d1 where d1: "cache_put R d0 0 1 (as_ref ?e) = Inr d1" "holds_entries (tab d1) [(0, 0) \<mapsto> ?e, (0, 1) \<mapsto> ?e]"
    by (rule put_works [OF assms d0(2) test_entry_wf])
  obtain d2 where d2: "cache_put R d1 0 2 (as_ref ?e) = Inr d2" "holds_entries (tab d2) [(0, 0) \<mapsto> ?e, (0, 1) \<mapsto> ?e, (0, 2) \<mapsto> ?e]"
    by (rule put_works [OF assms d1(2) test_entry_wf])
  obtain d3 where d3: "cache_put R d2 0 3 (as_ref ?e) = Inr d3"
    "holds_entries (tab d3) [(0, 0) \<mapsto> ?e, (0, 1) \<mapsto> ?e, (0, 2) \<mapsto> ?e, (0, 3) \<mapsto> ?e]"
    by (rule put_works [OF assms d2(2) test_entry_wf])
  obtain d4 where d4: "cache_put R d3 0 4 (as_ref ?e) = Inr d4"
    "holds_entries (tab d4) [(0, 0) \<mapsto> ?e, (0, 1) \<mapsto> ?e, (0, 2) \<mapsto> ?e, (0, 3) \<mapsto> ?e, (0, 4) \<mapsto> ?e]"
    by (rule put_works [OF assms d3(2) test_entry_wf])
  let ?seen = "\<lambda>f i. (f, i) \<in> {(0 :: u64, 1 :: u64), (0, 3)}"
  have "{(f, i). (f, i) \<in> dom [(0 :: u64, 0 :: u64) \<mapsto> ?e, (0, 1) \<mapsto> ?e, (0, 2) \<mapsto> ?e, (0, 3) \<mapsto> ?e, (0, 4) \<mapsto> ?e] \<and>
      f \<in> {0} \<and> \<not> ?seen f i} = {(0, 0), (0, 2), (0, 4)}" by auto
  then have three: "card {(f, i). (f, i) \<in> dom [(0 :: u64, 0 :: u64) \<mapsto> ?e, (0, 1) \<mapsto> ?e, (0, 2) \<mapsto> ?e, (0, 3) \<mapsto> ?e, (0, 4) \<mapsto> ?e] \<and>
      f \<in> {0} \<and> \<not> ?seen f i} = 3" by simp
  obtain p where p: "cache_prune R d4 (\<lambda>f i. Inr (?seen f i)) {0} = Inr (3, p)"
    "holds_entries (tab p) (\<lambda>(f, i). if f \<in> {0} \<and> \<not> ?seen f i then None
       else [(0, 0) \<mapsto> ?e, (0, 1) \<mapsto> ?e, (0, 2) \<mapsto> ?e, (0, 3) \<mapsto> ?e, (0, 4) \<mapsto> ?e] (f, i))"
    using prune_works [OF assms d4(2), of ?seen "{0}"] unfolding three by blast
  show "passes (test_prune_unseen R path)"
    using p(1) by (simp add: test_prune_unseen_def passes_def db d0 d1 d2 d3 d4 get_works [OF assms p(2)] del: One_nat_def)
  obtain s1 where s1: "cache_put R db 1 0 (as_ref ?e) = Inr s1" "holds_entries (tab s1) [(1, 0) \<mapsto> ?e]"
    by (rule put_works [OF assms db(2) test_entry_wf])
  obtain s2 where s2: "cache_put R s1 2 0 (as_ref ?e) = Inr s2" "holds_entries (tab s2) [(1, 0) \<mapsto> ?e, (2, 0) \<mapsto> ?e]"
    by (rule put_works [OF assms s1(2) test_entry_wf])
  have "{(f, i). (f, i) \<in> dom [(1 :: u64, 0 :: u64) \<mapsto> ?e, (2, 0) \<mapsto> ?e] \<and> f \<in> {1} \<and> \<not> False} = {(1, 0)}" by auto
  then have one: "card {(f, i). (f, i) \<in> dom [(1 :: u64, 0 :: u64) \<mapsto> ?e, (2, 0) \<mapsto> ?e] \<and> f \<in> {1} \<and> \<not> False} = 1" by simp
  obtain q where q: "cache_prune R s2 (\<lambda>_ _. Inr False) {1} = Inr (1, q)"
    "holds_entries (tab q) (\<lambda>(f, i). if f \<in> {1} \<and> \<not> False then None else [(1, 0) \<mapsto> ?e, (2, 0) \<mapsto> ?e] (f, i))"
    using prune_works [OF assms s2(2), of "\<lambda>_ _. False" "{1}"] unfolding one by blast
  show "passes (test_prune_scoped R path)"
    by (simp add: test_prune_scoped_def passes_def db s1 s2 q get_works [OF assms q(2)] del: One_nat_def)
qed

text \<open>
  The tests of the cache pass on every database whose calls succeed and behave as documented:
  entries round-trip through the database and the codec, garbage is an error and no panic, a change of
  any field of the stat is noticed, a batch stores every entry, and pruning removes what was not seen,
  counts it, and leaves other datasets alone.
\<close>

theorem cache_tests_pass:
  assumes "redb_reliable R tab ttab"
  shows "list_all passes [test_roundtrip R path, test_encode_empty, test_decode_garbage, test_matches,
    test_batch R path, test_prune_unseen R path, test_prune_scoped R path]"
  using passes_codec passes_roundtrip [OF assms] passes_batch [OF assms] passes_prune [OF assms] by simp

lemma mem_redb_reliable: "redb_reliable mem_redb map_of map_of"
proof -
  have "\<exists>a b. mem_retain f t ks s = (a, b)" for f t ks s by force
  then show ?thesis
    using mem_redb_lawful by (simp add: redb_reliable_def, simp add: mem_redb_def)
qed

theorem cache_tests_pass_witness:
  "list_all passes [test_roundtrip mem_redb [99], test_batch mem_redb [99], test_prune_unseen mem_redb [99], test_prune_scoped mem_redb [99]]"
  using cache_tests_pass [OF mem_redb_reliable, of "[99]"] by simp

end
