(* ===== verification/HasherTests.thy ===== *)
theory HasherTests imports CacheTests HashCorrect begin

text \<open>
  The unit tests of \<open>src/hasher.rs\<close>, over any file system that gives back what was written: \<open>mk fs\<close>
  are the calls on a directory that holds the files \<open>fs\<close>. They pass for any hash function, where a test
  compares hashes of different data as long as these do not collide. The alignment of a buffer's address,
  which the allocator gives, is not modelled.
\<close>

section \<open>Files in a temporary directory\<close>

datatype node = Regular "u8 list" metadata | Link path

type_synonym 'r temp_files = "(path \<rightharpoonup> node) \<Rightarrow> 'r file_env"

definition ELOOP :: errno where "ELOOP = 40"

text \<open>
  Opening does not follow a link, and what is open reads as the file's bytes without an error; its
  size and whether it is a regular file are what its metadata says.
\<close>

definition temp_files_ok :: "'r temp_files \<Rightarrow> ('r \<Rightarrow> u8 list) \<Rightarrow> bool" where
  "temp_files_ok mk rem \<longleftrightarrow> (\<forall>fs. env_lawful (mk fs) rem \<and> never_fails (env_read (mk fs)) \<and>
     (\<forall>p bs m. fs p = Some (Regular bs m) \<longrightarrow> env_lstat (mk fs) p = Inr m \<and>
        (\<exists>f. env_open (mk fs) p = Inr f \<and> rem f = bs \<and> env_fstat (mk fs) f = Inr m)) \<and>
     (\<forall>p q. fs p = Some (Link q) \<longrightarrow> env_open (mk fs) p = Inl (OsError ELOOP)))"

lemma temp_filesD:
  assumes "temp_files_ok mk rem"
  shows "env_lawful (mk fs) rem" "never_fails (env_read (mk fs))"
    "fs p = Some (Regular bs m) \<Longrightarrow> env_lstat (mk fs) p = Inr m"
    "fs p = Some (Regular bs m) \<Longrightarrow> \<exists>f. env_open (mk fs) p = Inr f \<and> rem f = bs \<and> env_fstat (mk fs) f = Inr m"
    "fs p = Some (Link q) \<Longrightarrow> env_open (mk fs) p = Inl (OsError ELOOP)"
  using assms unfolding temp_files_ok_def by blast+

definition temp :: "string \<Rightarrow> path" where
  "temp name = [RootDir, Normal (bytes ''tmp''), Normal (bytes name)]"

section \<open>The tests\<close>

definition test_chunking :: "'r temp_files \<Rightarrow> (u8 list \<Rightarrow> u128) \<Rightarrow> metadata \<Rightarrow> unit res option" where
  "test_chunking mk xxh3 m =
     map_option (\<lambda>r. rbind (unwrap r) (\<lambda>hs.
       rbind (assert_that (length hs = 3)) (\<lambda>_.
       rbind (index_res hs 0) (\<lambda>h0. rbind (index_res hs 1) (\<lambda>h1. rbind (index_res hs 2) (\<lambda>h2.
       assert_all [h0 = hash_chunk xxh3 (bytes ''aaaa''), h1 = hash_chunk xxh3 (bytes ''bbbb''),
         h2 = hash_chunk xxh3 (bytes ''cc'')]))))))
     (hash_file (mk [temp ''f'' \<mapsto> Regular (bytes ''aaaabbbbcc'') m]) xxh3 (temp ''f'') 4)"

definition test_zero_sentinel :: "'r temp_files \<Rightarrow> (u8 list \<Rightarrow> u128) \<Rightarrow> metadata \<Rightarrow> unit res option" where
  "test_zero_sentinel mk xxh3 m =
     map_option (\<lambda>r. rbind (unwrap r) (\<lambda>hs.
       rbind (index_res hs 0) (\<lambda>h0. rbind (index_res hs 1) (\<lambda>h1. rbind (index_res hs 2) (\<lambda>h2.
       assert_all [h0 = ZERO_HASH, h1 \<noteq> ZERO_HASH, h2 = ZERO_HASH,
         is_zero (replicate 4096 0), \<not> is_zero [0, 0, 0, 1], \<not> is_zero [1, 0, 0, 0]])))))
     (hash_file (mk [temp ''z'' \<mapsto> Regular (replicate 4096 0 @ replicate 4096 1 @ replicate 4096 0) m])
       xxh3 (temp ''z'') 4096)"

definition test_rejects_symlink :: "'r temp_files \<Rightarrow> (u8 list \<Rightarrow> u128) \<Rightarrow> metadata \<Rightarrow> unit res option" where
  "test_rejects_symlink mk xxh3 m =
     map_option (\<lambda>r. rbind (is_err r) assert_that)
       (hash_file (mk [temp ''real'' \<mapsto> Regular (bytes ''data'') m, temp ''link'' \<mapsto> Link (temp ''real'')]) xxh3 (temp ''link'') 4096)"

definition test_empty_file :: "'r temp_files \<Rightarrow> (u8 list \<Rightarrow> u128) \<Rightarrow> metadata \<Rightarrow> unit res option" where
  "test_empty_file mk xxh3 m =
     map_option (\<lambda>r. rbind (unwrap r) (\<lambda>hs. assert_that (hs = [])))
       (hash_file (mk [temp ''e'' \<mapsto> Regular [] m]) xxh3 (temp ''e'') 4096)"

text \<open>
  \<open>invalidation\<close>, with the two closures \<open>one\<close> and \<open>cached\<close>. The metadata of the file before and after
  the append are arguments; the sleep between them shows in these.
\<close>

definition test_one ::
    "'r file_env \<Rightarrow> ('db, 'tx) redb \<Rightarrow> (u8 list \<Rightarrow> u128) \<Rightarrow> 'db \<Rightarrow> (hashed \<times> 'db) res option" where
  "test_one E R xxh3 db =
     (case paths_from_iter [(temp ''f'', 0)] of
        Inl e \<Rightarrow> Some (Inl e)
      | Inr ps \<Rightarrow> map_option (\<lambda>(r, db).
          rbind (unwrap r) (\<lambda>out.
          rbind (expect (if ps_files out = [] then None else Some (snd (last (ps_files out))))) (\<lambda>x.
          rbind (unwrap (case x of Inl e \<Rightarrow> Inl (Fail e) | Inr h \<Rightarrow> Inr h)) (\<lambda>h. Inr (h, db)))))
        (hash_files E R xxh3 db ps))"

definition test_cached :: "('db, 'tx) redb \<Rightarrow> 'db \<Rightarrow> hashed \<Rightarrow> chunk_hash list res" where
  "test_cached R db h =
     rbind (unwrap (cache_get R db (h_fsid h) (h_ino h))) (\<lambda>v. rbind (expect v) (\<lambda>e. Inr (fe_hashes e)))"

definition and_then_test :: "'a res option \<Rightarrow> ('a \<Rightarrow> 'b res option) \<Rightarrow> 'b res option" where
  "and_then_test x f = (case x of None \<Rightarrow> None | Some (Inl e) \<Rightarrow> Some (Inl e) | Some (Inr y) \<Rightarrow> f y)"

definition test_invalidation ::
    "'r temp_files \<Rightarrow> ('db, 'tx) redb \<Rightarrow> (u8 list \<Rightarrow> u128) \<Rightarrow> u8 list \<Rightarrow> metadata \<Rightarrow> metadata \<Rightarrow> unit res option" where
  "test_invalidation mk R xxh3 path m m' =
     (let before = mk [temp ''f'' \<mapsto> Regular (replicate 8192 7) m];
          after = mk [temp ''f'' \<mapsto> Regular (replicate 8192 7 @ replicate 4096 1) m'] in
     and_then_test (Some (unwrap (cache_open R path))) (\<lambda>cache.
     and_then_test (test_one before R xxh3 cache) (\<lambda>(a, cache).
     and_then_test (Some (rbind (assert_that (\<not> h_from_cache a)) (\<lambda>_. test_cached R cache a))) (\<lambda>ha.
     and_then_test (test_one before R xxh3 cache) (\<lambda>(b, cache).
     and_then_test (Some (rbind (assert_that (h_from_cache b)) (\<lambda>_.
         rbind (test_cached R cache b) (\<lambda>hb. assert_that (ha = hb))))) (\<lambda>_.
     and_then_test (test_one after R xxh3 cache) (\<lambda>(c, cache).
     Some (rbind (assert_that (\<not> h_from_cache c)) (\<lambda>_.
         rbind (test_cached R cache c) (\<lambda>hc. assert_that (ha \<noteq> hc)))))))))))"

section \<open>Hashing a file that is there\<close>

lemma hash_file_works:
  assumes "temp_files_ok mk rem" "fs p = Some (Regular bs m)" "0 < blksz"
  shows "hash_file (mk fs) xxh3 p blksz = Some (Inr (file_hashes xxh3 (unat blksz) bs))"
proof -
  note T = temp_filesD [OF assms(1)]
  obtain f where f: "env_open (mk fs) p = Inr f" "rem f = bs" using T(4) [of fs p bs m] assms(2) by blast
  have E: "reader_lawful (env_read (mk fs)) rem" "rem (try_o_direct (mk fs) f blksz) = bs"
    using T(1) [of fs] f(2) by (simp_all add: env_lawful_def try_o_direct_def)
  from hash_fd_ok [OF E(1) assms(3), of xxh3 "try_o_direct (mk fs) f blksz"] T(2) [of fs] E(2)
  obtain r' where "hash_fd xxh3 (env_read (mk fs)) (try_o_direct (mk fs) f blksz) blksz = Some (Inr (file_hashes xxh3 (unat blksz) bs), r')"
    by auto
  then show ?thesis by (simp add: hash_file_def open_nofollow_def f(1))
qed

lemma passes_chunking:
  assumes "temp_files_ok mk rem"
  shows "test_chunking mk xxh3 m = Some (Inr ())"
proof -
  have "file_hashes xxh3 4 (bytes ''aaaabbbbcc'') = map (hash_chunk xxh3) [bytes ''aaaa'', bytes ''bbbb'', bytes ''cc'']"
    by (simp add: file_hashes_def chunks.simps bytes_def of_char_def chunk_digest_def is_zero.simps ZEROS_def)
  then show ?thesis
    using hash_file_works [OF assms, of "[temp ''f'' \<mapsto> Regular (bytes ''aaaabbbbcc'') m]" "temp ''f''" _ m 4 xxh3]
    by (simp add: test_chunking_def index_res_def assert_all_def)
qed

lemma passes_empty_file:
  assumes "temp_files_ok mk rem"
  shows "test_empty_file mk xxh3 m = Some (Inr ())"
  using hash_file_works [OF assms, of "[temp ''e'' \<mapsto> Regular [] m]" "temp ''e''" _ m 4096 xxh3]
  by (simp add: test_empty_file_def file_hashes_def)

lemma passes_rejects_symlink:
  assumes "temp_files_ok mk rem"
  shows "test_rejects_symlink mk xxh3 m = Some (Inr ())"
  using temp_filesD(5) [OF assms, of "[temp ''real'' \<mapsto> Regular (bytes ''data'') m, temp ''link'' \<mapsto> Link (temp ''real'')]" "temp ''link''"]
  by (simp add: test_rejects_symlink_def hash_file_def open_nofollow_def)

lemma passes_zero_sentinel:
  assumes "temp_files_ok mk rem" "xxh3 (replicate 4096 1) \<noteq> 0"
  shows "test_zero_sentinel mk xxh3 m = Some (Inr ())"
proof -
  let ?z = "replicate 4096 (0 :: u8)" and ?o = "replicate 4096 (1 :: u8)"
  have "chunks 4096 (?z @ ?o @ ?z) = [?z, ?o, ?z]"
  proof -
    have step: "chunks 4096 (xs @ ys) = xs # chunks 4096 ys" if "length xs = 4096" for xs ys :: "u8 list"
      using that by (subst chunks.simps) auto
    show ?thesis
      using step [of ?z "?o @ ?z"] step [of ?o ?z] step [of ?z "[]"] by (simp only: length_replicate append_Nil2 chunks_Nil)
  qed
  moreover have "is_zero ?z" by (simp only: is_zero_eq length_replicate)
  moreover have "\<not> is_zero ?o" by (simp only: is_zero_eq length_replicate replicate_eq_replicate) simp
  moreover have "hash_chunk xxh3 ?o \<noteq> ZERO_HASH"
  proof
    assume "hash_chunk xxh3 ?o = ZERO_HASH"
    then have "from_le (le_bytes 16 (xxh3 ?o)) = (from_le (replicate 16 0) :: u128)"
      by (simp only: hash_chunk_def ZERO_HASH_def HASH_LEN_def)
    moreover have "from_le (replicate 16 0) = (0 :: u128)"
      by (rule bit_word_eqI) (simp add: bit_from_le)
    ultimately show False using assms(2) by (simp add: from_le_bytes)
  qed
  ultimately have hs: "file_hashes xxh3 4096 (?z @ ?o @ ?z) = [ZERO_HASH, hash_chunk xxh3 ?o, ZERO_HASH]"
    "hash_chunk xxh3 ?o \<noteq> ZERO_HASH" "is_zero ?z"
    by (simp_all only: file_hashes_def list.map chunk_digest_def if_True if_False not_False_eq_True)
  have small: "\<not> is_zero [0, 0, 0, 1]" "\<not> is_zero [1, 0, 0, 0]"
    by (simp_all add: is_zero_eq)
  have "hash_file (mk [temp ''z'' \<mapsto> Regular (?z @ ?o @ ?z) m]) xxh3 (temp ''z'') 4096 = Some (Inr [ZERO_HASH, hash_chunk xxh3 ?o, ZERO_HASH])"
    using hash_file_works [OF assms(1), of "[temp ''z'' \<mapsto> Regular (?z @ ?o @ ?z) m]" "temp ''z''" _ m 4096 xxh3] hs(1)
    by (simp)
  then show ?thesis
    using hs(2,3) small by (simp add: test_zero_sentinel_def index_res_def assert_all_def)
qed

section \<open>Hashing through the cache\<close>

lemma temp_paths:
  obtains ps fp where "paths_from_iter [(temp ''f'', 0 :: u64)] = Inr ps" "ps_files ps = [(fp, 0)]"
    "to_path (ps_table ps) fp = Some (Inr (temp ''f''))"
proof -
  have wf: "list_all (\<lambda>(p, x). path_wf p \<and> path_parent p \<noteq> None \<and> path_file_name p \<noteq> None) [(temp ''f'', 0 :: u64)]"
    by (simp add: temp_def bytes_def of_char_def path_wf_def name_ok_def SLASH_def DOT_def path_parent_def path_file_name_def)
  have "\<exists>ps. paths_from_iter [(temp ''f'', 0 :: u64)] = Inr ps \<and> table_fits (ps_table ps)"
    by (simp add: paths_from_iter_def temp_def bytes_def of_char_def paths_push_def paths_empty_def intern.simps table_empty_def path_parent_def
        path_file_name_def push_dir_def add_name_def u32_try_from_def NO_PARENT_def as_os_str_def table_fits_def seal_def)
  then obtain ps where run: "paths_from_iter [(temp ''f'', 0 :: u64)] = Inr ps" "table_fits (ps_table ps)" by blast
  from from_iter_resolves [OF wf run] that [OF run(1)] show ?thesis
    by (auto simp: paths_list_def paths_path_def)
qed

lemma test_one_eq:
  assumes "hash_one E R xxh3 db (temp ''f'') 0 = Some (Inr (s, c, hs))"
    "cache_put_many R db (if c then [] else [(st_fsid s, st_ino s, stat_entry s hs)]) = Inr db'"
  shows "test_one E R xxh3 db = Some (Inr (hashed_new s c, db'))"
proof -
  obtain ps fp where ps: "paths_from_iter [(temp ''f'', 0 :: u64)] = Inr ps" "ps_files ps = [(fp, 0)]"
    "to_path (ps_table ps) fp = Some (Inr (temp ''f''))" by (rule temp_paths)
  have all: "hash_all (hash_path E R xxh3 db (ps_table ps)) [(fp, 0)] = Some (Inr [(fp, Inr (s, c, hs))])"
    by (simp add: hash_path_def ps(3) assms(1) split_panic_def)
  have batch: "hash_batch E R xxh3 (ps_table ps) [(fp, 0)] db = Some (Inr [(fp, Inr (hashed_new s c))], db')"
    using assms(2) by (cases c) (simp_all add: hash_batch_def all List.map_filter_simps del: hash_all.simps)
  have "hash_files E R xxh3 db ps = Some (Inr \<lparr>ps_table = ps_table ps, ps_files = [(fp, Inr (hashed_new s c))]\<rparr>, db')"
    by (simp add: hash_files_def map_batched_def ps(2) batch_loop.simps batch)
  then show ?thesis by (simp add: test_one_def ps(1))
qed

lemma test_one_miss:
  assumes "redb_reliable R tab ttab" "holds_entries (tab db) es" "temp_files_ok mk rem"
    "fs (temp ''f'') = Some (Regular bs m)" "md_is_file m" "0 < st_blksz (from_metadata m 0)"
    "\<And>e. es (0, md_ino m) = Some e \<Longrightarrow> fe_size e \<noteq> md_size m"
  obtains db' where "test_one (mk fs) R xxh3 db = Some (Inr (hashed_new (from_metadata m 0) False, db'))"
    "holds_entries (tab db') (es((0, md_ino m) \<mapsto>
       stat_file_entry (from_metadata m 0) (file_hashes xxh3 (unat (st_blksz (from_metadata m 0))) bs)))"
proof -
  note T = temp_filesD [OF assms(3)]
  let ?s = "from_metadata m 0" let ?hs = "file_hashes xxh3 (unat (st_blksz ?s)) bs"
  obtain f where f: "env_open (mk fs) (temp ''f'') = Inr f" "rem f = bs" "env_fstat (mk fs) f = Inr m"
    using T(4) [of fs "temp ''f''" bs m] assms(4) by blast
  have E: "reader_lawful (env_read (mk fs)) rem" "rem (try_o_direct (mk fs) f (st_blksz ?s)) = bs"
    using T(1) [of fs] f(2) by (simp_all add: env_lawful_def try_o_direct_def)
  from hash_fd_ok [OF E(1) assms(6), of xxh3 "try_o_direct (mk fs) f (st_blksz ?s)"] T(2) [of fs] E(2)
  obtain r' where "hash_fd xxh3 (env_read (mk fs)) (try_o_direct (mk fs) f (st_blksz ?s)) (st_blksz ?s) = Some (Inr ?hs, r')"
    by auto
  then have miss: "hash_miss (mk fs) xxh3 (temp ''f'') 0 = Some (Inr (?s, False, ?hs))"
    by (simp add: hash_miss_def open_nofollow_def f regular_stat_def assms(5))
  have st: "st_fsid ?s = 0" "st_ino ?s = md_ino m" "st_size ?s = md_size m" by (simp_all add: from_metadata_def)
  have "cached_hashes R db ?s = Inr None"
    using assms(7) by (auto simp: cached_hashes_def get_works [OF assms(1,2)] st entry_matches_def split: option.split)
  then have one: "hash_one (mk fs) R xxh3 db (temp ''f'') 0 = Some (Inr (?s, False, ?hs))"
    using T(3) [of fs "temp ''f''" bs m] assms(4,5) by (simp add: hash_one_def regular_stat_def miss)
  have "entry_wf (as_ref (stat_file_entry ?s ?hs))"
    using file_hashes_wf by (simp add: entry_wf_def as_ref_def stat_file_entry_def)
  from put_works [OF assms(1,2) this, of 0 "md_ino m"] obtain db' where
    put: "cache_put R db 0 (md_ino m) (as_ref (stat_file_entry ?s ?hs)) = Inr db'"
      "holds_entries (tab db') (es((0, md_ino m) \<mapsto> stat_file_entry ?s ?hs))" by blast
  have "test_one (mk fs) R xxh3 db = Some (Inr (hashed_new ?s False, db'))"
    by (rule test_one_eq [OF one]) (use put(1) in \<open>simp add: cache_put_def stat_entry_ref st\<close>)
  then show ?thesis using put(2) by (rule that)
qed

lemma test_one_hit:
  assumes "redb_reliable R tab ttab" "holds_entries (tab db) es" "temp_files_ok mk rem"
    "fs (temp ''f'') = Some (Regular bs m)" "md_is_file m" "es (0, md_ino m) = Some (stat_file_entry (from_metadata m 0) hs)"
  obtains db' where "test_one (mk fs) R xxh3 db = Some (Inr (hashed_new (from_metadata m 0) True, db'))"
    "holds_entries (tab db') es"
proof -
  let ?s = "from_metadata m 0"
  have st: "st_fsid ?s = 0" "st_ino ?s = md_ino m" by (simp_all add: from_metadata_def)
  have "cached_hashes R db ?s = Inr (Some hs)"
    by (simp add: cached_hashes_def get_works [OF assms(1,2)] st assms(6) stat_file_entry_def entry_matches_def)
  then have one: "hash_one (mk fs) R xxh3 db (temp ''f'') 0 = Some (Inr (?s, True, hs))"
    using temp_filesD(3) [OF assms(3), of fs "temp ''f''" bs m] assms(4,5) by (simp add: hash_one_def regular_stat_def)
  obtain db' where put: "cache_put_many R db [] = Inr db'" "holds_entries (tab db') es"
    by (rule put_many_works [OF assms(1,2), of "[]"]) auto
  have "test_one (mk fs) R xxh3 db = Some (Inr (hashed_new ?s True, db'))"
    by (rule test_one_eq [OF one]) (use put(1) in simp)
  then show ?thesis using put(2) by (rule that)
qed

lemma test_cached_eq:
  assumes "redb_reliable R tab ttab" "holds_entries (tab db) es" "es (0, md_ino m) = Some (stat_file_entry s hs)"
  shows "test_cached R db (hashed_new (from_metadata m 0) c) = Inr hs"
  by (simp add: test_cached_def hashed_new_def from_metadata_def get_works [OF assms(1,2)] assms(3) stat_file_entry_def)

lemma passes_invalidation:
  fixes m m' :: metadata
  defines "blk \<equiv> st_blksz (from_metadata m 0)"
  assumes R: "redb_reliable R tab ttab" and mk: "temp_files_ok mk rem" and meta: "md_is_file m" "md_is_file m'"
    "md_ino m' = md_ino m" "md_size m' \<noteq> md_size m" "st_blksz (from_metadata m' 0) = blk" "0 < blk"
    and hash: "file_hashes xxh3 (unat blk) (replicate 8192 7) \<noteq> file_hashes xxh3 (unat blk) (replicate 8192 7 @ replicate 4096 1)"
  shows "test_invalidation mk R xxh3 path m m' = Some (Inr ())"
proof -
  let ?fs = "[temp ''f'' \<mapsto> Regular (replicate 8192 7) m]"
  let ?fs' = "[temp ''f'' \<mapsto> Regular (replicate 8192 7 @ replicate 4096 1) m']"
  let ?e = "stat_file_entry (from_metadata m 0) (file_hashes xxh3 (unat blk) (replicate 8192 7))"
  obtain d0 where d0: "cache_open R path = Inr d0" "holds_entries (tab d0) Map.empty" by (rule open_works [OF R])
  obtain d1 where d1: "test_one (mk ?fs) R xxh3 d0 = Some (Inr (hashed_new (from_metadata m 0) False, d1))"
    "holds_entries (tab d1) [(0, md_ino m) \<mapsto> ?e]"
    by (rule test_one_miss [where ?xxh3.0 = xxh3, OF R d0(2) mk, of ?fs]) (use meta in \<open>auto simp: blk_def\<close>)
  obtain d2 where d2: "test_one (mk ?fs) R xxh3 d1 = Some (Inr (hashed_new (from_metadata m 0) True, d2))"
    "holds_entries (tab d2) [(0, md_ino m) \<mapsto> ?e]"
  proof (rule test_one_hit [where ?xxh3.0 = xxh3 and fs = ?fs and m = m, OF R d1(2) mk])
    show "[(0, md_ino m) \<mapsto> ?e] (0, md_ino m) =
        Some (stat_file_entry (from_metadata m 0) (file_hashes xxh3 (unat blk) (replicate 8192 7)))" by simp
  qed (use meta(1) in simp_all)
  obtain d3 where d3: "test_one (mk ?fs') R xxh3 d2 = Some (Inr (hashed_new (from_metadata m' 0) False, d3))"
    "holds_entries (tab d3) ([(0, md_ino m) \<mapsto> ?e, (0, md_ino m') \<mapsto>
       stat_file_entry (from_metadata m' 0) (file_hashes xxh3 (unat (st_blksz (from_metadata m' 0))) (replicate 8192 7 @ replicate 4096 1))])"
  proof (rule test_one_miss [where ?xxh3.0 = xxh3 and fs = ?fs' and m = m', OF R d2(2) mk])
    show "fe_size e \<noteq> md_size m'" if "[(0, md_ino m) \<mapsto> ?e] (0, md_ino m') = Some e" for e
      using that meta(4) by (auto simp: stat_file_entry_def from_metadata_def split: if_splits)
  qed (assumption | rule that | simp add: meta)+
  have ha: "test_cached R d1 (hashed_new (from_metadata m 0) False) = Inr (file_hashes xxh3 (unat blk) (replicate 8192 7))"
    by (rule test_cached_eq [OF R d1(2)]) simp
  have hb: "test_cached R d2 (hashed_new (from_metadata m 0) True) = Inr (file_hashes xxh3 (unat blk) (replicate 8192 7))"
    by (rule test_cached_eq [OF R d2(2)]) simp
  have hc: "test_cached R d3 (hashed_new (from_metadata m' 0) False) = Inr (file_hashes xxh3 (unat blk) (replicate 8192 7 @ replicate 4096 1))"
    by (rule test_cached_eq [OF R d3(2)]) (simp add: meta)
  have fresh: "h_from_cache (hashed_new s c) = c" for s c by (simp add: hashed_new_def)
  show ?thesis
    using hash
    by (simp add: test_invalidation_def Let_def and_then_test_def d0(1) d1(1) d2(1) d3(1) ha hb hc fresh)
qed

section \<open>The tests pass\<close>

text \<open>
  The tests of the hasher pass over every file system that gives back what was written and never
  follows a link, every database whose calls succeed, and every hash function that does not collide on
  the data of the tests: chunks and a short last chunk are hashed on their own, a chunk of zeros gets the
  sentinel and no other does, a link is an error, an empty file has no hashes, and a file is hashed once,
  answered from the cache while its stat is the same, and hashed anew after an append.
\<close>

theorem hasher_tests_pass:
  assumes "temp_files_ok mk rem" "redb_reliable R tab ttab" "xxh3 (replicate 4096 1) \<noteq> 0"
    "md_is_file m" "md_is_file m'" "md_ino m' = md_ino m" "md_size m' \<noteq> md_size m"
    "st_blksz (from_metadata m' 0) = st_blksz (from_metadata m 0)" "0 < st_blksz (from_metadata m 0)"
    "file_hashes xxh3 (unat (st_blksz (from_metadata m 0))) (replicate 8192 7) \<noteq>
       file_hashes xxh3 (unat (st_blksz (from_metadata m 0))) (replicate 8192 7 @ replicate 4096 1)"
  shows "list_all (\<lambda>t. t = Some (Inr ()))
    [test_chunking mk xxh3 m, test_zero_sentinel mk xxh3 m, test_rejects_symlink mk xxh3 m, test_empty_file mk xxh3 m,
     test_invalidation mk R xxh3 path m m']"
  using passes_chunking [OF assms(1)] passes_zero_sentinel [where ?xxh3.0 = xxh3, OF assms(1,3)] passes_rejects_symlink [OF assms(1)]
    passes_empty_file [OF assms(1)] passes_invalidation [OF assms(2,1,4-10)] by simp

definition mem_temp :: "(u8 list \<times> metadata) temp_files" where
  "mem_temp fs = \<lparr>
     env_lstat = (\<lambda>p. case fs p of Some (Regular bs m) \<Rightarrow> Inr m | _ \<Rightarrow> Inl (OsError ENOENT)),
     env_open = (\<lambda>p. case fs p of Some (Regular bs m) \<Rightarrow> Inr (bs, m) | Some (Link q) \<Rightarrow> Inl (OsError ELOOP) | None \<Rightarrow> Inl (OsError ENOENT)),
     env_fstat = (\<lambda>f. Inr (snd f)),
     env_set_direct = (\<lambda>f. f),
     env_read = (\<lambda>f n. case mem_reader 3 (fst f) n of (r, bs) \<Rightarrow> (r, (bs, snd f)))\<rparr>"

lemma mem_temp_ok: "temp_files_ok mem_temp fst"
proof -
  have "env_lawful (mem_temp fs) fst" for fs
    by (auto simp: env_lawful_def mem_temp_def reader_lawful_def mem_reader_def)
  moreover have "never_fails (env_read (mem_temp fs))" for fs
    by (auto simp: never_fails_def mem_temp_def mem_reader_def)
  ultimately show ?thesis by (auto simp: temp_files_ok_def, auto simp: mem_temp_def)
qed

text \<open>A hash that tells data of different length apart.\<close>

definition length_hash :: "u8 list \<Rightarrow> u128" where
  "length_hash bs = of_nat (length bs)"

theorem hasher_tests_pass_witness:
  "list_all (\<lambda>t. t = Some (Inr ()))
    [test_chunking mem_temp length_hash sample_meta, test_zero_sentinel mem_temp length_hash sample_meta,
     test_rejects_symlink mem_temp length_hash sample_meta, test_empty_file mem_temp length_hash sample_meta,
     test_invalidation mem_temp mem_redb length_hash [99] sample_meta (sample_meta\<lparr>md_size := 7\<rparr>)]"
proof -
  have blk: "st_blksz (from_metadata sample_meta 0) = 4" "st_blksz (from_metadata (sample_meta\<lparr>md_size := 7\<rparr>) 0) = 4"
    by (simp_all add: from_metadata_def sample_meta_def u32_try_from_def)
  have hash: "length_hash (replicate 4096 1) \<noteq> 0" by (simp add: length_hash_def)
  have "length (file_hashes length_hash 4 (replicate 8192 7)) \<noteq> length (file_hashes length_hash 4 (replicate 8192 7 @ replicate 4096 1))"
    by (simp add: file_hashes_def length_chunks)
  then have diff: "file_hashes length_hash 4 (replicate 8192 7) \<noteq> file_hashes length_hash 4 (replicate 8192 7 @ replicate 4096 1)"
    by metis
  show ?thesis
    by (rule hasher_tests_pass [where ?xxh3.0 = length_hash and m' = "sample_meta\<lparr>md_size := 7\<rparr>", OF mem_temp_ok mem_redb_reliable hash])
       (use diff in \<open>simp_all add: blk, simp_all add: sample_meta_def\<close>)
qed

end
