(* ===== verification/DedupTests.thy ===== *)
theory DedupTests imports HasherTests DedupCorrect "HOL-Library.Product_Lexorder" "HOL-Library.List_Lexorder" begin

text \<open>
  The unit tests of the clone phase in \<open>src/dedup.rs\<close>, over any such file system, database and kernel,
  and the fact behind most of them: where no chunk repeats, \<open>dedup\<close> makes no system call at all.
\<close>

section \<open>The fixture\<close>

text \<open>\<open>Tx\<close>: the files of the temporary directory, and the database.\<close>

type_synonym 'db tx_state = "(path \<rightharpoonup> node) \<times> 'db"

definition DRY :: opts where
  "DRY = \<lparr>op_dry_run = True, op_fideduperange = False\<rparr>"

definition tx_synth ::
    "('db, 'tx) redb \<Rightarrow> string \<Rightarrow> u64 \<Rightarrow> u32 \<Rightarrow> chunk_hash list \<Rightarrow> metadata \<Rightarrow> 'db tx_state \<Rightarrow>
     ((path \<times> hashed) \<times> 'db tx_state) res" where
  "tx_synth R name sz blksz hashes m = (\<lambda>(fs, db).
     let p = temp name;
         fs = (if fs p = None then fs(p \<mapsto> Regular (replicate (unat sz) 0) m) else fs)
     in case fs p of
          Some (Regular bs m) \<Rightarrow>
            let s = (from_metadata m 0)\<lparr>st_blksz := blksz, st_size := sz\<rparr>
            in rbind (unwrap (cache_put_many R db [(st_fsid s, st_ino s, stat_entry s hashes)])) (\<lambda>db.
               Inr ((p, hashed_new s False), (fs, db)))
        | _ \<Rightarrow> Inl Panic)"

definition tx_file ::
    "'r temp_files \<Rightarrow> ('db, 'tx) redb \<Rightarrow> (u8 list \<Rightarrow> u128) \<Rightarrow> string \<Rightarrow> u8 list \<Rightarrow> u32 \<Rightarrow> metadata \<Rightarrow> 'db tx_state \<Rightarrow>
     ((path \<times> hashed) \<times> 'db tx_state) res option" where
  "tx_file mk R xxh3 name data blksz m = (\<lambda>(fs, db).
     let fs = fs(temp name \<mapsto> Regular data m)
     in map_option (\<lambda>r. rbind (unwrap r) (\<lambda>hashes.
          tx_synth R name (of_nat (length data)) blksz hashes m (fs, db)))
        (hash_file (mk fs) xxh3 (temp name) blksz))"

definition tx_dedup ::
    "'k kernel \<Rightarrow> ('db, 'tx) redb \<Rightarrow> (index_key groups \<Rightarrow> index_key list) \<Rightarrow> ((pair_key \<rightharpoonup> run list) \<Rightarrow> pair_key list list) \<Rightarrow>
     (path \<times> hashed) list \<Rightarrow> opts \<Rightarrow> 'db tx_state \<Rightarrow> 'k \<Rightarrow> stats res option" where
  "tx_dedup K R order split files opts = (\<lambda>(fs, db) k.
     case paths_from_iter files of
       Inl e \<Rightarrow> Some (Inl e)
     | Inr ps \<Rightarrow> map_option (\<lambda>(r, k). unwrap r) (dedup K R order split ps db opts k))"

text \<open>A new fixture with two files.\<close>

definition two_files ::
    "('db, 'tx) redb \<Rightarrow> u8 list \<Rightarrow> ('db tx_state \<Rightarrow> ((path \<times> hashed) \<times> 'db tx_state) res option) \<Rightarrow>
     ('db tx_state \<Rightarrow> ((path \<times> hashed) \<times> 'db tx_state) res option) \<Rightarrow> ((path \<times> hashed) list \<times> 'db tx_state) res option" where
  "two_files R path a b =
     and_then_test (Some (rbind (unwrap (cache_open R path)) (\<lambda>db. Inr (Map.empty, db)))) (\<lambda>tx.
     and_then_test (a tx) (\<lambda>(x, tx).
     and_then_test (b tx) (\<lambda>(y, tx). Some (Inr ([x, y], tx)))))"

section \<open>The tests\<close>

definition test_finds_dupes ::
    "'r temp_files \<Rightarrow> ('db, 'tx) redb \<Rightarrow> (u8 list \<Rightarrow> u128) \<Rightarrow> 'k kernel \<Rightarrow> (index_key groups \<Rightarrow> index_key list) \<Rightarrow>
     ((pair_key \<rightharpoonup> run list) \<Rightarrow> pair_key list list) \<Rightarrow> u8 list \<Rightarrow> metadata \<Rightarrow> metadata \<Rightarrow> 'k \<Rightarrow> unit res option" where
  "test_finds_dupes mk R xxh3 K order split path ma mb k =
     and_then_test (two_files R path
       (tx_file mk R xxh3 ''a'' (replicate 4096 9 @ replicate 4096 1) 4096 ma)
       (tx_file mk R xxh3 ''b'' (replicate 4096 9 @ replicate 4096 2) 4096 mb)) (\<lambda>(files, tx).
     and_then_test (tx_dedup K R order split files DRY tx k) (\<lambda>stats.
     Some (assert_all [n_candidates stats = 1, n_verified stats = 1, n_cloned stats = 0, n_mismatches stats = 0])))"

definition test_no_dupes ::
    "'r temp_files \<Rightarrow> ('db, 'tx) redb \<Rightarrow> (u8 list \<Rightarrow> u128) \<Rightarrow> 'k kernel \<Rightarrow> (index_key groups \<Rightarrow> index_key list) \<Rightarrow>
     ((pair_key \<rightharpoonup> run list) \<Rightarrow> pair_key list list) \<Rightarrow> u8 list \<Rightarrow> metadata \<Rightarrow> metadata \<Rightarrow> 'k \<Rightarrow> unit res option" where
  "test_no_dupes mk R xxh3 K order split path ma mb k =
     and_then_test (two_files R path (tx_file mk R xxh3 ''a'' (replicate 4096 1) 4096 ma)
       (tx_file mk R xxh3 ''b'' (replicate 4096 2) 4096 mb)) (\<lambda>(files, tx).
     and_then_test (tx_dedup K R order split files DRY tx k) (\<lambda>stats.
     Some (assert_that (n_candidates stats = 0))))"

definition test_ignores_zeros ::
    "'r temp_files \<Rightarrow> ('db, 'tx) redb \<Rightarrow> (u8 list \<Rightarrow> u128) \<Rightarrow> 'k kernel \<Rightarrow> (index_key groups \<Rightarrow> index_key list) \<Rightarrow>
     ((pair_key \<rightharpoonup> run list) \<Rightarrow> pair_key list list) \<Rightarrow> u8 list \<Rightarrow> metadata \<Rightarrow> metadata \<Rightarrow> 'k \<Rightarrow> unit res option" where
  "test_ignores_zeros mk R xxh3 K order split path ma mb k =
     and_then_test (two_files R path (tx_file mk R xxh3 ''a'' (replicate 8192 0) 4096 ma)
       (tx_file mk R xxh3 ''b'' (replicate 8192 0) 4096 mb)) (\<lambda>(files, tx).
     and_then_test (tx_dedup K R order split files DRY tx k) (\<lambda>stats.
     Some (assert_that (n_candidates stats = 0))))"

definition test_readonly_source ::
    "'r temp_files \<Rightarrow> ('db, 'tx) redb \<Rightarrow> (u8 list \<Rightarrow> u128) \<Rightarrow> 'k kernel \<Rightarrow> u8 list \<Rightarrow> metadata \<Rightarrow> metadata \<Rightarrow> 'k \<Rightarrow> unit res option" where
  "test_readonly_source mk R xxh3 K path ma mb k =
     and_then_test (two_files R path (tx_file mk R xxh3 ''ro'' (replicate 4096 9) 4096 ma)
       (tx_file mk R xxh3 ''rw'' (replicate 4096 9) 4096 mb)) (\<lambda>(files, tx).
     and_then_test (Some (paths_from_iter files)) (\<lambda>ps.
     let opts = \<lparr>op_dry_run = False, op_fideduperange = False\<rparr> in
     case worker_open K opts ps 0 False (worker_new k) of
       None \<Rightarrow> None
     | Some (r, w) \<Rightarrow>
         and_then_test (Some (unwrap r)) (\<lambda>_.
         map_option (\<lambda>(r, w). rbind (unwrap r) (\<lambda>_. Inr ())) (worker_open K opts ps 1 True w))))"

definition test_stale_index_past_eof ::
    "'r temp_files \<Rightarrow> ('db, 'tx) redb \<Rightarrow> (u8 list \<Rightarrow> u128) \<Rightarrow> 'k kernel \<Rightarrow> (index_key groups \<Rightarrow> index_key list) \<Rightarrow>
     ((pair_key \<rightharpoonup> run list) \<Rightarrow> pair_key list list) \<Rightarrow> u8 list \<Rightarrow> metadata \<Rightarrow> metadata \<Rightarrow> 'k \<Rightarrow> unit res option" where
  "test_stale_index_past_eof mk R xxh3 K order split path ma mb k =
     and_then_test (two_files R path (tx_file mk R xxh3 ''a'' (replicate 8192 9) 4096 ma)
       (tx_file mk R xxh3 ''b'' (replicate 8192 9) 4096 mb)) (\<lambda>(files, tx).
     and_then_test (tx_dedup K R order split (map (\<lambda>(p, h). (p, h\<lparr>h_size := 0\<rparr>)) files) DRY tx k) (\<lambda>stats.
     Some (assert_that (n_verified stats = 0))))"

definition test_dup_key_collision ::
    "('db, 'tx) redb \<Rightarrow> 'k kernel \<Rightarrow> (index_key groups \<Rightarrow> index_key list) \<Rightarrow>
     ((pair_key \<rightharpoonup> run list) \<Rightarrow> pair_key list list) \<Rightarrow> u8 list \<Rightarrow> metadata \<Rightarrow> metadata \<Rightarrow> 'k \<Rightarrow> unit res option" where
  "test_dup_key_collision R K order split path ma mb k =
     (let ha = replicate 16 0xaa; hb = overwrite 8 (replicate 8 0xaa) (replicate 16 0xbb) in
     and_then_test (Some (assert_that (dup_key 4096 ha = dup_key 4096 hb))) (\<lambda>_.
     and_then_test (two_files R path (Some \<circ> tx_synth R ''a'' 4096 4096 [ha] ma) (Some \<circ> tx_synth R ''b'' 4096 4096 [hb] mb)) (\<lambda>(files, tx).
     and_then_test (tx_dedup K R order split files DRY tx k) (\<lambda>stats.
     Some (assert_that (n_candidates stats = 0))))))"

definition test_cross_blksz ::
    "('db, 'tx) redb \<Rightarrow> (u8 list \<Rightarrow> u128) \<Rightarrow> 'k kernel \<Rightarrow> (index_key groups \<Rightarrow> index_key list) \<Rightarrow>
     ((pair_key \<rightharpoonup> run list) \<Rightarrow> pair_key list list) \<Rightarrow> u8 list \<Rightarrow> metadata \<Rightarrow> metadata \<Rightarrow> 'k \<Rightarrow> unit res option" where
  "test_cross_blksz R xxh3 K order split path ma mb k =
     (let data = replicate 4096 9 in
     and_then_test (two_files R path (Some \<circ> tx_synth R ''a'' 4096 4096 [hash_chunk xxh3 data] ma)
       (Some \<circ> tx_synth R ''b'' 4096 8192 [hash_chunk xxh3 data] mb)) (\<lambda>(files, tx).
     and_then_test (tx_dedup K R order split files DRY tx k) (\<lambda>stats.
     Some (assert_that (n_candidates stats = 0)))))"

section \<open>No repeats, no calls\<close>

lemma dup_groups_distinct: "distinct (map ref_key xs) \<Longrightarrow> dup_groups xs = Map.empty"
proof -
  assume distinct: "distinct (map ref_key xs)"
  have "length (filter (\<lambda>x. ref_key x = k) xs) \<le> 1" for k
    using distinct
  proof (induction xs)
    case (Cons x xs)
    have "filter (\<lambda>y. ref_key y = ref_key x) xs = []"
      using Cons.prems unfolding filter_empty_conv list.map distinct.simps set_map by (metis imageI)
    then show ?case using Cons by (cases "ref_key x = k") auto
  qed simp
  then have "\<not> 2 \<le> length (locs_of xs k)" for k
    unfolding locs_of_def length_map by (metis not_less_eq_eq numeral_2_eq_2 One_nat_def)
  then show ?thesis by (simp add: dup_groups_def fun_eq_iff)
qed

lemma run_task_no_pairs: "run_task K opts ps Map.empty keys k = Some (Inr stats_default, k)"
proof -
  have "io_for (\<lambda>(blksz, s, d). case Map.empty (blksz, s, d) of None \<Rightarrow> io_ret ()
      | Some runs \<Rightarrow> pair_files K opts ps (ucast blksz) s d runs) keys w = Some (Inr (), w)" for w
    by (induction keys arbitrary: w) (auto simp: io_simps split: prod.split)
  then show ?thesis by (simp add: run_task_def worker_new_def)
qed

lemma dedup_no_pairs:
  assumes "build_index R db (ps_files ps) = Inr idx" "build_runs (order idx) idx (ps_files ps) = Inr Map.empty"
  shows "dedup K R order split ps db opts k = Some (Inr stats_default, k)"
  by (simp add: dedup_def io_lift_Inr assms run_tasks_concat run_task_no_pairs)

definition order_ok :: "(index_key groups \<Rightarrow> index_key list) \<Rightarrow> bool" where
  "order_ok order \<longleftrightarrow> (\<forall>idx. finite (dom idx) \<longrightarrow> distinct (order idx) \<and> set (order idx) = dom idx)"

lemma dedup_no_repeats:
  assumes "build_index R db (ps_files ps) = Inr (dup_groups xs)" "distinct (map ref_key xs)" "order_ok order"
  shows "dedup K R order split ps db opts k = Some (Inr stats_default, k)"
proof (rule dedup_no_pairs [OF assms(1)])
  have "set (order (dup_groups xs)) = {}"
    using assms(3) dup_groups_distinct [OF assms(2)] by (simp add: order_ok_def)
  then have "order (dup_groups xs) = []" by simp
  then show "build_runs (order (dup_groups xs)) (dup_groups xs) (ps_files ps) = Inr Map.empty"
    by (simp add: build_runs_def fun_eq_iff)
qed

text \<open>
  C18. Where no chunk repeats, the clone phase does nothing: when all chunks that the cached hashes of
  the files give, apart from those of zeros, differ in their hash or their block size, \<open>dedup\<close> makes no
  system call, whatever the kernel would answer and however the pairs are split, and all its counters
  are 0. In particular chunks that only collide in the truncated key of the filter are no candidates.
\<close>

theorem unique_chunks_untouched:
  assumes "redb_lawful R tab ttab" "build_index R db (ps_files ps) = Inr idx" "order_ok order"
    "distinct (map ref_key (chunk_stream (entries_of (tab db)) (ps_files ps)))"
  shows "dedup K R order split ps db opts k = Some (Inr stats_default, k)"
  by (rule dedup_no_repeats [OF _ assms(4,3)]) (use build_index_exact_aux(1) [OF assms(1,2)] assms(2) in simp)

section \<open>Files and their chunks\<close>

definition test_hashed :: "metadata \<Rightarrow> u64 \<Rightarrow> u32 \<Rightarrow> hashed" where
  "test_hashed m sz blksz = \<lparr>h_fsid = 0, h_ino = md_ino m, h_size = sz, h_blksz = blksz, h_from_cache = False\<rparr>"

lemma tx_synth_works:
  assumes "redb_reliable R tab ttab" "holds_entries (tab db) es" "list_all hash_wf hashes"
    "fs (temp name) = None \<or> (\<exists>bs. fs (temp name) = Some (Regular bs m))"
  obtains fs' db' e where "tx_synth R name sz blksz hashes m (fs, db) = Inr ((temp name, test_hashed m sz blksz), (fs', db'))"
    "fs' = (if fs (temp name) = None then fs(temp name \<mapsto> Regular (replicate (unat sz) 0) m) else fs)"
    "holds_entries (tab db') (es((0, md_ino m) \<mapsto> e))" "fe_hashes e = hashes"
proof -
  let ?s = "(from_metadata m 0)\<lparr>st_blksz := blksz, st_size := sz\<rparr>"
  let ?fs = "if fs (temp name) = None then fs(temp name \<mapsto> Regular (replicate (unat sz) 0) m) else fs"
  have "entry_wf (as_ref (stat_file_entry ?s hashes))"
    using assms(3) by (simp add: entry_wf_def as_ref_def stat_file_entry_def)
  from put_works [OF assms(1,2) this, of 0 "md_ino m"] obtain db' where
    put: "cache_put R db 0 (md_ino m) (as_ref (stat_file_entry ?s hashes)) = Inr db'"
      "holds_entries (tab db') (es((0, md_ino m) \<mapsto> stat_file_entry ?s hashes))" by blast
  have st: "st_fsid (from_metadata m 0) = 0" "st_ino (from_metadata m 0) = md_ino m" by (simp_all add: from_metadata_def)
  have "hashed_new ?s False = test_hashed m sz blksz"
    by (simp add: hashed_new_def test_hashed_def from_metadata_def)
  moreover obtain bs where "?fs (temp name) = Some (Regular bs m)" using assms(4) by auto
  ultimately have "tx_synth R name sz blksz hashes m (fs, db) = Inr ((temp name, test_hashed m sz blksz), (?fs, db'))"
    using put(1) by (simp add: tx_synth_def Let_def cache_put_def stat_entry_ref st)
  then show ?thesis by (rule that) (rule refl, rule put(2), simp add: stat_file_entry_def)
qed

lemma tx_file_works:
  assumes "redb_reliable R tab ttab" "temp_files_ok mk rem" "holds_entries (tab db) es" "0 < blksz"
  obtains db' e where "tx_file mk R xxh3 name data blksz m (fs, db) =
      Some (Inr ((temp name, test_hashed m (of_nat (length data)) blksz), (fs(temp name \<mapsto> Regular data m), db')))"
    "holds_entries (tab db') (es((0, md_ino m) \<mapsto> e))" "fe_hashes e = file_hashes xxh3 (unat blksz) data"
proof -
  let ?fs = "fs(temp name \<mapsto> Regular data m)"
  have hash: "hash_file (mk ?fs) xxh3 (temp name) blksz = Some (Inr (file_hashes xxh3 (unat blksz) data))"
    by (rule hash_file_works [OF assms(2) _ assms(4)]) simp
  obtain fs' db' e where run: "tx_synth R name (of_nat (length data)) blksz (file_hashes xxh3 (unat blksz) data) m (?fs, db) =
      Inr ((temp name, test_hashed m (of_nat (length data)) blksz), (fs', db'))"
    "fs' = (if ?fs (temp name) = None then ?fs(temp name \<mapsto> Regular (replicate (unat (of_nat (length data) :: u64)) 0) m) else ?fs)"
    "holds_entries (tab db') (es((0, md_ino m) \<mapsto> e))" "fe_hashes e = file_hashes xxh3 (unat blksz) data"
    by (rule tx_synth_works [OF assms(1,3) file_hashes_wf, where fs = ?fs and m = m and name = name]) auto
  show ?thesis by (rule that) (use run hash in \<open>simp_all add: tx_file_def\<close>)
qed

lemma two_paths:
  assumes "n1 = ''a'' \<and> n2 = ''b'' \<or> n1 = ''ro'' \<and> n2 = ''rw''"
  obtains ps fa fb where "paths_from_iter [(temp n1, x), (temp n2, y)] = Inr ps" "ps_files ps = [(fa, x), (fb, y)]"
    "paths_path ps fa = Some (Inr (temp n1))" "paths_path ps fb = Some (Inr (temp n2))"
proof -
  have wf: "list_all (\<lambda>(p, x). path_wf p \<and> path_parent p \<noteq> None \<and> path_file_name p \<noteq> None) [(temp n1, x), (temp n2, y)]"
    using assms by (auto simp: temp_def bytes_def of_char_def path_wf_def name_ok_def SLASH_def DOT_def path_parent_def path_file_name_def)
  have "\<exists>ps. paths_from_iter [(temp n1, x), (temp n2, y)] = Inr ps \<and> table_fits (ps_table ps)"
    using assms by (elim disjE conjE) (simp_all add: paths_from_iter_def temp_def bytes_def of_char_def paths_push_def paths_empty_def
        intern.simps table_empty_def path_parent_def path_file_name_def push_dir_def add_name_def u32_try_from_def
        NO_PARENT_def as_os_str_def table_fits_def seal_def)
  then obtain ps where run: "paths_from_iter [(temp n1, x), (temp n2, y)] = Inr ps" "table_fits (ps_table ps)" by blast
  from from_iter_resolves [OF wf run] that [OF run(1)] show ?thesis
    by (auto simp: paths_list_def)
qed

text \<open>Both files, with the hashes the cache has for them.\<close>

definition two_entries :: "metadata \<Rightarrow> chunk_hash list \<Rightarrow> metadata \<Rightarrow> chunk_hash list \<Rightarrow> (cache_key \<rightharpoonup> file_entry) \<Rightarrow> bool" where
  "two_entries ma ha mb hb es \<longleftrightarrow> (\<exists>ea eb. es (0, md_ino ma) = Some ea \<and> es (0, md_ino mb) = Some eb \<and> fe_hashes ea = ha \<and> fe_hashes eb = hb)"

lemma two_files_data:
  assumes "redb_reliable R tab ttab" "temp_files_ok mk rem" "0 < blksz" "md_ino ma \<noteq> md_ino mb"
  obtains fs cache es where
    "two_files R path (tx_file mk R xxh3 n1 da blksz ma) (tx_file mk R xxh3 n2 db blksz mb) =
       Some (Inr ([(temp n1, test_hashed ma (of_nat (length da)) blksz), (temp n2, test_hashed mb (of_nat (length db)) blksz)], (fs, cache)))"
    "holds_entries (tab cache) es"
    "two_entries ma (file_hashes xxh3 (unat blksz) da) mb (file_hashes xxh3 (unat blksz) db) es"
proof -
  obtain c0 where c0: "cache_open R path = Inr c0" "holds_entries (tab c0) Map.empty" by (rule open_works [OF assms(1)])
  obtain c1 ea where c1: "tx_file mk R xxh3 n1 da blksz ma (Map.empty, c0) =
      Some (Inr ((temp n1, test_hashed ma (of_nat (length da)) blksz), ([temp n1 \<mapsto> Regular da ma], c1)))"
    "holds_entries (tab c1) [(0, md_ino ma) \<mapsto> ea]" "fe_hashes ea = file_hashes xxh3 (unat blksz) da"
    by (rule tx_file_works [OF assms(1,2) c0(2) assms(3)])
  obtain c2 eb where c2: "tx_file mk R xxh3 n2 db blksz mb ([temp n1 \<mapsto> Regular da ma], c1) =
      Some (Inr ((temp n2, test_hashed mb (of_nat (length db)) blksz), ([temp n1 \<mapsto> Regular da ma, temp n2 \<mapsto> Regular db mb], c2)))"
    "holds_entries (tab c2) [(0, md_ino ma) \<mapsto> ea, (0, md_ino mb) \<mapsto> eb]" "fe_hashes eb = file_hashes xxh3 (unat blksz) db"
    by (rule tx_file_works [OF assms(1,2) c1(2) assms(3)])
  show ?thesis
    by (rule that) (use c2(2) in \<open>auto simp: two_files_def and_then_test_def c0(1) c1(1,3) c2(1,3) two_entries_def assms(4)\<close>)
qed

lemma two_files_synth:
  assumes "redb_reliable R tab ttab" "list_all hash_wf ha" "list_all hash_wf hb" "md_ino ma \<noteq> md_ino mb"
  obtains fs cache es where
    "two_files R path (Some \<circ> tx_synth R ''a'' sa ba ha ma) (Some \<circ> tx_synth R ''b'' sb bb hb mb) =
       Some (Inr ([(temp ''a'', test_hashed ma sa ba), (temp ''b'', test_hashed mb sb bb)], (fs, cache)))"
    "holds_entries (tab cache) es" "two_entries ma ha mb hb es"
proof -
  obtain c0 where c0: "cache_open R path = Inr c0" "holds_entries (tab c0) Map.empty" by (rule open_works [OF assms(1)])
  obtain fs1 c1 ea where c1: "tx_synth R ''a'' sa ba ha ma (Map.empty, c0) = Inr ((temp ''a'', test_hashed ma sa ba), (fs1, c1))"
    "fs1 = [temp ''a'' \<mapsto> Regular (replicate (unat sa) 0) ma]" "holds_entries (tab c1) [(0, md_ino ma) \<mapsto> ea]" "fe_hashes ea = ha"
    by (rule tx_synth_works [OF assms(1) c0(2) assms(2), where fs = Map.empty and name = "''a''" and m = ma]) auto
  have "fs1 (temp ''b'') = None" by (simp add: c1(2) temp_def bytes_def of_char_def)
  then obtain fs2 c2 eb where c2: "tx_synth R ''b'' sb bb hb mb (fs1, c1) = Inr ((temp ''b'', test_hashed mb sb bb), (fs2, c2))"
    "holds_entries (tab c2) [(0, md_ino ma) \<mapsto> ea, (0, md_ino mb) \<mapsto> eb]" "fe_hashes eb = hb"
    by (rule tx_synth_works [OF assms(1) c1(3) assms(3), where fs = fs1 and name = "''b''" and m = mb, OF disjI1])
  show ?thesis
    by (rule that) (use c2(2) in \<open>auto simp: two_files_def and_then_test_def c0(1) c1(1,4) c2(1,3) two_entries_def assms(4)\<close>)
qed

section \<open>The index of the two files\<close>

definition nonzero :: "chunk_hash list \<Rightarrow> chunk_hash list" where
  "nonzero hs = filter (\<lambda>h. h \<noteq> ZERO_HASH) hs"

lemma file_chunks_keys:
  assumes "ents (h_fsid h, h_ino h) = Some e"
  shows "map ref_key (file_chunks ents (i, p, h)) = map (Pair (h_blksz h)) (nonzero (fe_hashes e))"
proof -
  have "map ref_key (map (\<lambda>(ci, hash). (i, ci, h, hash)) (filter (\<lambda>(ci, hash). hash \<noteq> ZERO_HASH) (enumerate n hs))) =
      map (Pair (h_blksz h)) (nonzero hs)" for n hs
    by (induction hs arbitrary: n) (simp_all add: ref_key_def nonzero_def)
  then show ?thesis by (simp add: file_chunks_def assms)
qed

lemma two_index:
  assumes "redb_reliable R tab ttab" "holds_entries (tab cache) es" "two_entries ma ha mb hb es" "length ha \<le> 2" "length hb \<le> 2"
    "ps_files ps = [(fa, xa), (fb, xb)]" "(h_fsid xa, h_ino xa) = (0, md_ino ma)" "(h_fsid xb, h_ino xb) = (0, md_ino mb)"
  shows "build_index R cache (ps_files ps) = Inr (dup_groups (chunk_stream es (ps_files ps)))"
    and "map ref_key (chunk_stream es (ps_files ps)) = map (Pair (h_blksz xa)) (nonzero ha) @ map (Pair (h_blksz xb)) (nonzero hb)"
    and "entries_of (tab cache) = es"
proof -
  obtain ea eb where e: "es (0, md_ino ma) = Some ea" "es (0, md_ino mb) = Some eb" "fe_hashes ea = ha" "fe_hashes eb = hb"
    using assms(3) by (auto simp: two_entries_def)
  show "build_index R cache (ps_files ps) = Inr (dup_groups (chunk_stream es (ps_files ps)))"
  proof (rule build_index_total_aux)
    show "cache_get R cache (h_fsid h) (h_ino h) = Inr (es (h_fsid h, h_ino h))" for h
      by (rule get_works [OF assms(1,2)])
    show "ci < 2 ^ 32" if "(fi, ci, h, hash) \<in> set (chunk_stream es (ps_files ps))" for fi ci h hash
      using that assms(4,5,7,8) e by (auto simp: chunk_stream_def file_chunks_def assms(6) in_set_enumerate_eq)
  qed (simp add: assms(6))
  show "map ref_key (chunk_stream es (ps_files ps)) = map (Pair (h_blksz xa)) (nonzero ha) @ map (Pair (h_blksz xb)) (nonzero hb)"
    using file_chunks_keys [of es xa ea] file_chunks_keys [of es xb eb] assms(7,8) e
    by (simp add: chunk_stream_def assms(6))
  show "entries_of (tab cache) = es"
  proof
    fix k
    show "entries_of (tab cache) k = es k"
      using assms(2) by (cases k; cases "es k") (auto simp: holds_entries_def entries_of_def decode_layout)
  qed
qed

lemma tx_dedup_unique:
  assumes "redb_reliable R tab ttab" "order_ok order" "holds_entries (tab cache) es" "two_entries ma ha mb hb es"
    "length ha \<le> 2" "length hb \<le> 2" "distinct (map (Pair ba) (nonzero ha) @ map (Pair bb) (nonzero hb))"
  shows "tx_dedup K R order split [(temp ''a'', test_hashed ma sa ba), (temp ''b'', test_hashed mb sb bb)] opts (fs, cache) k =
    Some (Inr stats_default)"
proof -
  obtain ps fa fb where ps: "paths_from_iter [(temp ''a'', test_hashed ma sa ba), (temp ''b'', test_hashed mb sb bb)] = Inr ps"
      "ps_files ps = [(fa, test_hashed ma sa ba), (fb, test_hashed mb sb bb)]"
    by (rule two_paths [of "''a''" "''b''"]) simp
  note idx = two_index [OF assms(1,3,4,5,6) ps(2)]
  have "dedup K R order split ps cache opts k = Some (Inr stats_default, k)"
    by (rule unique_chunks_untouched [OF redb_reliableD(1) [OF assms(1)] idx(1) assms(2)])
       (use idx(2,3) assms(7) in \<open>simp_all add: test_hashed_def\<close>)
  then show ?thesis by (simp add: tx_dedup_def ps(1))
qed

section \<open>No candidates\<close>

lemma hash_chunk_inject: "hash_chunk xxh3 x = hash_chunk xxh3 y \<longleftrightarrow> xxh3 x = xxh3 y"
proof
  have "from_le (le_bytes 16 w) = w" for w :: u128 by (rule from_le_bytes) simp
  then show "xxh3 x = xxh3 y" if "hash_chunk xxh3 x = hash_chunk xxh3 y"
    using arg_cong [OF that, of "from_le :: u8 list \<Rightarrow> u128"] by (simp add: hash_chunk_def)
qed (simp add: hash_chunk_def)

lemma file_hashes_one: "length xs = n \<Longrightarrow> 0 < n \<Longrightarrow> file_hashes xxh3 n (xs @ ys) = chunk_digest xxh3 xs # file_hashes xxh3 n ys"
  unfolding file_hashes_def by (subst chunks.simps) auto

lemma file_hashes_Nil [simp]: "file_hashes xxh3 n [] = []"
  by (simp add: file_hashes_def)

lemma digest_block: "0 < n \<Longrightarrow> chunk_digest xxh3 (replicate n v) = (if v = 0 then ZERO_HASH else hash_chunk xxh3 (replicate n v))"
  by (auto simp: chunk_digest_def is_zero_eq)

lemma hashes_block: "file_hashes xxh3 4096 (replicate 4096 v) = [chunk_digest xxh3 (replicate 4096 v)]"
  using file_hashes_one [of "replicate 4096 v" 4096 xxh3 "[]"] by (simp only: length_replicate append_Nil2 file_hashes_Nil)

lemma hashes_blocks:
  "file_hashes xxh3 4096 (replicate 4096 u @ replicate 4096 v) = [chunk_digest xxh3 (replicate 4096 u), chunk_digest xxh3 (replicate 4096 v)]"
  using file_hashes_one [of "replicate 4096 u" 4096 xxh3 "replicate 4096 v"] by (simp only: length_replicate hashes_block)

lemma block_8192: "replicate 8192 v = replicate 4096 v @ replicate 4096 v"
  using replicate_add [of 4096 4096 v] by simp

lemma passes_no_dupes:
  assumes "redb_reliable R tab ttab" "temp_files_ok mk rem" "order_ok order" "md_ino ma \<noteq> md_ino mb"
    "xxh3 (replicate 4096 1) \<noteq> xxh3 (replicate 4096 2)"
  shows "test_no_dupes mk R xxh3 K order split path ma mb k = Some (Inr ())"
proof -
  obtain fs cache es where t: "two_files R path (tx_file mk R xxh3 ''a'' (replicate 4096 1) 4096 ma) (tx_file mk R xxh3 ''b'' (replicate 4096 2) 4096 mb) =
       Some (Inr ([(temp ''a'', test_hashed ma 4096 4096), (temp ''b'', test_hashed mb 4096 4096)], (fs, cache)))"
    "holds_entries (tab cache) es"
    "two_entries ma [hash_chunk xxh3 (replicate 4096 1)] mb [hash_chunk xxh3 (replicate 4096 2)] es"
    by (rule two_files_data [where ?n1.0 = "''a''" and ?n2.0 = "''b''" and blksz = 4096 and da = "replicate 4096 1" and db = "replicate 4096 2", OF assms(1,2) _ assms(4)])
       (simp_all add: hashes_block digest_block)
  have "tx_dedup K R order split [(temp ''a'', test_hashed ma 4096 4096), (temp ''b'', test_hashed mb 4096 4096)] DRY (fs, cache) k = Some (Inr stats_default)"
    by (rule tx_dedup_unique [OF assms(1,3) t(2,3)]) (use assms(5) in \<open>auto simp: nonzero_def hash_chunk_inject\<close>)
  then show ?thesis by (simp add: test_no_dupes_def t(1) and_then_test_def stats_default_def)
qed

lemma passes_ignores_zeros:
  assumes "redb_reliable R tab ttab" "temp_files_ok mk rem" "order_ok order" "md_ino ma \<noteq> md_ino mb"
  shows "test_ignores_zeros mk R xxh3 K order split path ma mb k = Some (Inr ())"
proof -
  obtain fs cache es where t: "two_files R path (tx_file mk R xxh3 ''a'' (replicate 8192 0) 4096 ma) (tx_file mk R xxh3 ''b'' (replicate 8192 0) 4096 mb) =
       Some (Inr ([(temp ''a'', test_hashed ma 8192 4096), (temp ''b'', test_hashed mb 8192 4096)], (fs, cache)))"
    "holds_entries (tab cache) es" "two_entries ma [ZERO_HASH, ZERO_HASH] mb [ZERO_HASH, ZERO_HASH] es"
    by (rule two_files_data [where ?n1.0 = "''a''" and ?n2.0 = "''b''" and blksz = 4096 and da = "replicate 8192 0" and db = "replicate 8192 0", OF assms(1,2) _ assms(4)])
       (simp_all add: block_8192 hashes_blocks digest_block)
  have "tx_dedup K R order split [(temp ''a'', test_hashed ma 8192 4096), (temp ''b'', test_hashed mb 8192 4096)] DRY (fs, cache) k = Some (Inr stats_default)"
    by (rule tx_dedup_unique [OF assms(1,3) t(2,3)]) (auto simp: nonzero_def)
  then show ?thesis by (simp add: test_ignores_zeros_def t(1) and_then_test_def stats_default_def)
qed

lemma passes_dup_key_collision:
  assumes "redb_reliable R tab ttab" "order_ok order" "md_ino ma \<noteq> md_ino mb"
  shows "test_dup_key_collision R K order split path ma mb k = Some (Inr ())"
proof -
  let ?ha = "replicate 16 0xaa :: chunk_hash" and ?hb = "overwrite 8 (replicate 8 0xaa) (replicate 16 0xbb) :: chunk_hash"
  have keys: "dup_key 4096 ?ha = dup_key 4096 ?hb" by (simp add: dup_key_def overwrite_def slice_of_def)
  have wf: "list_all hash_wf [?ha]" "list_all hash_wf [?hb]" by (simp_all add: hash_wf_def HASH_LEN_def)
  have "hd ?ha = 0xaa" "hd ?hb = 0xbb" by (simp_all add: overwrite_def)
  note hds = this
  have ne: "?ha \<noteq> ?hb"
  proof
    assume "?ha = ?hb"
    then have "hd ?ha = hd ?hb" by (rule arg_cong)
    then show False by (simp only: hds) simp
  qed
  obtain fs cache es where t: "two_files R path (Some \<circ> tx_synth R ''a'' 4096 4096 [?ha] ma) (Some \<circ> tx_synth R ''b'' 4096 4096 [?hb] mb) =
       Some (Inr ([(temp ''a'', test_hashed ma 4096 4096), (temp ''b'', test_hashed mb 4096 4096)], (fs, cache)))"
    "holds_entries (tab cache) es" "two_entries ma [?ha] mb [?hb] es"
    by (rule two_files_synth [OF assms(1) wf assms(3)])
  have "tx_dedup K R order split [(temp ''a'', test_hashed ma 4096 4096), (temp ''b'', test_hashed mb 4096 4096)] DRY (fs, cache) k = Some (Inr stats_default)"
    by (rule tx_dedup_unique [OF assms(1,2) t(2,3)]) (use ne in \<open>auto simp: nonzero_def\<close>)
  then show ?thesis unfolding test_dup_key_collision_def Let_def t(1) keys by (simp add: and_then_test_def stats_default_def)
qed

lemma passes_cross_blksz:
  assumes "redb_reliable R tab ttab" "order_ok order" "md_ino ma \<noteq> md_ino mb"
  shows "test_cross_blksz R xxh3 K order split path ma mb k = Some (Inr ())"
proof -
  let ?h = "hash_chunk xxh3 (replicate 4096 9)"
  have wf: "list_all hash_wf [?h]" by (simp add: hash_wf_def hash_chunk_def HASH_LEN_def)
  obtain fs cache es where t: "two_files R path (Some \<circ> tx_synth R ''a'' 4096 4096 [?h] ma) (Some \<circ> tx_synth R ''b'' 4096 8192 [?h] mb) =
       Some (Inr ([(temp ''a'', test_hashed ma 4096 4096), (temp ''b'', test_hashed mb 4096 8192)], (fs, cache)))"
    "holds_entries (tab cache) es" "two_entries ma [?h] mb [?h] es"
    by (rule two_files_synth [OF assms(1) wf wf assms(3)])
  have "tx_dedup K R order split [(temp ''a'', test_hashed ma 4096 4096), (temp ''b'', test_hashed mb 4096 8192)] DRY (fs, cache) k = Some (Inr stats_default)"
    by (rule tx_dedup_unique [OF assms(1,2) t(2,3)]) (auto simp: nonzero_def)
  then show ?thesis unfolding test_cross_blksz_def Let_def t(1) by (simp add: and_then_test_def stats_default_def)
qed

lemma finite_dup_groups: "finite (dom (dup_groups xs))"
proof (rule finite_subset)
  show "dom (dup_groups xs) \<subseteq> ref_key ` set xs"
  proof
    fix k assume "k \<in> dom (dup_groups xs)"
    then have "filter (\<lambda>x. ref_key x = k) xs \<noteq> []" by (auto simp: dup_groups_def locs_of_def split: if_splits)
    then show "k \<in> ref_key ` set xs" unfolding filter_empty_conv by blast
  qed
qed simp

lemma passes_stale:
  assumes "redb_reliable R tab ttab" "temp_files_ok mk rem" "order_ok order" "md_ino ma \<noteq> md_ino mb"
  shows "test_stale_index_past_eof mk R xxh3 K order split path ma mb k = Some (Inr ())"
proof -
  let ?c = "chunk_digest xxh3 (replicate 4096 9)" and ?xa = "test_hashed ma 0 4096" and ?xb = "test_hashed mb 0 4096"
  obtain fs cache es where t: "two_files R path (tx_file mk R xxh3 ''a'' (replicate 8192 9) 4096 ma) (tx_file mk R xxh3 ''b'' (replicate 8192 9) 4096 mb) =
       Some (Inr ([(temp ''a'', test_hashed ma 8192 4096), (temp ''b'', test_hashed mb 8192 4096)], (fs, cache)))"
    "holds_entries (tab cache) es" "two_entries ma [?c, ?c] mb [?c, ?c] es"
    by (rule two_files_data [where ?n1.0 = "''a''" and ?n2.0 = "''b''" and blksz = 4096 and da = "replicate 8192 9" and db = "replicate 8192 9", OF assms(1,2) _ assms(4)])
       (simp_all add: block_8192 hashes_blocks)
  obtain ps fa fb where ps: "paths_from_iter [(temp ''a'', ?xa), (temp ''b'', ?xb)] = Inr ps" "ps_files ps = [(fa, ?xa), (fb, ?xb)]"
    by (rule two_paths [of "''a''" "''b''"]) simp
  have built: "build_index R cache (ps_files ps) = Inr (dup_groups (chunk_stream es (ps_files ps)))" (is "_ = Inr ?idx")
    by (rule two_index(1) [OF assms(1) t(2,3) _ _ ps(2)]) (simp_all add: test_hashed_def)
  have wf: "index_wf (ps_files ps) ?idx" by (rule build_index_wf_aux [OF redb_reliableD(1) [OF assms(1)] built])
  have ord: "distinct (order ?idx)" "set (order ?idx) = dom ?idx"
    using assms(3) finite_dup_groups unfolding order_ok_def by blast+
  obtain pairs where pairs: "build_runs (order ?idx) ?idx (ps_files ps) = Inr pairs"
    "\<And>k. pairs k = None \<longleftrightarrow> dup_pairs ?idx (ps_files ps) k = {}"
    using build_runs_spec [OF wf ord] by metis
  have "loc_len (ps_files ps) b l = 0" if "unat (loc_file l) < 2" for b l
  proof -
    have "unat (loc_file l) = 0 \<or> unat (loc_file l) = 1" using that by auto
    then show ?thesis by (auto simp: loc_len_def ps(2) chunk_len_def test_hashed_def saturating_sub_def Let_def)
  qed
  moreover have "unat (loc_file (hd ls)) < 2" if "?idx k = Some ls" for k ls
    using index_wfD(1) [OF wf that] by (cases ls) (auto simp: group_wf_def ps(2))
  ultimately have "dup_pairs ?idx (ps_files ps) k = {}" for k
    by (cases k) (auto simp: dup_pairs_def)
  then have "pairs = Map.empty" using pairs(2) by (simp add: fun_eq_iff)
  then have "dedup K R order split ps cache DRY k = Some (Inr stats_default, k)"
    using dedup_no_pairs [OF built] pairs(1) by simp
  then have "tx_dedup K R order split [(temp ''a'', ?xa), (temp ''b'', ?xb)] DRY (fs, cache) k = Some (Inr stats_default)"
    by (simp add: tx_dedup_def ps(1))
  moreover have "map (\<lambda>(p, h). (p, h\<lparr>h_size := 0\<rparr>)) [(temp ''a'', test_hashed ma 8192 4096), (temp ''b'', test_hashed mb 8192 4096)] =
      [(temp ''a'', ?xa), (temp ''b'', ?xb)]" by (simp add: test_hashed_def)
  ultimately show ?thesis
    unfolding test_stale_index_past_eof_def t(1) and_then_test_def by (simp add: stats_default_def)
qed

section \<open>Opening and verifying\<close>

text \<open>A kernel that opens the files for reading and reads them, all at once and without an error.\<close>

definition reads_files :: "'k kernel \<Rightarrow> 'k \<Rightarrow> (path \<rightharpoonup> node) \<Rightarrow> bool" where
  "reads_files K k fs \<longleftrightarrow> (\<forall>p bs m. fs p = Some (Regular bs m) \<longrightarrow>
     (\<exists>f. kn_open K p False k = (Inr f, k) \<and> (\<forall>off n. kn_read_at K f off n k = (Inr (slice_of (unat off) n bs), k))))"

lemma reads_filesD:
  assumes "reads_files K k fs" "fs p = Some (Regular bs m)"
  obtains f where "kn_open K p False k = (Inr f, k)" "\<And>off n. kn_read_at K f off n k = (Inr (slice_of (unat off) n bs), k)"
  using assms unfolding reads_files_def by blast

lemma read_at_once:
  assumes "\<And>off n. kn_read_at K f off n k = (Inr (slice_of (unat off) n bs), k)" "length buf = m" "unat off + m \<le> length bs"
  shows "read_exact_at K f buf 0 off k = (Inr (), slice_of (unat off) m bs, k)"
proof (cases "m = 0")
  case True
  then show ?thesis using assms(2) by (simp add: read_exact_at.simps slice_of_def)
next
  case False
  let ?bs = "slice_of (unat off) m bs"
  have len: "length ?bs = m" using assms(3) by simp
  have "?bs \<noteq> []" unfolding length_0_conv [symmetric] len by (rule False)
  moreover have "overwrite 0 (take m ?bs) buf = ?bs" using len assms(2) by (simp add: overwrite_def)
  ultimately have "?bs \<noteq> []" "overwrite 0 (take m ?bs) buf = ?bs" by blast+
  then show ?thesis
    using False len assms(2) by (simp add: read_exact_at.simps [of K f buf 0] assms(1)) (simp add: read_exact_at.simps)
qed

lemma passes_readonly_source:
  assumes "redb_reliable R tab ttab" "temp_files_ok mk rem" "md_ino ma \<noteq> md_ino mb"
    "reads_files K k [temp ''ro'' \<mapsto> Regular (replicate 4096 9) ma]" "kn_open K (temp ''rw'') True k = (Inr f, k')"
  shows "test_readonly_source mk R xxh3 K path ma mb k = Some (Inr ())"
proof -
  obtain fs cache es where t: "two_files R path (tx_file mk R xxh3 ''ro'' (replicate 4096 9) 4096 ma) (tx_file mk R xxh3 ''rw'' (replicate 4096 9) 4096 mb) =
       Some (Inr ([(temp ''ro'', test_hashed ma 4096 4096), (temp ''rw'', test_hashed mb 4096 4096)], (fs, cache)))"
    by (rule two_files_data [where ?n1.0 = "''ro''" and ?n2.0 = "''rw''" and blksz = 4096 and da = "replicate 4096 9" and db = "replicate 4096 9", OF assms(1,2) _ assms(3)])
       simp_all
  obtain ps fa fb where ps: "paths_from_iter [(temp ''ro'', test_hashed ma 4096 4096), (temp ''rw'', test_hashed mb 4096 4096)] = Inr ps"
      "ps_files ps = [(fa, test_hashed ma 4096 4096), (fb, test_hashed mb 4096 4096)]"
      "paths_path ps fa = Some (Inr (temp ''ro''))" "paths_path ps fb = Some (Inr (temp ''rw''))"
    by (rule two_paths [of "''ro''" "''rw''"]) simp
  obtain g where "kn_open K (temp ''ro'') False k = (Inr g, k)"
    by (rule reads_filesD [OF assms(4), of "temp ''ro''"]) simp_all
  then have a: "worker_open K \<lparr>op_dry_run = False, op_fideduperange = False\<rparr> ps 0 False (worker_new k) = Some (Inr g, worker_new k)"
    by (simp add: worker_open_def ps index_res_def io_lift_Inr io_opt_Some io_context_def io_call_def worker_new_def)
  have b: "worker_open K \<lparr>op_dry_run = False, op_fideduperange = False\<rparr> ps 1 True (worker_new k) = Some (Inr f, (worker_new k)\<lparr>ws_kernel := k'\<rparr>)"
    using assms(5) by (simp add: worker_open_def ps index_res_def io_lift_Inr io_opt_Some io_context_def io_call_def worker_new_def)
  show ?thesis
    unfolding test_readonly_source_def t and_then_test_def option.case sum.case prod.case ps(1) Let_def a unwrap_simps b by simp
qed

section \<open>One duplicate\<close>

definition splits_ok :: "((pair_key \<rightharpoonup> run list) \<Rightarrow> pair_key list list) \<Rightarrow> bool" where
  "splits_ok split \<longleftrightarrow> (\<forall>pairs. finite (dom pairs) \<longrightarrow> distinct (concat (split pairs)) \<and> set (concat (split pairs)) = dom pairs)"

lemma single_list: "distinct xs \<Longrightarrow> set xs = {x} \<Longrightarrow> xs = [x]"
  by (cases xs; cases "tl xs") auto

text \<open>The one pair of files with one run of the first chunk, in a dry run.\<close>

definition first_run :: run where
  "first_run = \<lparr>run_src = \<lparr>loc_file = 0, loc_chunk = 0\<rparr>, run_dst = \<lparr>loc_file = 1, loc_chunk = 0\<rparr>, run_chunks = 1\<rparr>"

lemma verify_first:
  assumes "\<And>off n. kn_read_at K f off n k = (Inr (slice_of (unat off) n A), k)" "\<And>off n. kn_read_at K g off n k = (Inr (slice_of (unat off) n B), k)"
    "4096 \<le> length A" "4096 \<le> length B" "take 4096 A = take 4096 B" "ws_kernel w = k"
  shows "verify_and_clone K DRY f 0 g 0 4096 True w = Some (Inr (Some 4096), w\<lparr>ws_buf_a := take 4096 A, ws_buf_b := take 4096 B\<rparr>)"
proof -
  have a: "read_exact_at K f (resize 4096 buf) 0 0 k = (Inr (), take 4096 A, k)" for buf
    using read_at_once [of K f k A "resize 4096 buf" 4096 0, OF assms(1)] assms(3) by (simp add: slice_of_def)
  have b: "read_exact_at K g (resize 4096 buf) 0 0 k = (Inr (), take 4096 B, k)" for buf
    using read_at_once [of K g k B "resize 4096 buf" 4096 0, OF assms(2)] assms(4) by (simp add: slice_of_def)
  show ?thesis
    by (simp add: verify_and_clone_def io_bind_def read_a_def read_b_def a b assms(5,6) io_gets_def DRY_def io_ret_def)
qed

lemma passes_finds_dupes:
  fixes xxh3 :: "u8 list \<Rightarrow> u128"
  defines "H v \<equiv> xxh3 (replicate 4096 v)"
  assumes "redb_reliable R tab ttab" "temp_files_ok mk rem" "order_ok order" "splits_ok split" "md_ino ma \<noteq> md_ino mb"
    "distinct [0, H 9, H 1, H 2]"
    "reads_files K k [temp ''a'' \<mapsto> Regular (replicate 4096 9 @ replicate 4096 1) ma,
       temp ''b'' \<mapsto> Regular (replicate 4096 9 @ replicate 4096 2) mb]"
  shows "test_finds_dupes mk R xxh3 K order split path ma mb k = Some (Inr ())"
proof -
  let ?A = "replicate 4096 9 @ replicate 4096 1 :: u8 list" and ?B = "replicate 4096 9 @ replicate 4096 2 :: u8 list"
  let ?h = "\<lambda>v. hash_chunk xxh3 (replicate 4096 v)"
  let ?xa = "test_hashed ma 8192 4096" and ?xb = "test_hashed mb 8192 4096"
  obtain fs cache es where t: "two_files R path (tx_file mk R xxh3 ''a'' ?A 4096 ma) (tx_file mk R xxh3 ''b'' ?B 4096 mb) =
       Some (Inr ([(temp ''a'', ?xa), (temp ''b'', ?xb)], (fs, cache)))"
    "holds_entries (tab cache) es" "two_entries ma [?h 9, ?h 1] mb [?h 9, ?h 2] es"
    by (rule two_files_data [where ?n1.0 = "''a''" and ?n2.0 = "''b''" and blksz = 4096 and da = ?A and db = ?B, OF assms(2,3) _ assms(6)])
       (simp_all add: hashes_blocks digest_block)
  obtain ps fa fb where ps: "paths_from_iter [(temp ''a'', ?xa), (temp ''b'', ?xb)] = Inr ps" "ps_files ps = [(fa, ?xa), (fb, ?xb)]"
    "paths_path ps fa = Some (Inr (temp ''a''))" "paths_path ps fb = Some (Inr (temp ''b''))"
    by (rule two_paths [of "''a''" "''b''"]) simp
  have built: "build_index R cache (ps_files ps) = Inr (dup_groups (chunk_stream es (ps_files ps)))" (is "_ = Inr ?idx")
    by (rule two_index(1) [OF assms(2) t(2,3) _ _ ps(2)]) (simp_all add: test_hashed_def)
  have zero: "?h v \<noteq> ZERO_HASH" if "H v \<noteq> 0" for v
  proof
    assume "?h v = ZERO_HASH"
    moreover have "le_bytes 16 (0 :: u128) = ZERO_HASH" by (simp add: le_bytes_def ZERO_HASH_def HASH_LEN_def map_replicate_const)
    ultimately have "from_le (le_bytes 16 (H v)) = (from_le (le_bytes 16 (0 :: u128)) :: u128)" by (simp only: H_def hash_chunk_def)
    then show False using that by (simp add: from_le_bytes)
  qed
  obtain ea eb where e: "es (0, md_ino ma) = Some ea" "es (0, md_ino mb) = Some eb" "fe_hashes ea = [?h 9, ?h 1]" "fe_hashes eb = [?h 9, ?h 2]"
    using t(3) by (auto simp: two_entries_def)
  have stream: "chunk_stream es (ps_files ps) = [(0, 0, ?xa, ?h 9), (0, 1, ?xa, ?h 1), (1, 0, ?xb, ?h 9), (1, 1, ?xb, ?h 2)]"
    using assms(7) zero by (simp add: chunk_stream_def file_chunks_def ps(2) test_hashed_def e)
  have hs: "?h 9 \<noteq> ?h 1" "?h 9 \<noteq> ?h 2" "?h 1 \<noteq> ?h 2" using assms(7) by (auto simp: hash_chunk_inject H_def)
  have idx: "?idx = [(4096, ?h 9) \<mapsto> [\<lparr>loc_file = 0, loc_chunk = 0\<rparr>, \<lparr>loc_file = 1, loc_chunk = 0\<rparr>]]"
    unfolding stream using hs by (intro ext) (auto simp: dup_groups_def locs_of_def ref_key_def ref_loc_def test_hashed_def)
  have "distinct (order ?idx) \<and> set (order ?idx) = dom ?idx"
    using assms(4) finite_dup_groups unfolding order_ok_def by blast
  then have ord: "order ?idx = [(4096, ?h 9)]" by (intro single_list) (simp_all add: idx)
  let ?pairs = "[(4096, 0, 1) \<mapsto> [first_run]] :: pair_key \<rightharpoonup> run list"
  have runs: "build_runs (order ?idx) ?idx (ps_files ps) = Inr ?pairs"
    unfolding ord unfolding idx
    by (simp add: build_runs_def push_group_def push_pair_def index_res_def ps(2) test_hashed_def chunk_len_def
        saturating_sub_def Let_def coalesce_def coalesce_step_def first_run_def fun_eq_iff)
  have "distinct (concat (split ?pairs)) \<and> set (concat (split ?pairs)) = dom ?pairs"
    using assms(5) [unfolded splits_ok_def, rule_format, of ?pairs] by simp
  then have spl: "concat (split ?pairs) = [(4096, 0, 1)]" by (intro single_list) simp_all
  obtain f where f: "kn_open K (temp ''a'') False k = (Inr f, k)" "\<And>off n. kn_read_at K f off n k = (Inr (slice_of (unat off) n ?A), k)"
    by (rule reads_filesD [OF assms(8), of "temp ''a''" ?A ma]) (simp_all add: temp_def bytes_def of_char_def)
  obtain g where g: "kn_open K (temp ''b'') False k = (Inr g, k)" "\<And>off n. kn_read_at K g off n k = (Inr (slice_of (unat off) n ?B), k)"
    by (rule reads_filesD [OF assms(8), of "temp ''b''" ?B mb]) simp_all
  have verify: "ws_kernel w = k \<Longrightarrow> verify_and_clone K DRY f 0 g 0 4096 True w =
      Some (Inr (Some 4096), w\<lparr>ws_buf_a := take 4096 ?A, ws_buf_b := take 4096 ?B\<rparr>)" for w
    by (rule verify_first [OF f(2) g(2)]) simp_all
  have dry: "op_dry_run DRY" by (simp add: DRY_def)
  have "\<exists>w. pair_files K DRY ps 4096 0 1 [first_run] (worker_new k) = Some (Inr (), w) \<and>
      ws_stats w = stats_default\<lparr>n_candidates := 1, n_verified := 1, n_bytes := 4096\<rparr>"
    by (simp add: pair_eval ps(2-4) f(1) g(1) dry first_run_def test_hashed_def verify)
  then obtain w where w: "pair_files K DRY ps 4096 0 1 [first_run] (worker_new k) = Some (Inr (), w)"
      "ws_stats w = stats_default\<lparr>n_candidates := 1, n_verified := 1, n_bytes := 4096\<rparr>" by blast
  have "dedup K R order split ps cache DRY k = Some (Inr (ws_stats w), ws_kernel w)"
    by (simp add: dedup_def io_lift_Inr built runs run_tasks_concat spl run_task_def w(1) io_bind_def io_ret_def)
  then have "tx_dedup K R order split [(temp ''a'', ?xa), (temp ''b'', ?xb)] DRY (fs, cache) k =
      Some (Inr (stats_default\<lparr>n_candidates := 1, n_verified := 1, n_bytes := 4096\<rparr>))"
    by (simp add: tx_dedup_def ps(1) w(2))
  then show ?thesis
    unfolding test_finds_dupes_def t(1) and_then_test_def by (simp add: stats_default_def assert_all_def)
qed

section \<open>The tests pass\<close>

lemma reads_files_mono:
  "reads_files K k fs \<Longrightarrow> (\<And>p x. fs' p = Some x \<Longrightarrow> fs p = Some x) \<Longrightarrow> reads_files K k fs'"
  unfolding reads_files_def by blast

text \<open>The files of the tests that read or open any.\<close>

definition test_disk :: "metadata \<Rightarrow> metadata \<Rightarrow> (path \<rightharpoonup> node)" where
  "test_disk ma mb = [temp ''a'' \<mapsto> Regular (replicate 4096 9 @ replicate 4096 1) ma,
     temp ''b'' \<mapsto> Regular (replicate 4096 9 @ replicate 4096 2) mb, temp ''ro'' \<mapsto> Regular (replicate 4096 9) ma]"

lemma temp_distinct:
  "temp ''a'' \<noteq> temp ''b''" "temp ''a'' \<noteq> temp ''ro''" "temp ''b'' \<noteq> temp ''ro''"
  "temp ''a'' \<noteq> temp ''rw''" "temp ''b'' \<noteq> temp ''rw''" "temp ''ro'' \<noteq> temp ''rw''"
  by (simp_all add: temp_def bytes_def of_char_def)

text \<open>
  C38. The tests of the clone phase pass, over every file system that gives back what was written, every
  database whose calls succeed, every kernel that opens and reads these files, every order of the hash map
  and split into tasks, and every hash function that does not collide on the data of the tests: one
  repeated chunk is one verified candidate that a dry run does not clone, different data, zeros, hashes
  that only collide in their truncation and different block sizes give no candidate, a file that is
  shorter than the index says is skipped, and a read-only source can be opened.
\<close>

theorem dedup_tests_pass:
  assumes "redb_reliable R tab ttab" "temp_files_ok mk rem" "order_ok order" "splits_ok split" "md_ino ma \<noteq> md_ino mb"
    "distinct [0, xxh3 (replicate 4096 9), xxh3 (replicate 4096 1), xxh3 (replicate 4096 2)]"
    "reads_files K k (test_disk ma mb)" "kn_open K (temp ''rw'') True k = (Inr f, k')"
  shows "list_all (\<lambda>t. t = Some (Inr ()))
    [test_finds_dupes mk R xxh3 K order split path ma mb k, test_no_dupes mk R xxh3 K order split path ma mb k,
     test_ignores_zeros mk R xxh3 K order split path ma mb k, test_readonly_source mk R xxh3 K path ma mb k,
     test_stale_index_past_eof mk R xxh3 K order split path ma mb k, test_dup_key_collision R K order split path ma mb k,
     test_cross_blksz R xxh3 K order split path ma mb k]"
proof -
  have ab: "reads_files K k [temp ''a'' \<mapsto> Regular (replicate 4096 9 @ replicate 4096 1) ma,
      temp ''b'' \<mapsto> Regular (replicate 4096 9 @ replicate 4096 2) mb]"
    by (rule reads_files_mono [OF assms(7)]) (use temp_distinct in \<open>auto simp: test_disk_def split: if_splits\<close>)
  have ro: "reads_files K k [temp ''ro'' \<mapsto> Regular (replicate 4096 9) ma]"
    by (rule reads_files_mono [OF assms(7)]) (auto simp: test_disk_def split: if_splits)
  have ne: "xxh3 (replicate 4096 1) \<noteq> xxh3 (replicate 4096 2)" using assms(6) by auto
  show ?thesis
    unfolding list.pred_inject
    by (intro conjI list.pred_inject(1) passes_finds_dupes [where ?xxh3.0 = xxh3, OF assms(1-6) ab] passes_no_dupes [where ?xxh3.0 = xxh3, OF assms(1-3,5) ne]
        passes_ignores_zeros [OF assms(1-3,5)] passes_readonly_source [OF assms(1,2,5) ro assms(8)]
        passes_stale [OF assms(1-3,5)] passes_dup_key_collision [OF assms(1,3,5)] passes_cross_blksz [OF assms(1,3,5)])
qed

text \<open>A hash that tells these blocks apart, and an order and a split for every map.\<close>

definition sum_hash :: "u8 list \<Rightarrow> u128" where
  "sum_hash bs = of_nat (sum_list (map unat bs))"

definition sorted_order :: "('a :: linorder \<rightharpoonup> 'b) \<Rightarrow> 'a list" where
  "sorted_order m = sorted_list_of_set (dom m)"

lemma sorted_order_ok: "order_ok sorted_order" "splits_ok (\<lambda>m. [sorted_order m])"
  by (simp_all add: order_ok_def splits_ok_def sorted_order_def)

definition test_fs :: mem_fs where
  "test_fs = [(temp ''a'', replicate 4096 9 @ replicate 4096 1), (temp ''b'', replicate 4096 9 @ replicate 4096 2),
     (temp ''ro'', replicate 4096 9), (temp ''rw'', replicate 4096 9)]"

lemma test_fs_reads: "reads_files mem_kernel test_fs (test_disk ma mb)"
proof -
  have reads: "kn_read_at mem_kernel f off n test_fs = (Inr (slice_of (unat off) n (mem_bytes test_fs (unat f))), test_fs)" for f off n
    by (simp add: mem_kernel_def mem_read_at_def mem_node_def)
  have opens: "kn_open mem_kernel (temp ''a'') w test_fs = (Inr 0, test_fs)" "kn_open mem_kernel (temp ''b'') w test_fs = (Inr 1, test_fs)"
    "kn_open mem_kernel (temp ''ro'') w test_fs = (Inr 2, test_fs)" for w
    using temp_distinct by (simp_all add: mem_kernel_def mem_open_def test_fs_def)
  have bytes: "mem_bytes test_fs 0 = replicate 4096 9 @ replicate 4096 1" "mem_bytes test_fs (Suc 0) = replicate 4096 9 @ replicate 4096 2"
    "mem_bytes test_fs 2 = replicate 4096 9"
    by (simp_all add: mem_bytes_def test_fs_def)
  show ?thesis
    unfolding reads_files_def
    using temp_distinct by (auto simp: test_disk_def opens reads bytes split: if_splits intro!: exI)
qed

theorem dedup_tests_pass_witness:
  "list_all (\<lambda>t. t = Some (Inr ()))
    [test_finds_dupes mem_temp mem_redb sum_hash mem_kernel sorted_order (\<lambda>m. [sorted_order m]) [99] sample_meta (sample_meta\<lparr>md_ino := 8\<rparr>) test_fs,
     test_readonly_source mem_temp mem_redb sum_hash mem_kernel [99] sample_meta (sample_meta\<lparr>md_ino := 8\<rparr>) test_fs]"
proof -
  have ino: "md_ino sample_meta \<noteq> md_ino (sample_meta\<lparr>md_ino := 8\<rparr>)" by (simp add: sample_meta_def)
  have hash: "distinct [0, sum_hash (replicate 4096 9), sum_hash (replicate 4096 1), sum_hash (replicate 4096 2)]"
    by (simp add: sum_hash_def sum_list_replicate)
  have rw: "kn_open mem_kernel (temp ''rw'') True test_fs = (Inr 3, test_fs)"
    using temp_distinct by (simp add: mem_kernel_def mem_open_def test_fs_def)
  from dedup_tests_pass [where ?xxh3.0 = sum_hash and path = "[99]", OF mem_redb_reliable mem_temp_ok sorted_order_ok ino hash test_fs_reads rw]
  show ?thesis by (simp only: list.pred_inject)
qed

lemma sample_one_index:
  "build_index mem_redb sample_cache [(fp, sample_hashed 7)] = Inr (dup_groups (chunk_stream (entries_of (map_of sample_cache)) [(fp, sample_hashed 7)]))"
  "chunk_stream (entries_of (map_of sample_cache)) [(fp, sample_hashed 7)] = [(0, 0, sample_hashed 7, sample_hash)]"
proof -
  have get: "cache_get mem_redb sample_cache 1 7 = Inr (Some sample_cached)" by (rule sample_get) simp
  have ents: "entries_of (map_of sample_cache) (1, 7) = Some sample_cached"
    using cache_get_ok [OF mem_redb_lawful get] by simp
  have "sample_hash \<noteq> ZERO_HASH" by (simp add: sample_hash_def ZERO_HASH_def HASH_LEN_def)
  then show stream: "chunk_stream (entries_of (map_of sample_cache)) [(fp, sample_hashed 7)] = [(0, 0, sample_hashed 7, sample_hash)]"
    using ents by (simp add: chunk_stream_def file_chunks_def sample_hashed_def sample_cached_def)
  show "build_index mem_redb sample_cache [(fp, sample_hashed 7)] = Inr (dup_groups (chunk_stream (entries_of (map_of sample_cache)) [(fp, sample_hashed 7)]))"
    by (rule build_index_total_aux) (use stream get ents in \<open>auto simp: sample_hashed_def\<close>)
qed

theorem unique_chunks_untouched_witness:
  "dedup mem_kernel mem_redb sorted_order (\<lambda>pairs. [[(4, 0, 1)]]) \<lparr>ps_table = table_empty, ps_files = [(\<lparr>fp_dir = 0, fp_off = 0, fp_len = 1\<rparr>, sample_hashed 7)]\<rparr>
     sample_cache force sample_fs = Some (Inr stats_default, sample_fs)"
proof -
  let ?ps = "\<lparr>ps_table = table_empty, ps_files = [(\<lparr>fp_dir = 0, fp_off = 0, fp_len = 1\<rparr>, sample_hashed 7)]\<rparr>"
  have "build_index mem_redb sample_cache (ps_files ?ps) = Inr (dup_groups (chunk_stream (entries_of (map_of sample_cache)) (ps_files ?ps)))"
    using sample_one_index(1) by simp
  from unique_chunks_untouched [OF mem_redb_lawful this sorted_order_ok(1)] sample_one_index(2)
  show ?thesis by simp
qed

end
