(* ===== verification/SharingCorrect.thy ===== *)
theory SharingCorrect imports BlockKernel DedupTests begin

text \<open>
  The purpose of the program, end to end: with a cache of fresh hashes and no collisions, equal chunks
  of the files are one block on disk after \<open>dedup\<close>.
\<close>

section \<open>From the hashes to the chunks\<close>

text \<open>What the cache should hold of each file: the hashes of the bytes it has now.\<close>

definition hashes_fresh ::
    "(u8 list \<Rightarrow> u128) \<Rightarrow> (cache_key \<rightharpoonup> file_entry) \<Rightarrow> ('k, 'i, 'b) disk \<Rightarrow> hashed paths \<Rightarrow> (nat \<Rightarrow> 'i) \<Rightarrow> 'k \<Rightarrow> bool" where
  "hashes_fresh xxh3 ents D ps nd k \<longleftrightarrow> (\<forall>n < length (ps_files ps). let h = snd (ps_files ps ! n) in
     \<exists>e. ents (h_fsid h, h_ino h) = Some e \<and> fe_hashes e = file_hashes xxh3 (unat (h_blksz h)) (dk_content D k (nd n)))"

definition file_blocks :: "('k, 'i, 'b) disk \<Rightarrow> 'k \<Rightarrow> 'i \<Rightarrow> u8 list list" where
  "file_blocks D k i = chunks (dk_bsize D i) (dk_content D k i)"

definition no_collisions :: "(u8 list \<Rightarrow> u128) \<Rightarrow> ('k, 'i, 'b) disk \<Rightarrow> hashed paths \<Rightarrow> (nat \<Rightarrow> 'i) \<Rightarrow> 'k \<Rightarrow> bool" where
  "no_collisions xxh3 D ps nd k \<longleftrightarrow> inj_on xxh3 (\<Union>n \<in> {..<length (ps_files ps)}. set (file_blocks D k (nd n)))"

lemma digest_nonzero:
  "chunk_digest xxh3 c \<noteq> ZERO_HASH \<longleftrightarrow> \<not> list_all (\<lambda>b. b = 0) c \<and> xxh3 c \<noteq> 0"
proof -
  have "ZERO_HASH = le_bytes 16 (0 :: u128)" by (simp add: le_bytes_def ZERO_HASH_def HASH_LEN_def map_replicate_const)
  then have "hash_chunk xxh3 c = ZERO_HASH \<longleftrightarrow> xxh3 c = 0"
    using hash_chunk_inject [of "\<lambda>b. if b = [] then xxh3 c else 0" "[]" "[0]"] by (simp add: hash_chunk_def)
  then show ?thesis by (simp add: chunk_digest_def is_zero_eq zeros_iff)
qed

text \<open>The stream of chunk references is the files' blocks that have a hash.\<close>

lemma in_stream:
  assumes "hashes_fresh xxh3 ents D ps nd k" "files_on D file ps nd k"
  shows "(n, c, h, hash) \<in> set (chunk_stream ents (ps_files ps)) \<longleftrightarrow>
    n < length (ps_files ps) \<and> h = snd (ps_files ps ! n) \<and> c < length (file_blocks D k (nd n)) \<and>
    hash = chunk_digest xxh3 (file_blocks D k (nd n) ! c) \<and> hash \<noteq> ZERO_HASH"
proof (cases "n < length (ps_files ps)")
  case True
  obtain p g where pg: "ps_files ps ! n = (p, g)" by (cases "ps_files ps ! n")
  obtain e where e: "ents (h_fsid g, h_ino g) = Some e"
      "fe_hashes e = file_hashes xxh3 (unat (h_blksz g)) (dk_content D k (nd n))"
    using assms(1) True by (auto simp: hashes_fresh_def pg Let_def)
  have "fe_hashes e = map (chunk_digest xxh3) (file_blocks D k (nd n))"
    using e(2) files_onD(3) [OF assms(2) True] by (simp add: file_hashes_def file_blocks_def pg)
  then have "(n, c, h, hash) \<in> set (file_chunks ents (n, p, g)) \<longleftrightarrow> h = g \<and> c < length (file_blocks D k (nd n)) \<and>
    hash = chunk_digest xxh3 (file_blocks D k (nd n) ! c) \<and> hash \<noteq> ZERO_HASH"
    using e(1) by (auto simp: file_chunks_def in_set_enumerate_eq)
  moreover have "(n, c, h, hash) \<in> set (chunk_stream ents (ps_files ps)) \<longleftrightarrow> (n, c, h, hash) \<in> set (file_chunks ents (n, p, g))"
  proof
    assume "(n, c, h, hash) \<in> set (chunk_stream ents (ps_files ps))"
    then obtain y where y: "y \<in> set (enumerate 0 (ps_files ps))" "(n, c, h, hash) \<in> set (file_chunks ents y)"
      by (auto simp: chunk_stream_def)
    obtain m q g' where "y = (m, q, g')" by (cases y)
    moreover from this have "m = n" using file_chunks_mem(1) [of "(n, c, h, hash)"] y(2) by (auto simp: ref_pos_def)
    ultimately show "(n, c, h, hash) \<in> set (file_chunks ents (n, p, g))" using y pg by (auto simp: in_set_enumerate_eq)
  next
    assume "(n, c, h, hash) \<in> set (file_chunks ents (n, p, g))"
    then show "(n, c, h, hash) \<in> set (chunk_stream ents (ps_files ps))"
      using True pg by (force simp: chunk_stream_def in_set_enumerate_eq)
  qed
  ultimately show ?thesis using True pg by simp
next
  case False
  then show ?thesis using stream_mem(1) [of "(n, c, h, hash)"] by (auto simp: ref_pos_def)
qed

text \<open>The numbers fit 32 bits.\<close>

lemma blocks_bound:
  assumes "files_on D file ps nd k" "n < length (ps_files ps)"
  shows "length (file_blocks D k (nd n)) < 2 ^ 32"
proof -
  note on = files_onD(2-4,6) [OF assms]
  let ?B = "dk_bsize D (nd n)" and ?len = "length (dk_content D k (nd n))"
  have "?len \<le> (2 ^ 32 - 1) * ?B" "0 < ?B" using on by simp_all
  then have "?len + ?B - 1 < 2 ^ 32 * ?B" by simp
  then have "(?len + ?B - 1) div ?B < 2 ^ 32" by (rule less_mult_imp_div_less)
  then show ?thesis using length_chunks [OF \<open>0 < ?B\<close>, of "dk_content D k (nd n)"] by (simp only: file_blocks_def)
qed

definition ref :: "nat \<Rightarrow> nat \<Rightarrow> loc" where
  "ref n c = \<lparr>loc_file = of_nat n, loc_chunk = of_nat c\<rparr>"

lemma ref_numbers:
  assumes "files_on D file ps nd k" "n < length (ps_files ps)" "length (ps_files ps) < 2 ^ 32"
    "c < length (file_blocks D k (nd n))"
  shows "unat (loc_file (ref n c)) = n" "unat (loc_chunk (ref n c)) = c"
  using assms(2-4) blocks_bound [OF assms(1,2)] by (simp_all add: ref_def unat_of_nat)

lemma ref_bytes:
  assumes "files_on D file ps nd k" "n < length (ps_files ps)" "length (ps_files ps) < 2 ^ 32"
    "c < length (file_blocks D k (nd n))"
  shows "chunk_bytes D nd k (ref n c) = file_blocks D k (nd n) ! c"
    and "h_blksz (snd (ps_files ps ! n)) = b \<Longrightarrow> unat (loc_len (ps_files ps) b (ref n c)) = length (file_blocks D k (nd n) ! c)"
proof -
  note num = ref_numbers [OF assms] and on = files_onD(2-4) [OF assms(1,2)]
  have nth: "file_blocks D k (nd n) ! c = slice_of (c * dk_bsize D (nd n)) (dk_bsize D (nd n)) (dk_content D k (nd n))"
    using nth_chunks assms(4) unfolding file_blocks_def by blast
  then show "chunk_bytes D nd k (ref n c) = file_blocks D k (nd n) ! c" by (simp add: chunk_bytes_def num Let_def)
  show "unat (loc_len (ps_files ps) b (ref n c)) = length (file_blocks D k (nd n) ! c)"
    if "h_blksz (snd (ps_files ps ! n)) = b"
    using on that by (simp add: nth unat_loc_len num min.commute)
qed

section \<open>The groups\<close>

lemma group_members:
  assumes "hashes_fresh xxh3 ents D ps nd k" "files_on D file ps nd k"
    "dup_groups (chunk_stream ents (ps_files ps)) (b, hash) = Some ls"
  shows "l \<in> set ls \<longleftrightarrow> (\<exists>n c. l = ref n c \<and> n < length (ps_files ps) \<and> h_blksz (snd (ps_files ps ! n)) = b \<and>
    c < length (file_blocks D k (nd n)) \<and> chunk_digest xxh3 (file_blocks D k (nd n) ! c) = hash \<and> hash \<noteq> ZERO_HASH)"
proof -
  have "ls = map ref_loc (filter (\<lambda>x. ref_key x = (b, hash)) (chunk_stream ents (ps_files ps)))"
    using assms(3) by (auto simp: dup_groups_def locs_of_def split: if_splits)
  then have "l \<in> set ls \<longleftrightarrow> (\<exists>n c h. (n, c, h, hash) \<in> set (chunk_stream ents (ps_files ps)) \<and> h_blksz h = b \<and> l = ref n c)"
    by (force simp: ref_key_def ref_loc_def ref_def)
  then show ?thesis unfolding in_stream [OF assms(1,2)] by blast
qed

lemma group_equal:
  assumes "hashes_fresh xxh3 ents D ps nd k" "files_on D file ps nd k" "no_collisions xxh3 D ps nd k" "length (ps_files ps) < 2 ^ 32"
    "dup_groups (chunk_stream ents (ps_files ps)) (b, hash) = Some ls" "l \<in> set ls" "m \<in> set ls"
  shows "chunk_bytes D nd k l = chunk_bytes D nd k m" "loc_len (ps_files ps) b l = loc_len (ps_files ps) b m"
proof -
  obtain n c where l: "l = ref n c" "n < length (ps_files ps)" "h_blksz (snd (ps_files ps ! n)) = b"
    "c < length (file_blocks D k (nd n))" "chunk_digest xxh3 (file_blocks D k (nd n) ! c) = hash" "hash \<noteq> ZERO_HASH"
    using assms(6) unfolding group_members [OF assms(1,2,5)] by blast
  obtain n' c' where m: "m = ref n' c'" "n' < length (ps_files ps)" "h_blksz (snd (ps_files ps ! n')) = b"
    "c' < length (file_blocks D k (nd n'))" "chunk_digest xxh3 (file_blocks D k (nd n') ! c') = hash"
    using assms(7) unfolding group_members [OF assms(1,2,5)] by blast
  let ?x = "file_blocks D k (nd n) ! c" and ?y = "file_blocks D k (nd n') ! c'"
  have "hash_chunk xxh3 ?x = hash_chunk xxh3 ?y"
    using l(5,6) m(5) by (auto simp: chunk_digest_def split: if_splits)
  then have "xxh3 ?x = xxh3 ?y" by (simp only: hash_chunk_inject)
  moreover have "?x \<in> (\<Union>n \<in> {..<length (ps_files ps)}. set (file_blocks D k (nd n)))"
    "?y \<in> (\<Union>n \<in> {..<length (ps_files ps)}. set (file_blocks D k (nd n)))"
    using l(2,4) m(2,4) by (auto intro!: bexI nth_mem)
  ultimately have eq: "?x = ?y" using assms(3) unfolding no_collisions_def by (meson inj_onD)
  then show "chunk_bytes D nd k l = chunk_bytes D nd k m"
    using ref_bytes(1) [OF assms(2) l(2) assms(4) l(4)] ref_bytes(1) [OF assms(2) m(2) assms(4) m(4)] by (simp add: l(1) m(1))
  show "loc_len (ps_files ps) b l = loc_len (ps_files ps) b m"
    using ref_bytes(2) [OF assms(2) l(2) assms(4) l(4,3)] ref_bytes(2) [OF assms(2) m(2) assms(4) m(4,3)] eq
    by (simp add: l(1) m(1) word_unat_eq_iff)
qed

text \<open>All of a group become the block of its first location.\<close>

lemma group_reached:
  assumes "reached D nd (all_dups idx files) k k'" "index_wf files idx" "inj_on nd {..<length files}" "idx (b, h) = Some ls"
    "\<And>l. l \<in> set ls \<Longrightarrow> loc_len files b l = loc_len files b (hd ls)" "loc_len files b (hd ls) \<noteq> 0" "l \<in> set ls"
  shows "block_at D nd k' l = block_at D nd k (hd ls)"
proof -
  have "2 \<le> length ls" using index_wfD(1) [OF assms(2,4)] by (simp add: group_wf_def)
  then obtain x ys where ls: "ls = hd ls # x # ys" by (cases ls; cases "tl ls") auto
  have pair: "(hd ls, m) \<in> all_dups idx files" if "m \<in> set (tl ls)" for m
  proof -
    have "m \<in> set ls" using that ls by (metis list.set_intros(2) list.sel(3))
    then have "(hd ls, m) \<in> dup_pairs idx files (b, loc_file (hd ls), loc_file m)"
      using assms(4-6) that by (auto simp: dup_pairs_def)
    then show ?thesis using in_all_dups by blast
  qed
  have "x \<in> set (tl ls)" by (subst ls) simp
  note first = pair [OF this]
  show ?thesis
  proof (cases "l = hd ls")
    case False
    then have "l \<in> set (tl ls)" using assms(7) ls by (metis list.sel(3) set_ConsD)
    then show ?thesis using assms(1) pair unfolding reached_def by blast
  next
    case True
    have "place nd (hd ls) \<notin> place nd ` snd ` all_dups idx files"
    proof
      assume "place nd (hd ls) \<in> place nd ` snd ` all_dups idx files"
      then obtain src dst where "(src, dst) \<in> all_dups idx files" "place nd dst = place nd (hd ls)" by auto
      then show False using dups_apart [OF assms(2,3)] first unfolding apart_def by blast
    qed
    then show ?thesis using assms(1) True by (simp add: reached_def place_def)
  qed
qed

section \<open>What becomes of each block\<close>

lemma dup_members:
  assumes "(src, dst) \<in> all_dups idx files"
  obtains b h ls where "idx (b, h) = Some ls" "src \<in> set ls" "dst \<in> set ls"
proof -
  obtain b s d where "(src, dst) \<in> dup_pairs idx files (b, s, d)" using assms in_all_dups by blast
  then obtain h ls where g: "idx (b, h) = Some ls" "src = hd ls" "dst \<in> set (tl ls)" by (auto simp: dup_pairs_def)
  then have "src \<in> set ls" "dst \<in> set ls" by (cases ls; simp)+
  then show thesis using that g(1) by blast
qed

text \<open>Equal blocks are in one group.\<close>

lemma equal_blocks_shared:
  assumes "hashes_fresh xxh3 ents D ps nd k" "files_on D file ps nd k" "no_collisions xxh3 D ps nd k" "length (ps_files ps) < 2 ^ 32"
    "idx = dup_groups (chunk_stream ents (ps_files ps))" "index_wf (ps_files ps) idx" "reached D nd (all_dups idx (ps_files ps)) k k'"
    "n < length (ps_files ps)" "m < length (ps_files ps)" "c < length (file_blocks D k (nd n))" "e < length (file_blocks D k (nd m))"
    "dk_bsize D (nd n) = dk_bsize D (nd m)" "file_blocks D k (nd n) ! c = file_blocks D k (nd m) ! e"
    "\<not> list_all (\<lambda>b. b = 0) (file_blocks D k (nd n) ! c)" "xxh3 (file_blocks D k (nd n) ! c) \<noteq> 0"
  shows "dk_block D k' (nd n) c = dk_block D k' (nd m) e"
proof (cases "ref n c = ref m e")
  case True
  then have "n = m" "c = e"
    using ref_numbers [OF assms(2,8,4,10)] ref_numbers [OF assms(2,9,4,11)] by simp_all
  then show ?thesis by simp
next
  case False
  let ?x = "file_blocks D k (nd n) ! c" and ?xs = "chunk_stream ents (ps_files ps)"
  let ?hash = "chunk_digest xxh3 ?x" and ?b = "h_blksz (snd (ps_files ps ! n))"
  let ?ls = "locs_of ?xs (?b, ?hash)"
  have b: "h_blksz (snd (ps_files ps ! m)) = ?b"
    using assms(12) files_onD(3) [OF assms(2,8)] files_onD(3) [OF assms(2,9)] by (simp add: word_unat_eq_iff)
  have hash: "?hash \<noteq> ZERO_HASH" using assms(14,15) digest_nonzero by blast
  have "(n, c, snd (ps_files ps ! n), ?hash) \<in> set ?xs" "(m, e, snd (ps_files ps ! m), ?hash) \<in> set ?xs"
    using in_stream [OF assms(1,2)] assms(8-11,13) hash by simp_all
  then have "{ref n c, ref m e} \<subseteq> set ?ls"
    using b by (force simp: locs_of_def ref_key_def ref_loc_def ref_def)
  then have mem: "ref n c \<in> set ?ls" "ref m e \<in> set ?ls" "card {ref n c, ref m e} \<le> card (set ?ls)"
    by (simp_all add: card_mono)
  have "2 \<le> length ?ls" using mem(3) False card_length [of ?ls] by simp
  then have group: "dup_groups ?xs (?b, ?hash) = Some ?ls" by (simp add: dup_groups_def)
  have hd: "hd ?ls \<in> set ?ls" using mem(1) by (cases ?ls) auto
  note equal = group_equal(2) [OF assms(1-4) group]
  have "?x \<noteq> []" using assms(14) by auto
  then have "unat (loc_len (ps_files ps) ?b (ref n c)) \<noteq> 0"
    using ref_bytes(2) [OF assms(2,8,4,10) refl] by simp
  then have ne: "loc_len (ps_files ps) ?b (hd ?ls) \<noteq> 0" using equal [OF mem(1) hd] by auto
  have inj: "inj_on nd {..<length (ps_files ps)}" using assms(2) unfolding files_on_def by blast
  have "block_at D nd k' l = block_at D nd k (hd ?ls)" if "l \<in> set ?ls" for l
    by (rule group_reached [where h = ?hash, OF assms(7,6) inj _ equal [OF _ hd] ne that]) (simp add: assms(5) group)
  then have "block_at D nd k' (ref n c) = block_at D nd k' (ref m e)" using mem by metis
  then show ?thesis
    by (simp only: ref_numbers [OF assms(2,8,4,10)] ref_numbers [OF assms(2,9,4,11)])
qed

text \<open>A changed block is one that equal bytes had.\<close>

lemma blocks_from_equals:
  assumes "hashes_fresh xxh3 ents D ps nd k" "files_on D file ps nd k" "no_collisions xxh3 D ps nd k" "length (ps_files ps) < 2 ^ 32"
    "idx = dup_groups (chunk_stream ents (ps_files ps))" "reached D nd (all_dups idx (ps_files ps)) k k'"
    "dk_block D k' x b \<noteq> dk_block D k x b"
  shows "\<exists>n < length (ps_files ps). \<exists>m < length (ps_files ps). \<exists>e < length (file_blocks D k (nd m)). x = nd n \<and>
    b < length (file_blocks D k x) \<and> file_blocks D k x ! b = file_blocks D k (nd m) ! e \<and> dk_block D k' x b = dk_block D k (nd m) e"
proof -
  have "(x, b) \<in> place nd ` snd ` all_dups idx (ps_files ps)" using assms(6,7) unfolding reached_def by blast
  then obtain src dst where pair: "(src, dst) \<in> all_dups idx (ps_files ps)" and at: "place nd dst = (x, b)" by auto
  obtain bs h ls where ls: "idx (bs, h) = Some ls" "src \<in> set ls" "dst \<in> set ls" by (rule dup_members [OF pair])
  note group = ls(1) [unfolded assms(5)]
  obtain m e where src: "src = ref m e" "m < length (ps_files ps)" "e < length (file_blocks D k (nd m))"
    using ls(2) unfolding group_members [OF assms(1,2) group] by blast
  obtain n c where dst: "dst = ref n c" "n < length (ps_files ps)" "c < length (file_blocks D k (nd n))"
    using ls(3) unfolding group_members [OF assms(1,2) group] by blast
  note num = ref_numbers [OF assms(2) src(2) assms(4) src(3)] ref_numbers [OF assms(2) dst(2) assms(4) dst(3)]
  have xb: "x = nd n" "b = c" using at by (simp_all add: place_def dst(1) num)
  have "file_blocks D k (nd n) ! c = file_blocks D k (nd m) ! e"
    using group_equal(1) [OF assms(1-4) group ls(3,2)]
    by (simp only: src(1) dst(1) ref_bytes(1) [OF assms(2) src(2) assms(4) src(3)] ref_bytes(1) [OF assms(2) dst(2) assms(4) dst(3)])
  moreover have "block_at D nd k' dst = block_at D nd k src" using assms(6) pair unfolding reached_def by blast
  then have "dk_block D k' (nd n) c = dk_block D k (nd m) e" by (simp add: src(1) dst(1) num)
  ultimately show ?thesis using xb src(2,3) dst(2,3) by blast
qed

section \<open>The property\<close>

lemma dedup_shares_equal_chunks:
  assumes "grants K file D" "\<not> op_dry_run opts" "files_on D file ps nd k"
    "redb_lawful R tab ttab" "build_index R db (ps_files ps) = Inr idx" "distinct (order idx)" "set (order idx) = dom idx"
    "\<forall>m. finite (dom m) \<longrightarrow> set (concat (split m)) = dom m"
    "hashes_fresh xxh3 (entries_of (tab db)) D ps nd k" "no_collisions xxh3 D ps nd k"
  shows "\<exists>st k'. dedup K R order split ps db opts k = Some (Inr st, k') \<and>
    n_mismatches st = 0 \<and> n_errors st = 0 \<and> n_busy st = 0 \<and> n_cloned st = n_candidates st \<and>
    dk_content D k' = dk_content D k \<and>
    (\<forall>n < length (ps_files ps). \<forall>m < length (ps_files ps). \<forall>c < length (file_blocks D k (nd n)). \<forall>e < length (file_blocks D k (nd m)).
       dk_bsize D (nd n) = dk_bsize D (nd m) \<longrightarrow> file_blocks D k (nd n) ! c = file_blocks D k (nd m) ! e \<longrightarrow>
       \<not> list_all (\<lambda>b. b = 0) (file_blocks D k (nd n) ! c) \<longrightarrow> xxh3 (file_blocks D k (nd n) ! c) \<noteq> 0 \<longrightarrow>
       dk_block D k' (nd n) c = dk_block D k' (nd m) e) \<and>
    (\<forall>x b. dk_block D k' x b = dk_block D k x b \<or>
       (\<exists>n < length (ps_files ps). \<exists>m < length (ps_files ps). \<exists>e < length (file_blocks D k (nd m)). x = nd n \<and>
          b < length (file_blocks D k x) \<and> file_blocks D k x ! b = file_blocks D k (nd m) ! e \<and> dk_block D k' x b = dk_block D k (nd m) e))"
proof -
  let ?files = "ps_files ps" and ?ents = "entries_of (tab db)"
  have idx: "idx = dup_groups (chunk_stream ?ents ?files)" and few: "length ?files < 2 ^ 32"
    using build_index_exact_aux [OF assms(4,5)] by blast+
  have wf: "index_wf ?files idx" by (rule build_index_wf_aux [OF assms(4,5)])
  have "chunk_bytes D nd k src = chunk_bytes D nd k dst" if "(src, dst) \<in> all_dups idx ?files" for src dst
    using dup_members [OF that] group_equal(1) [OF assms(9,3,10) few] unfolding idx by metis
  then have "dups_ready K opts file D ps nd idx k"
    using assms(1-3) wf unfolding dups_ready_def by blast
  from dedup_shares [where order = order and split = split, OF this assms(5-7)] assms(8)
  obtain st k' where run: "dedup K R order split ps db opts k = Some (Inr st, k')" "untroubled st"
      "dk_content D k' = dk_content D k" "reached D nd (all_dups idx ?files) k k'" by blast
  note equal = equal_blocks_shared [OF assms(9,3,10) few idx wf run(4)] and changed = blocks_from_equals [OF assms(9,3,10) few idx run(4)]
  show ?thesis
    using run(1-3) unfolding untroubled_def
    by (intro exI [of _ st] exI [of _ k'] conjI) (use equal changed in blast)+
qed

text \<open>
  C2. The program does what it is for: on a kernel that grants its calls, outside a dry run, for files that are
  different inodes with blocks of at most 16 MiB, with a cache that holds the hashes of their present bytes
  and no collisions among them, \<open>dedup\<close> returns without an error, a mismatch or a busy file, by either ioctl and whatever the order of the groups and the split into tasks;
  afterwards any two chunks with the same bytes, in files of the same block size, are one block on disk
  (but for zeros, and bytes whose hash is the number 0); and each block that the files now have, they or a
  file with the same bytes there had before.
\<close>

theorem equal_chunks_share_block:
  assumes "grants K file D" "\<not> op_dry_run opts" "files_on D file ps nd k"
    "redb_lawful R tab ttab" "build_index R db (ps_files ps) = Inr idx" "distinct (order idx)" "set (order idx) = dom idx"
    "\<forall>m. finite (dom m) \<longrightarrow> set (concat (split m)) = dom m"
    "hashes_fresh xxh3 (entries_of (tab db)) D ps nd k" "no_collisions xxh3 D ps nd k"
  shows "\<exists>st k'. dedup K R order split ps db opts k = Some (Inr st, k') \<and>
    n_mismatches st = 0 \<and> n_errors st = 0 \<and> n_busy st = 0 \<and> n_cloned st = n_candidates st \<and>
    dk_content D k' = dk_content D k \<and>
    (\<forall>n < length (ps_files ps). \<forall>m < length (ps_files ps). \<forall>c < length (file_blocks D k (nd n)). \<forall>e < length (file_blocks D k (nd m)).
       dk_bsize D (nd n) = dk_bsize D (nd m) \<longrightarrow> file_blocks D k (nd n) ! c = file_blocks D k (nd m) ! e \<longrightarrow>
       \<not> list_all (\<lambda>b. b = 0) (file_blocks D k (nd n) ! c) \<longrightarrow> xxh3 (file_blocks D k (nd n) ! c) \<noteq> 0 \<longrightarrow>
       dk_block D k' (nd n) c = dk_block D k' (nd m) e) \<and>
    (\<forall>x b. dk_block D k' x b = dk_block D k x b \<or>
       (\<exists>n < length (ps_files ps). \<exists>m < length (ps_files ps). \<exists>e < length (file_blocks D k (nd m)). x = nd n \<and>
          b < length (file_blocks D k x) \<and> file_blocks D k x ! b = file_blocks D k (nd m) ! e \<and> dk_block D k' x b = dk_block D k (nd m) e))"
  by (rule dedup_shares_equal_chunks [where order = order and split = split, OF assms])

text \<open>Two files of one equal block, on the kernel that shares blocks.\<close>

theorem equal_chunks_share_block_witness:
  "\<exists>st k'. dedup (blk_kernel sample_fs 4) mem_redb (\<lambda>_. [(4, sample_hash)]) (\<lambda>m. [sorted_order m]) sample_paths sample_cache
      \<lparr>op_dry_run = False, op_fideduperange = True\<rparr> (sample_fs, own_blocks) = Some (Inr st, k') \<and> n_errors st = 0 \<and>
    dk_block (blk_disk 4) k' 0 0 = dk_block (blk_disk 4) k' 1 0"
proof -
  let ?D = "blk_disk 4" and ?k = "(sample_fs, own_blocks)" and ?opts = "\<lparr>op_dry_run = False, op_fideduperange = True\<rparr>"
  let ?H = "\<lambda>c :: u8 list. from_le (replicate 16 3) :: u128" and ?ents = "entries_of (map_of sample_cache)"
  obtain f g where files: "ps_files sample_paths = [(f, sample_hashed 7), (g, sample_hashed 8)]"
    "paths_path sample_paths f = Some (Inr (usr @ [Normal [98]]))" "paths_path sample_paths g = Some (Inr (usr @ [Normal [97]]))"
    by (rule sample_files)
  have bytes: "dk_content ?D ?k n = [1, 2, 3, 4]" if "n < 2" for n
    using that by (auto simp: blk_disk_def mem_bytes_def sample_fs_def less_2_cases_iff)
  have blocks: "file_blocks ?D ?k n = [[1, 2, 3, 4]]" if "n < 2" for n
    unfolding file_blocks_def bytes [OF that] by (subst chunks.simps) (simp add: blk_disk_def)
  have kernel: "grants (blk_kernel sample_fs 4) (\<lambda>p. mem_find sample_fs p 0) ?D"
    by (rule blk_grants) (simp add: sample_fs_def)
  have on: "files_on ?D (\<lambda>p. mem_find sample_fs p 0) sample_paths id ?k"
    unfolding files_on_def
  proof (intro conjI allI impI)
    fix n assume "n < length (ps_files sample_paths)"
    then have n: "n = 0 \<or> n = 1" by (auto simp: files(1))
    have names: "mem_find sample_fs (usr @ [Normal [98]]) 0 = Some 0" "mem_find sample_fs (usr @ [Normal [97]]) 0 = Some 1"
      by (simp_all add: sample_fs_def)
    show "\<exists>p. paths_path sample_paths (fst (ps_files sample_paths ! n)) = Some (Inr p) \<and> mem_find sample_fs p 0 = Some (id n)"
      using n files(2,3) names by (auto simp: files(1))
    have h: "\<exists>i. snd (ps_files sample_paths ! n) = sample_hashed i" using n by (auto simp: files(1))
    have "dk_bsize ?D n = 4" by (simp add: blk_disk_def)
    then show "let h = snd (ps_files sample_paths ! n) in length (dk_content ?D ?k (id n)) = unat (h_size h) \<and>
       dk_bsize ?D (id n) = unat (h_blksz h) \<and> 0 < unat (h_blksz h) \<and> unat (h_blksz h) \<le> 16 * 2 ^ 20 \<and>
       unat (h_size h) \<le> (2 ^ 32 - 1) * unat (h_blksz h)"
      using n h bytes [of n] by (auto simp: sample_hashed_def)
  qed simp
  have ents: "?ents (1, i) = Some sample_cached" if "i = 7 \<or> i = 8" for i
    using cache_get_ok [OF mem_redb_lawful sample_get [OF that]] by simp
  have "file_hashes ?H 4 [1, 2, 3, 4] = [sample_hash]"
  proof -
    have "chunks 4 [1, 2, 3, 4 :: u8] = [[1, 2, 3, 4]]" by (subst chunks.simps) simp
    moreover have "le_bytes 16 (from_le (replicate 16 3) :: u128) = replicate 16 3" by (rule le_bytes_from_le) simp_all
    ultimately show ?thesis by (simp add: file_hashes_def chunk_digest_def is_zero_eq hash_chunk_def sample_hash_def)
  qed
  then have fresh: "hashes_fresh ?H ?ents ?D sample_paths id ?k"
    unfolding hashes_fresh_def
  proof (intro allI impI)
    fix n assume "n < length (ps_files sample_paths)"
    then have n: "n = 0 \<or> n = 1" by (auto simp: files(1))
    then obtain i where "snd (ps_files sample_paths ! n) = sample_hashed i" "i = 7 \<or> i = 8" by (auto simp: files(1))
    then show "let h = snd (ps_files sample_paths ! n) in \<exists>e. ?ents (h_fsid h, h_ino h) = Some e \<and>
       fe_hashes e = file_hashes ?H (unat (h_blksz h)) (dk_content ?D ?k (id n))"
      using ents [of i] bytes [of n] n \<open>file_hashes ?H 4 [1, 2, 3, 4] = [sample_hash]\<close>
      by (auto simp: sample_hashed_def sample_cached_def Let_def)
  qed
  have unique: "no_collisions ?H ?D sample_paths id ?k"
    using blocks by (simp add: no_collisions_def files inj_on_def)
  have split: "\<forall>m. finite (dom m) \<longrightarrow> set (concat [sorted_order m]) = dom m" by (simp add: sorted_order_def)
  have "(from_le (replicate 16 3) :: u128) \<noteq> 0"
  proof
    assume zero: "(from_le (replicate 16 3) :: u128) = 0"
    have "le_bytes 16 (from_le (replicate 16 3) :: u128) = replicate 16 3" by (rule le_bytes_from_le) simp_all
    then show False unfolding zero by (simp add: le_bytes_def map_replicate_const)
  qed
  have opts: "\<not> op_dry_run ?opts" by simp
  have bsize: "dk_bsize ?D n = 4" for n by (simp add: blk_disk_def)
  note equal_chunks_share_block [where order = "\<lambda>_. [(4, sample_hash)]", OF kernel opts on mem_redb_lawful sample_build_index sample_order split fresh unique]
  then obtain st k' where "dedup (blk_kernel sample_fs 4) mem_redb (\<lambda>_. [(4, sample_hash)]) (\<lambda>m. [sorted_order m]) sample_paths sample_cache
      ?opts ?k = Some (Inr st, k')" "n_errors st = 0"
    and shared: "\<forall>n < length (ps_files sample_paths). \<forall>m < length (ps_files sample_paths). \<forall>c < length (file_blocks ?D ?k (id n)).
       \<forall>e < length (file_blocks ?D ?k (id m)). dk_bsize ?D (id n) = dk_bsize ?D (id m) \<longrightarrow>
       file_blocks ?D ?k (id n) ! c = file_blocks ?D ?k (id m) ! e \<longrightarrow>
       \<not> list_all (\<lambda>b. b = 0) (file_blocks ?D ?k (id n) ! c) \<longrightarrow> (from_le (replicate 16 3) :: u128) \<noteq> 0 \<longrightarrow>
       dk_block ?D k' (id n) c = dk_block ?D k' (id m) e"
    by (elim exE conjE) (rule that; assumption)
  moreover have "dk_block ?D k' (id 0) 0 = dk_block ?D k' (id 1) 0"
    by (rule shared [rule_format]) (use \<open>(from_le (replicate 16 3) :: u128) \<noteq> 0\<close> in \<open>simp_all add: blocks files bsize\<close>)
  ultimately show ?thesis by auto
qed

end
