(* ===== verification/PathsFit.thy ===== *)
theory PathsFit imports PathsCorrect begin

text \<open>
  What the store of \<open>src/walk.rs\<close> takes: the name of every file and, once for all its files, the name of
  every directory. So it is known when it does not panic: as long as these names stay below 4 GiB and
  the directories below the mark for no parent.
\<close>

definition absolute :: "path \<Rightarrow> bool" where
  "absolute p = (case p of RootDir # cs \<Rightarrow> list_all (\<lambda>c. case c of Normal n \<Rightarrow> True | _ \<Rightarrow> False) cs | _ \<Rightarrow> False)"

lemma absoluteE:
  assumes "absolute p"
  obtains "p = [RootDir]" | q n where "p = q @ [Normal n]" "absolute q"
proof (cases p rule: rev_cases)
  case (snoc q c)
  show ?thesis
  proof (cases q)
    case Nil
    then show ?thesis using assms that(1) by (simp add: snoc absolute_def split: comp.splits)
  next
    case (Cons d ds)
    then have "absolute q" "\<exists>n. c = Normal n" using assms by (auto simp: snoc absolute_def split: comp.splits)
    then show ?thesis using that(2) snoc by blast
  qed
qed (use assms in \<open>simp add: absolute_def\<close>)

text \<open>The directories that a path brings with it, and what their names take.\<close>

definition pre :: "path \<Rightarrow> path set" where
  "pre p = {q. q \<noteq> [] \<and> prefix q p}"

definition weight :: "path set \<Rightarrow> nat" where
  "weight D = (\<Sum>p\<in>D. length (comp_bytes (last p)))"

lemma pre_simps [simp]: "pre [] = {}" "pre (p @ [c]) = insert (p @ [c]) (pre p)" "finite (pre p)"
proof -
  show "pre [] = {}" by (auto simp: pre_def)
  show "pre (p @ [c]) = insert (p @ [c]) (pre p)" by (auto simp: pre_def)
  show "finite (pre p)" by (rule finite_subset [of _ "set (prefixes p)"]) (auto simp: pre_def)
qed

lemma pre_root [simp]: "pre [c] = {[c]}"
  using pre_simps(2) [of "[]" c] by simp

lemma pre_trans: "q \<in> pre p \<Longrightarrow> pre q \<subseteq> pre p"
  by (auto simp: pre_def)

lemma weight_insert: "finite D \<Longrightarrow> p \<notin> D \<Longrightarrow> weight (insert p D) = length (comp_bytes (last p)) + weight D"
  by (simp add: weight_def)

lemma weight_mono: "finite E \<Longrightarrow> D \<subseteq> E \<Longrightarrow> weight D \<le> weight E"
  unfolding weight_def by (rule sum_mono2) auto

definition stored :: "path_table \<Rightarrow> nat \<Rightarrow> path set \<Rightarrow> bool" where
  "stored t names D \<longleftrightarrow> finite D \<and> (\<forall>p \<in> D. pre p \<subseteq> D) \<and> dom (pt_ids t) = D \<and>
     length (pt_arena t) = names + weight D \<and> length (pt_dirs t) = card D"

definition room :: "nat \<Rightarrow> path set \<Rightarrow> bool" where
  "room names D \<longleftrightarrow> names + weight D < 2 ^ 32 \<and> card D < 2 ^ 32"

lemma room_mono: "room names E \<Longrightarrow> finite E \<Longrightarrow> D \<subseteq> E \<Longrightarrow> m \<le> names \<Longrightarrow> room m D"
  using weight_mono [of E D] card_mono [of E D] by (simp add: room_def)

lemma push_dir_stored:
  assumes "stored t names D" "room names (insert p D)" "p \<notin> D" "pre p \<subseteq> insert p D" "length name = length (comp_bytes (last p))"
  shows "\<exists>i t'. push_dir t p par name = Inr (i, t') \<and> stored t' names (insert p D)"
proof -
  have fin: "finite D" using assms(1) by (simp add: stored_def)
  have len: "length (pt_arena t) < 2 ^ 32" "length (pt_dirs t) < 2 ^ 32 - 1"
    using assms(1-3) weight_insert [OF fin assms(3)] by (simp_all add: room_def stored_def)
  then have "unat (of_nat (length (pt_dirs t)) :: u32) \<noteq> unat NO_PARENT"
    by (simp add: unat_NO_PARENT unat_of_nat)
  then have "of_nat (length (pt_dirs t)) \<noteq> NO_PARENT" by metis
  then show ?thesis
    using assms len weight_insert [OF fin assms(3)]
    by (auto simp: push_dir_def add_name_def u32_try_from_def stored_def)
qed

lemma intern_stored:
  assumes "absolute p" "stored t names D" "room names (D \<union> pre p)"
  shows "\<exists>i t'. intern t p = Inr (i, t') \<and> stored t' names (D \<union> pre p)"
  using assms
proof (induction t p arbitrary: D rule: intern.induct)
  case (1 t p)
  have fin: "finite D" and closed: "\<And>q. q \<in> D \<Longrightarrow> pre q \<subseteq> D" and dom: "dom (pt_ids t) = D"
    using "1.prems"(2) by (auto simp: stored_def)
  show ?case
  proof (cases "pt_ids t p")
    case None
    then have new: "p \<notin> D" using dom by blast
    from "1.prems"(1) show ?thesis
    proof (cases rule: absoluteE)
      case 1
      then show ?thesis
        using push_dir_stored [OF "1.prems"(2) _ new, of "[SLASH]" NO_PARENT] "1.prems"(3) None
        by (simp add: intern.simps path_parent_def as_os_str_def)
    next
      case (2 q n)
      have parts: "path_parent p = Some q" "path_file_name p = Some n"
        by (simp_all add: 2(1) path_parent_def path_file_name_def)
      have below: "room names (D \<union> pre q)"
        by (rule room_mono [OF "1.prems"(3)]) (use fin 2(1) in auto)
      obtain i u where u: "intern t q = Inr (i, u)" "stored u names (D \<union> pre q)"
        using "1.IH" [OF None refl parts 2(2) "1.prems"(2) below] by blast
      have fresh: "p \<notin> D \<union> pre q" using new by (auto simp: 2(1) pre_def)
      have all: "insert p (D \<union> pre q) = D \<union> pre p" by (simp add: 2(1))
      from push_dir_stored [OF u(2) _ fresh, of n i]
      obtain j v where "push_dir u p i n = Inr (j, v)" "stored v names (D \<union> pre p)"
        using "1.prems"(3) by (auto simp: all) (auto simp: 2(1))
      then show ?thesis using u(1) None parts by (simp add: intern.simps [of t p])
    qed
  next
    case (Some i)
    then have "D \<union> pre p = D" using closed dom by blast
    then show ?thesis using Some "1.prems"(2) by (simp add: intern.simps)
  qed
qed

text \<open>The names and the directories of a list of files.\<close>

definition names_size :: "(path \<times> u8 list \<times> 'a) list \<Rightarrow> nat" where
  "names_size ks = sum_list (map (\<lambda>(d, n, x). length n) ks)"

definition dirs_of :: "(path \<times> u8 list \<times> 'a) list \<Rightarrow> path set" where
  "dirs_of ks = (\<Union>(d, n, x) \<in> set ks. pre d)"

lemma files_simps [simp]:
  "names_size [] = 0" "names_size ((d, n, x) # ks) = length n + names_size ks"
  "dirs_of [] = {}" "dirs_of ((d, n, x) # ks) = pre d \<union> dirs_of ks" "finite (dirs_of ks)"
  by (auto simp: names_size_def dirs_of_def)

lemma push_stored:
  assumes "absolute d" "stored (ps_table ps) names D" "room names (D \<union> pre d)"
  shows "\<exists>ps'. paths_push ps d n x = Inr ps' \<and> stored (ps_table ps') (names + length n) (D \<union> pre d)"
proof -
  obtain i t where t: "intern (ps_table ps) d = Inr (i, t)" "stored t names (D \<union> pre d)"
    using intern_stored [OF assms] by blast
  then have "length (pt_arena t) < 2 ^ 32" using assms(3) by (simp add: stored_def room_def)
  then show ?thesis
    using t by (simp add: paths_push_def add_name_def u32_try_from_def stored_def)
qed

lemma pushes_stored:
  assumes "list_all (absolute \<circ> fst) ks" "stored (ps_table ps) names D" "room (names + names_size ks) (D \<union> dirs_of ks)"
  shows "\<exists>ps'. fold_res (\<lambda>(d, n, x) ps. paths_push ps d n x) ks ps = Inr ps' \<and>
    stored (ps_table ps') (names + names_size ks) (D \<union> dirs_of ks)"
  using assms
proof (induction ks arbitrary: ps names D)
  case (Cons k ks)
  obtain d n x where k: "k = (d, n, x)" by (cases k)
  have fin: "finite (D \<union> (pre d \<union> dirs_of ks))" using Cons.prems(2) by (simp add: stored_def)
  have now: "room names (D \<union> pre d)"
    by (rule room_mono [OF Cons.prems(3)]) (use fin in \<open>auto simp: k\<close>)
  obtain ps1 where p: "paths_push ps d n x = Inr ps1" "stored (ps_table ps1) (names + length n) (D \<union> pre d)"
    using push_stored [OF _ Cons.prems(2) now] Cons.prems(1) by (auto simp: k)
  have "room (names + length n + names_size ks) (D \<union> pre d \<union> dirs_of ks)"
    using Cons.prems(3) by (simp add: k add.assoc Un_assoc)
  then show ?case
    using Cons.IH [OF _ p(2)] Cons.prems(1) p(1) by (simp add: k add.assoc Un_assoc)
qed simp

text \<open>
  C19. What the store takes, exactly: pushing files with absolute directories, the arena grows by the
  names of the files and, once each, by the names of the directories on the way to them. As long as
  these stay below 4 GiB and the directories below 2^32, no push panics, and every file
  resolves to its path.
\<close>

theorem pushes_fit:
  assumes "list_all (\<lambda>(d, n, x). absolute d \<and> path_wf d \<and> name_ok n) ks" "room (names_size ks) (dirs_of ks)"
  shows "\<exists>ps. fold_res (\<lambda>(d, n, x) ps. paths_push ps d n x) ks paths_empty = Inr ps \<and>
    length (pt_arena (ps_table ps)) = names_size ks + weight (dirs_of ks) \<and>
    length (pt_dirs (ps_table ps)) = card (dirs_of ks) \<and>
    paths_list ps = map (\<lambda>(d, n, x). (Some (Inr (d @ [Normal n])), x)) ks"
proof -
  have "stored (ps_table (paths_empty :: 'a paths)) 0 {}"
    by (simp add: stored_def paths_empty_def table_empty_def weight_def)
  moreover have "list_all (absolute \<circ> fst) ks" using assms(1) by (auto simp: list_all_iff)
  ultimately obtain ps where ps: "fold_res (\<lambda>(d, n, x) ps. paths_push ps d n x) ks (paths_empty :: 'a paths) = Inr ps"
      "stored (ps_table ps) (names_size ks) (dirs_of ks)"
    using pushes_stored [of ks paths_empty 0 "{}"] assms(2) by auto
  then have fits: "table_fits (ps_table ps)" using assms(2) by (simp add: stored_def room_def table_fits_def)
  have "path_wf d \<and> name_ok n" if "(d, n, x) \<in> set ks" for d n x
    using assms(1) that by (auto simp: list_all_iff)
  from push_all_list(2) [OF paths_inv_empty this ps(1) fits] show ?thesis
    using ps by (simp add: paths_list_def paths_empty_def stored_def)
qed

text \<open>Two files of \<open>/usr\<close>, whose directories are kept once: two names of one byte, and 1 + 3 bytes.\<close>

theorem pushes_fit_witness:
  "\<exists>ps. fold_res (\<lambda>(d, n, x) ps. paths_push ps d n x) [(usr, [98], True), (usr, [97], False)] paths_empty = Inr ps \<and>
    length (pt_arena (ps_table ps)) = 6 \<and> length (pt_dirs (ps_table ps)) = 2 \<and>
    paths_list ps = [(Some (Inr (usr @ [Normal [98]])), True), (Some (Inr (usr @ [Normal [97]])), False)]"
proof -
  have pre: "pre usr = {[RootDir], usr}"
    using pre_simps(2) [of "[RootDir]" "Normal [117, 115, 114]"] by (auto simp: usr_def)
  then have "weight (pre usr) = 4" "card (pre usr) = 2" by (simp_all add: weight_def usr_def)
  moreover have "list_all (\<lambda>(d, n, x). absolute d \<and> path_wf d \<and> name_ok n) [(usr, [98], True), (usr, [97], False)]"
    using usr_wf by (simp add: absolute_def usr_def)
  ultimately show ?thesis
    using pushes_fit [of "[(usr, [98], True), (usr, [97], False)]"] by (simp add: room_def)
qed

end
