(* ===== verification/WalkTests.thy ===== *)
theory WalkTests imports HasherTests PathsFit WalkResult begin

text \<open>
  The test of the walk in \<open>src/walk.rs\<close>: hard links collapse, links are not followed, and an excluded
  file is left out. It passes for every order in which the directory is listed, every schedule of the
  walk's tasks, and every choice of inode numbers.
\<close>

section \<open>The test\<close>

text \<open>The directory that the test makes; \<open>m\<close> is the rest of the metadata.\<close>

definition TMP :: path where
  "TMP = [RootDir, Normal (bytes ''tmp'')]"

definition SUB :: path where
  "SUB = TMP @ [Normal (bytes ''sub'')]"

definition test_file :: "metadata \<Rightarrow> u64 \<Rightarrow> string \<Rightarrow> u64 \<Rightarrow> u64 \<Rightarrow> io_error + dir_entry" where
  "test_file m dev name ino nlink =
     Inr \<lparr>de_name = bytes name, de_type = Inr FtFile, de_meta = Inr (m\<lparr>md_dev := dev, md_ino := ino, md_nlink := nlink\<rparr>)\<rparr>"

definition test_entries :: "metadata \<Rightarrow> u64 \<Rightarrow> u64 \<Rightarrow> u64 \<Rightarrow> (io_error + dir_entry) list" where
  "test_entries m dev ia ib =
     [test_file m dev ''a'' ia 2, test_file m dev ''b'' ib 1, test_file m dev ''a2'' ia 2,
      Inr \<lparr>de_name = bytes ''sub'', de_type = Inr FtDir, de_meta = Inr (m\<lparr>md_dev := dev\<rparr>)\<rparr>,
      Inr \<lparr>de_name = bytes ''alink'', de_type = Inr FtOther, de_meta = Inr (m\<lparr>md_dev := dev\<rparr>)\<rparr>]"

definition test_tree :: "metadata \<Rightarrow> u64 \<Rightarrow> u64 \<Rightarrow> (io_error + dir_entry) list \<Rightarrow> read_dir" where
  "test_tree m dev ic es p =
     (if p = TMP then Inr es else if p = SUB then Inr [test_file m dev ''c'' ic 1] else Inl (OsError ENOENT))"

text \<open>The closure \<open>names\<close>, given the batches in the order they arrive, and the assertions.\<close>

fun collect_test :: "'a res option list \<Rightarrow> 'a list res option" where
  "collect_test [] = Some (Inr [])"
| "collect_test (x # xs) = and_then_test x (\<lambda>y. and_then_test (collect_test xs) (\<lambda>ys. Some (Inr (y # ys))))"

definition test_names :: "u64 \<Rightarrow> dir_batch list \<Rightarrow> inode set \<Rightarrow> u8 list list res option" where
  "test_names dev batches excl =
     and_then_test (Some (walk_root dev 0 excl batches ({}, paths_empty))) (\<lambda>(seen, out).
     collect_test (map (\<lambda>(f, _). and_then_test (paths_path out f) (\<lambda>p.
         Some (rbind (expect (path_file_name p)) (\<lambda>n. Inr (utf8_lossy n))))) (ps_files out)))"

definition test_filtering :: "u64 \<Rightarrow> u64 \<Rightarrow> dir_batch list \<Rightarrow> dir_batch list \<Rightarrow> unit res option" where
  "test_filtering dev ib batches batches' =
     and_then_test (test_names dev batches {}) (\<lambda>got.
     and_then_test (Some (assert_all [length got = 3, bytes ''b'' \<in> set got, bytes ''c'' \<in> set got,
         bytes ''a'' \<in> set got \<or> bytes ''a2'' \<in> set got])) (\<lambda>_.
     and_then_test (test_names dev batches' {(dev, ib)}) (\<lambda>got.
     Some (assert_all [length got = 2, bytes ''b'' \<notin> set got]))))"

section \<open>It passes\<close>

lemma collect_test_Some: "collect_test (map (\<lambda>x. Some (Inr (f x))) xs) = Some (Inr (map f xs))"
  by (induction xs) (auto simp: and_then_test_def)

lemma take_files_done:
  "fold_res (\<lambda>(d, n, x) ps. paths_push ps d n x) (map (\<lambda>(p, n, _). (p, n, fs)) (kept dev ex seen xs)) out = Inr out' \<Longrightarrow>
   \<exists>seen'. fold_res (\<lambda>(p, f). take_file dev fs ex p f) xs (seen, out) = Inr (seen', out')"
  by (induction dev ex seen xs arbitrary: out rule: kept.induct)
     (auto simp: take_file_def res_simps split: if_splits)

lemma test_bytes:
  "bytes ''a'' = [97]" "bytes ''a2'' = [97, 50]" "bytes ''b'' = [98]" "bytes ''c'' = [99]" "bytes ''sub'' = [115, 117, 98]"
  "bytes ''alink'' = [97, 108, 105, 110, 107]" "bytes ''tmp'' = [116, 109, 112]"
  by (simp_all add: bytes_def of_char_def)

lemma map_filter_perm:
  "mset xs = mset ys \<Longrightarrow> mset (List.map_filter f xs) = mset (List.map_filter f ys)"
  by (simp add: List.map_filter_def mset_filter)

lemma test_dirs_neq [simp]: "SUB \<noteq> TMP" "TMP \<noteq> SUB"
  by (simp_all add: SUB_def)

lemma utf8_ascii: "list_all (\<lambda>b. b < 0x80) bs \<Longrightarrow> utf8_lossy bs = bs"
proof (induction bs)
  case (Cons b bs)
  then show ?case by (subst utf8_lossy.simps) (simp add: utf8_step_def utf8_width_def)
qed (simp add: utf8_lossy.simps)

lemma test_tree_ok:
  assumes "mset es = mset (test_entries m dev ia ib)"
  shows "listing_ok (test_tree m dev ic es)"
proof -
  let ?name = "case_sum (\<lambda>_. None) (\<lambda>e. Some (de_name e))"
  have "mset (List.map_filter ?name es) = mset (List.map_filter ?name (test_entries m dev ia ib))"
    using assms by (rule map_filter_perm)
  moreover have "distinct (List.map_filter ?name (test_entries m dev ia ib))"
    by (simp add: test_entries_def test_file_def test_bytes)
  ultimately have "distinct (List.map_filter ?name es)" by (metis mset_eq_imp_distinct_iff)
  moreover have "name_ok (de_name e)" if "Inr e \<in> set es" for e
  proof -
    have "Inr e \<in> set (test_entries m dev ia ib)" using that mset_eq_setD [OF assms] by simp
    then show ?thesis by (auto simp: test_entries_def test_file_def test_bytes name_ok_def SLASH_def DOT_def)
  qed
  ultimately show ?thesis
    by (auto simp: listing_ok_def test_tree_def test_file_def test_bytes name_ok_def SLASH_def DOT_def split: if_splits)
qed

lemma test_tree_files:
  assumes "mset es = mset (test_entries m dev ia ib)"
  shows "set (dir_files (test_tree m dev ic es) TMP) = {(bytes ''a'', dev, ia, 2), (bytes ''a2'', dev, ia, 2), (bytes ''b'', dev, ib, 1)}"
    and "dir_files (test_tree m dev ic es) SUB = [(bytes ''c'', dev, ic, 1)]"
    and "subdirs (test_tree m dev ic es) dev TMP = [SUB]" "subdirs (test_tree m dev ic es) dev SUB = []"
proof -
  have "path_push TMP (bytes ''sub'') = SUB"
    unfolding SUB_def by (rule path_push_name) (simp add: test_bytes name_ok_def SLASH_def DOT_def)
  moreover have "mset (List.map_filter (subdir_name dev) es) = mset (List.map_filter (subdir_name dev) (test_entries m dev ia ib))"
    using assms by (rule map_filter_perm)
  then have "List.map_filter (subdir_name dev) es = [bytes ''sub'']"
    by (simp add: test_entries_def test_file_def subdir_name_def)
  ultimately show "subdirs (test_tree m dev ic es) dev TMP = [SUB]" by (simp add: subdirs_eq test_tree_def)
  show "subdirs (test_tree m dev ic es) dev SUB = []" by (simp add: subdirs_eq test_tree_def test_file_def subdir_name_def)
  show "dir_files (test_tree m dev ic es) SUB = [(bytes ''c'', dev, ic, 1)]"
    by (simp add: dir_files_def test_tree_def test_file_def regular_file_def)
  have "mset (List.map_filter regular_file es) = mset (List.map_filter regular_file (test_entries m dev ia ib))"
    using assms by (rule map_filter_perm)
  then have "set (List.map_filter regular_file es) = set (List.map_filter regular_file (test_entries m dev ia ib))"
    by (rule mset_eq_setD)
  then show "set (dir_files (test_tree m dev ic es) TMP) = {(bytes ''a'', dev, ia, 2), (bytes ''a2'', dev, ia, 2), (bytes ''b'', dev, ib, 1)}"
    by (auto simp: dir_files_def test_tree_def test_entries_def test_file_def regular_file_def)
qed

definition test_found :: "u64 \<Rightarrow> u64 \<Rightarrow> u64 \<Rightarrow> u64 \<Rightarrow> (path \<times> found) set" where
  "test_found dev ia ib ic = {(TMP, bytes ''a'', dev, ia, 2), (TMP, bytes ''a2'', dev, ia, 2), (TMP, bytes ''b'', dev, ib, 1),
     (SUB, bytes ''c'', dev, ic, 1)}"

lemma test_under:
  assumes "mset es = mset (test_entries m dev ia ib)"
  shows "under (test_tree m dev ic es) dev TMP d \<longleftrightarrow> d \<in> {TMP, SUB}"
proof -
  let ?rd = "test_tree m dev ic es"
  note files = test_tree_files [OF assms, of ic] and spec = subdirs_spec [OF test_tree_ok [OF assms]]
  have "under ?rd dev TMP d \<Longrightarrow> d \<in> {TMP, SUB}"
    by (induction rule: under.induct) (use files(3,4) in \<open>auto simp flip: spec\<close>)
  moreover have "subdir_of ?rd dev SUB TMP" using files(3) by (simp flip: spec)
  then have "under ?rd dev TMP TMP" "under ?rd dev TMP SUB"
    using under.root under.sub by blast+
  ultimately show ?thesis by blast
qed

lemma test_arrived:
  assumes "mset es = mset (test_entries m dev ia ib)" "walked (test_tree m dev ic es) dev TMP batches"
  shows "set (arrived batches) = test_found dev ia ib ic" "distinct (map full_name (arrived batches))"
proof -
  let ?rd = "test_tree m dev ic es"
  note files = test_tree_files [OF assms(1), of ic]
  note under = test_under [OF assms(1), of ic]
  note arr = walked_arrived [OF assms(2) test_tree_ok [OF assms(1)]]
  show "set (arrived batches) = test_found dev ia ib ic"
    by (auto simp: arr(1) under files(1,2) test_found_def)
  show "distinct (map full_name (arrived batches))" by (rule arr(2))
qed

text \<open>What is kept of these files, whatever their order.\<close>

lemma test_kept:
  assumes "set xs = test_found dev ia ib ic" "distinct (map full_name xs)" "ex \<subseteq> {(dev, ib)}" "distinct [ia, ib, ic]"
  shows "\<exists>a \<in> {bytes ''a'', bytes ''a2''}. set (kept dev ex {} xs) =
    {(TMP, a, dev, ia, 2), (SUB, bytes ''c'', dev, ic, 1)} \<union> (if ex = {} then {(TMP, bytes ''b'', dev, ib, 1)} else {})"
proof -
  let ?ks = "kept dev ex {} xs"
  note sub = subseqD(1) [OF kept_subseq [of dev ex "{}" xs]]
  have "filter (linked dev ia) xs \<noteq> []" using assms(1) by (force simp: test_found_def filter_empty_conv)
  then have "length (filter (linked dev ia) ?ks) = 1"
    using kept_linked [of dev ia ex "{}" xs] assms(3,4) by auto
  then obtain x where x: "{y \<in> set ?ks. linked dev ia y} = {x}" by (auto simp: length_Suc_conv simp flip: set_filter)
  then have "x \<in> test_found dev ia ib ic" "linked dev ia x" using sub assms(1) by auto
  then obtain a where a: "a \<in> {bytes ''a'', bytes ''a2''}" "x = (TMP, a, dev, ia, 2)"
    by (auto simp: test_found_def)
  have C: "(SUB, bytes ''c'', dev, ic, 1) \<in> set ?ks"
    by (rule kept_single) (use assms in \<open>auto simp: test_found_def\<close>)
  have B: "(TMP, bytes ''b'', dev, ib, 1) \<in> set ?ks \<longleftrightarrow> ex = {}"
    using kept_single [of TMP "bytes ''b''" dev ib 1 xs ex "{}"] kept_sound [of TMP "bytes ''b''" dev ib 1 dev ex "{}" xs] assms(1,3)
    by (auto simp: test_found_def)
  have "set ?ks = {y \<in> set ?ks. linked dev ia y} \<union> {y \<in> set ?ks. \<not> linked dev ia y}" by blast
  also have "{y \<in> set ?ks. \<not> linked dev ia y} = {(SUB, bytes ''c'', dev, ic, 1)} \<union> (if ex = {} then {(TMP, bytes ''b'', dev, ib, 1)} else {})"
    using sub assms(1) B C by (auto simp: test_found_def)
  finally show ?thesis using a x by auto
qed

text \<open>The store has room for these files.\<close>

lemma test_dirs_pre: "pre TMP = {[RootDir], TMP}" "pre SUB = {[RootDir], TMP, SUB}"
  using pre_simps(2) [of "[RootDir]"] pre_simps(2) [of TMP] by (auto simp: TMP_def SUB_def)

lemma test_files_fit:
  assumes "distinct ks" "set ks \<subseteq> test_found dev ia ib ic"
  shows "room (names_size (map (\<lambda>(p, n, _). (p, n, fs)) ks)) (dirs_of (map (\<lambda>(p, n, _). (p, n, fs)) ks))"
proof -
  let ?ks = "map (\<lambda>(p, n, _). (p, n, fs)) ks"
  let ?four = "[(TMP, bytes ''a'', dev, ia, 2 :: u64), (TMP, bytes ''a2'', dev, ia, 2), (TMP, bytes ''b'', dev, ib, 1), (SUB, bytes ''c'', dev, ic, 1)]"
  have four: "test_found dev ia ib ic = set ?four" by (simp add: test_found_def)
  have fin: "finite (test_found dev ia ib ic)" unfolding four by (rule finite_set)
  have "card (test_found dev ia ib ic) \<le> length ?four" unfolding four by (rule card_length)
  then have four: "card (test_found dev ia ib ic) \<le> 4" by simp
  have "length ks \<le> 4"
    using card_mono [OF fin assms(2)] four distinct_card [OF assms(1)] by simp
  moreover have "sum_list (map (\<lambda>(p, n, _). length n) ks) \<le> sum_list (map (\<lambda>_. 2) ks)"
    by (rule sum_list_mono) (use assms(2) in \<open>auto simp: test_found_def test_bytes\<close>)
  moreover have "names_size ?ks = sum_list (map (\<lambda>(p, n, _). length n) ks)"
    by (simp add: names_size_def comp_def case_prod_unfold)
  ultimately have names: "names_size ?ks \<le> 8" by (simp add: sum_list_triv)
  have "d \<in> {TMP, SUB}" if "(d, n, x) \<in> set ?ks" for d n x
    using that assms(2) by (auto simp: test_found_def)
  then have "pre d \<subseteq> {[RootDir], TMP, SUB}" if "(d, n, x) \<in> set ?ks" for d n x
    using that test_dirs_pre by blast
  then have dirs: "dirs_of ?ks \<subseteq> {[RootDir], TMP, SUB}" unfolding dirs_of_def by fast
  have "room 8 {[RootDir], TMP, SUB}"
    by (simp add: room_def weight_def TMP_def SUB_def test_bytes)
  from room_mono [OF this _ dirs names] show ?thesis by simp
qed

lemma test_names_kept:
  assumes "mset es = mset (test_entries m dev ia ib)" "walked (test_tree m dev ic es) dev TMP batches"
  shows "test_names dev batches ex = Some (Inr (map (\<lambda>(p, n, _). n) (kept dev ex {} (arrived batches))))"
proof -
  let ?ks = "kept dev ex {} (arrived batches)"
  note arr = test_arrived [OF assms]
  have sub: "set ?ks \<subseteq> test_found dev ia ib ic" "distinct ?ks"
    using subseqD [OF kept_subseq [of dev ex "{}" "arrived batches"]] arr by (auto simp: distinct_map)
  have names: "n \<in> {bytes ''a'', bytes ''a2'', bytes ''b'', bytes ''c''} \<and> p \<in> {TMP, SUB}" if "(p, n, x) \<in> set ?ks" for p n x
    using that sub(1) by (auto simp: test_found_def)
  have ok: "absolute TMP" "path_wf TMP" "absolute SUB" "path_wf SUB"
    by (simp_all add: TMP_def SUB_def test_bytes absolute_def path_wf_def name_ok_def SLASH_def DOT_def)
  have name: "name_ok n \<and> utf8_lossy n = n" if "n \<in> {bytes ''a'', bytes ''a2'', bytes ''b'', bytes ''c''}" for n
  proof -
    have "list_all (\<lambda>b. b < 0x80) n \<and> name_ok n"
      using that by (auto simp: test_bytes name_ok_def SLASH_def DOT_def)
    then show ?thesis using utf8_ascii by blast
  qed
  have "list_all (\<lambda>(d, n, x). absolute d \<and> path_wf d \<and> name_ok n) (map (\<lambda>(p, n, _). (p, n, 0 :: u64)) ?ks)"
  proof -
    have "absolute p \<and> path_wf p \<and> name_ok n" if k: "(p, n, x) \<in> set ?ks" for p n x
      using names [OF k] ok name [of n] by blast
    then show ?thesis unfolding list_all_iff by force
  qed
  from pushes_fit [OF this test_files_fit [OF sub(2,1)]]
  obtain out where out: "fold_res (\<lambda>(d, n, x) ps. paths_push ps d n x) (map (\<lambda>(p, n, _). (p, n, 0 :: u64)) ?ks) paths_empty = Inr out"
      "paths_list out = map (\<lambda>(p, n, _). (Some (Inr (p @ [Normal n])), 0 :: u64)) ?ks"
    by (auto simp: case_prod_unfold comp_def)
  obtain seen where run: "walk_root dev 0 ex batches ({}, paths_empty) = Inr (seen, out)"
    using take_files_done [OF out(1)] by (auto simp: walk_root_arrived)
  have "map (paths_path out \<circ> fst) (ps_files out) = map fst (paths_list out)"
    by (simp add: paths_list_def case_prod_unfold comp_def)
  also have "\<dots> = map (\<lambda>(p, n, _). Some (Inr (p @ [Normal n]))) ?ks"
    by (simp add: out(2) case_prod_unfold comp_def)
  finally have paths: "map (paths_path out \<circ> fst) (ps_files out) = map (\<lambda>(p, n, _). Some (Inr (p @ [Normal n]))) ?ks" .
  let ?name = "\<lambda>x. and_then_test x (\<lambda>p. Some (rbind (expect (path_file_name p)) (\<lambda>n. Inr (utf8_lossy n))))"
  have "map (\<lambda>(f, _). ?name (paths_path out f)) (ps_files out) = map ?name (map (paths_path out \<circ> fst) (ps_files out))"
    by (simp add: case_prod_unfold comp_def)
  also have "\<dots> = map (\<lambda>k. Some (Inr (case k of (p, n, _) \<Rightarrow> n))) ?ks"
  proof -
    have "utf8_lossy n = n" if k: "(p, n, x) \<in> set ?ks" for p n x using names [OF k] name [of n] by blast
    then show ?thesis
      unfolding paths map_map by (intro map_cong refl) (auto simp: and_then_test_def path_file_name_def expect_def)
  qed
  finally show ?thesis
    unfolding test_names_def run by (simp add: and_then_test_def collect_test_Some)
qed

lemma test_kept_names:
  assumes "mset es = mset (test_entries m dev ia ib)" "walked (test_tree m dev ic es) dev TMP batches"
    "ex \<subseteq> {(dev, ib)}" "distinct [ia, ib, ic]"
  obtains got a where "test_names dev batches ex = Some (Inr got)" "a \<in> {bytes ''a'', bytes ''a2''}"
    "set got = {a, bytes ''c''} \<union> (if ex = {} then {bytes ''b''} else {})" "length got = (if ex = {} then 3 else 2)"
proof -
  let ?ks = "kept dev ex {} (arrived batches)" let ?n = "\<lambda>(p, n, _). n"
  note arr = test_arrived [OF assms(1,2)]
  obtain a where a: "a \<in> {bytes ''a'', bytes ''a2''}"
    "set ?ks = {(TMP, a, dev, ia, 2), (SUB, bytes ''c'', dev, ic, 1)} \<union> (if ex = {} then {(TMP, bytes ''b'', dev, ib, 1)} else {})"
    using test_kept [OF arr assms(3,4)] by blast
  have "distinct ?ks" using subseqD(2) [OF kept_subseq [of dev ex "{}" "arrived batches"]] arr(2) by (auto simp: distinct_map)
  then have len: "length ?ks = card (set ?ks)" by (simp add: distinct_card)
  show ?thesis
  proof (rule that [OF test_names_kept [OF assms(1,2)] a(1)])
    show "set (map ?n ?ks) = {a, bytes ''c''} \<union> (if ex = {} then {bytes ''b''} else {})"
      unfolding set_map a(2) by simp
    show "length (map ?n ?ks) = (if ex = {} then 3 else 2)"
      using len a(1) unfolding a(2) by (auto simp: test_bytes)
  qed
qed

text \<open>
  The test of the walk passes, in whatever order the directory is listed, whatever schedule each of the
  two walks takes, and whatever the numbers of the inodes are: two names of one file count once, a
  symbolic link not at all, the file in the subdirectory is found, and an excluded inode is left out.
\<close>

theorem filtering_passes:
  assumes "mset es = mset (test_entries m dev ia ib)" "distinct [ia, ib, ic]"
    "walked (test_tree m dev ic es) dev TMP batches" "walked (test_tree m dev ic es) dev TMP batches'"
  shows "test_filtering dev ib batches batches' = Some (Inr ())"
proof -
  obtain got a where first: "test_names dev batches {} = Some (Inr got)" "a \<in> {bytes ''a'', bytes ''a2''}"
      "set got = {a, bytes ''c''} \<union> {bytes ''b''}" "length got = 3"
    using test_kept_names [OF assms(1,3) _ assms(2), of "{}"] by auto
  obtain got' a' where second: "test_names dev batches' {(dev, ib)} = Some (Inr got')" "a' \<in> {bytes ''a'', bytes ''a2''}"
      "set got' = {a', bytes ''c''}" "length got' = 2"
    using test_kept_names [OF assms(1,4) _ assms(2), of "{(dev, ib)}"] by auto
  have found: "bytes ''b'' \<in> set got" "bytes ''c'' \<in> set got" "bytes ''a'' \<in> set got \<or> bytes ''a2'' \<in> set got"
    unfolding first(3) using first(2) by blast+
  have "bytes ''b'' \<notin> set got'"
    unfolding second(3) using second(2) by (auto simp: test_bytes)
  then have "passes (assert_all [length got = 3, bytes ''b'' \<in> set got, bytes ''c'' \<in> set got, bytes ''a'' \<in> set got \<or> bytes ''a2'' \<in> set got])"
    "passes (assert_all [length got' = 2, bytes ''b'' \<notin> set got'])"
    using found first(4) second(4) by (simp_all add: passes_assert_all)
  then show ?thesis
    unfolding test_filtering_def first(1) second(1) and_then_test_def by (simp add: passes_def)
qed

theorem filtering_passes_witness:
  "\<exists>batches batches'. walked (test_tree sample_meta 1 9 (rev (test_entries sample_meta 1 7 8))) 1 TMP batches \<and>
     test_filtering 1 8 batches batches' = Some (Inr ())"
proof -
  let ?rd = "test_tree sample_meta 1 9 (rev (test_entries sample_meta 1 7 8))"
  have es: "mset (rev (test_entries sample_meta 1 7 8)) = mset (test_entries sample_meta 1 7 8)" by simp
  have "finite {d. under ?rd 1 TMP d}" unfolding test_under [OF es] by simp
  then obtain batches where "walked ?rd 1 TMP batches"
    using walk_finishes [OF test_tree_ok [OF es]] by blast
  then show ?thesis
    using filtering_passes [OF es, of 9 batches batches] by fastforce
qed

end
